(* ===== verification/HN_Prelude.thy ===== *)
theory HN_Prelude
  imports
    Main
    "HOL-Library.AList"
    "HOL-Library.Char_ord"
    "HOL-Library.Code_Target_Nat"
    "HOL-Library.List_Lexorder"
    "HOL-Library.Product_Lexorder"
    "HOL-Library.Multiset"
    "HOL-Library.Word"
begin

text \<open>
  Shared vocabulary of the development: what the Go language and the parts of its standard
  library that the program uses mean in HOL.

  \<^item> A Go \<open>string\<close> or \<open>[]byte\<close> is a list of bytes, that is a HOL \<^typ>\<open>string\<close> (a \<^typ>\<open>char\<close> is
    exactly eight bits), \<open>len\<close> is \<^const>\<open>length\<close> and \<open><\<close> is the bytewise lexicographic order.
  \<^item> An \<open>error\<close> built by \<open>fmt.Errorf\<close> is its format string with its string arguments; a function
    that returns \<open>(T, error)\<close> returns a \<open>T result\<close>.  Quotes inside a format string are written as
    parentheses; no property depends on the wording of a message.
  \<^item> A run-time panic (a nil dereference) is no error value: it is the outcome \<open>Panic\<close>, which ends every
    caller as it is.
  \<^item> A Go \<open>map\<close> is an association list with one entry per key: \<open>m[k]\<close> is \<^const>\<open>map_of\<close>,
    \<open>m[k] = v\<close> is \<^const>\<open>AList.update\<close>.  Go leaves the iteration order of a map open; where the
    program iterates over a map the model uses the order of the list.
  \<^item> \<open>sort.Strings\<close> is \<^const>\<open>sort\<close>, \<open>sort.Slice\<close> with a comparison of keys is \<^const>\<open>sort_key\<close>.
\<close>

section \<open>Automation\<close>

named_theorems go_defs \<open>definitions of the small predicates of the program\<close>
named_theorems go_split \<open>split rules for results and options\<close>

section \<open>Errors and results\<close>

datatype go_error = Errorf (errorFormat: string) (errorArgs: "string list") | Panic
  where "errorFormat Panic = []" | "errorArgs Panic = []"

type_synonym 'a result = "go_error + 'a"
type_synonym ('k, 'v) gomap = "('k \<times> 'v) list"

definition is_ok :: "'a result \<Rightarrow> bool" where
  "is_ok r = (case r of Inl _ \<Rightarrow> False | Inr _ \<Rightarrow> True)"

definition errorf :: "string \<Rightarrow> string list \<Rightarrow> 'a result" where
  "errorf fmt args = Inl (Errorf fmt args)"

definition nilDereference :: "'a result" where
  "nilDereference = Inl Panic"

definition rbind :: "'a result \<Rightarrow> ('a \<Rightarrow> 'b result) \<Rightarrow> 'b result" where
  "rbind r f = (case r of Inl e \<Rightarrow> Inl e | Inr x \<Rightarrow> f x)"

text \<open>A loop whose body may return an error: the first error ends it.\<close>

fun forEach :: "('a \<Rightarrow> unit result) \<Rightarrow> 'a list \<Rightarrow> unit result" where
  "forEach f [] = Inr ()"
| "forEach f (x # xs) = (case f x of Inl e \<Rightarrow> Inl e | Inr _ \<Rightarrow> forEach f xs)"

lemma is_ok_simps [simp]: "is_ok (Inr x)" "\<not> is_ok (Inl e)" "\<not> is_ok (errorf s as)"
  by (simp_all add: is_ok_def errorf_def)

lemma is_okE [elim]: "is_ok r \<Longrightarrow> (\<And>x. r = Inr x \<Longrightarrow> P) \<Longrightarrow> P"
  by (cases r) auto

lemma errorf_neq_Inr [simp]: "errorf s as \<noteq> Inr x" "Inr x \<noteq> errorf s as"
  by (simp_all add: errorf_def)

lemma errorf_eq_Inl [simp]: "errorf s as = Inl e \<longleftrightarrow> e = Errorf s as"
  by (auto simp: errorf_def)

lemma nilDereference_simps [simp]: "nilDereference \<noteq> Inr x" "Inr x \<noteq> nilDereference" "\<not> is_ok nilDereference"
  "nilDereference = Inl e \<longleftrightarrow> e = Panic"
  by (auto simp: nilDereference_def)

text \<open>A guard that returns an error: the call succeeds when the guard is off and the rest succeeds.\<close>

lemma guard_ok [simp]:
  "(if b then errorf s as else r) = Inr x \<longleftrightarrow> \<not> b \<and> r = Inr x"
  "(if b then Inl e else r) = Inr x \<longleftrightarrow> \<not> b \<and> r = Inr x"
  by simp_all

lemma is_ok_if [simp]: "is_ok (if b then x else y) \<longleftrightarrow> (if b then is_ok x else is_ok y)"
  by simp

lemma rbind_simps [simp]: "rbind (Inr x) f = f x" "rbind (Inl e) f = Inl e"
  "rbind (errorf s as) f = errorf s as"
  by (simp_all add: rbind_def errorf_def)

lemma rbind_nil [simp]: "rbind nilDereference f = nilDereference"
  by (simp add: rbind_def nilDereference_def)

text \<open>Steps that cannot panic.\<close>

definition noPanic :: "'a result \<Rightarrow> bool" where
  "noPanic r \<longleftrightarrow> r \<noteq> Inl Panic"

lemma noPanic_simps [simp]: "noPanic (Inr x)" "noPanic (errorf s as)" "noPanic (Inl (Errorf s as))" "\<not> noPanic nilDereference"
  by (simp_all add: noPanic_def)

lemma rbind_noPanic: "noPanic r \<Longrightarrow> (\<And>x. r = Inr x \<Longrightarrow> noPanic (f x)) \<Longrightarrow> noPanic (rbind r f)"
  by (cases r) (auto simp: noPanic_def)

lemma forEach_noPanic: "(\<And>x. x \<in> set xs \<Longrightarrow> noPanic (f x)) \<Longrightarrow> noPanic (forEach f xs)"
  by (induction xs) (auto simp: noPanic_def split: sum.splits)

lemma rbind_eq_Inr: "rbind r f = Inr y \<longleftrightarrow> (\<exists>x. r = Inr x \<and> f x = Inr y)"
  by (cases r) auto

lemma rbind_unit_ok: "rbind r (\<lambda>_ :: unit. s) = Inr y \<longleftrightarrow> r = Inr () \<and> s = Inr y"
  by (cases r) auto

lemma is_ok_rbind: "is_ok (rbind r f) \<longleftrightarrow> (\<exists>x. r = Inr x \<and> is_ok (f x))"
  by (cases r) auto

lemma is_ok_unit: "is_ok (r :: unit result) \<longleftrightarrow> r = Inr ()"
  by (cases r) auto

lemma forEach_ok_iff: "forEach f xs = Inr () \<longleftrightarrow> (\<forall>x \<in> set xs. f x = Inr ())"
  by (induction xs) (auto split: sum.splits)

lemma is_ok_forEach: "is_ok (forEach f xs) \<longleftrightarrow> (\<forall>x \<in> set xs. is_ok (f x))"
  by (simp add: is_ok_unit forEach_ok_iff)

section \<open>Go strings\<close>

definition hasPrefix :: "string \<Rightarrow> string \<Rightarrow> bool" where
  "hasPrefix s p \<longleftrightarrow> take (length p) s = p"

definition hasSuffix :: "string \<Rightarrow> string \<Rightarrow> bool" where
  "hasSuffix s p \<longleftrightarrow> length p \<le> length s \<and> drop (length s - length p) s = p"

definition trimPrefix :: "string \<Rightarrow> string \<Rightarrow> string" where
  "trimPrefix s p = (if hasPrefix s p then drop (length p) s else s)"

definition trimSuffix :: "string \<Rightarrow> string \<Rightarrow> string" where
  "trimSuffix s p = (if hasSuffix s p then take (length s - length p) s else s)"

text \<open>\<open>strings.Cut\<close> at a one-byte separator: the text before, the text after, and whether it occurs.\<close>

definition cut :: "string \<Rightarrow> char \<Rightarrow> string \<times> string \<times> bool" where
  "cut s c = (let pre = takeWhile (\<lambda>x. x \<noteq> c) s in
     if c \<in> set s then (pre, drop (Suc (length pre)) s, True) else (s, [], False))"

fun splitOn :: "char \<Rightarrow> string \<Rightarrow> string list" where
  "splitOn c [] = [[]]"
| "splitOn c (x # xs) = (if x = c then [] # splitOn c xs
     else (case splitOn c xs of [] \<Rightarrow> [[x]] | p # ps \<Rightarrow> (x # p) # ps))"

text \<open>\<open>strings.Contains\<close> for a literal.\<close>

fun contains :: "string \<Rightarrow> string \<Rightarrow> bool" where
  "contains [] p = (p = [])"
| "contains (x # xs) p = (hasPrefix (x # xs) p \<or> contains xs p)"

definition containsAny :: "string \<Rightarrow> string \<Rightarrow> bool" where
  "containsAny s cs \<longleftrightarrow> (\<exists>c \<in> set s. c \<in> set cs)"

text \<open>\<open>strings.Join\<close> with the separator \<open>", "\<close>.\<close>

fun commaJoin :: "string list \<Rightarrow> string" where
  "commaJoin [] = []"
| "commaJoin [s] = s"
| "commaJoin (s # t # ts) = s @ '', '' @ commaJoin (t # ts)"

definition byte :: "char \<Rightarrow> nat" where
  "byte c = of_char c"

definition toLowerByte :: "char \<Rightarrow> char" where
  "toLowerByte c = (if 65 \<le> byte c \<and> byte c \<le> 90 then char_of (byte c + 32) else c)"

lemma hasPrefix_iff: "hasPrefix s p \<longleftrightarrow> (\<exists>t. s = p @ t)"
  by (auto simp: hasPrefix_def) (metis append_take_drop_id)

lemma hasPrefix_append [simp]: "hasPrefix (p @ t) p"
  by (simp add: hasPrefix_def)

lemma hasPrefix_refl [simp]: "hasPrefix s s"
  by (simp add: hasPrefix_def)

lemma hasPrefix_Nil [simp]: "hasPrefix s []"
  by (simp add: hasPrefix_def)

lemma hasPrefix_trans: "hasPrefix s p \<Longrightarrow> hasPrefix p q \<Longrightarrow> hasPrefix s q"
  by (auto simp: hasPrefix_iff)

lemma hasPrefix_length: "hasPrefix s p \<Longrightarrow> length p \<le> length s"
  by (auto simp: hasPrefix_iff)

lemma hasSuffix_iff: "hasSuffix s p \<longleftrightarrow> (\<exists>t. s = t @ p)"
  by (auto simp: hasSuffix_def) (metis append_take_drop_id)

lemma trimPrefix_append [simp]: "trimPrefix (p @ t) p = t"
  by (simp add: trimPrefix_def)

lemma cut_append: "cut s c = (a, b, True) \<Longrightarrow> s = a @ c # b \<and> c \<notin> set a"
proof -
  assume cut: "cut s c = (a, b, True)"
  then have c: "c \<in> set s" and a: "a = takeWhile (\<lambda>x. x \<noteq> c) s"
    and b: "b = drop (Suc (length a)) s"
    by (auto simp: cut_def Let_def split: if_splits)
  obtain xs ys where s: "s = xs @ c # ys" and "c \<notin> set xs"
    using split_list_first [OF c] by blast
  then have "takeWhile (\<lambda>x. x \<noteq> c) s = xs"
    by (subst s, subst takeWhile_append2) auto
  then have "a = xs" "b = ys"
    using a b s by auto
  with s \<open>c \<notin> set xs\<close> show ?thesis by simp
qed

subsection \<open>Hexadecimal\<close>

definition fromHexChar :: "char \<Rightarrow> nat option" where
  "fromHexChar c =
     (if 48 \<le> byte c \<and> byte c \<le> 57 then Some (byte c - 48)
      else if 97 \<le> byte c \<and> byte c \<le> 102 then Some (byte c - 97 + 10)
      else if 65 \<le> byte c \<and> byte c \<le> 70 then Some (byte c - 65 + 10)
      else None)"

text \<open>\<open>hex.DecodeString\<close>: an odd length or a byte that is no digit is an error.\<close>

fun hexDecodeString :: "string \<Rightarrow> string option" where
  "hexDecodeString [] = Some []"
| "hexDecodeString [_] = None"
| "hexDecodeString (a # b # cs) =
     (case (fromHexChar a, fromHexChar b, hexDecodeString cs) of
        (Some x, Some y, Some t) \<Rightarrow> Some (char_of (16 * x + y) # t)
      | _ \<Rightarrow> None)"

definition hexDigit :: "nat \<Rightarrow> char" where
  "hexDigit n = char_of (if n < 10 then 48 + n else 87 + n)"

definition hexEncodeToString :: "string \<Rightarrow> string" where
  "hexEncodeToString s = concat (map (\<lambda>c. [hexDigit (byte c div 16), hexDigit (byte c mod 16)]) s)"

lemma hexDecodeString_length: "hexDecodeString s = Some t \<Longrightarrow> length s = 2 * length t"
  by (induction s arbitrary: t rule: hexDecodeString.induct) (auto split: option.splits)

lemma hexDecodeString_Some_iff:
  "(\<exists>t. hexDecodeString s = Some t) \<longleftrightarrow> even (length s) \<and> (\<forall>c \<in> set s. fromHexChar c \<noteq> None)"
  by (induction s rule: hexDecodeString.induct) (auto split: option.splits)

lemma hexEncode_length [simp]: "length (hexEncodeToString s) = 2 * length s"
  by (induction s) (auto simp: hexEncodeToString_def)

lemma fromHexChar_hexDigit: "n < 16 \<Longrightarrow> fromHexChar (hexDigit n) = Some n"
  by (auto simp: fromHexChar_def hexDigit_def byte_def)

lemma byte_less [simp]: "byte c < 256"
  by (simp add: byte_def)

lemma char_of_byte [simp]: "char_of (byte c) = c"
  by (simp add: byte_def)

lemma hexDecode_hexEncode: "hexDecodeString (hexEncodeToString s) = Some s"
proof (induction s)
  case (Cons c s)
  have "byte c div 16 < 16"
    using byte_less [of c] by linarith
  then show ?case
    using Cons by (simp add: hexEncodeToString_def fromHexChar_hexDigit)
qed (simp add: hexEncodeToString_def)

subsection \<open>UTF-8\<close>

text \<open>
  \<open>utf8.DecodeRuneInString\<close> on a non-empty string: the rune and its width, \<open>(0xFFFD, 1)\<close> for a byte
  that starts no valid encoding (overlong forms, surrogates and values above 0x10FFFF are invalid).
\<close>

definition isCont :: "char \<Rightarrow> bool" where
  "isCont c \<longleftrightarrow> 128 \<le> byte c \<and> byte c \<le> 191"

definition runeError :: nat where
  "runeError = 65533"

definition decodeRune :: "string \<Rightarrow> nat \<times> nat" where
  "decodeRune s = (case s of [] \<Rightarrow> (runeError, 0) | a # r \<Rightarrow>
     (let n = byte a in
      if n < 128 then (n, 1)
      else if 194 \<le> n \<and> n \<le> 223 then
        (case r of b # _ \<Rightarrow> (if isCont b then ((n - 192) * 64 + (byte b - 128), 2) else (runeError, 1))
         | _ \<Rightarrow> (runeError, 1))
      else if 224 \<le> n \<and> n \<le> 239 then
        (case r of b # c # _ \<Rightarrow>
           (if isCont b \<and> isCont c \<and> (n = 224 \<longrightarrow> 160 \<le> byte b) \<and> (n = 237 \<longrightarrow> byte b \<le> 159)
            then ((n - 224) * 4096 + (byte b - 128) * 64 + (byte c - 128), 3) else (runeError, 1))
         | _ \<Rightarrow> (runeError, 1))
      else if 240 \<le> n \<and> n \<le> 244 then
        (case r of b # c # d # _ \<Rightarrow>
           (if isCont b \<and> isCont c \<and> isCont d \<and> (n = 240 \<longrightarrow> 144 \<le> byte b) \<and> (n = 244 \<longrightarrow> byte b \<le> 143)
            then ((n - 240) * 262144 + (byte b - 128) * 4096 + (byte c - 128) * 64 + (byte d - 128), 4)
            else (runeError, 1))
         | _ \<Rightarrow> (runeError, 1))
      else (runeError, 1)))"

lemma decodeRune_width: "s \<noteq> [] \<Longrightarrow> 0 < snd (decodeRune s) \<and> snd (decodeRune s) \<le> length s"
  by (auto simp: decodeRune_def Let_def split: list.splits)

text \<open>The runes a \<open>range\<close> loop over a string visits, each with the bytes it was decoded from.\<close>

function runes :: "string \<Rightarrow> (nat \<times> string) list" where
  "runes s = (if s = [] then [] else
     (let (r, w) = decodeRune s in (r, take w s) # runes (drop w s)))"
  by pat_completeness auto
termination
proof (relation "measure length")
  fix s :: string and x r w
  assume "s \<noteq> []" and "x = decodeRune s" and "(r, w) = x"
  then show "(drop w s, s) \<in> measure length"
    using decodeRune_width [of s] by (metis diff_less in_measure length_drop length_greater_0_conv snd_conv)
qed simp

declare runes.simps [simp del]

definition validUtf8 :: "string \<Rightarrow> bool" where
  "validUtf8 s \<longleftrightarrow> list_all (\<lambda>(r, bs). \<not> (r = runeError \<and> length bs = 1)) (runes s)"

definition isSpaceRune :: "nat \<Rightarrow> bool" where
  "isSpaceRune r \<longleftrightarrow> (9 \<le> r \<and> r \<le> 13) \<or> r = 32 \<or> r = 133 \<or> r = 160 \<or> r = 5760
     \<or> (8192 \<le> r \<and> r \<le> 8202) \<or> r = 8232 \<or> r = 8233 \<or> r = 8239 \<or> r = 8287 \<or> r = 12288"

definition isControlRune :: "nat \<Rightarrow> bool" where
  "isControlRune r \<longleftrightarrow> r < 32 \<or> (127 \<le> r \<and> r < 160)"

definition trimSpace :: "string \<Rightarrow> string" where
  "trimSpace s = concat (map snd
     (rev (dropWhile (isSpaceRune \<circ> fst) (rev (dropWhile (isSpaceRune \<circ> fst) (runes s))))))"

definition containsControl :: "string \<Rightarrow> bool" where
  "containsControl s \<longleftrightarrow> list_ex (\<lambda>(r, bs). isControlRune r) (runes s)"

lemma concat_runes: "concat (map snd (runes s)) = s"
proof (induction s rule: runes.induct)
  case (1 s)
  show ?case
  proof (cases "s = []")
    case False
    then show ?thesis
      using 1 by (subst runes.simps) (auto simp: Let_def split: prod.splits)
  qed (simp add: runes.simps)
qed

lemma runes_bytes: "(r, bs) \<in> set (runes s) \<Longrightarrow> bs \<noteq> []"
proof (induction s rule: runes.induct)
  case (1 s)
  show ?case
  proof (cases "s = []")
    case True
    with 1 show ?thesis by (simp add: runes.simps)
  next
    case False
    obtain r' w where dec: "decodeRune s = (r', w)" by fastforce
    have w: "0 < w" using decodeRune_width [OF False] dec by simp
    from 1(2) dec False have "bs = take w s \<or> (r, bs) \<in> set (runes (drop w s))"
      by (subst (asm) runes.simps) auto
    then show ?thesis
      using 1(1) [OF False dec [symmetric]] w False by auto
  qed
qed

lemma trimSpace_nonempty_imp: "trimSpace s \<noteq> [] \<Longrightarrow> s \<noteq> []"
  by (auto simp: trimSpace_def runes.simps)

subsection \<open>Faster evaluation\<close>

lemma byte_digits: "byte c = of_bool (digit0 c) + 2 * (of_bool (digit1 c) + 2 * (of_bool (digit2 c) + 2 * (of_bool (digit3 c) +
    2 * (of_bool (digit4 c) + 2 * (of_bool (digit5 c) + 2 * (of_bool (digit6 c) + 2 * of_bool (digit7 c)))))))"
  by (cases c) (simp add: byte_def)

lemma byte_ascii: "byte c < 128 \<longleftrightarrow> \<not> digit7 c"
  by (auto simp: byte_digits of_bool_def)

lemma runes_code [code]: "runes s = (case s of [] \<Rightarrow> [] | c # cs \<Rightarrow>
    if \<not> digit7 c then (byte c, [c]) # runes cs
    else (case decodeRune s of (r, w) \<Rightarrow> (r, take w s) # runes (drop w s)))"
  by (subst runes.simps) (auto simp: decodeRune_def byte_ascii [symmetric] split: list.splits)

lemma runes_ascii: "list_all (\<lambda>c. \<not> digit7 c) s \<Longrightarrow> runes s = map (\<lambda>c. (byte c, [c])) s"
  by (induction s) (simp_all add: runes_code)

lemma validUtf8_code [code]: "validUtf8 s \<longleftrightarrow> list_all (\<lambda>c. \<not> digit7 c) s \<or>
    list_all (\<lambda>(r, bs). \<not> (r = runeError \<and> length bs = 1)) (runes s)"
proof (cases "list_all (\<lambda>c. \<not> digit7 c) s")
  case True
  moreover have "byte c \<noteq> runeError" for c
  proof
    assume "byte c = runeError"
    then show False using byte_less [of c] by (simp add: runeError_def)
  qed
  ultimately show ?thesis by (simp add: validUtf8_def runes_ascii list_all_iff)
qed (simp add: validUtf8_def)

section \<open>Sorting and duplicates\<close>

text \<open>The \<open>seen\<close> loops of the program: no element occurs twice.\<close>

definition hasDuplicate :: "'a list \<Rightarrow> bool" where
  "hasDuplicate xs \<longleftrightarrow> \<not> distinct xs"

text \<open>Strictly increasing, the check \<open>ids[i-1] >= id\<close> of several validators.\<close>

fun strictSorted :: "'a::linorder list \<Rightarrow> bool" where
  "strictSorted [] = True"
| "strictSorted [x] = True"
| "strictSorted (x # y # ys) = (x < y \<and> strictSorted (y # ys))"

lemma strictSorted_iff: "strictSorted xs \<longleftrightarrow> sorted_wrt (<) xs"
  by (induction xs rule: strictSorted.induct) (auto intro: less_trans)

lemma strictSorted_distinct: "strictSorted xs \<Longrightarrow> distinct xs \<and> sorted xs"
  by (simp add: strictSorted_iff strict_sorted_iff)

lemma sort_key_perm: "mset xs = mset ys \<Longrightarrow> inj_on f (set xs) \<Longrightarrow> sort_key f xs = sort_key f ys"
  by (rule sort_key_inj_key_eq) simp_all

lemma sort_eq_iff_mset: "sort xs = sort ys \<longleftrightarrow> mset xs = mset ys"
  by (metis mset_sort properties_for_sort sorted_sort)

section \<open>Maps of slices\<close>

text \<open>\<open>m[k]\<close> and \<open>m[k] = append(m[k], v)\<close> on a map of slices.\<close>

definition lookupList :: "('k, 'v list) gomap \<Rightarrow> 'k \<Rightarrow> 'v list" where
  "lookupList m k = (case map_of m k of None \<Rightarrow> [] | Some vs \<Rightarrow> vs)"

definition appendTo :: "'k \<Rightarrow> 'v \<Rightarrow> ('k, 'v list) gomap \<Rightarrow> ('k, 'v list) gomap" where
  "appendTo k v m = AList.update k (lookupList m k @ [v]) m"

lemma lookupList_update: "lookupList (AList.update k v m) i = (if i = k then v else lookupList m i)"
  by (simp add: lookupList_def update_conv')

lemma lookupList_appendTo: "lookupList (appendTo k v m) i = lookupList m i @ (if i = k then [v] else [])"
  by (simp add: appendTo_def lookupList_update)

lemma lookupList_map: "lookupList (map (\<lambda>(k, v). (k, f v)) m) i = (if map_of m i = None then [] else f (lookupList m i))"
  by (auto simp: lookupList_def map_of_map split: option.splits)

end
