(* ===== verification/HN_Json.thy ===== *)
theory HN_Json
  imports HN_Prelude
begin

text \<open>
  The JSON text that Go's \<open>encoding/json\<close> produces for the program's values: \<open>json.Marshal\<close> with its
  default HTML escaping, object members in the order of the struct fields (in key order for maps),
  no insignificant white space.  The program uses the size and the digest of such texts.

  A Go slice or map field that is marshalled without \<open>omitempty\<close> prints \<open>null\<close> when it is nil and
  \<open>[]\<close> when it is empty, so such a field is an \<open>option\<close>: nil is \<^const>\<open>None\<close>.
\<close>

section \<open>Slices that may be nil\<close>

type_synonym 'a slice = "'a list option"

definition elems :: "'a slice \<Rightarrow> 'a list" where
  "elems s = (case s of None \<Rightarrow> [] | Some xs \<Rightarrow> xs)"

lemma elems_simps [simp]: "elems None = []" "elems (Some xs) = xs"
  by (simp_all add: elems_def)

section \<open>Values and their text\<close>

datatype json =
    JNull
  | JBool bool
  | JInt int
  | JStr string
  | JArr "json list"
  | JObj "(string \<times> json) list"

definition hex4 :: "nat \<Rightarrow> string" where
  "hex4 n = [hexDigit (n div 4096 mod 16), hexDigit (n div 256 mod 16), hexDigit (n div 16 mod 16), hexDigit (n mod 16)]"

definition uEscape :: "nat \<Rightarrow> string" where
  "uEscape n = CHR 0x5C # CHR ''u'' # hex4 n"

text \<open>One rune of a string, with the bytes it was decoded from.\<close>

definition escapeRune :: "nat \<times> string \<Rightarrow> string" where
  "escapeRune = (\<lambda>(r, bs).
     if r = 34 \<or> r = 92 then CHR 0x5C # bs
     else if r = 8 then [CHR 0x5C, CHR ''b'']
     else if r = 12 then [CHR 0x5C, CHR ''f'']
     else if r = 10 then [CHR 0x5C, CHR ''n'']
     else if r = 13 then [CHR 0x5C, CHR ''r'']
     else if r = 9 then [CHR 0x5C, CHR ''t'']
     else if r < 32 \<or> r = 60 \<or> r = 62 \<or> r = 38 \<or> r = 8232 \<or> r = 8233 then uEscape r
     else if r = runeError \<and> length bs = 1 then uEscape runeError
     else bs)"

definition encodeString :: "string \<Rightarrow> string" where
  "encodeString s = CHR 0x22 # concat (map escapeRune (runes s)) @ [CHR 0x22]"

text \<open>A byte that JSON text carries as it is.\<close>

definition plainByte :: "char \<Rightarrow> bool" where
  "plainByte c \<longleftrightarrow> \<not> digit7 c \<and> (digit5 c \<or> digit6 c) \<and> c \<noteq> CHR 0x22 \<and> c \<noteq> CHR 0x5C \<and> c \<noteq> CHR 0x3C \<and> c \<noteq> CHR 0x3E \<and> c \<noteq> CHR 0x26"

definition escapeAll :: "string \<Rightarrow> string" where
  "escapeAll s = concat (map escapeRune (runes s))"

lemma escaped_chars: "char_of (34 :: nat) = CHR 0x22" "char_of (92 :: nat) = CHR 0x5C" "char_of (60 :: nat) = CHR 0x3C"
  "char_of (62 :: nat) = CHR 0x3E" "char_of (38 :: nat) = CHR 0x26"
  by code_simp+

lemma escape_plain: "plainByte c \<Longrightarrow> escapeRune (byte c, [c]) = [c]"
proof -
  assume p: "plainByte c"
  then have "32 \<le> byte c" "byte c < 128" by (auto simp: plainByte_def byte_ascii byte_digits of_bool_def)
  moreover have ne: "byte c \<noteq> n" if "c \<noteq> char_of n" for n using that char_of_byte by metis
  have "byte c \<noteq> 34" "byte c \<noteq> 92" "byte c \<noteq> 60" "byte c \<noteq> 62" "byte c \<noteq> 38"
    by (rule ne; use p in \<open>simp add: plainByte_def escaped_chars\<close>)+
  ultimately show ?thesis by (simp add: escapeRune_def runeError_def)
qed

lemma escapeAll_code [code]: "escapeAll s = (case s of [] \<Rightarrow> [] | c # cs \<Rightarrow>
    if plainByte c then c # escapeAll cs
    else (case decodeRune s of (r, w) \<Rightarrow> escapeRune (r, take w s) @ escapeAll (drop w s)))"
proof (cases s)
  case (Cons c cs)
  have "plainByte c \<Longrightarrow> runes s = (byte c, [c]) # runes cs" unfolding Cons by (subst runes_code) (simp add: plainByte_def)
  moreover have "runes s = (case decodeRune s of (r, w) \<Rightarrow> (r, take w s) # runes (drop w s))" using Cons by (subst runes.simps) simp
  ultimately show ?thesis using Cons by (auto simp: escapeAll_def escape_plain split: prod.splits)
qed (simp add: escapeAll_def runes.simps)

lemma encodeString_code [code]: "encodeString s = CHR 0x22 # escapeAll s @ [CHR 0x22]"
  by (simp add: encodeString_def escapeAll_def)

fun decimal :: "nat \<Rightarrow> string" where
  "decimal n = (if n < 10 then [char_of (48 + n)] else decimal (n div 10) @ [char_of (48 + n mod 10)])"

declare decimal.simps [simp del]

definition encodeInt :: "int \<Rightarrow> string" where
  "encodeInt i = (if i < 0 then CHR ''-'' # decimal (nat (- i)) else decimal (nat i))"

definition commaSep :: "string list \<Rightarrow> string" where
  "commaSep xs = (case xs of [] \<Rightarrow> [] | y # ys \<Rightarrow> y @ concat (map (Cons (CHR '','')) ys))"

fun marshal :: "json \<Rightarrow> string" where
  "marshal JNull = ''null''"
| "marshal (JBool b) = (if b then ''true'' else ''false'')"
| "marshal (JInt i) = encodeInt i"
| "marshal (JStr s) = encodeString s"
| "marshal (JArr xs) = CHR ''['' # commaSep (map marshal xs) @ '']''"
| "marshal (JObj ms) = CHR ''{'' # commaSep (map (\<lambda>m. encodeString (fst m) @ CHR '':'' # marshal (snd m)) ms) @ ''}''"

text \<open>Struct members with \<open>omitempty\<close>.\<close>

definition omitStr :: "string \<Rightarrow> string \<Rightarrow> (string \<times> json) list" where
  "omitStr name v = (if v = [] then [] else [(name, JStr v)])"

definition omitInt :: "string \<Rightarrow> int \<Rightarrow> (string \<times> json) list" where
  "omitInt name v = (if v = 0 then [] else [(name, JInt v)])"

definition omitStrs :: "string \<Rightarrow> string list \<Rightarrow> (string \<times> json) list" where
  "omitStrs name v = (if v = [] then [] else [(name, JArr (map JStr v))])"

definition omitPtr :: "string \<Rightarrow> ('a \<Rightarrow> json) \<Rightarrow> 'a option \<Rightarrow> (string \<times> json) list" where
  "omitPtr name f v = (case v of None \<Rightarrow> [] | Some x \<Rightarrow> [(name, f x)])"

definition jsonSlice :: "('a \<Rightarrow> json) \<Rightarrow> 'a slice \<Rightarrow> json" where
  "jsonSlice f s = (case s of None \<Rightarrow> JNull | Some xs \<Rightarrow> JArr (map f xs))"

text \<open>A string map is printed with its keys sorted.\<close>

definition jsonStrMap :: "(string, string) gomap option \<Rightarrow> json" where
  "jsonStrMap m = (case m of None \<Rightarrow> JNull
     | Some kvs \<Rightarrow> JObj (map (\<lambda>(k, v). (k, JStr v)) (sort_key fst kvs)))"

end
