(* ===== verification/HN_Event.thy ===== *)
theory HN_Event
  imports HN_Json
begin

text \<open>
  The signed facts of the protocol (\<open>src/event.go\<close>) with the descriptive payloads they can carry
  (\<open>src/issue_model.go\<close>, \<open>src/audit_protocol.go\<close>), the identifier predicates used by every validator,
  and the selections over lists of facts that the projections share (\<open>src/proposal.go\<close>, \<open>src/ci.go\<close>,
  \<open>src/identity_continuity.go\<close>).

  The cryptographic primitives are not modelled: SHA-256 and Ed25519 are the fields of a record
  \<open>host\<close>, an argument of every definition that uses them.
\<close>

section \<open>Parameters\<close>

record host =
  sha256 :: "string \<Rightarrow> string"
  ed25519Verify :: "string \<Rightarrow> string \<Rightarrow> string \<Rightarrow> bool"
  ed25519Sign :: "string \<Rightarrow> string \<Rightarrow> string"

section \<open>Payloads\<close>

record IssueCriterion =
  cr_ID :: string
  cr_Text :: string

record IssueRelation =
  rel_Kind :: string
  rel_Target :: string

record IssueState =
  is_Title :: string
  is_Body :: string
  is_Status :: string
  is_Criteria :: "IssueCriterion slice"
  is_Labels :: "string slice"
  is_Assignees :: "string slice"
  is_Relations :: "IssueRelation slice"
  is_Metadata :: "(string, string) gomap option"

record AuditSource =
  as_Kind :: string
  as_Commit :: string
  as_Path :: string
  as_Revision :: string

record AuditFinding =
  fi_Key :: string
  fi_Title :: string
  fi_Body :: string
  fi_Path :: string
  fi_Line :: int

record AuditFact =
  au_Scope :: string
  au_Rule :: string
  au_PolicyCommit :: string
  au_PolicyDigest :: string
  au_Parents :: "string slice"
  au_Source :: "AuditSource option"
  au_Definition :: string
  au_DefinitionDigest :: string
  au_Reason :: string
  au_Authorization :: string
  au_CodeCommit :: string
  au_Intent :: string
  au_Request :: string
  au_Outcome :: string
  au_Findings :: "AuditFinding slice"
  au_Log :: string
  au_Backend :: string
  au_Platform :: string
  au_Runner :: string
  au_ExitCode :: int
  au_DurationMS :: int

section \<open>Events\<close>

record Event =
  ev_Protocol :: string
  ev_Kind :: string
  ev_Actor :: string
  ev_ActorName :: string
  ev_PublicKey :: string
  ev_Sequence :: "64 word"
  ev_Timestamp :: string
  ev_Previous :: string
  ev_Subject :: string
  ev_Relationship :: string
  ev_TargetActor :: string
  ev_TargetKey :: string
  ev_Title :: string
  ev_Body :: string
  ev_Base :: string
  ev_Head :: string
  ev_Verdict :: string
  ev_Pipeline :: string
  ev_Definition :: string
  ev_Commit :: string
  ev_Outcome :: string
  ev_ExitCode :: int
  ev_DurationMS :: int
  ev_Log :: string
  ev_Backend :: string
  ev_Platform :: string
  ev_Runner :: string
  ev_Policy :: string
  ev_Evidence :: "string slice"
  ev_Issue :: "IssueState option"
  ev_Parents :: "string slice"
  ev_Operation :: string
  ev_Request :: string
  ev_Intent :: string
  ev_Audit :: "AuditFact option"

record StoredEvent =
  st_ID :: string
  st_Commit :: string
  st_Event :: Event
  st_Payload :: string
  st_Signature :: string
  st_Attachments :: "(string, string) gomap"

text \<open>The zero value of the struct, \<open>Event{}\<close>.\<close>

definition zeroEvent :: Event where
  "zeroEvent = \<lparr>ev_Protocol = [], ev_Kind = [], ev_Actor = [], ev_ActorName = [], ev_PublicKey = [],
     ev_Sequence = 0, ev_Timestamp = [], ev_Previous = [], ev_Subject = [], ev_Relationship = [],
     ev_TargetActor = [], ev_TargetKey = [], ev_Title = [], ev_Body = [], ev_Base = [], ev_Head = [],
     ev_Verdict = [], ev_Pipeline = [], ev_Definition = [], ev_Commit = [], ev_Outcome = [],
     ev_ExitCode = 0, ev_DurationMS = 0, ev_Log = [], ev_Backend = [], ev_Platform = [], ev_Runner = [],
     ev_Policy = [], ev_Evidence = None, ev_Issue = None, ev_Parents = None, ev_Operation = [],
     ev_Request = [], ev_Intent = [], ev_Audit = None\<rparr>"

section \<open>Identifiers\<close>

definition protocolVersion :: string where
  "protocolVersion = ''hn/0''"

definition eventID :: "host \<Rightarrow> string \<Rightarrow> string" where
  "eventID h payload = ''sha256:'' @ hexEncodeToString (sha256 h payload)"

definition actorForPublicKey :: "host \<Rightarrow> string \<Rightarrow> string" where
  "actorForPublicKey h publicKey = hexEncodeToString (sha256 h publicKey)"

definition validEventID :: "string \<Rightarrow> bool" where
  "validEventID eid \<longleftrightarrow> hasPrefix eid ''sha256:'' \<and>
     (case hexDecodeString (trimPrefix eid ''sha256:'') of None \<Rightarrow> False | Some d \<Rightarrow> length d = 32)"

definition validGitOID :: "string \<Rightarrow> bool" where
  "validGitOID eid \<longleftrightarrow>
     (case hexDecodeString eid of None \<Rightarrow> False | Some d \<Rightarrow> length d = 20 \<or> length d = 32)"

definition validActorID :: "string \<Rightarrow> bool" where
  "validActorID actor \<longleftrightarrow> (case hexDecodeString actor of None \<Rightarrow> False | Some d \<Rightarrow> length d = 32)"

definition validActorFingerprint :: "string \<Rightarrow> bool" where
  "validActorFingerprint actor \<longleftrightarrow> length actor = 64 \<and> map toLowerByte actor = actor \<and>
     list_all (\<lambda>(r, _). (48 \<le> r \<and> r \<le> 57) \<or> (97 \<le> r \<and> r \<le> 102)) (runes actor)"

definition nameRune :: "nat \<Rightarrow> bool" where
  "nameRune r \<longleftrightarrow> (97 \<le> r \<and> r \<le> 122) \<or> (65 \<le> r \<and> r \<le> 90) \<or> (48 \<le> r \<and> r \<le> 57) \<or> r = 45 \<or> r = 95 \<or> r = 46"

definition validPipelineName :: "string \<Rightarrow> bool" where
  "validPipelineName name \<longleftrightarrow> name \<noteq> [] \<and> length name \<le> 64 \<and> name \<noteq> ''.'' \<and> name \<noteq> ''..'' \<and>
     list_all (\<lambda>(r, _). nameRune r) (runes name)"

definition shortID :: "string \<Rightarrow> string" where
  "shortID eid = (let s = trimPrefix eid ''sha256:'' in if length s > 12 then take 12 s else s)"

text \<open>\<open>validEvidenceIDs\<close>: the loop keeps a set of the identifiers already seen.\<close>

fun validEvidenceLoop :: "string list \<Rightarrow> string list \<Rightarrow> bool" where
  "validEvidenceLoop seen [] = True"
| "validEvidenceLoop seen (eid # ids) =
     (if \<not> validEventID eid \<or> eid \<in> set seen then False else validEvidenceLoop (eid # seen) ids)"

definition validEvidenceIDs :: "string list \<Rightarrow> bool" where
  "validEvidenceIDs evidence = validEvidenceLoop [] evidence"

definition isProposalKind :: "string \<Rightarrow> bool" where
  "isProposalKind kind \<longleftrightarrow> kind = ''proposal.open'' \<or> kind = ''proposal.revise''"

definition isIssueKind :: "string \<Rightarrow> bool" where
  "isIssueKind kind \<longleftrightarrow> kind = ''issue.open'' \<or> kind = ''issue.revise'' \<or> kind = ''issue.comment''"

definition isAuditKind :: "string \<Rightarrow> bool" where
  "isAuditKind kind \<longleftrightarrow> kind = ''audit.rule-authorize'' \<or> kind = ''audit.rule-revoke'' \<or>
     kind = ''audit.request'' \<or> kind = ''audit.result''"

definition validResourceFamily :: "string \<Rightarrow> bool" where
  "validResourceFamily family \<longleftrightarrow> family = ''project'' \<or> family = ''project-item'' \<or>
     family = ''discussion'' \<or> family = ''discussion-reply'' \<or> family = ''workflow''"

definition resourceFamily :: "string \<Rightarrow> string" where
  "resourceFamily kind = (case cut kind CHR ''.'' of (family, operation, ok) \<Rightarrow>
     if ok \<and> (operation = ''open'' \<or> operation = ''revise'') \<and> validResourceFamily family then family else [])"

definition isResourceKind :: "string \<Rightarrow> bool" where
  "isResourceKind kind \<longleftrightarrow> resourceFamily kind \<noteq> []"

section \<open>Selections over lists of facts\<close>

definition sortedUniqueStrings :: "string list \<Rightarrow> string list" where
  "sortedUniqueStrings values = sort (fold (\<lambda>v acc. if v = [] \<or> v \<in> set acc then acc else acc @ [v]) values [])"

definition stringListed :: "string \<Rightarrow> string list \<Rightarrow> bool" where
  "stringListed v values = list_ex (\<lambda>c. c = v) values"

definition actorListed :: "string \<Rightarrow> string list \<Rightarrow> bool" where
  "actorListed actor actors = list_ex (\<lambda>c. c = actor) actors"

definition sortStoredEvents :: "StoredEvent list \<Rightarrow> StoredEvent list" where
  "sortStoredEvents events = sort_key (\<lambda>s. (ev_Timestamp (st_Event s), st_ID s)) events"

text \<open>
  The loop body shared by the per-actor selections: the fact with the greatest sequence number of
  its actor is kept, an earlier one in the list wins a tie.
\<close>

definition keepLatest :: "StoredEvent \<Rightarrow> (string, StoredEvent) gomap \<Rightarrow> (string, StoredEvent) gomap" where
  "keepLatest s m = (case map_of m (ev_Actor (st_Event s)) of
       None \<Rightarrow> AList.update (ev_Actor (st_Event s)) s m
     | Some previous \<Rightarrow>
         if ev_Sequence (st_Event s) > ev_Sequence (st_Event previous)
         then AList.update (ev_Actor (st_Event s)) s m else m)"

definition latestByActor :: "StoredEvent list \<Rightarrow> (string, StoredEvent) gomap" where
  "latestByActor events = fold keepLatest events []"

definition currentReviews :: "StoredEvent list \<Rightarrow> string \<Rightarrow> StoredEvent list" where
  "currentReviews events proposalID = sortStoredEvents (map snd (latestByActor
     (filter (\<lambda>s. \<not> (ev_Kind (st_Event s) \<noteq> ''review.submit'' \<or> ev_Subject (st_Event s) \<noteq> proposalID)) events)))"

definition currentRunResults :: "StoredEvent list \<Rightarrow> string \<Rightarrow> StoredEvent list" where
  "currentRunResults events requestID = sortStoredEvents (map snd (latestByActor
     (filter (\<lambda>s. \<not> (ev_Kind (st_Event s) \<noteq> ''run.result'' \<or> ev_Subject (st_Event s) \<noteq> requestID)) events)))"

definition runRequests :: "StoredEvent list \<Rightarrow> StoredEvent list" where
  "runRequests events = filter (\<lambda>s. ev_Kind (st_Event s) = ''run.request'') events"

definition proposalEvents :: "StoredEvent list \<Rightarrow> StoredEvent list" where
  "proposalEvents events = filter (\<lambda>s. isProposalKind (ev_Kind (st_Event s))) events"

text \<open>The index \<open>byID\<close> that validators build: a later fact with the same identifier overwrites.\<close>

definition indexByID :: "StoredEvent list \<Rightarrow> (string, StoredEvent) gomap" where
  "indexByID events = fold (\<lambda>s m. AList.update (st_ID s) s m) events []"

definition resolveFullEvent :: "StoredEvent list \<Rightarrow> string \<Rightarrow> StoredEvent result" where
  "resolveFullEvent events eid =
     (if \<not> validEventID eid then errorf ''event ID must be full and valid'' []
      else case find (\<lambda>s. st_ID s = eid) events of
          Some s \<Rightarrow> Inr s
        | None \<Rightarrow> errorf ''event %q not found'' [eid])"

text \<open>\<open>resolveEvent\<close>: the facts whose identifier extends the query; two different ones are ambiguous.\<close>

fun resolveLoop :: "string \<Rightarrow> StoredEvent option \<Rightarrow> StoredEvent list \<Rightarrow> StoredEvent result" where
  "resolveLoop query None [] = errorf ''event %q not found'' [query]"
| "resolveLoop query (Some s) [] = Inr s"
| "resolveLoop query m (s # ss) =
     (if hasPrefix (trimPrefix (st_ID s) ''sha256:'') query
      then (case m of
          None \<Rightarrow> resolveLoop query (Some s) ss
        | Some prior \<Rightarrow> if st_ID prior \<noteq> st_ID s then errorf ''event prefix %q is ambiguous'' [query]
                        else resolveLoop query (Some s) ss)
      else resolveLoop query m ss)"

definition resolveEvent :: "StoredEvent list \<Rightarrow> string \<Rightarrow> StoredEvent result" where
  "resolveEvent events query = resolveLoop (trimPrefix query ''sha256:'') None events"

section \<open>JSON text of the payloads\<close>

definition jsonCriterion :: "IssueCriterion \<Rightarrow> json" where
  "jsonCriterion c = JObj [(''id'', JStr (cr_ID c)), (''text'', JStr (cr_Text c))]"

definition jsonRelation :: "IssueRelation \<Rightarrow> json" where
  "jsonRelation r = JObj [(''kind'', JStr (rel_Kind r)), (''target'', JStr (rel_Target r))]"

definition jsonIssueState :: "IssueState \<Rightarrow> json" where
  "jsonIssueState s = JObj [
     (''title'', JStr (is_Title s)), (''body'', JStr (is_Body s)), (''status'', JStr (is_Status s)),
     (''criteria'', jsonSlice jsonCriterion (is_Criteria s)),
     (''labels'', jsonSlice JStr (is_Labels s)), (''assignees'', jsonSlice JStr (is_Assignees s)),
     (''relations'', jsonSlice jsonRelation (is_Relations s)),
     (''metadata'', jsonStrMap (is_Metadata s))]"

definition jsonAuditSource :: "AuditSource \<Rightarrow> json" where
  "jsonAuditSource s = JObj ([(''kind'', JStr (as_Kind s))] @ omitStr ''commit'' (as_Commit s) @
     omitStr ''path'' (as_Path s) @ omitStr ''revision'' (as_Revision s))"

definition jsonAuditFinding :: "AuditFinding \<Rightarrow> json" where
  "jsonAuditFinding f = JObj ([(''key'', JStr (fi_Key f)), (''title'', JStr (fi_Title f))] @
     omitStr ''body'' (fi_Body f) @ omitStr ''path'' (fi_Path f) @ omitInt ''line'' (fi_Line f))"

definition jsonAuditFact :: "AuditFact \<Rightarrow> json" where
  "jsonAuditFact f = JObj (
     [(''scope'', JStr (au_Scope f)), (''rule'', JStr (au_Rule f)),
      (''policyCommit'', JStr (au_PolicyCommit f)), (''policyDigest'', JStr (au_PolicyDigest f))] @
     omitStrs ''parents'' (elems (au_Parents f)) @ omitPtr ''source'' jsonAuditSource (au_Source f) @
     omitStr ''definition'' (au_Definition f) @ omitStr ''definitionDigest'' (au_DefinitionDigest f) @
     omitStr ''reason'' (au_Reason f) @ omitStr ''authorization'' (au_Authorization f) @
     omitStr ''codeCommit'' (au_CodeCommit f) @ omitStr ''intent'' (au_Intent f) @
     omitStr ''request'' (au_Request f) @ omitStr ''outcome'' (au_Outcome f) @
     (if elems (au_Findings f) = [] then [] else [(''findings'', JArr (map jsonAuditFinding (elems (au_Findings f))))]) @
     omitStr ''log'' (au_Log f) @ omitStr ''backend'' (au_Backend f) @
     omitStr ''platform'' (au_Platform f) @ omitStr ''runner'' (au_Runner f) @
     omitInt ''exitCode'' (au_ExitCode f) @ omitInt ''durationMs'' (au_DurationMS f))"

definition jsonEvent :: "Event \<Rightarrow> json" where
  "jsonEvent e = JObj (
     [(''protocol'', JStr (ev_Protocol e)), (''kind'', JStr (ev_Kind e)), (''actor'', JStr (ev_Actor e)),
      (''actorName'', JStr (ev_ActorName e)), (''publicKey'', JStr (ev_PublicKey e)),
      (''sequence'', JInt (uint (ev_Sequence e))), (''timestamp'', JStr (ev_Timestamp e))] @
     omitStr ''previous'' (ev_Previous e) @ omitStr ''subject'' (ev_Subject e) @
     omitStr ''relationship'' (ev_Relationship e) @ omitStr ''targetActor'' (ev_TargetActor e) @
     omitStr ''targetKey'' (ev_TargetKey e) @ omitStr ''title'' (ev_Title e) @ omitStr ''body'' (ev_Body e) @
     omitStr ''base'' (ev_Base e) @ omitStr ''head'' (ev_Head e) @ omitStr ''verdict'' (ev_Verdict e) @
     omitStr ''pipeline'' (ev_Pipeline e) @ omitStr ''definition'' (ev_Definition e) @
     omitStr ''commit'' (ev_Commit e) @ omitStr ''outcome'' (ev_Outcome e) @
     omitInt ''exitCode'' (ev_ExitCode e) @ omitInt ''durationMs'' (ev_DurationMS e) @
     omitStr ''log'' (ev_Log e) @ omitStr ''backend'' (ev_Backend e) @ omitStr ''platform'' (ev_Platform e) @
     omitStr ''runner'' (ev_Runner e) @ omitStr ''policy'' (ev_Policy e) @
     omitStrs ''evidence'' (elems (ev_Evidence e)) @ omitPtr ''issue'' jsonIssueState (ev_Issue e) @
     omitStrs ''parents'' (elems (ev_Parents e)) @ omitStr ''operation'' (ev_Operation e) @
     omitStr ''request'' (ev_Request e) @ omitStr ''intent'' (ev_Intent e) @
     omitPtr ''audit'' jsonAuditFact (ev_Audit e))"

section \<open>Sample facts\<close>

text \<open>Facts for the concrete instances of the properties; the payload and signature bytes play no role there.\<close>

definition sampleFact :: "string \<Rightarrow> string \<Rightarrow> string \<Rightarrow> 64 word \<Rightarrow> string \<Rightarrow> string \<Rightarrow> StoredEvent" where
  "sampleFact eid kind actor sequence previous subject =
     \<lparr>st_ID = eid, st_Commit = [], st_Event = zeroEvent\<lparr>ev_Protocol := protocolVersion, ev_Kind := kind,
        ev_Actor := actor, ev_Sequence := sequence, ev_Previous := previous, ev_Subject := subject\<rparr>,
      st_Payload = [], st_Signature = [], st_Attachments = []\<rparr>"

definition sampleID :: "char \<Rightarrow> string" where
  "sampleID c = ''sha256:'' @ replicate 64 c"

definition sampleHost :: host where
  "sampleHost = \<lparr>sha256 = (\<lambda>s. replicate 32 CHR 0x11), ed25519Verify = (\<lambda>k m s. True), ed25519Sign = (\<lambda>k m. [])\<rparr>"

section \<open>Lemmas\<close>

subsection \<open>Identifiers\<close>

lemma eventID_valid: "length (sha256 h p) = 32 \<Longrightarrow> validEventID (eventID h p)"
  by (simp add: validEventID_def eventID_def trimPrefix_def hexDecode_hexEncode hasPrefix_def)

lemma validEventID_length: "validEventID eid \<Longrightarrow> length eid = 71"
  by (auto simp: validEventID_def hasPrefix_iff trimPrefix_def split: option.splits if_splits
      dest!: hexDecodeString_length)

lemma validEventID_nonempty [dest]: "validEventID eid \<Longrightarrow> eid \<noteq> []"
  by (auto dest: validEventID_length)

lemma validEventID_Nil [simp]: "\<not> validEventID []"
  by (auto dest: validEventID_length)

lemma validEvidenceLoop_iff:
  "validEvidenceLoop seen ids \<longleftrightarrow> (\<forall>eid \<in> set ids. validEventID eid) \<and> distinct ids \<and> set ids \<inter> set seen = {}"
  by (induction ids arbitrary: seen) auto

lemma validEvidenceIDs_iff: "validEvidenceIDs ids \<longleftrightarrow> (\<forall>eid \<in> set ids. validEventID eid) \<and> distinct ids"
  by (simp add: validEvidenceIDs_def validEvidenceLoop_iff)

lemma actorListed_iff [simp]: "actorListed a as \<longleftrightarrow> a \<in> set as"
  by (auto simp: actorListed_def list_ex_iff)

lemma stringListed_iff [simp]: "stringListed a as \<longleftrightarrow> a \<in> set as"
  by (auto simp: stringListed_def list_ex_iff)

lemma sortedUniqueStrings_props:
  "sorted (sortedUniqueStrings vs)" "distinct (sortedUniqueStrings vs)"
  "set (sortedUniqueStrings vs) = set vs - {[]}"
proof -
  let ?f = "\<lambda>v acc. if v = [] \<or> v \<in> set acc then acc else acc @ [v]"
  have d: "distinct acc \<Longrightarrow> distinct (fold ?f vs acc)"
    and s: "set (fold ?f vs acc) = set acc \<union> (set vs - {[]})" for acc :: "string list"
    by (induction vs arbitrary: acc) auto
  show "sorted (sortedUniqueStrings vs)" "distinct (sortedUniqueStrings vs)"
    "set (sortedUniqueStrings vs) = set vs - {[]}"
    using d [of "[]"] s [of "[]"] by (simp_all add: sortedUniqueStrings_def)
qed

subsection \<open>The index by identifier\<close>

lemma map_of_index_fold:
  "map_of (fold (\<lambda>s m. AList.update (st_ID s) s m) es m) =
     map_of (rev (map (\<lambda>s. (st_ID s, s)) es) @ m)"
  by (induction es arbitrary: m) (auto simp: update_conv' map_add_def fun_eq_iff split: option.splits)

lemma map_of_indexByID: "map_of (indexByID es) = map_of (rev (map (\<lambda>s. (st_ID s, s)) es))"
  by (simp add: indexByID_def map_of_index_fold)

lemma indexByID_Some: "map_of (indexByID es) k = Some s \<Longrightarrow> s \<in> set es \<and> st_ID s = k"
  by (auto simp: map_of_indexByID dest!: map_of_SomeD)

lemma indexByID_None: "map_of (indexByID es) k = None \<longleftrightarrow> k \<notin> st_ID ` set es"
  by (auto simp: map_of_indexByID map_of_eq_None_iff image_iff)

lemma indexByID_unique:
  assumes "inj_on st_ID (set es)" "s \<in> set es"
  shows "map_of (indexByID es) (st_ID s) = Some s"
proof (cases "map_of (indexByID es) (st_ID s)")
  case None
  with assms show ?thesis by (auto simp: indexByID_None)
next
  case (Some t)
  with assms show ?thesis by (auto dest!: indexByID_Some dest: inj_onD)
qed

lemma indexByID_values:
  assumes "inj_on st_ID (set es)"
  shows "snd ` set (indexByID es) = set es"
proof -
  have "distinct (map fst m) \<Longrightarrow> distinct (map fst (fold (\<lambda>s m. AList.update (st_ID s) s m) es m))" for m
    by (induction es arbitrary: m) (simp_all add: distinct_update)
  then have d: "distinct (map fst (indexByID es))" by (simp add: indexByID_def)
  have kv: "(k, s) \<in> set (indexByID es) \<longleftrightarrow> s \<in> set es \<and> st_ID s = k" for k s
    unfolding map_of_eq_Some_iff [OF d, symmetric]
    using indexByID_unique [OF assms, of s] indexByID_Some [of es k s] by blast
  have "s \<in> snd ` set (indexByID es) \<longleftrightarrow> (\<exists>k. (k, s) \<in> set (indexByID es))" for s
  proof
    assume "s \<in> snd ` set (indexByID es)"
    then obtain p where "p \<in> set (indexByID es)" "s = snd p" by (rule imageE)
    then show "\<exists>k. (k, s) \<in> set (indexByID es)" by (intro exI [of _ "fst p"]) simp
  next
    assume "\<exists>k. (k, s) \<in> set (indexByID es)"
    then obtain k where "(k, s) \<in> set (indexByID es)" ..
    then show "s \<in> snd ` set (indexByID es)" by (rule image_eqI [rotated]) simp
  qed
  then show ?thesis by (simp add: set_eq_iff kv)
qed

end
