(* ===== verification/HN_Forest.thy ===== *)
theory HN_Forest
  imports HN_Prelude
begin

text \<open>
  Generic facts about finite forests given by a predecessor function: the shape of the revision
  histories of proposals, issues, decisions and resources in the program.
\<close>

definition predRel :: "('n \<Rightarrow> 'n option) \<Rightarrow> ('n \<times> 'n) set" where
  "predRel f = {(p, i). f i = Some p}"

lemma predRel_iff [simp]: "(p, i) \<in> predRel f \<longleftrightarrow> f i = Some p"
  by (simp add: predRel_def)

lemma predRel_linear:
  assumes "(a, x) \<in> (predRel f)\<^sup>*" "(b, x) \<in> (predRel f)\<^sup>*"
  shows "(a, b) \<in> (predRel f)\<^sup>* \<or> (b, a) \<in> (predRel f)\<^sup>*"
  using assms(1,2)
proof (induction arbitrary: b rule: rtrancl_induct)
  case base
  then show ?case by simp
next
  case (step y z)
  from step.prems show ?case
  proof (cases rule: rtranclE)
    case base
    then show ?thesis using step.hyps by (meson rtrancl.rtrancl_into_rtrancl)
  next
    case (step y')
    with \<open>(y, z) \<in> predRel f\<close> have "y' = y" by simp
    with step \<open>\<And>b. (b, y) \<in> (predRel f)\<^sup>* \<Longrightarrow> _ b\<close> show ?thesis by simp
  qed
qed

lemma finite_predRel: "finite (dom f) \<Longrightarrow> finite (predRel f)"
proof -
  assume fin: "finite (dom f)"
  have "predRel f \<subseteq> (\<lambda>i. (the (f i), i)) ` dom f" by (auto simp: image_iff domIff)
  then show ?thesis using fin finite_surj by blast
qed

lemma predRel_wf: "finite (dom f) \<Longrightarrow> acyclic (predRel f) \<Longrightarrow> wf (predRel f)"
  by (simp add: finite_acyclic_wf finite_predRel)

lemma predRel_wf_converse: "finite (dom f) \<Longrightarrow> acyclic (predRel f) \<Longrightarrow> wf ((predRel f)\<inverse>)"
  by (simp add: finite_acyclic_wf_converse finite_predRel)

text \<open>Below a predecessor there is its own subtree and nothing of the subtrees beside it.\<close>

lemma predRel_disjoint:
  assumes "acyclic (predRel f)" "f a = Some c" "f b = Some c" "a \<noteq> b"
  shows "(predRel f)\<^sup>* `` {a} \<inter> (predRel f)\<^sup>* `` {b} = {}"
proof (rule ccontr)
  assume "\<not> ?thesis"
  then obtain x where "(a, x) \<in> (predRel f)\<^sup>*" "(b, x) \<in> (predRel f)\<^sup>*" by auto
  then have "(a, b) \<in> (predRel f)\<^sup>* \<or> (b, a) \<in> (predRel f)\<^sup>*" by (rule predRel_linear)
  moreover have False if uv: "(u, v) \<in> (predRel f)\<^sup>*" and "f u = Some c" "f v = Some c" "u \<noteq> v" for u v
  proof -
    from uv \<open>u \<noteq> v\<close> obtain w where "(u, w) \<in> (predRel f)\<^sup>*" "(w, v) \<in> predRel f" by (metis rtranclE)
    with that have "(u, c) \<in> (predRel f)\<^sup>*" "(c, u) \<in> predRel f" by auto
    then have "(u, u) \<in> (predRel f)\<^sup>+" by (rule rtrancl_into_trancl1)
    with assms(1) show False by (simp add: acyclic_def)
  qed
  ultimately show False using assms(2-4) by blast
qed

lemma predRel_subtree:
  "(predRel f)\<^sup>* `` {c} = insert c (\<Union>a \<in> {a. f a = Some c}. (predRel f)\<^sup>* `` {a})"
proof -
  have "x = c \<or> (\<exists>a. f a = Some c \<and> (a, x) \<in> (predRel f)\<^sup>*)" if "(c, x) \<in> (predRel f)\<^sup>*" for x
    using that by (cases rule: converse_rtranclE) auto
  then show ?thesis by (auto intro: converse_rtrancl_into_rtrancl)
qed

lemma predRel_Some_root:
  assumes "acyclic (predRel f)" "finite (dom f)"
  shows "\<exists>!r. (r, i) \<in> (predRel f)\<^sup>* \<and> f r = None"
proof (rule ex_ex1I)
  have "wf (predRel f)" using assms by (rule predRel_wf [rotated])
  then show "\<exists>r. (r, i) \<in> (predRel f)\<^sup>* \<and> f r = None"
  proof (induction i rule: wf_induct_rule)
    case (less i)
    show ?case
    proof (cases "f i")
      case None
      then show ?thesis by auto
    next
      case (Some p)
      with less obtain r where "(r, p) \<in> (predRel f)\<^sup>*" "f r = None" by auto
      with Some show ?thesis by (meson predRel_iff rtrancl.rtrancl_into_rtrancl)
    qed
  qed
next
  have top: "u = v" if "(u, v) \<in> (predRel f)\<^sup>*" "f v = None" for u v
    using that by (cases rule: rtranclE) auto
  fix r r' assume "(r, i) \<in> (predRel f)\<^sup>* \<and> f r = None" "(r', i) \<in> (predRel f)\<^sup>* \<and> f r' = None"
  then show "r = r'" using predRel_linear [of r i f r'] top by metis
qed
end
