(* ===== verification/HN_Lineage.thy ===== *)
theory HN_Lineage
  imports HN_Event HN_Forest
begin

text \<open>
  The proposal lineage index (\<open>src/lineage.go\<close>): which proposal revises which, the root, ancestors,
  descendants and members of a lineage, and the derived state of a proposal (merged, superseded,
  closed, in conflict).  The walks of the program over the predecessor map are modelled with their
  \<open>visited\<close> sets and their cycle errors; the lemmas show that on an index that
  \<open>buildLineageIndex\<close> returned they end without one.
\<close>

section \<open>The index\<close>

record lineageIndex =
  li_proposals :: "(string, StoredEvent) gomap"
  li_predecessors :: "(string, string) gomap"
  li_successorsByID :: "(string, string list) gomap"
  li_mergeEventsByID :: "(string, StoredEvent list) gomap"

record proposalLineageState =
  ls_ProposalID :: string
  ls_PredecessorID :: string
  ls_SuccessorIDs :: "string list"
  ls_SiblingIDs :: "string list"
  ls_RootID :: string
  ls_AncestorIDs :: "string list"
  ls_DescendantIDs :: "string list"
  ls_MemberIDs :: "string list"
  ls_MergeEventIDs :: "string list"
  ls_MergedCandidateIDs :: "string list"
  ls_Merged :: bool
  ls_Superseded :: bool
  ls_LineageClosed :: bool
  ls_MergeConflict :: bool

definition emptyLineageIndex :: lineageIndex where
  "emptyLineageIndex = \<lparr>li_proposals = [], li_predecessors = [], li_successorsByID = [], li_mergeEventsByID = []\<rparr>"

definition indexProposals :: "StoredEvent list \<Rightarrow> (string, StoredEvent) gomap" where
  "indexProposals events =
     fold (\<lambda>s m. if isProposalKind (ev_Kind (st_Event s)) then AList.update (st_ID s) s m else m) events []"

fun linkEvents :: "StoredEvent list \<Rightarrow> lineageIndex \<Rightarrow> lineageIndex result" where
  "linkEvents [] ix = Inr ix"
| "linkEvents (s # ss) ix =
     (if ev_Kind (st_Event s) = ''proposal.revise'' then
        (if map_of (li_proposals ix) (ev_Subject (st_Event s)) = None
         then errorf ''revision %s has unavailable predecessor %s'' [shortID (st_ID s), ev_Subject (st_Event s)]
         else linkEvents ss (ix\<lparr>
           li_predecessors := AList.update (st_ID s) (ev_Subject (st_Event s)) (li_predecessors ix),
           li_successorsByID := appendTo (ev_Subject (st_Event s)) (st_ID s) (li_successorsByID ix)\<rparr>))
      else if ev_Kind (st_Event s) = ''proposal.merged'' then
        (if map_of (li_proposals ix) (ev_Subject (st_Event s)) = None
         then errorf ''merge %s has unavailable proposal %s'' [shortID (st_ID s), ev_Subject (st_Event s)]
         else linkEvents ss (ix\<lparr>
           li_mergeEventsByID := appendTo (ev_Subject (st_Event s)) s (li_mergeEventsByID ix)\<rparr>))
      else linkEvents ss ix)"

section \<open>The cycle check\<close>

text \<open>States of the depth-first visit: 1 is \<open>visiting\<close>, 2 is \<open>visited\<close>, an absent entry reads 0.\<close>

definition visitState :: "(string, nat) gomap \<Rightarrow> string \<Rightarrow> nat" where
  "visitState st i = (case map_of st i of None \<Rightarrow> 0 | Some n \<Rightarrow> n)"

function visit :: "(string, string) gomap \<Rightarrow> (string, nat) gomap \<Rightarrow> string \<Rightarrow> (string, nat) gomap result" where
  "visit preds st i =
     (if visitState st i = 1 then errorf ''revision lineage contains a cycle at %s'' [shortID i]
      else if visitState st i = 2 then Inr st
      else (case map_of preds i of
          None \<Rightarrow> Inr (AList.update i 2 (AList.update i 1 st))
        | Some p \<Rightarrow>
            (case visit preds (AList.update i 1 st) p of
               Inl e \<Rightarrow> Inl e
             | Inr st' \<Rightarrow> Inr (AList.update i 2 st'))))"
  by pat_completeness auto
termination
proof (relation "measure (\<lambda>(preds, st, i). card {k \<in> dom (map_of preds). visitState st k \<noteq> 1 \<and> visitState st k \<noteq> 2})")
  fix preds :: "(string, string) gomap" and st i p
  assume "visitState st i \<noteq> 1" "visitState st i \<noteq> 2" and "map_of preds i = Some p"
  then have "{k \<in> dom (map_of preds). visitState (AList.update i 1 st) k \<noteq> 1 \<and> visitState (AList.update i 1 st) k \<noteq> 2}
      \<subset> {k \<in> dom (map_of preds). visitState st k \<noteq> 1 \<and> visitState st k \<noteq> 2}"
    by (auto simp: visitState_def update_conv')
  then show "((preds, AList.update i 1 st, p), (preds, st, i))
      \<in> measure (\<lambda>(preds, st, i). card {k \<in> dom (map_of preds). visitState st k \<noteq> 1 \<and> visitState st k \<noteq> 2})"
    by (simp add: psubset_card_mono finite_dom_map_of)
qed simp

declare visit.simps [simp del]

fun visitAll :: "(string, string) gomap \<Rightarrow> (string, nat) gomap \<Rightarrow> string list \<Rightarrow> unit result" where
  "visitAll preds st [] = Inr ()"
| "visitAll preds st (i # is) =
     (case visit preds st i of Inl e \<Rightarrow> Inl e | Inr st' \<Rightarrow> visitAll preds st' is)"

definition validateAcyclic :: "lineageIndex \<Rightarrow> unit result" where
  "validateAcyclic ix = visitAll (li_predecessors ix) [] (sort (map fst (li_proposals ix)))"

definition sortIndex :: "lineageIndex \<Rightarrow> lineageIndex" where
  "sortIndex ix = ix\<lparr>
     li_successorsByID := map (\<lambda>(k, v). (k, sort v)) (li_successorsByID ix),
     li_mergeEventsByID := map (\<lambda>(k, v). (k, sort_key st_ID v)) (li_mergeEventsByID ix)\<rparr>"

definition buildLineageIndex :: "StoredEvent list \<Rightarrow> lineageIndex result" where
  "buildLineageIndex events =
     (case linkEvents events (emptyLineageIndex\<lparr>li_proposals := indexProposals events\<rparr>) of
        Inl e \<Rightarrow> Inl e
      | Inr ix \<Rightarrow> (case validateAcyclic (sortIndex ix) of Inl e \<Rightarrow> Inl e | Inr _ \<Rightarrow> Inr (sortIndex ix)))"

section \<open>Queries\<close>

definition requireProposal :: "lineageIndex \<Rightarrow> string \<Rightarrow> unit result" where
  "requireProposal ix i = (if map_of (li_proposals ix) i = None
     then errorf ''proposal %s is not in the lineage index'' [i] else Inr ())"

definition candidate :: "lineageIndex \<Rightarrow> string \<Rightarrow> StoredEvent result" where
  "candidate ix i = (case map_of (li_proposals ix) i of
       None \<Rightarrow> errorf ''proposal %s is not in the lineage index'' [i] | Some s \<Rightarrow> Inr s)"

definition predecessor :: "lineageIndex \<Rightarrow> string \<Rightarrow> (string \<times> bool) result" where
  "predecessor ix i = rbind (requireProposal ix i) (\<lambda>_.
     Inr (case map_of (li_predecessors ix) i of None \<Rightarrow> ([], False) | Some p \<Rightarrow> (p, True)))"

definition successors :: "lineageIndex \<Rightarrow> string \<Rightarrow> string list result" where
  "successors ix i = rbind (requireProposal ix i) (\<lambda>_. Inr (lookupList (li_successorsByID ix) i))"

definition siblings :: "lineageIndex \<Rightarrow> string \<Rightarrow> string list result" where
  "siblings ix i = rbind (requireProposal ix i) (\<lambda>_.
     (case map_of (li_predecessors ix) i of
        None \<Rightarrow> Inr []
      | Some p \<Rightarrow> Inr (filter (\<lambda>c. c \<noteq> i) (lookupList (li_successorsByID ix) p))))"

function rootLoop :: "(string, string) gomap \<Rightarrow> string list \<Rightarrow> string \<Rightarrow> string result" where
  "rootLoop preds visited i =
     (if i \<in> set visited then errorf ''revision lineage contains a cycle at %s'' [shortID i]
      else (case map_of preds i of None \<Rightarrow> Inr i | Some p \<Rightarrow> rootLoop preds (i # visited) p))"
  by pat_completeness auto
termination
proof (relation "measure (\<lambda>(preds, visited, i). card (dom (map_of preds) - set visited))")
  fix preds :: "(string, string) gomap" and visited i p
  assume "i \<notin> set visited" "map_of preds i = Some p"
  then have "dom (map_of preds) - set (i # visited) \<subset> dom (map_of preds) - set visited" by auto
  then show "((preds, i # visited, p), (preds, visited, i))
      \<in> measure (\<lambda>(preds, visited, i). card (dom (map_of preds) - set visited))"
    by (simp add: psubset_card_mono finite_dom_map_of del: set_simps)
qed simp

declare rootLoop.simps [simp del]

definition root :: "lineageIndex \<Rightarrow> string \<Rightarrow> string result" where
  "root ix i = rbind (requireProposal ix i) (\<lambda>_. rootLoop (li_predecessors ix) [] i)"

function ancestorsLoop :: "(string, string) gomap \<Rightarrow> string list \<Rightarrow> string list \<Rightarrow> string \<Rightarrow> string list result" where
  "ancestorsLoop preds visited acc i =
     (case map_of preds i of
        None \<Rightarrow> Inr acc
      | Some p \<Rightarrow>
          if p \<in> set visited then errorf ''revision lineage contains a cycle at %s'' [shortID p]
          else ancestorsLoop preds (p # visited) (acc @ [p]) p)"
  by pat_completeness auto
termination
proof (relation "measure (\<lambda>(preds, visited, acc, i). card (ran (map_of preds) - set visited))")
  fix preds :: "(string, string) gomap" and visited acc i p
  assume "map_of preds i = Some p" "p \<notin> set visited"
  then have "ran (map_of preds) - set (p # visited) \<subset> ran (map_of preds) - set visited"
    by (auto intro: ranI)
  then show "((preds, p # visited, acc @ [p], p), (preds, visited, acc, i))
      \<in> measure (\<lambda>(preds, visited, acc, i). card (ran (map_of preds) - set visited))"
    by (simp add: psubset_card_mono finite_ran finite_dom_map_of del: set_simps)
qed simp

declare ancestorsLoop.simps [simp del]

definition ancestors :: "lineageIndex \<Rightarrow> string \<Rightarrow> string list result" where
  "ancestors ix i = rbind (requireProposal ix i) (\<lambda>_.
     rbind (ancestorsLoop (li_predecessors ix) [i] [] i) (\<lambda>as. Inr (sort as)))"

text \<open>The stack of \<open>descendants\<close>, its top (the end of the Go slice) first.\<close>

function descendantsLoop ::
  "(string, string list) gomap \<Rightarrow> string list \<Rightarrow> string list \<Rightarrow> string list \<Rightarrow> string list result" where
  "descendantsLoop succs visited acc [] = Inr acc"
| "descendantsLoop succs visited acc (c # stack) =
     (if c \<in> set visited then errorf ''revision lineage contains a cycle at %s'' [shortID c]
      else descendantsLoop succs (c # visited) (acc @ [c]) (rev (lookupList succs c) @ stack))"
  by pat_completeness auto
termination
proof (relation "measures [\<lambda>(succs, visited, acc, stack). card (fst ` set succs - set visited),
    \<lambda>(succs, visited, acc, stack). length stack]")
  fix succs :: "(string, string list) gomap" and visited acc :: "string list" and c :: string and stack
  assume c: "c \<notin> set visited"
  show "((succs, c # visited, acc @ [c], rev (lookupList succs c) @ stack), succs, visited, acc, c # stack)
      \<in> measures [\<lambda>(succs, visited, acc, stack). card (fst ` set succs - set visited),
          \<lambda>(succs, visited, acc, stack). length stack]"
  proof (cases "c \<in> fst ` set succs")
    case True
    then have "fst ` set succs - set (c # visited) \<subset> fst ` set succs - set visited" using c by auto
    then show ?thesis by (simp add: psubset_card_mono del: set_simps)
  next
    case False
    then have "lookupList succs c = []"
      by (auto simp: lookupList_def split: option.splits dest!: map_of_SomeD) force
    moreover have "fst ` set succs - set (c # visited) = fst ` set succs - set visited" using False by auto
    ultimately show ?thesis by (simp del: set_simps)
  qed
qed simp

definition descendants :: "lineageIndex \<Rightarrow> string \<Rightarrow> string list result" where
  "descendants ix i = rbind (requireProposal ix i) (\<lambda>_.
     rbind (descendantsLoop (li_successorsByID ix) [i] [] (rev (lookupList (li_successorsByID ix) i)))
       (\<lambda>ds. Inr (sort ds)))"

definition members :: "lineageIndex \<Rightarrow> string \<Rightarrow> string list result" where
  "members ix i = rbind (root ix i) (\<lambda>r. rbind (descendants ix r) (\<lambda>ds. Inr (sort (ds @ [r]))))"

definition lineageState :: "lineageIndex \<Rightarrow> string \<Rightarrow> proposalLineageState result" where
  "lineageState ix i = rbind (requireProposal ix i) (\<lambda>_.
     let predecessorID = (case map_of (li_predecessors ix) i of None \<Rightarrow> [] | Some p \<Rightarrow> p) in
     rbind (successors ix i) (\<lambda>successorIDs. rbind (siblings ix i) (\<lambda>siblingIDs.
     rbind (root ix i) (\<lambda>rootID. rbind (ancestors ix i) (\<lambda>ancestorIDs.
     rbind (descendants ix i) (\<lambda>descendantIDs. rbind (members ix i) (\<lambda>memberIDs.
     let mergeEventIDs = map st_ID (lookupList (li_mergeEventsByID ix) i);
         mergedCandidateIDs = filter (\<lambda>m. 0 < length (lookupList (li_mergeEventsByID ix) m)) memberIDs;
         merged = (0 < length mergeEventIDs)
     in Inr \<lparr>ls_ProposalID = i, ls_PredecessorID = predecessorID, ls_SuccessorIDs = successorIDs,
          ls_SiblingIDs = siblingIDs, ls_RootID = rootID, ls_AncestorIDs = ancestorIDs,
          ls_DescendantIDs = descendantIDs, ls_MemberIDs = memberIDs, ls_MergeEventIDs = mergeEventIDs,
          ls_MergedCandidateIDs = mergedCandidateIDs, ls_Merged = merged,
          ls_Superseded = (\<not> merged \<and> 0 < length successorIDs),
          ls_LineageClosed = list_ex (\<lambda>m. m \<noteq> i) mergedCandidateIDs,
          ls_MergeConflict = (1 < length mergedCandidateIDs)\<rparr>)))))))"

text \<open>\<open>requireLineageTerminalEligibility\<close> of \<open>src/governance.go\<close>.\<close>

definition requireLineageTerminalEligibility :: "string \<Rightarrow> string \<Rightarrow> proposalLineageState \<Rightarrow> unit result" where
  "requireLineageTerminalEligibility operation proposalID state =
     (let statusCommand = ''hn proposal status '' @ proposalID in
      if ls_MergeConflict state
      then errorf ''cannot %s proposal %s: lineage has competing merges at %s; run (%s)''
             [operation, proposalID, commaJoin (ls_MergedCandidateIDs state), statusCommand]
      else if ls_Superseded state
      then errorf ''cannot %s proposal %s: superseded by %s; run (%s)''
             [operation, proposalID, commaJoin (ls_SuccessorIDs state), statusCommand]
      else if ls_LineageClosed state
      then errorf ''cannot %s proposal %s: lineage is closed by merged proposal %s; run (%s)''
             [operation, proposalID, commaJoin (ls_MergedCandidateIDs state), statusCommand]
      else Inr ())"

section \<open>The cycle check finds cycles and nothing else\<close>

lemma visitState_update [simp]: "visitState (AList.update i n st) k = (if k = i then n else visitState st k)"
  by (simp add: visitState_def update_conv')

text \<open>A node that the visit has finished has a well-founded history.\<close>

lemma visit_visited:
  "visit preds st i = Inr st' \<Longrightarrow> (\<And>k. visitState st k = 2 \<Longrightarrow> k \<in> Wellfounded.acc (predRel (map_of preds))) \<Longrightarrow>
     i \<in> Wellfounded.acc (predRel (map_of preds)) \<and>
     (\<forall>k. visitState st' k = 2 \<longrightarrow> k \<in> Wellfounded.acc (predRel (map_of preds)))"
proof (induction preds st i arbitrary: st' rule: visit.induct)
  case (1 preds st i)
  show ?case
  proof (cases "visitState st i = 1 \<or> visitState st i = 2")
    case True
    with "1.prems" show ?thesis by (auto simp: visit.simps [of preds st i])
  next
    case False
    show ?thesis
    proof (cases "map_of preds i")
      case None
      then have "i \<in> Wellfounded.acc (predRel (map_of preds))" by (auto intro: accI)
      with False None "1.prems" show ?thesis by (auto simp: visit.simps [of preds st i] split: if_splits)
    next
      case (Some p)
      then obtain st2 where st2: "visit preds (AList.update i 1 st) p = Inr st2" "st' = AList.update i 2 st2"
        using False "1.prems"(1) by (auto simp: visit.simps [of preds st i] split: sum.splits)
      have IH: "p \<in> Wellfounded.acc (predRel (map_of preds)) \<and>
          (\<forall>k. visitState st2 k = 2 \<longrightarrow> k \<in> Wellfounded.acc (predRel (map_of preds)))"
        by (rule "1.IH") (use False Some st2 "1.prems" in \<open>auto split: if_splits\<close>)
      have "i \<in> Wellfounded.acc (predRel (map_of preds))" by (rule accI) (use IH Some in auto)
      with IH st2 show ?thesis by auto
    qed
  qed
qed

lemma visit_visiting: "visit preds st i = Inr st' \<Longrightarrow> visitState st' k = 1 \<Longrightarrow> visitState st k = 1"
proof (induction preds st i arbitrary: st' rule: visit.induct)
  case (1 preds st i)
  show ?case
  proof (cases "visitState st i = 1 \<or> visitState st i = 2 \<or> map_of preds i = None")
    case True
    with "1.prems" show ?thesis by (auto simp: visit.simps [of preds st i] split: if_splits)
  next
    case False
    then obtain p st2 where p: "map_of preds i = Some p"
      and st2: "visit preds (AList.update i 1 st) p = Inr st2" "st' = AList.update i 2 st2"
      using "1.prems"(1) by (auto simp: visit.simps [of preds st i] split: sum.splits)
    have "k \<noteq> i" using "1.prems"(2) st2 by (auto split: if_splits)
    moreover have "visitState (AList.update i 1 st) k = 1"
      by (rule "1.IH") (use False p st2 "1.prems"(2) \<open>k \<noteq> i\<close> in auto)
    ultimately show ?thesis by simp
  qed
qed

text \<open>An error is reported only for a node that is its own ancestor.\<close>

lemma visit_cycle:
  "visit preds st i = Inl e \<Longrightarrow> (\<And>k. visitState st k = 1 \<Longrightarrow> (i, k) \<in> (predRel (map_of preds))\<^sup>+) \<Longrightarrow>
     \<not> acyclic (predRel (map_of preds))"
proof (induction preds st i arbitrary: e rule: visit.induct)
  case (1 preds st i)
  show ?case
  proof (cases "visitState st i = 1")
    case True
    with "1.prems"(2) show ?thesis by (auto simp: acyclic_def)
  next
    case False
    then obtain p where p: "visitState st i \<noteq> 2" "map_of preds i = Some p" "visit preds (AList.update i 1 st) p = Inl e"
      using "1.prems"(1) by (auto simp: visit.simps [of preds st i] split: if_splits option.splits sum.splits)
    show ?thesis
    proof (rule "1.IH")
      fix k assume "visitState (AList.update i 1 st) k = 1"
      moreover have "(p, i) \<in> (predRel (map_of preds))\<^sup>+" using p by auto
      ultimately show "(p, k) \<in> (predRel (map_of preds))\<^sup>+"
        using "1.prems"(2) [of k] by (auto split: if_splits intro: trancl_trans)
    qed (use False p in auto)
  qed
qed

lemma visitAll_acc:
  "visitAll preds st is = Inr () \<Longrightarrow> (\<And>k. visitState st k = 2 \<Longrightarrow> k \<in> Wellfounded.acc (predRel (map_of preds))) \<Longrightarrow>
     i \<in> set is \<Longrightarrow> i \<in> Wellfounded.acc (predRel (map_of preds))"
proof (induction "is" arbitrary: st)
  case (Cons j js)
  then obtain st' where st': "visit preds st j = Inr st'" "visitAll preds st' js = Inr ()"
    by (auto split: sum.splits)
  have "j \<in> Wellfounded.acc (predRel (map_of preds)) \<and>
      (\<forall>k. visitState st' k = 2 \<longrightarrow> k \<in> Wellfounded.acc (predRel (map_of preds)))"
    using visit_visited [OF st'(1)] Cons.prems(2) by blast
  with Cons.IH [OF st'(2)] Cons.prems(3) show ?case by auto
qed simp

lemma visitAll_cycle:
  "visitAll preds st is = Inl e \<Longrightarrow> (\<And>k. visitState st k \<noteq> 1) \<Longrightarrow> \<not> acyclic (predRel (map_of preds))"
proof (induction "is" arbitrary: st)
  case (Cons j js)
  show ?case
  proof (cases "visit preds st j")
    case (Inl e')
    then show ?thesis using visit_cycle Cons.prems(2) by metis
  next
    case (Inr st')
    then have "visitAll preds st' js = Inl e" "\<And>k. visitState st' k \<noteq> 1"
      using Cons.prems visit_visiting [OF Inr] by auto
    then show ?thesis by (rule Cons.IH)
  qed
qed simp

lemma validateAcyclic_iff:
  assumes closed: "dom (map_of (li_predecessors ix)) \<subseteq> dom (map_of (li_proposals ix))"
  shows "validateAcyclic ix = Inr () \<longleftrightarrow> acyclic (predRel (map_of (li_predecessors ix)))"
proof
  assume ok: "validateAcyclic ix = Inr ()"
  have "i \<in> Wellfounded.acc (predRel (map_of (li_predecessors ix)))" for i
  proof (cases "i \<in> dom (map_of (li_predecessors ix))")
    case True
    then have "i \<in> set (sort (map fst (li_proposals ix)))"
      using closed by (auto simp: dom_map_of_conv_image_fst)
    then show ?thesis
      using visitAll_acc [OF ok [unfolded validateAcyclic_def]] by (simp add: visitState_def)
  next
    case False
    then show ?thesis by (auto intro: accI)
  qed
  then have "wf (predRel (map_of (li_predecessors ix)))" by (rule acc_wfI [rule_format])
  then show "acyclic (predRel (map_of (li_predecessors ix)))" by (rule wf_acyclic)
next
  assume "acyclic (predRel (map_of (li_predecessors ix)))"
  then show "validateAcyclic ix = Inr ()"
    using visitAll_cycle [of "li_predecessors ix" "[]"]
    by (cases "validateAcyclic ix") (auto simp: validateAcyclic_def visitState_def)
qed

section \<open>What the index contains\<close>

definition revisions :: "StoredEvent list \<Rightarrow> StoredEvent list" where
  "revisions events = filter (\<lambda>s. ev_Kind (st_Event s) = ''proposal.revise'') events"

definition mergesOf :: "StoredEvent list \<Rightarrow> string \<Rightarrow> StoredEvent list" where
  "mergesOf events i =
     filter (\<lambda>s. ev_Kind (st_Event s) = ''proposal.merged'' \<and> ev_Subject (st_Event s) = i) events"

lemma indexProposals_lookup:
  "map_of (indexProposals es) = map_of (rev (map (\<lambda>s. (st_ID s, s)) (proposalEvents es)))"
proof -
  have "map_of (fold (\<lambda>s m. if isProposalKind (ev_Kind (st_Event s)) then AList.update (st_ID s) s m else m) es m)
      = map_of (rev (map (\<lambda>s. (st_ID s, s)) (proposalEvents es)) @ m)" for m
    by (induction es arbitrary: m)
      (auto simp: proposalEvents_def update_conv' map_add_def fun_eq_iff split: option.splits)
  from this [of "[]"] show ?thesis by (simp add: indexProposals_def)
qed

lemma indexProposals_dom: "dom (map_of (indexProposals es)) = st_ID ` set (proposalEvents es)"
  by (force simp: indexProposals_lookup dom_map_of_conv_image_fst)

lemma linkEvents_proposals: "linkEvents es ix = Inr ix' \<Longrightarrow> li_proposals ix' = li_proposals ix"
  by (induction es ix rule: linkEvents.induct) (auto split: if_splits)

lemma linkEvents_predecessors: "linkEvents es ix = Inr ix' \<Longrightarrow> map_of (li_predecessors ix') =
    map_of (rev (map (\<lambda>s. (st_ID s, ev_Subject (st_Event s))) (revisions es)) @ li_predecessors ix)"
  by (induction es ix rule: linkEvents.induct)
    (auto simp: revisions_def update_conv' map_add_def fun_eq_iff split: if_splits option.splits)

lemma linkEvents_successors: "linkEvents es ix = Inr ix' \<Longrightarrow> lookupList (li_successorsByID ix') p =
    lookupList (li_successorsByID ix) p @ map st_ID (filter (\<lambda>s. ev_Subject (st_Event s) = p) (revisions es))"
  by (induction es ix rule: linkEvents.induct) (auto simp: revisions_def lookupList_appendTo split: if_splits)

lemma linkEvents_merges: "linkEvents es ix = Inr ix' \<Longrightarrow> lookupList (li_mergeEventsByID ix') p =
    lookupList (li_mergeEventsByID ix) p @ mergesOf es p"
  by (induction es ix rule: linkEvents.induct) (auto simp: mergesOf_def lookupList_appendTo split: if_splits)

lemma linkEvents_ok_iff: "is_ok (linkEvents es ix) \<longleftrightarrow>
    (\<forall>s \<in> set es. (ev_Kind (st_Event s) = ''proposal.revise'' \<or> ev_Kind (st_Event s) = ''proposal.merged'') \<longrightarrow>
       ev_Subject (st_Event s) \<in> dom (map_of (li_proposals ix)))"
  by (induction es ix rule: linkEvents.induct) (auto simp: domIff)

text \<open>The facts of a successful build, in terms of the events it was built from.\<close>

lemma buildLineageIndexE:
  assumes "buildLineageIndex es = Inr ix"
  obtains ix0 where "linkEvents es (emptyLineageIndex\<lparr>li_proposals := indexProposals es\<rparr>) = Inr ix0"
    "ix = sortIndex ix0" "validateAcyclic ix = Inr ()"
  using assms by (auto simp: buildLineageIndex_def is_ok_unit split: sum.splits)

lemma build_proposals: "buildLineageIndex es = Inr ix \<Longrightarrow> li_proposals ix = indexProposals es"
  by (auto elim!: buildLineageIndexE dest!: linkEvents_proposals simp: sortIndex_def)

lemma build_proposals_dom:
  "buildLineageIndex es = Inr ix \<Longrightarrow> dom (map_of (li_proposals ix)) = st_ID ` set (proposalEvents es)"
  by (simp add: build_proposals indexProposals_dom)

lemma build_predecessors: "buildLineageIndex es = Inr ix \<Longrightarrow> map_of (li_predecessors ix) =
    map_of (rev (map (\<lambda>s. (st_ID s, ev_Subject (st_Event s))) (revisions es)))"
  by (auto elim!: buildLineageIndexE dest!: linkEvents_predecessors simp: sortIndex_def emptyLineageIndex_def)

lemma build_successors: "buildLineageIndex es = Inr ix \<Longrightarrow> lookupList (li_successorsByID ix) p =
    sort (map st_ID (filter (\<lambda>s. ev_Subject (st_Event s) = p) (revisions es)))"
proof (elim buildLineageIndexE)
  fix ix0 assume link: "linkEvents es (emptyLineageIndex\<lparr>li_proposals := indexProposals es\<rparr>) = Inr ix0"
    and ix: "ix = sortIndex ix0"
  show ?thesis
    using linkEvents_successors [OF link, of p]
    by (auto simp: ix sortIndex_def lookupList_map emptyLineageIndex_def)
      (auto simp: lookupList_def)
qed

lemma build_merges: "buildLineageIndex es = Inr ix \<Longrightarrow> lookupList (li_mergeEventsByID ix) p = sort_key st_ID (mergesOf es p)"
proof (elim buildLineageIndexE)
  fix ix0 assume link: "linkEvents es (emptyLineageIndex\<lparr>li_proposals := indexProposals es\<rparr>) = Inr ix0"
    and ix: "ix = sortIndex ix0"
  show ?thesis
    using linkEvents_merges [OF link, of p]
    by (auto simp: ix sortIndex_def lookupList_map emptyLineageIndex_def)
      (auto simp: lookupList_def)
qed

lemma build_subject_available:
  assumes "buildLineageIndex es = Inr ix" "s \<in> set es"
    and "ev_Kind (st_Event s) = ''proposal.revise'' \<or> ev_Kind (st_Event s) = ''proposal.merged''"
  shows "ev_Subject (st_Event s) \<in> st_ID ` set (proposalEvents es)"
proof -
  have "is_ok (linkEvents es (emptyLineageIndex\<lparr>li_proposals := indexProposals es\<rparr>))"
    using assms(1) by (auto elim: buildLineageIndexE)
  then show ?thesis using assms(2,3) by (auto simp: linkEvents_ok_iff indexProposals_dom [symmetric])
qed

lemma build_predecessor_event:
  assumes "buildLineageIndex es = Inr ix" "map_of (li_predecessors ix) i = Some p"
  shows "\<exists>s \<in> set (revisions es). st_ID s = i \<and> ev_Subject (st_Event s) = p"
  using assms(2) unfolding build_predecessors [OF assms(1)] by (auto dest!: map_of_SomeD)

lemma revisions_proposals: "set (revisions es) \<subseteq> set (proposalEvents es)"
  by (auto simp: revisions_def proposalEvents_def isProposalKind_def)

lemma build_predecessor_closed:
  assumes "buildLineageIndex es = Inr ix" "map_of (li_predecessors ix) i = Some p"
  shows "i \<in> dom (map_of (li_proposals ix)) \<and> p \<in> dom (map_of (li_proposals ix))"
proof -
  obtain s where s: "s \<in> set (revisions es)" "st_ID s = i" "ev_Subject (st_Event s) = p"
    using build_predecessor_event [OF assms] by blast
  then have "p \<in> st_ID ` set (proposalEvents es)"
    using build_subject_available [OF assms(1), of s] by (auto simp: revisions_def)
  then show ?thesis
    using s revisions_proposals by (auto simp: build_proposals_dom [OF assms(1)])
qed

lemma build_acyclic:
  assumes "buildLineageIndex es = Inr ix"
  shows "acyclic (predRel (map_of (li_predecessors ix)))"
proof -
  have "dom (map_of (li_predecessors ix)) \<subseteq> dom (map_of (li_proposals ix))"
    using build_predecessor_closed [OF assms] by blast
  moreover have "validateAcyclic ix = Inr ()" using assms by (elim buildLineageIndexE)
  ultimately show ?thesis by (simp add: validateAcyclic_iff)
qed

text \<open>When no identifier occurs twice, the successor lists are the inverse of the predecessor map.\<close>

lemma build_successor_iff:
  assumes "buildLineageIndex es = Inr ix" "distinct (map st_ID es)"
  shows "set (lookupList (li_successorsByID ix) p) = {i. map_of (li_predecessors ix) i = Some p} \<and>
    distinct (lookupList (li_successorsByID ix) p)"
proof -
  let ?kv = "\<lambda>s. (st_ID s, ev_Subject (st_Event s))"
  have d: "distinct (map st_ID (filter P es))" for P
    using assms(2) by (metis distinct_map_filter)
  have "map fst (rev (map ?kv (revisions es))) = rev (map st_ID (revisions es))"
    by (simp add: rev_map comp_def)
  then have "distinct (map fst (rev (map ?kv (revisions es))))"
    using d by (simp only: distinct_rev revisions_def)
  then have "map_of (li_predecessors ix) i = Some p \<longleftrightarrow> (\<exists>s \<in> set (revisions es). st_ID s = i \<and> ev_Subject (st_Event s) = p)" for i
    unfolding build_predecessors [OF assms(1)] by (subst map_of_eq_Some_iff) auto
  moreover have "distinct (map st_ID (filter (\<lambda>s. ev_Subject (st_Event s) = p) (revisions es)))"
    using d by (simp add: revisions_def)
  ultimately show ?thesis by (auto simp: build_successors [OF assms(1)])
qed

section \<open>The walks end without an error\<close>

lemma rootLoop_correct:
  assumes "acyclic (predRel (map_of preds))"
  shows "set visited \<inter> {a. (a, i) \<in> (predRel (map_of preds))\<^sup>*} = {} \<Longrightarrow>
    \<exists>r. rootLoop preds visited i = Inr r \<and> (r, i) \<in> (predRel (map_of preds))\<^sup>* \<and> map_of preds r = None"
proof (induction i arbitrary: visited rule: wf_induct_rule [OF predRel_wf [OF finite_dom_map_of assms]])
  case (1 i)
  let ?R = "predRel (map_of preds)"
  have i: "i \<notin> set visited" using "1.prems" by auto
  show ?case
  proof (cases "map_of preds i")
    case None
    with i show ?thesis by (simp add: rootLoop.simps [of preds visited i])
  next
    case (Some p)
    then have pi: "(p, i) \<in> ?R" by simp
    have "(a, i) \<in> ?R\<^sup>+" if "(a, p) \<in> ?R\<^sup>*" for a using that pi by (rule rtrancl_into_trancl1)
    then have "set (i # visited) \<inter> {a. (a, p) \<in> ?R\<^sup>*} = {}"
      using "1.prems" assms by (auto simp: acyclic_def dest: trancl_into_rtrancl)
    from "1.IH" [OF pi this] obtain r where
      r: "rootLoop preds (i # visited) p = Inr r" "(r, p) \<in> ?R\<^sup>*" "map_of preds r = None" by blast
    from r(2) pi have "(r, i) \<in> ?R\<^sup>*" by (rule rtrancl_into_rtrancl)
    with r Some i show ?thesis by (simp add: rootLoop.simps [of preds visited i])
  qed
qed

lemma ancestorsLoop_correct:
  assumes "acyclic (predRel (map_of preds))"
  shows "set visited \<inter> {a. (a, i) \<in> (predRel (map_of preds))\<^sup>+} = {} \<Longrightarrow>
    \<exists>L. ancestorsLoop preds visited acc i = Inr (acc @ L) \<and> distinct L \<and>
        set L = {a. (a, i) \<in> (predRel (map_of preds))\<^sup>+}"
proof (induction i arbitrary: visited acc rule: wf_induct_rule [OF predRel_wf [OF finite_dom_map_of assms]])
  case (1 i)
  let ?R = "predRel (map_of preds)"
  show ?case
  proof (cases "map_of preds i")
    case None
    then have "{a. (a, i) \<in> ?R\<^sup>+} = {}" by (auto elim: tranclE)
    with None show ?thesis by (auto simp: ancestorsLoop.simps [of preds visited acc i])
  next
    case (Some p)
    then have pi: "(p, i) \<in> ?R" by simp
    have anc: "{a. (a, i) \<in> ?R\<^sup>+} = insert p {a. (a, p) \<in> ?R\<^sup>+}"
      using Some by (auto elim: tranclE intro: trancl_into_trancl)
    then have "set (p # visited) \<inter> {a. (a, p) \<in> ?R\<^sup>+} = {}"
      using "1.prems" assms by (auto simp: acyclic_def)
    from "1.IH" [OF pi this, of "acc @ [p]"] obtain L where
      L: "ancestorsLoop preds (p # visited) (acc @ [p]) p = Inr (acc @ p # L)" "distinct L"
        "set L = {a. (a, p) \<in> ?R\<^sup>+}" by auto
    moreover have "p \<notin> set visited" using "1.prems" anc by auto
    ultimately show ?thesis
      using Some anc assms
      by (intro exI [of _ "p # L"]) (auto simp: ancestorsLoop.simps [of preds visited acc i] acyclic_def)
  qed
qed

text \<open>The depth-first walk over subtrees that do not overlap.\<close>

definition separated :: "('n \<times> 'n) set \<Rightarrow> 'n set \<Rightarrow> 'n list \<Rightarrow> bool" where
  "separated R seen stack \<longleftrightarrow> distinct stack \<and> (\<forall>a \<in> set stack. R\<^sup>* `` {a} \<inter> seen = {}) \<and>
     (\<forall>a \<in> set stack. \<forall>b \<in> set stack. a \<noteq> b \<longrightarrow> R\<^sup>* `` {a} \<inter> R\<^sup>* `` {b} = {})"

lemma separated_step:
  assumes acyc: "acyclic (predRel f)" and sep: "separated (predRel f) seen (c # stack)"
    and kids: "set ks = {a. f a = Some c}" "distinct ks"
  shows "separated (predRel f) (insert c seen) (ks @ stack)"
proof -
  let ?R = "predRel f" and ?D = "\<lambda>a. (predRel f)\<^sup>* `` {a}"
  have sub: "?D a \<subseteq> ?D c" if "a \<in> set ks" for a
    using that kids by (subst (2) predRel_subtree) auto
  have noc: "c \<notin> ?D a" if "a \<in> set ks" for a
  proof
    assume "c \<in> ?D a"
    then have "(a, c) \<in> ?R\<^sup>*" by simp
    moreover have "(c, a) \<in> ?R" using that kids by simp
    ultimately show False using acyc rtrancl_into_trancl2 [of c a ?R c] by (simp add: acyclic_def)
  qed
  have st: "?D b \<inter> ?D c = {}" "c \<notin> ?D b" if "b \<in> set stack" for b
  proof -
    have "b \<noteq> c" using sep that by (auto simp: separated_def)
    then show "?D b \<inter> ?D c = {}" using sep that unfolding separated_def by simp
    then show "c \<notin> ?D b" by blast
  qed
  show ?thesis
    unfolding separated_def
  proof (intro conjI ballI impI)
    have "b \<notin> set ks" if "b \<in> set stack" for b
      using st(1) [OF that] sub [of b] by blast
    then show "distinct (ks @ stack)" using kids(2) sep by (auto simp: separated_def)
  next
    fix a assume "a \<in> set (ks @ stack)"
    then consider "a \<in> set ks" | "a \<in> set stack" by auto
    then show "?D a \<inter> insert c seen = {}"
    proof cases
      case 1
      then show ?thesis using sub noc sep unfolding separated_def by force
    next
      case 2
      then show ?thesis using st(2) sep unfolding separated_def by force
    qed
  next
    fix a b assume "a \<in> set (ks @ stack)" "b \<in> set (ks @ stack)" "a \<noteq> b"
    then consider "a \<in> set ks" "b \<in> set ks" | "a \<in> set ks" "b \<in> set stack"
      | "a \<in> set stack" "b \<in> set ks" | "a \<in> set stack" "b \<in> set stack" by auto
    then show "?D a \<inter> ?D b = {}"
    proof cases
      case 1
      then show ?thesis using predRel_disjoint [OF acyc] kids \<open>a \<noteq> b\<close> by simp
    next
      case 2
      then show ?thesis using sub st(1) by blast
    next
      case 3
      then show ?thesis using sub st(1) by blast
    next
      case 4
      then show ?thesis using sep \<open>a \<noteq> b\<close> unfolding separated_def by simp
    qed
  qed
qed

lemma descendantsLoop_correct:
  assumes acyc: "acyclic (predRel f)"
    and inv: "\<And>p. set (lookupList succs p) = {i. f i = Some p} \<and> distinct (lookupList succs p)"
  shows "separated (predRel f) (set visited) stack \<Longrightarrow>
    \<exists>L. descendantsLoop succs visited acc stack = Inr (acc @ L) \<and> distinct L \<and>
        set L = (\<Union>a \<in> set stack. (predRel f)\<^sup>* `` {a})"
  using inv
proof (induction succs visited acc stack rule: descendantsLoop.induct)
  case (2 succs visited acc c stack)
  let ?D = "\<lambda>a. (predRel f)\<^sup>* `` {a}" and ?ks = "rev (lookupList succs c)"
  have c: "c \<notin> set visited" using "2.prems"(1) by (auto simp: separated_def)
  have "separated (predRel f) (set (c # visited)) (?ks @ stack)"
    using separated_step [OF acyc "2.prems"(1), of ?ks] "2.prems"(2) [of c] by simp
  from "2.IH" [OF c this "2.prems"(2)] obtain L where
    L: "descendantsLoop succs (c # visited) (acc @ [c]) (?ks @ stack) = Inr (acc @ c # L)" "distinct L"
      "set L = (\<Union>a \<in> set (?ks @ stack). ?D a)" by auto
  have D: "?D c = insert c (\<Union>a \<in> set ?ks. ?D a)"
    using "2.prems"(2) [of c] by (subst predRel_subtree) auto
  have "c \<notin> set L"
  proof
    assume "c \<in> set L"
    then obtain a where a: "a \<in> set (?ks @ stack)" "c \<in> ?D a" using L(3) by blast
    with \<open>separated (predRel f) (set (c # visited)) (?ks @ stack)\<close> show False
      by (auto simp: separated_def disjoint_iff)
  qed
  with L D c show ?case by (intro exI [of _ "c # L"]) auto
qed simp
section \<open>The interface of a revision index\<close>

text \<open>
  What the queries below rely on: the nodes of a built index are finitely many, its predecessor
  function stays among them and has no cycle.
\<close>

locale revision_index =
  fixes build :: "'e list \<Rightarrow> 'ix result"
    and nodes :: "'ix \<Rightarrow> 'n set"
    and pred :: "'ix \<Rightarrow> 'n \<Rightarrow> 'n option"
  assumes nodes_finite: "build es = Inr ix \<Longrightarrow> finite (nodes ix)"
    and pred_nodes: "build es = Inr ix \<Longrightarrow> pred ix i = Some p \<Longrightarrow> i \<in> nodes ix \<and> p \<in> nodes ix"
    and pred_acyclic: "build es = Inr ix \<Longrightarrow> acyclic (predRel (pred ix))"
begin

lemma pred_finite: "build es = Inr ix \<Longrightarrow> finite (dom (pred ix))"
  using nodes_finite pred_nodes by (metis domD finite_subset subsetI)

lemma unique_root: "build es = Inr ix \<Longrightarrow> \<exists>!r. (r, i) \<in> (predRel (pred ix))\<^sup>* \<and> pred ix r = None"
  by (rule predRel_Some_root) (simp_all add: pred_acyclic pred_finite)

lemma path_nodes:
  assumes "build es = Inr ix" "(a, b) \<in> (predRel (pred ix))\<^sup>*"
  shows "a \<in> nodes ix \<longleftrightarrow> b \<in> nodes ix"
  using assms(2)
proof (induction rule: rtrancl_induct)
  case (step y z)
  then show ?case using pred_nodes [OF assms(1), of z y] by simp
qed simp

lemma descendant_nodes:
  assumes "build es = Inr ix" "(a, b) \<in> (predRel (pred ix))\<^sup>+"
  shows "a \<in> nodes ix \<and> b \<in> nodes ix"
  using assms(2)
proof (induction rule: trancl_induct)
  case (base y)
  then show ?case using pred_nodes [OF assms(1), of y a] by simp
next
  case (step y z)
  then show ?case using pred_nodes [OF assms(1), of z y] by simp
qed

lemma descendants_finite: "build es = Inr ix \<Longrightarrow> finite {d. (i, d) \<in> (predRel (pred ix))\<^sup>+}"
  using nodes_finite descendant_nodes by (metis (mono_tags, lifting) finite_subset mem_Collect_eq subsetI)

lemma root_of_root:
  assumes "build es = Inr ix" "(r, i) \<in> (predRel (pred ix))\<^sup>*" "pred ix r = None"
  shows "{m. (r, m) \<in> (predRel (pred ix))\<^sup>*} =
    {m. \<exists>q. (q, m) \<in> (predRel (pred ix))\<^sup>* \<and> (q, i) \<in> (predRel (pred ix))\<^sup>* \<and> pred ix q = None}"
  using unique_root [OF assms(1), of i] assms(2,3) by blast

end

interpretation lineage: revision_index
  buildLineageIndex "\<lambda>ix. dom (map_of (li_proposals ix))" "\<lambda>ix. map_of (li_predecessors ix)"
  by unfold_locales (auto simp: finite_dom_map_of build_acyclic dest: build_predecessor_closed)

section \<open>The queries of a built index\<close>

lemma sort_distinct_set: "distinct xs \<Longrightarrow> sort xs = sorted_list_of_set (set xs)"
  by (simp add: sorted_list_of_set_sort_remdups distinct_remdups_id)

lemma root_iff:
  assumes "buildLineageIndex es = Inr ix" "i \<in> dom (map_of (li_proposals ix))"
  shows "root ix i = Inr r \<longleftrightarrow>
    (r, i) \<in> (predRel (map_of (li_predecessors ix)))\<^sup>* \<and> map_of (li_predecessors ix) r = None"
proof -
  have req: "requireProposal ix i = Inr ()" using assms(2) by (auto simp: requireProposal_def)
  obtain r' where r': "root ix i = Inr r'" "(r', i) \<in> (predRel (map_of (li_predecessors ix)))\<^sup>*"
    "map_of (li_predecessors ix) r' = None"
    using rootLoop_correct [OF build_acyclic [OF assms(1)], of "[]" i] req by (auto simp: root_def)
  then show ?thesis using lineage.unique_root [OF assms(1), of i] by auto
qed

lemma ancestors_eq:
  assumes "buildLineageIndex es = Inr ix" "i \<in> dom (map_of (li_proposals ix))"
  shows "ancestors ix i = Inr (sorted_list_of_set {a. (a, i) \<in> (predRel (map_of (li_predecessors ix)))\<^sup>+})"
proof -
  have req: "requireProposal ix i = Inr ()" using assms(2) by (auto simp: requireProposal_def)
  have "set [i] \<inter> {a. (a, i) \<in> (predRel (map_of (li_predecessors ix)))\<^sup>+} = {}"
    using build_acyclic [OF assms(1)] by (auto simp: acyclic_def)
  from ancestorsLoop_correct [OF build_acyclic [OF assms(1)] this, of "[]"]
  show ?thesis using req by (auto simp: ancestors_def sort_distinct_set)
qed

lemma trancl_children:
  "{d. (i, d) \<in> (predRel f)\<^sup>+} = (\<Union>a \<in> {a. f a = Some i}. (predRel f)\<^sup>* `` {a})"
proof -
  have "(i, d) \<in> (predRel f)\<^sup>+ \<longleftrightarrow> (\<exists>a. f a = Some i \<and> (a, d) \<in> (predRel f)\<^sup>*)" for d
    by (meson predRel_iff rtrancl_into_trancl2 tranclD)
  then show ?thesis by auto
qed

lemma descendants_eq:
  assumes "buildLineageIndex es = Inr ix" "i \<in> dom (map_of (li_proposals ix))" "distinct (map st_ID es)"
  shows "descendants ix i = Inr (sorted_list_of_set {d. (i, d) \<in> (predRel (map_of (li_predecessors ix)))\<^sup>+})"
proof -
  let ?f = "map_of (li_predecessors ix)" and ?ks = "lookupList (li_successorsByID ix) i"
  have req: "requireProposal ix i = Inr ()" using assms(2) by (auto simp: requireProposal_def)
  have acyc: "acyclic (predRel ?f)" by (rule build_acyclic [OF assms(1)])
  have inv: "set (lookupList (li_successorsByID ix) p) = {i. ?f i = Some p} \<and>
      distinct (lookupList (li_successorsByID ix) p)" for p
    by (rule build_successor_iff [OF assms(1,3)])
  have "separated (predRel ?f) {} [i]" by (simp add: separated_def)
  then have "separated (predRel ?f) (set [i]) (rev ?ks)"
    using separated_step [OF acyc, of "{}" i "[]" "rev ?ks"] inv [of i] by simp
  from descendantsLoop_correct [OF acyc inv this, of "[]"] obtain L where
    L: "descendantsLoop (li_successorsByID ix) [i] [] (rev ?ks) = Inr L" "distinct L"
      "set L = (\<Union>a \<in> set (rev ?ks). (predRel ?f)\<^sup>* `` {a})" by auto
  then have "set L = {d. (i, d) \<in> (predRel ?f)\<^sup>+}" using inv [of i] by (simp add: trancl_children)
  then show ?thesis using L req by (simp add: descendants_def sort_distinct_set)
qed

lemma members_eq:
  assumes "buildLineageIndex es = Inr ix" "root ix i = Inr r" "distinct (map st_ID es)"
  shows "members ix i = Inr (sorted_list_of_set {m. (r, m) \<in> (predRel (map_of (li_predecessors ix)))\<^sup>*})"
proof -
  let ?R = "predRel (map_of (li_predecessors ix))"
  have i: "i \<in> dom (map_of (li_proposals ix))"
    using assms(2) by (auto simp: root_def requireProposal_def split: if_splits)
  then have "(r, i) \<in> ?R\<^sup>*" using assms(2) by (simp add: root_iff [OF assms(1)])
  then have r: "r \<in> dom (map_of (li_proposals ix))" using lineage.path_nodes [OF assms(1)] i by blast
  have fin: "finite {d. (r, d) \<in> ?R\<^sup>+}" by (rule lineage.descendants_finite [OF assms(1)])
  have "r \<notin> {d. (r, d) \<in> ?R\<^sup>+}" using build_acyclic [OF assms(1)] by (auto simp: acyclic_def)
  then have "distinct (sorted_list_of_set {d. (r, d) \<in> ?R\<^sup>+} @ [r])" using fin by simp
  moreover have "set (sorted_list_of_set {d. (r, d) \<in> ?R\<^sup>+} @ [r]) = {m. (r, m) \<in> ?R\<^sup>*}"
    using fin by (auto simp: rtrancl_eq_or_trancl)
  ultimately show ?thesis
    using assms(2) descendants_eq [OF assms(1) r assms(3)] by (simp add: members_def sort_distinct_set)
qed

text \<open>Two proposals are members of one lineage when they have the same root.\<close>

lemma members_same_root:
  assumes "buildLineageIndex es = Inr ix" "root ix i = Inr r"
  shows "{m. (r, m) \<in> (predRel (map_of (li_predecessors ix)))\<^sup>*} = {m. root ix m = Inr r}"
proof -
  let ?R = "predRel (map_of (li_predecessors ix))"
  have i: "i \<in> dom (map_of (li_proposals ix))"
    using assms(2) by (auto simp: root_def requireProposal_def split: if_splits)
  then have r: "(r, i) \<in> ?R\<^sup>*" "map_of (li_predecessors ix) r = None"
    using assms(2) by (simp_all add: root_iff [OF assms(1)])
  then have rn: "r \<in> dom (map_of (li_proposals ix))" using lineage.path_nodes [OF assms(1)] i by blast
  have "(r, m) \<in> ?R\<^sup>* \<longleftrightarrow> root ix m = Inr r" for m
  proof
    assume "(r, m) \<in> ?R\<^sup>*"
    moreover from this have "m \<in> dom (map_of (li_proposals ix))"
      using lineage.path_nodes [OF assms(1)] rn by blast
    ultimately show "root ix m = Inr r" using r by (simp add: root_iff [OF assms(1)])
  next
    assume m: "root ix m = Inr r"
    then have "m \<in> dom (map_of (li_proposals ix))"
      by (auto simp: root_def requireProposal_def split: if_splits)
    with m show "(r, m) \<in> ?R\<^sup>*" by (simp add: root_iff [OF assms(1)])
  qed
  then show ?thesis by simp
qed

lemma lineageState_correct_aux:
  assumes "buildLineageIndex es = Inr ix" and "i \<in> st_ID ` set (proposalEvents es)"
    and "distinct (map st_ID es)"
  shows "\<exists>st. lineageState ix i = Inr st \<and>
    (ls_Merged st \<longleftrightarrow> mergesOf es i \<noteq> []) \<and>
    (ls_Superseded st \<longleftrightarrow> mergesOf es i = [] \<and>
       (\<exists>s \<in> set es. ev_Kind (st_Event s) = ''proposal.revise'' \<and> ev_Subject (st_Event s) = i)) \<and>
    (ls_LineageClosed st \<longleftrightarrow> (\<exists>m. m \<noteq> i \<and> root ix m = root ix i \<and> mergesOf es m \<noteq> [])) \<and>
    (ls_MergeConflict st \<longleftrightarrow> 1 < card {m. root ix m = root ix i \<and> mergesOf es m \<noteq> []})"
proof -
  have i: "i \<in> dom (map_of (li_proposals ix))" using assms by (simp add: build_proposals_dom)
  then obtain r where r: "root ix i = Inr r"
    using lineage.unique_root [OF assms(1), of i] root_iff [OF assms(1) i] by blast
  have req: "requireProposal ix i = Inr ()" using i by (auto simp: requireProposal_def)
  let ?M = "{m. root ix m = Inr r}"
  have mem: "members ix i = Inr (sorted_list_of_set ?M)"
    using members_eq [OF assms(1) r assms(3)] members_same_root [OF assms(1) r] by simp
  have "?M \<subseteq> dom (map_of (li_proposals ix))"
    by (auto simp: root_def requireProposal_def split: if_splits)
  then have fin: "finite ?M" using finite_dom_map_of finite_subset by blast
  have mg: "lookupList (li_mergeEventsByID ix) m = [] \<longleftrightarrow> mergesOf es m = []" for m
    by (metis build_merges [OF assms(1)] length_0_conv length_sort)
  have sc: "lookupList (li_successorsByID ix) i = [] \<longleftrightarrow> \<not> (\<exists>s \<in> set es.
      ev_Kind (st_Event s) = ''proposal.revise'' \<and> ev_Subject (st_Event s) = i)"
    by (subst length_0_conv [symmetric]) (simp add: build_successors [OF assms(1)] filter_empty_conv revisions_def)
  let ?cand = "filter (\<lambda>m. 0 < length (lookupList (li_mergeEventsByID ix) m)) (sorted_list_of_set ?M)"
  have cand: "set ?cand = {m. root ix m = root ix i \<and> mergesOf es m \<noteq> []}" "distinct ?cand"
    using fin r mg by auto
  have "length ?cand = card {m. root ix m = root ix i \<and> mergesOf es m \<noteq> []}"
    unfolding cand(1) [symmetric] by (rule distinct_card [OF cand(2), symmetric])
  moreover have "list_ex (\<lambda>m. m \<noteq> i) ?cand \<longleftrightarrow> (\<exists>m. m \<noteq> i \<and> root ix m = root ix i \<and> mergesOf es m \<noteq> [])"
    unfolding list_ex_iff cand(1) by blast
  moreover obtain sib where "siblings ix i = Inr sib"
    using req by (cases "map_of (li_predecessors ix) i") (simp_all add: siblings_def)
  ultimately show ?thesis
    using req r mem ancestors_eq [OF assms(1) i] descendants_eq [OF assms(1) i assms(3)] mg sc
    by (simp add: lineageState_def successors_def Let_def)
qed

section \<open>Properties\<close>

text \<open>
  C4. \<open>buildLineageIndex\<close> succeeds exactly when every revision and merge fact names an available
  proposal and no proposal is its own ancestor under the revisions.
\<close>

theorem buildLineageIndex_succeeds_iff:
  assumes "distinct (map st_ID es)"
  shows "is_ok (buildLineageIndex es) \<longleftrightarrow>
    (\<forall>s \<in> set es. (ev_Kind (st_Event s) = ''proposal.revise'' \<or> ev_Kind (st_Event s) = ''proposal.merged'') \<longrightarrow>
       (\<exists>t \<in> set es. isProposalKind (ev_Kind (st_Event t)) \<and> st_ID t = ev_Subject (st_Event s))) \<and>
    acyclic {(ev_Subject (st_Event s), st_ID s) | s. s \<in> set es \<and> ev_Kind (st_Event s) = ''proposal.revise''}"
    (is "?ok \<longleftrightarrow> ?avail \<and> acyclic ?E")
proof -
  let ?ix0 = "emptyLineageIndex\<lparr>li_proposals := indexProposals es\<rparr>"
  have "(x \<in> st_ID ` set (proposalEvents es)) =
      (\<exists>t \<in> set es. isProposalKind (ev_Kind (st_Event t)) \<and> st_ID t = x)" for x
    by (auto simp: proposalEvents_def)
  then have avail: "is_ok (linkEvents es ?ix0) \<longleftrightarrow> ?avail"
    by (simp add: linkEvents_ok_iff indexProposals_dom)
  have "is_ok (buildLineageIndex es) \<longleftrightarrow> acyclic ?E" if link: "linkEvents es ?ix0 = Inr ix" for ix
  proof -
    let ?kv = "\<lambda>s. (st_ID s, ev_Subject (st_Event s))"
    have pm: "map_of (li_predecessors ix) = map_of (rev (map ?kv (revisions es)))"
      using linkEvents_predecessors [OF link] by (simp add: emptyLineageIndex_def)
    have "map fst (rev (map ?kv (revisions es))) = rev (map st_ID (revisions es))"
      by (simp add: rev_map comp_def)
    then have "distinct (map fst (rev (map ?kv (revisions es))))"
      using distinct_map_filter [OF assms] by (simp only: distinct_rev revisions_def)
    then have E: "predRel (map_of (li_predecessors ix)) = ?E"
      unfolding pm predRel_def by (subst map_of_eq_Some_iff) (auto simp: revisions_def)
    have "dom (map_of (li_predecessors (sortIndex ix))) = st_ID ` set (revisions es)"
      by (force simp: sortIndex_def pm dom_map_of_conv_image_fst)
    then have "dom (map_of (li_predecessors (sortIndex ix))) \<subseteq> dom (map_of (li_proposals (sortIndex ix)))"
      using revisions_proposals [of es]
      by (simp add: sortIndex_def linkEvents_proposals [OF link] indexProposals_dom image_mono)
    then have "validateAcyclic (sortIndex ix) = Inr () \<longleftrightarrow> acyclic ?E"
      by (simp add: validateAcyclic_iff) (simp add: sortIndex_def E)
    then show ?thesis
      using link by (cases "validateAcyclic (sortIndex ix)") (auto simp: buildLineageIndex_def)
  qed
  then show ?thesis
    using avail by (cases "linkEvents es ?ix0") (auto simp: buildLineageIndex_def)
qed

text \<open>
  C7. On a built index \<open>root\<close> never reports a cycle: it returns the proposal from which the queried
  one descends and which itself revises nothing.
\<close>

theorem root_correct:
  assumes "buildLineageIndex es = Inr ix" and "i \<in> st_ID ` set (proposalEvents es)"
  shows "\<exists>r. root ix i = Inr r \<and> (r, i) \<in> (predRel (map_of (li_predecessors ix)))\<^sup>* \<and>
    map_of (li_predecessors ix) r = None"
proof -
  have i: "i \<in> dom (map_of (li_proposals ix))" using assms by (simp add: build_proposals_dom)
  then show ?thesis
    using lineage.unique_root [OF assms(1), of i] root_iff [OF assms(1) i] by blast
qed

text \<open>
  On a built index \<open>ancestors\<close> and \<open>descendants\<close> return, sorted and without duplicates, exactly
  the proposals from which the queried one was revised and those revised from it.
\<close>

theorem ancestors_descendants_correct:
  assumes "buildLineageIndex es = Inr ix" and "i \<in> st_ID ` set (proposalEvents es)"
    and "distinct (map st_ID es)"
  shows "ancestors ix i = Inr (sorted_list_of_set {a. (a, i) \<in> (predRel (map_of (li_predecessors ix)))\<^sup>+}) \<and>
    descendants ix i = Inr (sorted_list_of_set {d. (i, d) \<in> (predRel (map_of (li_predecessors ix)))\<^sup>+})"
  using assms ancestors_eq descendants_eq by (simp add: build_proposals_dom)

text \<open>
  \<open>members\<close> returns, sorted, exactly the proposals with the same root as the queried one, so all
  members of a lineage see the same member list.
\<close>

theorem members_correct:
  assumes "buildLineageIndex es = Inr ix" and "i \<in> st_ID ` set (proposalEvents es)"
    and "distinct (map st_ID es)"
  shows "members ix i = Inr (sorted_list_of_set {m. root ix m = root ix i})"
proof -
  have i: "i \<in> dom (map_of (li_proposals ix))" using assms by (simp add: build_proposals_dom)
  then obtain r where r: "root ix i = Inr r"
    using lineage.unique_root [OF assms(1), of i] root_iff [OF assms(1) i] by blast
  then show ?thesis using members_eq [OF assms(1) r assms(3)] members_same_root [OF assms(1) r] by simp
qed

text \<open>
  C5. The derived state of a proposal in a built index: it is merged when some merge fact names it,
  superseded when it is not merged and has a revision, closed when another member of its lineage is
  merged, and the lineage is in conflict when at least two members are merged.
\<close>

theorem lineageState_correct:
  assumes "buildLineageIndex es = Inr ix" and "i \<in> st_ID ` set (proposalEvents es)"
    and "distinct (map st_ID es)"
  shows "\<exists>st. lineageState ix i = Inr st \<and>
    (ls_Merged st \<longleftrightarrow> mergesOf es i \<noteq> []) \<and>
    (ls_Superseded st \<longleftrightarrow> mergesOf es i = [] \<and>
       (\<exists>s \<in> set es. ev_Kind (st_Event s) = ''proposal.revise'' \<and> ev_Subject (st_Event s) = i)) \<and>
    (ls_LineageClosed st \<longleftrightarrow> (\<exists>m. m \<noteq> i \<and> root ix m = root ix i \<and> mergesOf es m \<noteq> [])) \<and>
    (ls_MergeConflict st \<longleftrightarrow> 1 < card {m. root ix m = root ix i \<and> mergesOf es m \<noteq> []})"
  using lineageState_correct_aux [OF assms] .

text \<open>
  C6. A decision, merge or automerge passes the lineage gate exactly when no other member of the
  lineage is merged and the proposal is not superseded: a lineage is merged at most at one member.
\<close>

theorem terminal_eligibility_correct:
  assumes "buildLineageIndex es = Inr ix" and "i \<in> st_ID ` set (proposalEvents es)"
    and "distinct (map st_ID es)" and "lineageState ix i = Inr st"
  shows "requireLineageTerminalEligibility operation i st = Inr () \<longleftrightarrow>
    (\<forall>m. m \<noteq> i \<longrightarrow> root ix m = root ix i \<longrightarrow> mergesOf es m = []) \<and>
    (mergesOf es i \<noteq> [] \<or>
      (\<forall>s \<in> set es. ev_Kind (st_Event s) = ''proposal.revise'' \<longrightarrow> ev_Subject (st_Event s) \<noteq> i))"
    (is "_ \<longleftrightarrow> ?others \<and> ?open")
proof -
  let ?M = "{m. root ix m = root ix i \<and> mergesOf es m \<noteq> []}"
  have st: "(ls_Superseded st \<longleftrightarrow> \<not> ?open)" "(ls_LineageClosed st \<longleftrightarrow> \<not> ?others)"
    "(ls_MergeConflict st \<longleftrightarrow> 1 < card ?M)"
    using lineageState_correct_aux [OF assms(1-3)] assms(4) by auto
  have "card ?M \<le> 1" if ?others
  proof -
    have "?M \<subseteq> {i}" using that by auto
    then show ?thesis by (metis card.empty card_insert_disjoint card_mono finite.emptyI finite_insert empty_iff One_nat_def)
  qed
  then have "\<not> ?others \<or> \<not> 1 < card ?M" by (meson not_less)
  then show ?thesis unfolding requireLineageTerminalEligibility_def Let_def using st by simp blast
qed

section \<open>Concrete instances\<close>

text \<open>A proposal \<open>p\<close> with two revisions \<open>q\<close> and \<open>r\<close>, of which \<open>q\<close> is merged.\<close>

definition sampleLineage :: "StoredEvent list" where
  "sampleLineage = [sampleFact ''p'' ''proposal.open'' ''ann'' 1 [] [],
     sampleFact ''q'' ''proposal.revise'' ''ann'' 2 ''p'' ''p'',
     sampleFact ''r'' ''proposal.revise'' ''bob'' 1 [] ''p'',
     sampleFact ''m'' ''proposal.merged'' ''ann'' 3 ''q'' ''q'']"

lemma sampleLineage_build: "\<exists>ix. buildLineageIndex sampleLineage = Inr ix"
proof -
  have "is_ok (buildLineageIndex sampleLineage)" by code_simp
  then show ?thesis by (elim is_okE) blast
qed

lemma sampleLineage_ids: "distinct (map st_ID sampleLineage)"
  "st_ID ` set (proposalEvents sampleLineage) = {''p'', ''q'', ''r''}"
  by (simp_all add: sampleLineage_def sampleFact_def proposalEvents_def isProposalKind_def zeroEvent_def)

lemma sampleLineage_p: "mergesOf sampleLineage ''p'' = []"
  "\<exists>s \<in> set sampleLineage. ev_Kind (st_Event s) = ''proposal.revise'' \<and> ev_Subject (st_Event s) = ''p''"
proof -
  show "mergesOf sampleLineage ''p'' = []" by code_simp
  have "sampleFact ''q'' ''proposal.revise'' ''ann'' 2 ''p'' ''p'' \<in> set sampleLineage"
    by (simp add: sampleLineage_def)
  then show "\<exists>s \<in> set sampleLineage. ev_Kind (st_Event s) = ''proposal.revise'' \<and> ev_Subject (st_Event s) = ''p''"
    by (rule rev_bexI) (simp add: sampleFact_def)
qed

theorem buildLineageIndex_succeeds_iff_witness:
  "is_ok (buildLineageIndex sampleLineage) \<and>
   acyclic {(ev_Subject (st_Event s), st_ID s) | s. s \<in> set sampleLineage \<and> ev_Kind (st_Event s) = ''proposal.revise''}"
  using buildLineageIndex_succeeds_iff [OF sampleLineage_ids(1)] sampleLineage_build by auto

theorem root_correct_witness:
  "\<exists>ix r. buildLineageIndex sampleLineage = Inr ix \<and> root ix ''q'' = Inr r \<and>
     (r, ''q'') \<in> (predRel (map_of (li_predecessors ix)))\<^sup>* \<and> map_of (li_predecessors ix) r = None"
proof -
  obtain ix where ix: "buildLineageIndex sampleLineage = Inr ix" using sampleLineage_build ..
  then show ?thesis using root_correct [OF ix, of "''q''"] by (auto simp: sampleLineage_ids)
qed

theorem ancestors_descendants_correct_witness:
  "\<exists>ix. buildLineageIndex sampleLineage = Inr ix \<and>
     descendants ix ''p'' = Inr (sorted_list_of_set {d. (''p'', d) \<in> (predRel (map_of (li_predecessors ix)))\<^sup>+})"
proof -
  obtain ix where ix: "buildLineageIndex sampleLineage = Inr ix" using sampleLineage_build ..
  then show ?thesis
    using ancestors_descendants_correct [OF ix _ sampleLineage_ids(1), of "''p''"] by (auto simp: sampleLineage_ids(2))
qed

theorem members_correct_witness:
  "\<exists>ix. buildLineageIndex sampleLineage = Inr ix \<and>
     members ix ''r'' = Inr (sorted_list_of_set {m. root ix m = root ix ''r''})"
proof -
  obtain ix where ix: "buildLineageIndex sampleLineage = Inr ix" using sampleLineage_build ..
  then show ?thesis
    using members_correct [OF ix _ sampleLineage_ids(1), of "''r''"] by (auto simp: sampleLineage_ids(2))
qed

theorem lineageState_correct_witness:
  "\<exists>ix st. buildLineageIndex sampleLineage = Inr ix \<and> lineageState ix ''p'' = Inr st \<and>
     \<not> ls_Merged st \<and> ls_Superseded st"
proof -
  obtain ix where ix: "buildLineageIndex sampleLineage = Inr ix" using sampleLineage_build ..
  show ?thesis
    using sampleLineage_p ix lineageState_correct [OF ix _ sampleLineage_ids(1), of "''p''"] by (auto simp: sampleLineage_ids(2))
qed

theorem terminal_eligibility_correct_witness:
  "\<exists>ix st. buildLineageIndex sampleLineage = Inr ix \<and> lineageState ix ''p'' = Inr st \<and>
     requireLineageTerminalEligibility ''merge'' ''p'' st \<noteq> Inr ()"
proof -
  obtain ix where ix: "buildLineageIndex sampleLineage = Inr ix" using sampleLineage_build ..
  obtain st where st: "lineageState ix ''p'' = Inr st"
    using lineageState_correct_aux [OF ix _ sampleLineage_ids(1), of "''p''"] by (auto simp: sampleLineage_ids(2))
  show ?thesis
    using sampleLineage_p ix st terminal_eligibility_correct [OF ix _ sampleLineage_ids(1) st, of "''merge''"]
    by (auto simp: sampleLineage_ids(2))
qed

end
