(* ===== verification/HN_Issue_Model.thy ===== *)
theory HN_Issue_Model
  imports HN_Event
begin

text \<open>
  The descriptive state of an issue (\<open>src/issue_model.go\<close>): its bounds, its canonical form, the digest
  that binds the content of a request, and the shape of the three kinds of issue facts.
\<close>

section \<open>Definitions\<close>

definition maxIssuePayload :: nat where
  "maxIssuePayload = 256 * 1024"

definition maxIssueParents :: nat where
  "maxIssueParents = 200"

definition issueText :: "string \<Rightarrow> nat \<Rightarrow> bool \<Rightarrow> bool" where
  "issueText v limit required \<longleftrightarrow> length v \<le> limit \<and> validUtf8 v \<and> (\<not> required \<or> trimSpace v \<noteq> [])"

definition issueIdentifier :: "string \<Rightarrow> nat \<Rightarrow> bool" where
  "issueIdentifier v limit \<longleftrightarrow> issueText v limit True \<and> \<not> containsControl v"

text \<open>The loop over the criteria, with the set \<open>seen\<close> of their identifiers.\<close>

fun checkCriteria :: "string list \<Rightarrow> IssueCriterion list \<Rightarrow> unit result" where
  "checkCriteria seen [] = Inr ()"
| "checkCriteria seen (c # cs) =
     (if \<not> issueIdentifier (cr_ID c) 64 \<or> \<not> issueText (cr_Text c) 4096 True \<or> cr_ID c \<in> set seen
      then errorf ''invalid or duplicate issue criterion %q'' [cr_ID c]
      else checkCriteria (cr_ID c # seen) cs)"

text \<open>
  The loops over a sorted slice that compare each element with the one before (\<open>values[i-1]\<close>); the
  first has none.
\<close>

fun checkAdjacent :: "('a \<Rightarrow> bool) \<Rightarrow> go_error \<Rightarrow> 'a option \<Rightarrow> 'a list \<Rightarrow> unit result" where
  "checkAdjacent valid e prev [] = Inr ()"
| "checkAdjacent valid e prev (x # xs) =
     (if \<not> valid x \<or> prev = Some x then Inl e else checkAdjacent valid e (Some x) xs)"

definition validRelation :: "IssueRelation \<Rightarrow> bool" where
  "validRelation r \<longleftrightarrow> (rel_Kind r = ''blocks'' \<or> rel_Kind r = ''related'' \<or> rel_Kind r = ''parent'') \<and>
     validEventID (rel_Target r)"

definition relKey :: "IssueRelation \<Rightarrow> string \<times> string" where
  "relKey r = (rel_Kind r, rel_Target r)"

definition checkMetadata :: "string \<times> string \<Rightarrow> unit result" where
  "checkMetadata kv = (case kv of (k, v) \<Rightarrow> (case cut k CHR ''/'' of (prefix, name, found) \<Rightarrow>
     if \<not> found \<or> \<not> issueIdentifier prefix 128 \<or> \<not> issueIdentifier name 128 \<or>
        \<not> issueIdentifier k 128 \<or> \<not> issueText v 4096 False
     then errorf ''issue metadata requires bounded namespaced keys and string values'' [] else Inr ()))"

text \<open>
  \<open>append([]T{}, xs...)\<close> gives a slice that is never nil, and the metadata map is made afresh.
\<close>

definition canonicalCopy :: "IssueState \<Rightarrow> IssueState" where
  "canonicalCopy input = input\<lparr>
     is_Criteria := Some (elems (is_Criteria input)),
     is_Labels := Some (sort (elems (is_Labels input))),
     is_Assignees := Some (sort (elems (is_Assignees input))),
     is_Relations := Some (sort_key relKey (elems (is_Relations input))),
     is_Metadata := Some (elems (is_Metadata input))\<rparr>"

definition CanonicalIssueState :: "IssueState \<Rightarrow> IssueState result" where
  "CanonicalIssueState input =
     (if \<not> issueText (is_Title input) 1024 True \<or> \<not> issueText (is_Body input) 65536 False \<or>
         (is_Status input \<noteq> ''open'' \<and> is_Status input \<noteq> ''closed'')
      then errorf ''issue requires title (1..1024 bytes), body <=65536 bytes and open/closed status'' []
      else if length (elems (is_Criteria input)) > 64 \<or> length (elems (is_Labels input)) > 64 \<or>
         length (elems (is_Assignees input)) > 64 \<or> length (elems (is_Relations input)) > 128 \<or>
         length (elems (is_Metadata input)) > 64
      then errorf ''issue collection limit exceeded'' []
      else let res = canonicalCopy input in
        rbind (checkCriteria [] (elems (is_Criteria res))) (\<lambda>_.
        rbind (forEach (checkAdjacent (\<lambda>v. issueIdentifier v 256)
                 (Errorf ''invalid or duplicate issue label/assignee'' []) None)
               [elems (is_Labels res), elems (is_Assignees res)]) (\<lambda>_.
        rbind (checkAdjacent validRelation (Errorf ''invalid or duplicate issue relation'' []) None
               (elems (is_Relations res))) (\<lambda>_.
        rbind (forEach checkMetadata (elems (is_Metadata input))) (\<lambda>_.
        if length (marshal (jsonIssueState res)) > maxIssuePayload
        then errorf ''issue state exceeds %d bytes'' [decimal maxIssuePayload]
        else Inr res)))))"

definition hasIssueFields :: "Event \<Rightarrow> bool" where
  "hasIssueFields e \<longleftrightarrow> ev_Issue e \<noteq> None \<or> length (elems (ev_Parents e)) > 0 \<or> ev_Operation e \<noteq> [] \<or>
     ev_Request e \<noteq> [] \<or> ev_Intent e \<noteq> []"

text \<open>The digest of what a request asks for: actor, key, time and position are not part of it.\<close>

definition issueRequestInput :: "Event \<Rightarrow> IssueState option \<Rightarrow> json" where
  "issueRequestInput e state = JObj [
     (''intent'', JStr (ev_Intent e)), (''kind'', JStr (ev_Kind e)), (''subject'', JStr (ev_Subject e)),
     (''parents'', JArr (map JStr (sort (elems (ev_Parents e))))),
     (''issue'', case state of None \<Rightarrow> JNull | Some s \<Rightarrow> jsonIssueState s),
     (''title'', JStr (ev_Title e)), (''body'', JStr (ev_Body e))]"

definition IssueRequestDigest :: "host \<Rightarrow> Event \<Rightarrow> string result" where
  "IssueRequestDigest h e =
     rbind (case ev_Issue e of None \<Rightarrow> Inr None
            | Some s \<Rightarrow> rbind (CanonicalIssueState s) (\<lambda>c. Inr (Some c))) (\<lambda>state.
     let encoded = marshal (issueRequestInput e state) in
     if length encoded > maxIssuePayload
     then errorf ''issue request exceeds %d bytes'' [decimal maxIssuePayload]
     else Inr (eventID h encoded))"

text \<open>The parents of a revision: full identifiers, each greater than the one before.\<close>

fun checkParents :: "go_error \<Rightarrow> string option \<Rightarrow> string list \<Rightarrow> unit result" where
  "checkParents e prev [] = Inr ()"
| "checkParents e prev (p # ps) =
     (if \<not> validEventID p \<or> (case prev of None \<Rightarrow> False | Some q \<Rightarrow> q \<ge> p) then Inl e
      else checkParents e (Some p) ps)"

definition printableKey :: "string \<Rightarrow> bool" where
  "printableKey key \<longleftrightarrow> list_all (\<lambda>(r, _). \<not> (r < 33 \<or> r > 126)) (runes key)"

definition checkIssueShape :: "Event \<Rightarrow> unit result" where
  "checkIssueShape e =
     (if ev_Kind e = ''issue.open'' \<and> (length (elems (ev_Parents e)) > 0 \<or> ev_Subject e \<noteq> [])
      then errorf ''issue opening cannot have parents or subject'' []
      else if ev_Kind e = ''issue.open'' \<and> (case ev_Issue e of None \<Rightarrow> False
           | Some s \<Rightarrow> ev_Title e \<noteq> is_Title s \<or> ev_Body e \<noteq> is_Body s)
      then errorf ''issue opening title/body differ from state'' []
      else if ev_Kind e = ''issue.comment'' \<and> (ev_Issue e \<noteq> None \<or> length (elems (ev_Parents e)) > 0)
      then errorf ''issue comment cannot contain state or parents'' []
      else if ev_Kind e = ''issue.revise'' then
        (if \<not> validEventID (ev_Subject e) \<or> ev_Issue e = None \<or> ev_Title e \<noteq> [] \<or> ev_Body e \<noteq> [] \<or>
            length (elems (ev_Parents e)) = 0 \<or> length (elems (ev_Parents e)) > maxIssueParents
         then errorf ''issue revision requires root, full state and 1..200 parents only'' []
         else checkParents (Errorf ''issue revision parents must be sorted unique full IDs'' []) None
                (elems (ev_Parents e)))
      else Inr ())"

definition checkOperation :: "Event \<Rightarrow> unit result" where
  "checkOperation e =
     (if ev_Operation e \<noteq> [] \<or> ev_Request e \<noteq> [] then
        (if length (ev_Operation e) = 0 \<or> length (ev_Operation e) > 128 \<or> \<not> validEventID (ev_Request e)
         then errorf ''issue operation requires key and request digest together'' []
         else if \<not> printableKey (ev_Operation e)
         then errorf ''issue operation key must be printable non-whitespace ASCII'' []
         else Inr ())
      else Inr ())"

definition checkIntent :: "Event \<Rightarrow> unit result" where
  "checkIntent e =
     (if ev_Intent e = ''open'' then
        (if ev_Kind e \<noteq> ''issue.open'' then errorf ''open intent requires issue.open'' [] else Inr ())
      else if ev_Intent e = ''comment'' then
        (if ev_Kind e \<noteq> ''issue.comment'' then errorf ''comment intent requires issue.comment'' [] else Inr ())
      else if ev_Intent e = ''revise'' \<or> ev_Intent e = ''resolve'' \<or> ev_Intent e = ''close'' \<or> ev_Intent e = ''reopen'' then
        (if ev_Kind e \<noteq> ''issue.revise'' then errorf ''revision intent requires issue.revise'' []
         else case ev_Issue e of None \<Rightarrow> nilDereference | Some s \<Rightarrow>
           if (ev_Intent e = ''close'' \<and> is_Status s \<noteq> ''closed'') \<or> (ev_Intent e = ''reopen'' \<and> is_Status s \<noteq> ''open'')
           then errorf ''lifecycle intent does not match issue status'' []
           else if ev_Intent e \<noteq> ''resolve'' \<and> length (elems (ev_Parents e)) \<noteq> 1
           then errorf ''ordinary revision requires exactly one parent'' []
           else if ev_Intent e = ''resolve'' \<and> length (elems (ev_Parents e)) < 2
           then errorf ''resolution requires at least two parents'' []
           else Inr ())
      else errorf ''rich issue requires a valid signed intent'' [])"

definition validateIssueEvent :: "host \<Rightarrow> Event \<Rightarrow> unit result" where
  "validateIssueEvent h e =
     (if \<not> isIssueKind (ev_Kind e) then
        (if isResourceKind (ev_Kind e) then
           (if ev_Issue e \<noteq> None then errorf ''issue state is not allowed on resource events'' [] else Inr ())
         else if hasIssueFields e then errorf ''issue fields are not allowed on %s'' [ev_Kind e] else Inr ())
      else if \<not> (hasIssueFields e \<or> ev_Kind e = ''issue.revise'') then Inr ()
      else
        rbind (checkIssueShape e) (\<lambda>_.
        rbind (case ev_Issue e of None \<Rightarrow> Inr () | Some s \<Rightarrow> rbind (CanonicalIssueState s) (\<lambda>_. Inr ())) (\<lambda>_.
        if \<not> issueText (ev_Title e) 1024 False \<or> \<not> issueText (ev_Body e) 65536 False
        then errorf ''issue title/body limit exceeded'' []
        else
        rbind (checkOperation e) (\<lambda>_.
        rbind (checkIntent e) (\<lambda>_.
        rbind (if ev_Operation e \<noteq> [] then
                 rbind (IssueRequestDigest h e) (\<lambda>digest.
                   if digest \<noteq> ev_Request e
                   then errorf ''issue operation request digest does not match signed content'' [] else Inr ())
               else Inr ()) (\<lambda>_.
        if length (marshal (jsonEvent e)) > maxIssuePayload
        then errorf ''issue payload exceeds %d bytes'' [decimal maxIssuePayload]
        else Inr ()))))))"

section \<open>What the loops accept\<close>

lemma checkCriteria_ok: "checkCriteria seen cs = Inr () \<longleftrightarrow>
    (\<forall>c \<in> set cs. issueIdentifier (cr_ID c) 64 \<and> issueText (cr_Text c) 4096 True) \<and>
    distinct (map cr_ID cs) \<and> set (map cr_ID cs) \<inter> set seen = {}"
  by (induction seen cs rule: checkCriteria.induct) auto

lemma checkAdjacent_ok: "checkAdjacent valid e prev xs = Inr () \<longleftrightarrow>
    (\<forall>x \<in> set xs. valid x) \<and> distinct_adj ((case prev of None \<Rightarrow> [] | Some p \<Rightarrow> [p]) @ xs)"
  by (induction valid e prev xs rule: checkAdjacent.induct)
    (auto split: option.splits simp: distinct_adj_Cons)

lemma checkAdjacent_error: "checkAdjacent valid e prev xs = Inr () \<or> checkAdjacent valid e prev xs = Inl e"
  by (induction valid e prev xs rule: checkAdjacent.induct) auto

lemma sorted_distinct_adj:
  assumes "inj_on f (set xs)" "sorted (map f xs)" "distinct_adj xs"
  shows "distinct xs"
  using assms
proof (induction xs)
  case (Cons x xs)
  then have IH: "distinct xs" by (auto simp: distinct_adj_Cons)
  have "x \<notin> set xs"
  proof
    assume x: "x \<in> set xs"
    then obtain y ys where xs: "xs = y # ys" by (cases xs) auto
    then have "f x \<le> f y" "f y \<le> f x" "x \<noteq> y" using x Cons.prems by (auto simp: distinct_adj_Cons)
    then show False using Cons.prems(1) xs by (auto simp: inj_on_def)
  qed
  with IH show ?case by simp
qed simp

lemma distinct_imp_adj: "distinct xs \<Longrightarrow> distinct_adj xs"
  by (induction xs) (auto simp: distinct_adj_Cons)

lemma inj_relKey: "inj_on relKey A"
  by (rule inj_onI) (auto simp: relKey_def)

lemma checkAdjacent_sort:
  assumes "inj_on f (set xs)"
  shows "checkAdjacent valid e None (sort_key f xs) = Inr () \<longleftrightarrow> (\<forall>x \<in> set xs. valid x) \<and> distinct xs"
proof -
  have "inj_on f (set (sort_key f xs))" "sorted (map f (sort_key f xs))" using assms by simp_all
  then have "distinct_adj (sort_key f xs) \<longleftrightarrow> distinct xs"
    using sorted_distinct_adj distinct_imp_adj by (metis distinct_sort)
  then show ?thesis by (simp add: checkAdjacent_ok)
qed

lemma checkParents_ok: "checkParents e prev ps = Inr () \<longleftrightarrow>
    (\<forall>p \<in> set ps. validEventID p) \<and> strictSorted ((case prev of None \<Rightarrow> [] | Some q \<Rightarrow> [q]) @ ps)"
  by (induction e prev ps rule: checkParents.induct) (auto split: option.splits simp: not_le)

section \<open>The canonical form\<close>

text \<open>When a state is accepted, said without the loops.\<close>

definition validIssueState :: "IssueState \<Rightarrow> bool" where
  "validIssueState s \<longleftrightarrow>
     issueText (is_Title s) 1024 True \<and> issueText (is_Body s) 65536 False \<and> is_Status s \<in> {''open'', ''closed''} \<and>
     length (elems (is_Criteria s)) \<le> 64 \<and> length (elems (is_Labels s)) \<le> 64 \<and>
     length (elems (is_Assignees s)) \<le> 64 \<and> length (elems (is_Relations s)) \<le> 128 \<and>
     length (elems (is_Metadata s)) \<le> 64 \<and>
     (\<forall>c \<in> set (elems (is_Criteria s)). issueIdentifier (cr_ID c) 64 \<and> issueText (cr_Text c) 4096 True) \<and>
     distinct (map cr_ID (elems (is_Criteria s))) \<and>
     (\<forall>v \<in> set (elems (is_Labels s)) \<union> set (elems (is_Assignees s)). issueIdentifier v 256) \<and>
     distinct (elems (is_Labels s)) \<and> distinct (elems (is_Assignees s)) \<and>
     (\<forall>r \<in> set (elems (is_Relations s)). validRelation r) \<and> distinct (elems (is_Relations s)) \<and>
     (\<forall>kv \<in> set (elems (is_Metadata s)). checkMetadata kv = Inr ()) \<and>
     length (marshal (jsonIssueState (canonicalCopy s))) \<le> maxIssuePayload"

lemma canonicalCopy_fields [simp]:
  "is_Title (canonicalCopy s) = is_Title s" "is_Body (canonicalCopy s) = is_Body s"
  "is_Status (canonicalCopy s) = is_Status s"
  "elems (is_Criteria (canonicalCopy s)) = elems (is_Criteria s)"
  "elems (is_Labels (canonicalCopy s)) = sort (elems (is_Labels s))"
  "elems (is_Assignees (canonicalCopy s)) = sort (elems (is_Assignees s))"
  "elems (is_Relations (canonicalCopy s)) = sort_key relKey (elems (is_Relations s))"
  "elems (is_Metadata (canonicalCopy s)) = elems (is_Metadata s)"
  by (simp_all add: canonicalCopy_def)

lemma CanonicalIssueState_iff:
  "CanonicalIssueState s = Inr t \<longleftrightarrow> validIssueState s \<and> t = canonicalCopy s"
  by (auto simp: CanonicalIssueState_def validIssueState_def Let_def rbind_eq_Inr checkCriteria_ok
      checkAdjacent_sort checkAdjacent_sort [where f = "\<lambda>x. x"] inj_relKey forEach_ok_iff not_le [symmetric]
      simp del: forEach.simps split: if_splits)

lemma canonicalCopy_idem: "canonicalCopy (canonicalCopy s) = canonicalCopy s"
  by (simp add: canonicalCopy_def sorted_sort_id sort_key_id_if_sorted)

lemma validIssueState_copy: "validIssueState (canonicalCopy s) = validIssueState s"
  by (simp add: validIssueState_def canonicalCopy_idem)


section \<open>Requests that ask for the same\<close>

text \<open>
  Two states that differ only in the order of labels, assignees and relations and in the order in
  which their metadata is kept.
\<close>

definition sameIssue :: "IssueState \<Rightarrow> IssueState \<Rightarrow> bool" where
  "sameIssue s t \<longleftrightarrow> is_Title s = is_Title t \<and> is_Body s = is_Body t \<and> is_Status s = is_Status t \<and>
     elems (is_Criteria s) = elems (is_Criteria t) \<and>
     mset (elems (is_Labels s)) = mset (elems (is_Labels t)) \<and>
     mset (elems (is_Assignees s)) = mset (elems (is_Assignees t)) \<and>
     mset (elems (is_Relations s)) = mset (elems (is_Relations t)) \<and>
     mset (elems (is_Metadata s)) = mset (elems (is_Metadata t)) \<and>
     distinct (map fst (elems (is_Metadata s)))"

lemma sameIssue_json:
  assumes "sameIssue s t"
  shows "jsonIssueState (canonicalCopy s) = jsonIssueState (canonicalCopy t)"
proof -
  have "sort (elems (is_Labels s)) = sort (elems (is_Labels t))"
    "sort (elems (is_Assignees s)) = sort (elems (is_Assignees t))"
    using assms by (simp_all add: sameIssue_def sort_eq_iff_mset)
  moreover have "sort_key relKey (elems (is_Relations s)) = sort_key relKey (elems (is_Relations t))"
    using assms by (intro sort_key_perm) (simp_all add: sameIssue_def inj_relKey)
  moreover have "sort_key fst (elems (is_Metadata s)) = sort_key fst (elems (is_Metadata t))"
    using assms by (intro sort_key_perm) (simp_all add: sameIssue_def distinct_map)
  ultimately show ?thesis
    using assms by (simp add: sameIssue_def jsonIssueState_def canonicalCopy_def jsonStrMap_def)
qed

lemma mset_perm_facts:
  "mset xs = mset ys \<Longrightarrow> set xs = set ys \<and> length xs = length ys \<and> distinct xs = distinct ys"
  using mset_eq_setD mset_eq_length mset_eq_imp_distinct_iff by blast

lemma sameIssue_valid:
  assumes "sameIssue s t"
  shows "validIssueState s = validIssueState t"
proof -
  note perms = mset_perm_facts [of "elems (is_Labels s)" "elems (is_Labels t)"]
    mset_perm_facts [of "elems (is_Assignees s)" "elems (is_Assignees t)"]
    mset_perm_facts [of "elems (is_Relations s)" "elems (is_Relations t)"]
    mset_perm_facts [of "elems (is_Metadata s)" "elems (is_Metadata t)"]
  show ?thesis
    using assms perms by (simp add: validIssueState_def sameIssue_json sameIssue_def)
qed

lemma IssueRequestDigest_iff: "IssueRequestDigest h e = Inr d \<longleftrightarrow>
    (case ev_Issue e of None \<Rightarrow> True | Some s \<Rightarrow> validIssueState s) \<and>
    (let encoded = marshal (issueRequestInput e (map_option canonicalCopy (ev_Issue e)))
     in length encoded \<le> maxIssuePayload \<and> d = eventID h encoded)"
  by (cases "ev_Issue e")
    (auto simp: IssueRequestDigest_def rbind_eq_Inr CanonicalIssueState_iff Let_def split: if_splits)

section \<open>Properties\<close>

text \<open>
  Canonicalising an accepted issue state again changes nothing, its sets are strictly sorted and
  no element is added, dropped or changed; the order of the criteria is kept.
\<close>

theorem CanonicalIssueState_canonical:
  assumes "CanonicalIssueState s = Inr t"
  shows "CanonicalIssueState t = Inr t \<and>
    strictSorted (elems (is_Labels t)) \<and> set (elems (is_Labels t)) = set (elems (is_Labels s)) \<and>
    strictSorted (elems (is_Assignees t)) \<and> set (elems (is_Assignees t)) = set (elems (is_Assignees s)) \<and>
    strictSorted (map relKey (elems (is_Relations t))) \<and> set (elems (is_Relations t)) = set (elems (is_Relations s)) \<and>
    elems (is_Criteria t) = elems (is_Criteria s) \<and> map_of (elems (is_Metadata t)) = map_of (elems (is_Metadata s))"
proof -
  have v: "validIssueState s" and t: "t = canonicalCopy s" using assms by (simp_all add: CanonicalIssueState_iff)
  then have "distinct (elems (is_Labels s))" "distinct (elems (is_Assignees s))" "distinct (elems (is_Relations s))"
    by (simp_all add: validIssueState_def)
  moreover from this(3) have "distinct (map relKey (elems (is_Relations s)))"
    by (simp add: distinct_map inj_relKey)
  then have "distinct (map relKey (sort_key relKey (elems (is_Relations s))))"
    by (simp add: distinct_map)
  ultimately show ?thesis
    using v by (simp add: t CanonicalIssueState_iff canonicalCopy_idem validIssueState_copy strictSorted_iff strict_sorted_iff)
qed

text \<open>
  The request digest of an issue operation depends only on what is asked for: reordering the
  labels, assignees, relations, metadata or parents, and any change of actor, position, time,
  operation key or claimed digest, leaves it unchanged.
\<close>

theorem IssueRequestDigest_semantic:
  assumes "ev_Intent e = ev_Intent e'" "ev_Kind e = ev_Kind e'" "ev_Subject e = ev_Subject e'"
    and "ev_Title e = ev_Title e'" "ev_Body e = ev_Body e'"
    and "mset (elems (ev_Parents e)) = mset (elems (ev_Parents e'))"
    and "rel_option sameIssue (ev_Issue e) (ev_Issue e')"
  shows "IssueRequestDigest h e = Inr d \<longleftrightarrow> IssueRequestDigest h e' = Inr d"
proof -
  have "sort (elems (ev_Parents e)) = sort (elems (ev_Parents e'))"
    using assms(6) by (simp add: sort_eq_iff_mset)
  moreover have "(case ev_Issue e of None \<Rightarrow> True | Some s \<Rightarrow> validIssueState s) \<longleftrightarrow>
      (case ev_Issue e' of None \<Rightarrow> True | Some s \<Rightarrow> validIssueState s)"
    using assms(7) by (cases rule: option.rel_cases) (simp_all add: sameIssue_valid)
  moreover have "(case map_option canonicalCopy (ev_Issue e) of None \<Rightarrow> JNull | Some s \<Rightarrow> jsonIssueState s) =
      (case map_option canonicalCopy (ev_Issue e') of None \<Rightarrow> JNull | Some s \<Rightarrow> jsonIssueState s)"
    using assms(7) by (cases rule: option.rel_cases) (simp_all add: sameIssue_json)
  ultimately show ?thesis
    using assms(1-5) by (simp add: IssueRequestDigest_iff issueRequestInput_def)
qed

text \<open>
  An accepted issue revision names its root, between one and 200 strictly increasing parents,
  exactly one unless it resolves diverging heads (then at least two), a valid complete state, and a
  status that agrees with a closing or reopening intent.
\<close>

theorem validateIssueEvent_revision:
  assumes "validateIssueEvent h e = Inr ()" and "ev_Kind e = ''issue.revise''"
  shows "\<exists>s. ev_Issue e = Some s \<and> validIssueState s \<and> validEventID (ev_Subject e) \<and>
    strictSorted (elems (ev_Parents e)) \<and> (\<forall>p \<in> set (elems (ev_Parents e)). validEventID p) \<and>
    (if ev_Intent e = ''resolve'' then 2 \<le> length (elems (ev_Parents e)) \<and> length (elems (ev_Parents e)) \<le> 200
     else length (elems (ev_Parents e)) = 1 \<and> ev_Intent e \<in> {''revise'', ''close'', ''reopen''}) \<and>
    (ev_Intent e = ''close'' \<longrightarrow> is_Status s = ''closed'') \<and> (ev_Intent e = ''reopen'' \<longrightarrow> is_Status s = ''open'') \<and>
    (ev_Operation e \<noteq> [] \<longrightarrow> IssueRequestDigest h e = Inr (ev_Request e))"
proof -
  have steps: "checkIssueShape e = Inr ()" "checkIntent e = Inr ()"
    "case ev_Issue e of None \<Rightarrow> True | Some s \<Rightarrow> validIssueState s"
    "ev_Operation e \<noteq> [] \<longrightarrow> IssueRequestDigest h e = Inr (ev_Request e)"
    using assms by (auto simp: validateIssueEvent_def isIssueKind_def rbind_eq_Inr CanonicalIssueState_iff
        split: if_splits option.splits)
  obtain s where s: "ev_Issue e = Some s" "validEventID (ev_Subject e)" "length (elems (ev_Parents e)) \<le> 200"
    "checkParents (Errorf ''issue revision parents must be sorted unique full IDs'' []) None (elems (ev_Parents e)) = Inr ()"
    using steps(1) assms(2) by (auto simp: checkIssueShape_def maxIssueParents_def split: if_splits)
  moreover have "(if ev_Intent e = ''resolve'' then 2 \<le> length (elems (ev_Parents e))
     else length (elems (ev_Parents e)) = 1 \<and> ev_Intent e \<in> {''revise'', ''close'', ''reopen''}) \<and>
    (ev_Intent e = ''close'' \<longrightarrow> is_Status s = ''closed'') \<and> (ev_Intent e = ''reopen'' \<longrightarrow> is_Status s = ''open'')"
    using steps(2) s(1) assms(2) by (auto simp: checkIntent_def split: if_splits)
  ultimately show ?thesis using steps(3,4) by (auto simp: checkParents_ok)
qed

section \<open>Concrete instances\<close>

definition sampleIssue :: IssueState where
  "sampleIssue = \<lparr>is_Title = ''bug'', is_Body = [], is_Status = ''open'', is_Criteria = None,
     is_Labels = Some [''ui'', ''go''], is_Assignees = None, is_Relations = None, is_Metadata = None\<rparr>"

lemma sampleIssue_ok: "is_ok (CanonicalIssueState sampleIssue)"
  by code_simp

theorem CanonicalIssueState_canonical_witness:
  "\<exists>t. CanonicalIssueState sampleIssue = Inr t \<and> CanonicalIssueState t = Inr t \<and>
     set (elems (is_Labels t)) = {''ui'', ''go''}"
proof -
  obtain t where t: "CanonicalIssueState sampleIssue = Inr t" using sampleIssue_ok by (elim is_okE)
  then show ?thesis using CanonicalIssueState_canonical [OF t] by (auto simp: sampleIssue_def)
qed

definition sampleRevision :: Event where
  "sampleRevision = zeroEvent\<lparr>ev_Kind := ''issue.revise'', ev_Subject := sampleID CHR ''a'',
     ev_Intent := ''resolve'', ev_Issue := Some sampleIssue,
     ev_Parents := Some [sampleID CHR ''b'', sampleID CHR ''c'']\<rparr>"

theorem IssueRequestDigest_semantic_witness:
  "IssueRequestDigest sampleHost sampleRevision = Inr (eventID sampleHost []) \<and>
   IssueRequestDigest sampleHost (sampleRevision\<lparr>ev_Actor := ''bob'', ev_Parents := Some [sampleID CHR ''c'', sampleID CHR ''b'']\<rparr>)
     = Inr (eventID sampleHost [])"
proof -
  have "IssueRequestDigest sampleHost sampleRevision = Inr (eventID sampleHost [])" by code_simp
  then show ?thesis
    using IssueRequestDigest_semantic [of sampleRevision
        "sampleRevision\<lparr>ev_Actor := ''bob'', ev_Parents := Some [sampleID CHR ''c'', sampleID CHR ''b'']\<rparr>" sampleHost "eventID sampleHost []"]
    by (simp add: sampleRevision_def sampleIssue_def sameIssue_def)
qed

theorem validateIssueEvent_revision_witness:
  "validateIssueEvent sampleHost sampleRevision = Inr () \<and> validIssueState sampleIssue \<and>
   strictSorted (elems (ev_Parents sampleRevision))"
proof -
  have "validateIssueEvent sampleHost sampleRevision = Inr ()" by code_simp
  then show ?thesis
    using validateIssueEvent_revision [of sampleHost sampleRevision] by (simp add: sampleRevision_def)
qed

end
