(* ===== verification/HN_Path.thy ===== *)
theory HN_Path
  imports HN_Prelude
begin

text \<open>
  Slash-separated paths: the lexical \<open>Clean\<close> of \<open>path/filepath\<close> on a system whose separator is \<open>/\<close>, and
  the two checks of \<open>src/ci.go\<close> that keep the commands and working directories of a pipeline inside
  the checkout.
\<close>

section \<open>Definitions\<close>

fun joinSlash :: "string list \<Rightarrow> string" where
  "joinSlash [] = []"
| "joinSlash [s] = s"
| "joinSlash (s # t # ts) = s @ CHR ''/'' # joinSlash (t # ts)"

text \<open>
  \<open>filepath.Clean\<close> handles the elements of a path from left to right; the elements kept so far are a
  stack, its top first.
\<close>

definition cleanStep :: "bool \<Rightarrow> string \<Rightarrow> string list \<Rightarrow> string list" where
  "cleanStep rooted c stack =
     (if c = [] \<or> c = ''.'' then stack
      else if c = ''..'' then
        (case stack of
           [] \<Rightarrow> if rooted then [] else [''..'']
         | t # rest \<Rightarrow> if t = ''..'' then ''..'' # stack else rest)
      else c # stack)"

definition isAbs :: "string \<Rightarrow> bool" where
  "isAbs path \<longleftrightarrow> hasPrefix path ''/''"

definition cleanPath :: "string \<Rightarrow> string" where
  "cleanPath path =
     (let out = joinSlash (rev (fold (cleanStep (isAbs path)) (splitOn CHR ''/'' path) []))
      in if isAbs path then CHR ''/'' # out else if out = [] then ''.'' else out)"

definition safeRelativeDirectory :: "string \<Rightarrow> bool" where
  "safeRelativeDirectory path \<longleftrightarrow>
     (if path = [] \<or> path = ''.'' then True
      else let cleaned = cleanPath path in
        \<not> isAbs cleaned \<and> cleaned \<noteq> ''..'' \<and> \<not> hasPrefix cleaned ''../'')"

definition safeRelativePath :: "string \<Rightarrow> bool" where
  "safeRelativePath path \<longleftrightarrow>
     (if path = [] then False
      else let cleaned = cleanPath path in
        \<not> isAbs cleaned \<and> cleaned \<noteq> ''..'' \<and> \<not> hasPrefix cleaned ''../'')"

section \<open>Walking along a path\<close>

text \<open>How far below its start a walk along the elements ends, negative when it has left it upwards.\<close>

fun walkDepth :: "string list \<Rightarrow> int" where
  "walkDepth [] = 0"
| "walkDepth (c # cs) = (if c = [] \<or> c = ''.'' then 0 else if c = ''..'' then - 1 else 1) + walkDepth cs"

definition staysBelow :: "string list \<Rightarrow> bool" where
  "staysBelow cs \<longleftrightarrow> (\<forall>k \<le> length cs. 0 \<le> walkDepth (take k cs))"

lemma walkDepth_append [simp]: "walkDepth (xs @ ys) = walkDepth xs + walkDepth ys"
  by (induction xs) auto

lemma staysBelow_snoc: "staysBelow (cs @ [c]) \<longleftrightarrow> staysBelow cs \<and> 0 \<le> walkDepth (cs @ [c])"
proof -
  have "k \<le> length (cs @ [c]) \<longleftrightarrow> k \<le> length cs \<or> k = Suc (length cs)" for k by auto
  moreover have "k \<le> length cs \<Longrightarrow> take k (cs @ [c]) = take k cs" for k by simp
  ultimately show ?thesis unfolding staysBelow_def
    by (metis append_eq_conv_conj length_append_singleton order_refl take_all)
qed

definition cleaned :: "string list \<Rightarrow> string list" where
  "cleaned cs = fold (cleanStep False) cs []"

lemma cleaned_snoc: "cleaned (cs @ [c]) = cleanStep False c (cleaned cs)"
  by (simp add: cleaned_def)

text \<open>The stack is made of names on top of the parent steps that could not be resolved.\<close>

lemma cleaned_shape: "\<exists>ns k. cleaned cs = ns @ replicate k ''..'' \<and> ''..'' \<notin> set ns \<and> [] \<notin> set ns \<and>
    ''.'' \<notin> set ns \<and> (k = 0 \<longleftrightarrow> staysBelow cs) \<and> (k = 0 \<longrightarrow> int (length ns) = walkDepth cs)"
proof (induction cs rule: rev_induct)
  case Nil
  show ?case by (rule exI [of _ "[]"], rule exI [of _ 0]) (simp add: cleaned_def staysBelow_def)
next
  case (snoc c cs)
  then obtain ns k where IH: "cleaned cs = ns @ replicate k ''..''" "''..'' \<notin> set ns" "[] \<notin> set ns" "''.'' \<notin> set ns"
    "k = 0 \<longleftrightarrow> staysBelow cs" "k = 0 \<longrightarrow> int (length ns) = walkDepth cs" by blast
  consider "c = [] \<or> c = ''.''" | "c = ''..''" "ns = []" | n ms where "c = ''..''" "ns = n # ms"
    | "c \<noteq> []" "c \<noteq> ''.''" "c \<noteq> ''..''" by (cases ns) auto
  then show ?case
  proof cases
    case 1
    then show ?thesis using IH
      by (intro exI [of _ ns] exI [of _ k]) (auto simp: cleaned_snoc cleanStep_def staysBelow_snoc)
  next
    case 2
    then have "cleaned (cs @ [c]) = replicate (Suc k) ''..''"
      using IH(1) by (cases k) (simp_all add: cleaned_snoc cleanStep_def)
    moreover have "\<not> staysBelow (cs @ [c])" using 2 IH(5,6) by (auto simp: staysBelow_snoc)
    ultimately show ?thesis by (intro exI [of _ "[]"] exI [of _ "Suc k"]) auto
  next
    case 3
    then show ?thesis using IH
      by (intro exI [of _ ms] exI [of _ k]) (auto simp: cleaned_snoc cleanStep_def staysBelow_snoc)
  next
    case 4
    then show ?thesis using IH
      by (intro exI [of _ "c # ns"] exI [of _ k]) (auto simp: cleaned_snoc cleanStep_def staysBelow_snoc)
  qed
qed

section \<open>The text of a cleaned path\<close>

lemma splitOn_nonempty [simp]: "splitOn c s \<noteq> []"
  by (induction c s rule: splitOn.induct) (auto split: list.splits)

lemma splitOn_append: "splitOn c (a @ c # b) = splitOn c a @ splitOn c b"
  by (induction a) (auto split: list.splits simp: splitOn_nonempty)

lemma joinSlash_Cons: "joinSlash (s # ts) = s @ (if ts = [] then [] else CHR ''/'' # joinSlash ts)"
  by (cases ts) auto

lemma joinSlash_splitOn: "joinSlash (splitOn CHR ''/'' s) = s"
  by (induction s) (auto simp: joinSlash_Cons split: list.splits)

lemma joinSlash_append: "xs \<noteq> [] \<Longrightarrow> ys \<noteq> [] \<Longrightarrow> joinSlash (xs @ ys) = joinSlash xs @ CHR ''/'' # joinSlash ys"
  by (induction xs) (auto simp: joinSlash_Cons)

lemma splitOn_no_sep: "x \<in> set (splitOn c s) \<Longrightarrow> c \<notin> set x"
proof (induction c s arbitrary: x rule: splitOn.induct)
  case (2 c y ys)
  then show ?case by (cases "splitOn c ys") (auto split: if_splits)
qed auto

lemma joinSlash_head: "cs \<noteq> [] \<Longrightarrow> \<exists>t. joinSlash cs = hd cs @ t \<and> (t = [] \<or> hd t = CHR ''/'')"
  by (cases cs rule: joinSlash.cases) auto

lemma cleaned_subset: "set (cleaned cs) \<subseteq> set cs \<union> {''..''}"
  by (induction cs rule: rev_induct)
    (auto simp: cleaned_snoc cleanStep_def cleaned_def split: list.splits if_splits)

lemma joinSlash_parent:
  assumes "\<forall>c \<in> set cs. CHR ''/'' \<notin> set c" "[] \<notin> set cs"
  shows "(joinSlash cs = ''..'' \<or> hasPrefix (joinSlash cs) ''../'') \<longleftrightarrow> cs \<noteq> [] \<and> hd cs = ''..''"
proof (cases cs)
  case (Cons c ds)
  obtain t where t: "joinSlash cs = c @ t" "t = [] \<or> hd t = CHR ''/''" using joinSlash_head [of cs] Cons by auto
  have c: "CHR ''/'' \<notin> set c" "c \<noteq> []" using assms Cons by auto
  have "c @ t = ''..'' \<or> (\<exists>u. c @ t = ''../'' @ u) \<longleftrightarrow> c = ''..''"
  proof
    assume "c @ t = ''..'' \<or> (\<exists>u. c @ t = ''../'' @ u)"
    with c t(2) show "c = ''..''" by (auto simp: append_eq_Cons_conv append_eq_append_conv2)
  next
    assume "c = ''..''"
    with t(2) show "c @ t = ''..'' \<or> (\<exists>u. c @ t = ''../'' @ u)" by (cases t) auto
  qed
  then show ?thesis using t Cons by (simp add: hasPrefix_iff)
qed (simp add: hasPrefix_def)

lemma joinSlash_not_abs:
  assumes "\<forall>c \<in> set cs. CHR ''/'' \<notin> set c" "[] \<notin> set cs"
  shows "\<not> isAbs (joinSlash cs)"
proof (cases cs)
  case (Cons c ds)
  obtain t where t: "joinSlash cs = c @ t" using joinSlash_head [of cs] Cons by auto
  then show ?thesis using assms Cons by (cases c) (auto simp: isAbs_def hasPrefix_def)
qed (simp add: isAbs_def hasPrefix_def)

lemma clean_safe_iff:
  "\<not> isAbs (cleanPath p) \<and> cleanPath p \<noteq> ''..'' \<and> \<not> hasPrefix (cleanPath p) ''../'' \<longleftrightarrow>
     \<not> isAbs p \<and> staysBelow (splitOn CHR ''/'' p)"
proof (cases "isAbs p")
  case True
  then show ?thesis by (simp add: cleanPath_def isAbs_def hasPrefix_def)
next
  case False
  let ?cs = "splitOn CHR ''/'' p"
  obtain ns k where st: "cleaned ?cs = ns @ replicate k ''..''" "''..'' \<notin> set ns" "[] \<notin> set ns"
    "k = 0 \<longleftrightarrow> staysBelow ?cs" using cleaned_shape [of ?cs] by blast
  have nosep: "\<forall>c \<in> set (rev (cleaned ?cs)). CHR ''/'' \<notin> set c" "[] \<notin> set (rev (cleaned ?cs))"
    using cleaned_subset [of ?cs] splitOn_no_sep st(1,3) by fastforce+
  have cp: "cleanPath p = (let out = joinSlash (rev (cleaned ?cs)) in if out = [] then ''.'' else out)"
    using False by (simp add: cleanPath_def cleaned_def)
  have hd: "rev (cleaned ?cs) \<noteq> [] \<and> hd (rev (cleaned ?cs)) = ''..'' \<longleftrightarrow> k \<noteq> 0"
  proof -
    have rv: "rev (cleaned ?cs) = replicate k ''..'' @ rev ns" using st(1) by simp
    show ?thesis
      unfolding rv using st(2) hd_in_set [of "rev ns"] by (cases k) auto
  qed
  show ?thesis
    using joinSlash_parent [OF nosep] joinSlash_not_abs [OF nosep] hd False st(4)
    by (auto simp: cp Let_def hasPrefix_def isAbs_def)
qed

lemma safeRelativePath_iff:
  "safeRelativePath c \<longleftrightarrow> c \<noteq> [] \<and> \<not> isAbs c \<and> staysBelow (splitOn CHR ''/'' c)"
  using clean_safe_iff [of c] by (auto simp: safeRelativePath_def Let_def)

lemma safeRelativeDirectory_iff:
  "safeRelativeDirectory c \<longleftrightarrow> c = [] \<or> \<not> isAbs c \<and> staysBelow (splitOn CHR ''/'' c)"
proof -
  have "staysBelow (splitOn CHR ''/'' ''.'')" "\<not> isAbs ''.''"
    by (auto simp: staysBelow_def isAbs_def hasPrefix_def take_Cons split: nat.splits)
  then show ?thesis using clean_safe_iff [of c] by (auto simp: safeRelativeDirectory_def Let_def)
qed

section \<open>Properties\<close>

text \<open>
  C9. A path passes \<open>safeRelativePath\<close> exactly when it is not empty, not absolute, and a walk along
  its elements never goes above the directory it starts from.
\<close>

theorem safeRelativePath_confined:
  "safeRelativePath path \<longleftrightarrow> path \<noteq> [] \<and> \<not> hasPrefix path ''/'' \<and>
     (\<forall>k. 0 \<le> walkDepth (take k (splitOn CHR ''/'' path)))"
proof -
  have "staysBelow cs \<longleftrightarrow> (\<forall>k. 0 \<le> walkDepth (take k cs))" for cs
    unfolding staysBelow_def by (metis nle_le take_all)
  then show ?thesis by (simp add: safeRelativePath_iff isAbs_def)
qed

end
