(* ===== verification/HN_Resource_Model.thy ===== *)
theory HN_Resource_Model
  imports HN_Issue_Model HN_Path
begin

text \<open>
  Pipelines (\<open>src/ci.go\<close>) and the typed collaboration states (\<open>src/resource_model.go\<close>): projects and
  their items, discussions and replies, workflows, and the resource facts that carry them.

  The decoding of JSON text is not modelled; the record \<open>codec\<close> collects the decoders, with the URL
  and timestamp parsers of the standard library, and is an argument of the definitions that use them.
\<close>

section \<open>Data\<close>

record PipelineStep =
  ps_Name :: string
  ps_Command :: string
  ps_Args :: "string slice"
  ps_WorkingDirectory :: string
  ps_TimeoutSeconds :: int

record PipelineDefinition =
  pd_Version :: string
  pd_Steps :: "PipelineStep slice"

record ProjectOption =
  po_ID :: string
  po_Name :: string

record ProjectField =
  pf_ID :: string
  pf_Name :: string
  pf_Type :: string
  pf_Options :: "ProjectOption slice"

record ProjectView =
  pv_ID :: string
  pv_Name :: string
  pv_Layout :: string
  pv_GroupByField :: string

record ProjectState =
  pj_Schema :: string
  pj_Title :: string
  pj_Body :: string
  pj_Archived :: bool
  pj_Fields :: "ProjectField slice"
  pj_Views :: "ProjectView slice"
  pj_Metadata :: "(string, string) gomap option"

record ProjectTarget =
  pt_Kind :: string
  pt_ID :: string
  pt_Title :: string
  pt_Body :: string
  pt_URL :: string

record ProjectValue =
  va_Type :: string
  va_Text :: string
  va_Number :: string
  va_Date :: string
  va_OptionID :: string

record ProjectItemState =
  pi_Schema :: string
  pi_ProjectID :: string
  pi_ProjectRevision :: string
  pi_Target :: ProjectTarget
  pi_Values :: "(string, ProjectValue) gomap option"
  pi_Archived :: bool
  pi_Position :: string
  pi_Metadata :: "(string, string) gomap option"

record DiscussionState =
  di_Schema :: string
  di_Title :: string
  di_Body :: string
  di_Category :: string
  di_Status :: string
  di_AcceptedReplyRevision :: string
  di_Metadata :: "(string, string) gomap option"

record DiscussionReplyState =
  re_Schema :: string
  re_DiscussionID :: string
  re_ReplyTo :: string
  re_Body :: string
  re_Metadata :: "(string, string) gomap option"

record WorkflowSourceDocument =
  wd_Format :: string
  wd_Content :: string
  wd_Digest :: string

record WorkflowState =
  wf_Schema :: string
  wf_Name :: string
  wf_Title :: string
  wf_Description :: string
  wf_Enabled :: bool
  wf_Pipeline :: "PipelineDefinition option"
  wf_SourceDocuments :: "WorkflowSourceDocument slice"
  wf_Metadata :: "(string, string) gomap option"

datatype ResourceState =
    RProject ProjectState
  | RItem ProjectItemState
  | RDiscussion DiscussionState
  | RReply DiscussionReplyState
  | RWorkflow WorkflowState

text \<open>
  The parameters: \<open>json.Unmarshal\<close> of a fact, the strict decoders behind \<open>strictResourceJSON\<close> for a
  fact, a pipeline and a state of a family, \<open>url.Parse\<close> (scheme, host, whether user information is
  present) and \<open>time.Parse(time.RFC3339Nano, _)\<close>.
\<close>

record codec =
  cd_Unmarshal :: "string \<Rightarrow> Event result"
  cd_Withdrawal :: "string \<Rightarrow> Event result"
  cd_Resource :: "string \<Rightarrow> Event result"
  cd_Audit :: "string \<Rightarrow> Event result"
  cd_Pipeline :: "string \<Rightarrow> PipelineDefinition result"
  cd_State :: "string \<Rightarrow> string \<Rightarrow> ResourceState result"
  cd_URL :: "string \<Rightarrow> (string \<times> string \<times> bool) option"
  cd_Timestamp :: "string \<Rightarrow> bool"

section \<open>Pipelines\<close>

definition maxPipelineSize :: nat where
  "maxPipelineSize = 1048576"

definition maxStepTimeout :: int where
  "maxStepTimeout = 3600"

definition containsNul :: "string \<Rightarrow> bool" where
  "containsNul s \<longleftrightarrow> CHR 0x00 \<in> set s"

text \<open>The body of the loop over the steps; \<open>index\<close> counts from zero.\<close>

definition checkStep :: "nat \<Rightarrow> PipelineStep \<Rightarrow> unit result" where
  "checkStep index step =
     (let n = decimal (index + 1) in
      if trimSpace (ps_Name step) = [] \<or> trimSpace (ps_Command step) = []
      then errorf ''step %d requires a name and command'' [n]
      else if containsNul (ps_Command step)
      then errorf ''step %d command contains a null byte'' [n]
      else if containsAny (ps_Command step) [CHR ''/'', CHR 0x5C] \<and> \<not> safeRelativePath (ps_Command step)
      then errorf ''step %d command path escapes the checkout'' [n]
      else if length (elems (ps_Args step)) > 256
      then errorf ''step %d has too many arguments'' [n]
      else if list_ex (\<lambda>a. containsNul a \<or> length a > 16384) (elems (ps_Args step))
      then errorf ''step %d has an invalid argument'' [n]
      else if \<not> safeRelativeDirectory (ps_WorkingDirectory step)
      then errorf ''step %d has an unsafe working directory'' [n]
      else if ps_TimeoutSeconds step < 0 \<or> ps_TimeoutSeconds step > maxStepTimeout
      then errorf ''step %d timeout must be between 0 and %d seconds'' [n, decimal (nat maxStepTimeout)]
      else Inr ())"

definition validatePipeline :: "PipelineDefinition \<Rightarrow> unit result" where
  "validatePipeline p =
     (if pd_Version p \<noteq> ''hn.pipeline/0'' then errorf ''unsupported version %q'' [pd_Version p]
      else if length (elems (pd_Steps p)) = 0 \<or> length (elems (pd_Steps p)) > 64
      then errorf ''must contain between 1 and 64 steps'' []
      else forEach (\<lambda>(index, step). checkStep index step) (enumerate 0 (elems (pd_Steps p))))"

definition jsonStep :: "PipelineStep \<Rightarrow> json" where
  "jsonStep s = JObj ([(''name'', JStr (ps_Name s)), (''command'', JStr (ps_Command s))] @
     omitStrs ''args'' (elems (ps_Args s)) @ omitStr ''workingDirectory'' (ps_WorkingDirectory s) @
     omitInt ''timeoutSeconds'' (ps_TimeoutSeconds s))"

definition jsonPipeline :: "PipelineDefinition \<Rightarrow> json" where
  "jsonPipeline p = JObj [(''version'', JStr (pd_Version p)), (''steps'', jsonSlice jsonStep (pd_Steps p))]"

section \<open>Small checks\<close>

definition maxResourcePayload :: nat where
  "maxResourcePayload = 262144"

definition maxWorkflowPayload :: nat where
  "maxWorkflowPayload = 2097152"

definition resourcePayloadLimit :: "string \<Rightarrow> nat" where
  "resourcePayloadLimit family = (if family = ''workflow'' then maxWorkflowPayload else maxResourcePayload)"

definition resourceIdentifier :: "string \<Rightarrow> bool" where
  "resourceIdentifier v \<longleftrightarrow> \<not> (length v < 1 \<or> length v > 64 \<or> v = ''.'' \<or> v = ''..'') \<and>
     list_all (\<lambda>(r, _). nameRune r) (runes v)"

definition isDigit :: "char \<Rightarrow> bool" where
  "isDigit c \<longleftrightarrow> 48 \<le> byte c \<and> byte c \<le> 57"

text \<open>
  The regular expression \<open>^-?(0|[1-9][0-9]*)(\.[0-9]*[1-9])?$\<close>: an optional sign, an integer part
  without leading zeros, optionally a fraction that does not end in zero.
\<close>

definition matchesDecimal :: "string \<Rightarrow> bool" where
  "matchesDecimal v =
     (let body = trimPrefix v ''-'' in
      case cut body CHR ''.'' of (whole, fraction, dot) \<Rightarrow>
        (whole = ''0'' \<or> (whole \<noteq> [] \<and> list_all isDigit whole \<and> hd whole \<noteq> CHR ''0'')) \<and>
        (\<not> dot \<or> (fraction \<noteq> [] \<and> list_all isDigit fraction \<and> last fraction \<noteq> CHR ''0'')))"

definition validResourceDecimal :: "string \<Rightarrow> bool" where
  "validResourceDecimal v \<longleftrightarrow> length v \<le> 64 \<and> v \<noteq> ''-0'' \<and> matchesDecimal v"

definition resourceMetadata :: "(string, string) gomap option \<Rightarrow> unit result" where
  "resourceMetadata metadata =
     (if length (elems metadata) > 64 then errorf ''resource metadata exceeds 64 entries'' []
      else forEach (\<lambda>(k, v). case cut k CHR ''/'' of (prefix, name, ok) \<Rightarrow>
        if \<not> ok \<or> \<not> issueIdentifier prefix 128 \<or> \<not> issueIdentifier name 128 \<or>
           \<not> issueIdentifier k 128 \<or> \<not> issueText v 4096 False
        then errorf ''resource metadata requires bounded namespaced keys and UTF-8 string values'' []
        else Inr ()) (elems metadata))"

text \<open>\<open>strictResourceJSON\<close>: the size bound, then the strict decoder.\<close>

definition strictResourceJSON :: "(string \<Rightarrow> 'a result) \<Rightarrow> string \<Rightarrow> nat \<Rightarrow> 'a result" where
  "strictResourceJSON decode raw limit =
     (if length raw > limit then errorf ''resource JSON exceeds %d bytes'' [decimal limit] else decode raw)"

section \<open>Projects\<close>

fun checkOptions :: "string list \<Rightarrow> ProjectOption list \<Rightarrow> unit result" where
  "checkOptions seen [] = Inr ()"
| "checkOptions seen (x # xs) =
     (if \<not> resourceIdentifier (po_ID x) \<or> \<not> issueText (po_Name x) 256 True \<or> po_ID x \<in> set seen
      then errorf ''invalid or duplicate project option'' []
      else checkOptions (po_ID x # seen) xs)"

text \<open>The loop over the fields; the map \<open>fields\<close> of those already seen is its result.\<close>

fun checkFields :: "(string, ProjectField) gomap \<Rightarrow> ProjectField list \<Rightarrow> (string, ProjectField) gomap result" where
  "checkFields flds [] = Inr flds"
| "checkFields flds (f # fs) =
     (if \<not> resourceIdentifier (pf_ID f) \<or> \<not> issueText (pf_Name f) 256 True \<or>
         (case map_of flds (pf_ID f) of None \<Rightarrow> False | Some g \<Rightarrow> pf_ID g \<noteq> []) \<or> length (elems (pf_Options f)) > 64
      then errorf ''invalid or duplicate project field'' []
      else if pf_Type f = ''text'' \<or> pf_Type f = ''number'' \<or> pf_Type f = ''date'' then
        (if length (elems (pf_Options f)) \<noteq> 0 then errorf ''only single_select fields have options'' []
         else rbind (checkOptions [] (elems (pf_Options f))) (\<lambda>_. checkFields (AList.update (pf_ID f) f flds) fs))
      else if pf_Type f = ''single_select'' then
        rbind (checkOptions [] (elems (pf_Options f))) (\<lambda>_. checkFields (AList.update (pf_ID f) f flds) fs)
      else errorf ''unsupported project field type'' [])"

fun checkViews :: "(string, ProjectField) gomap \<Rightarrow> string list \<Rightarrow> ProjectView list \<Rightarrow> unit result" where
  "checkViews flds views [] = Inr ()"
| "checkViews flds views (v # vs) =
     (if \<not> resourceIdentifier (pv_ID v) \<or> \<not> issueText (pv_Name v) 256 True \<or> pv_ID v \<in> set views \<or>
         (pv_Layout v \<noteq> ''table'' \<and> pv_Layout v \<noteq> ''board'')
      then errorf ''invalid or duplicate project view'' []
      else if pv_GroupByField v \<noteq> [] \<and>
         (case map_of flds (pv_GroupByField v) of None \<Rightarrow> True | Some f \<Rightarrow> pf_Type f \<noteq> ''single_select'')
      then errorf ''view grouping requires a single_select field'' []
      else checkViews flds (pv_ID v # views) vs)"

definition validateProjectState :: "ProjectState \<Rightarrow> unit result" where
  "validateProjectState s =
     (if pj_Schema s \<noteq> ''hn.project/1'' \<or> \<not> issueText (pj_Title s) 1024 True \<or>
         \<not> issueText (pj_Body s) 65536 False \<or> length (elems (pj_Fields s)) > 64 \<or> length (elems (pj_Views s)) > 16
      then errorf ''invalid project schema, title/body or field/view bounds'' []
      else rbind (checkFields [] (elems (pj_Fields s))) (\<lambda>flds.
        rbind (checkViews flds [] (elems (pj_Views s))) (\<lambda>_. resourceMetadata (pj_Metadata s))))"

text \<open>
  \<open>time.Parse("2006-01-02", v)\<close> together with the test that formatting gives \<open>v\<close> back: ten bytes, a
  month and a day that exists in it.
\<close>

definition digitsValue :: "string \<Rightarrow> nat" where
  "digitsValue s = fold (\<lambda>c n. 10 * n + (byte c - 48)) s 0"

definition daysIn :: "nat \<Rightarrow> nat \<Rightarrow> nat" where
  "daysIn year month =
     (if month = 2 then (if year mod 4 = 0 \<and> (year mod 100 \<noteq> 0 \<or> year mod 400 = 0) then 29 else 28)
      else if month = 4 \<or> month = 6 \<or> month = 9 \<or> month = 11 then 30 else 31)"

definition validDate :: "string \<Rightarrow> bool" where
  "validDate v \<longleftrightarrow> length v = 10 \<and> list_all isDigit (take 4 v) \<and> take 1 (drop 4 v) = ''-'' \<and>
     list_all isDigit (take 2 (drop 5 v)) \<and> take 1 (drop 7 v) = ''-'' \<and> list_all isDigit (drop 8 v) \<and>
     (let year = digitsValue (take 4 v); month = digitsValue (take 2 (drop 5 v)); day = digitsValue (drop 8 v)
      in 1 \<le> month \<and> month \<le> 12 \<and> 1 \<le> day \<and> day \<le> daysIn year month)"

definition validateProjectValue :: "ProjectValue \<Rightarrow> unit result" where
  "validateProjectValue v =
     (if va_Type v = ''text'' then
        (if \<not> issueText (va_Text v) 4096 False \<or> va_Number v \<noteq> [] \<or> va_Date v \<noteq> [] \<or> va_OptionID v \<noteq> []
         then errorf ''invalid text field value'' [] else Inr ())
      else if va_Type v = ''number'' then
        (if \<not> validResourceDecimal (va_Number v) \<or> va_Text v \<noteq> [] \<or> va_Date v \<noteq> [] \<or> va_OptionID v \<noteq> []
         then errorf ''number must be a canonical decimal string of at most 64 bytes'' [] else Inr ())
      else if va_Type v = ''date'' then
        (if \<not> validDate (va_Date v) \<or> va_Text v \<noteq> [] \<or> va_Number v \<noteq> [] \<or> va_OptionID v \<noteq> []
         then errorf ''date must be YYYY-MM-DD'' [] else Inr ())
      else if va_Type v = ''single_select'' then
        (if \<not> resourceIdentifier (va_OptionID v) \<or> va_Text v \<noteq> [] \<or> va_Number v \<noteq> [] \<or> va_Date v \<noteq> []
         then errorf ''invalid single_select value'' [] else Inr ())
      else errorf ''unsupported typed field value'' [])"

definition checkTarget :: "codec \<Rightarrow> ProjectTarget \<Rightarrow> unit result" where
  "checkTarget cd t =
     (if pt_Kind t = ''issue'' \<or> pt_Kind t = ''proposal'' \<or> pt_Kind t = ''discussion'' then
        (if \<not> validEventID (pt_ID t) \<or> pt_Title t \<noteq> [] \<or> pt_Body t \<noteq> [] \<or> pt_URL t \<noteq> []
         then errorf ''native target requires only full ID'' [] else Inr ())
      else if pt_Kind t = ''draft'' then
        (if pt_ID t \<noteq> [] \<or> pt_URL t \<noteq> [] \<or> \<not> issueText (pt_Title t) 1024 True \<or> \<not> issueText (pt_Body t) 65536 False
         then errorf ''draft target requires bounded title/body'' [] else Inr ())
      else if pt_Kind t = ''external'' then
        (case cd_URL cd (pt_URL t) of
           None \<Rightarrow> errorf ''external target requires explicit HTTP(S) URL only'' []
         | Some (scheme, hst, user) \<Rightarrow>
             if length (pt_URL t) > 4096 \<or> (scheme \<noteq> ''https'' \<and> scheme \<noteq> ''http'') \<or> hst = [] \<or> user \<or>
                pt_ID t \<noteq> [] \<or> pt_Title t \<noteq> [] \<or> pt_Body t \<noteq> [] \<or> \<not> issueIdentifier (pt_URL t) 4096
             then errorf ''external target requires explicit HTTP(S) URL only'' [] else Inr ())
      else errorf ''invalid project target type'' [])"

definition validateProjectItemState :: "codec \<Rightarrow> ProjectItemState \<Rightarrow> unit result" where
  "validateProjectItemState cd s =
     (if pi_Schema s \<noteq> ''hn.project-item/1'' \<or> \<not> validEventID (pi_ProjectID s) \<or>
         \<not> validEventID (pi_ProjectRevision s) \<or> length (elems (pi_Values s)) > 64 \<or>
         (pi_Position s \<noteq> [] \<and> \<not> validResourceDecimal (pi_Position s))
      then errorf ''invalid project item schema, project reference, position or values'' []
      else rbind (checkTarget cd (pi_Target s)) (\<lambda>_.
        rbind (forEach (\<lambda>(i, v). if \<not> resourceIdentifier i then errorf ''invalid field ID'' []
                                 else validateProjectValue v) (elems (pi_Values s))) (\<lambda>_.
        resourceMetadata (pi_Metadata s))))"

section \<open>Discussions and workflows\<close>

definition validateDiscussionState :: "DiscussionState \<Rightarrow> unit result" where
  "validateDiscussionState s =
     (if di_Schema s \<noteq> ''hn.discussion/1'' \<or> \<not> issueText (di_Title s) 1024 True \<or>
         \<not> issueText (di_Body s) 65536 False \<or> \<not> issueIdentifier (di_Category s) 256 \<or>
         (di_Status s \<noteq> ''open'' \<and> di_Status s \<noteq> ''closed'') \<or>
         (di_AcceptedReplyRevision s \<noteq> [] \<and> \<not> validEventID (di_AcceptedReplyRevision s))
      then errorf ''invalid discussion schema, title/body, category, status or answer'' []
      else resourceMetadata (di_Metadata s))"

definition validateReplyState :: "DiscussionReplyState \<Rightarrow> unit result" where
  "validateReplyState s =
     (if re_Schema s \<noteq> ''hn.discussion-reply/1'' \<or> \<not> validEventID (re_DiscussionID s) \<or>
         (re_ReplyTo s \<noteq> [] \<and> \<not> validEventID (re_ReplyTo s)) \<or> \<not> issueText (re_Body s) 65536 True
      then errorf ''invalid reply schema, thread, parent or body'' []
      else resourceMetadata (re_Metadata s))"

fun checkDocuments :: "host \<Rightarrow> string list \<Rightarrow> WorkflowSourceDocument list \<Rightarrow> unit result" where
  "checkDocuments h seen [] = Inr ()"
| "checkDocuments h seen (d # ds) =
     (if \<not> resourceIdentifier (wd_Format d) \<or> \<not> issueText (wd_Content d) 1048576 True \<or>
         \<not> validEventID (wd_Digest d) \<or> eventID h (wd_Content d) \<noteq> wd_Digest d \<or> wd_Digest d \<in> set seen
      then errorf ''invalid, duplicate or digest-mismatched workflow source document'' []
      else checkDocuments h (wd_Digest d # seen) ds)"

definition validateWorkflowState :: "host \<Rightarrow> WorkflowState \<Rightarrow> unit result" where
  "validateWorkflowState h s =
     (if wf_Schema s \<noteq> ''hn.workflow/1'' \<or> \<not> validPipelineName (wf_Name s) \<or> \<not> issueText (wf_Title s) 1024 True \<or>
         \<not> issueText (wf_Description s) 65536 False \<or> length (elems (wf_SourceDocuments s)) > 8
      then errorf ''invalid workflow schema, name, title/description or source bounds'' []
      else if wf_Enabled s \<and> wf_Pipeline s = None
      then errorf ''enabled runnable workflow requires a native pipeline'' []
      else rbind (case wf_Pipeline s of None \<Rightarrow> Inr ()
                  | Some p \<Rightarrow> rbind (validatePipeline p) (\<lambda>_.
                      if length (marshal (jsonPipeline p)) > maxPipelineSize
                      then errorf ''workflow pipeline exceeds 1 MiB'' [] else Inr ())) (\<lambda>_.
        rbind (checkDocuments h [] (elems (wf_SourceDocuments s))) (\<lambda>_.
        resourceMetadata (wf_Metadata s))))"

section \<open>Canonical states\<close>

definition omitMap :: "string \<Rightarrow> ('a \<Rightarrow> json) \<Rightarrow> (string, 'a) gomap option \<Rightarrow> (string \<times> json) list" where
  "omitMap name f m = (if elems m = [] then []
     else [(name, JObj (map (\<lambda>(k, v). (k, f v)) (sort_key fst (elems m))))])"

definition omitArr :: "string \<Rightarrow> ('a \<Rightarrow> json) \<Rightarrow> 'a slice \<Rightarrow> (string \<times> json) list" where
  "omitArr name f s = (if elems s = [] then [] else [(name, JArr (map f (elems s)))])"

definition jsonField :: "ProjectField \<Rightarrow> json" where
  "jsonField f = JObj ([(''id'', JStr (pf_ID f)), (''name'', JStr (pf_Name f)), (''type'', JStr (pf_Type f))] @
     omitArr ''options'' (\<lambda>x. JObj [(''id'', JStr (po_ID x)), (''name'', JStr (po_Name x))]) (pf_Options f))"

definition jsonView :: "ProjectView \<Rightarrow> json" where
  "jsonView v = JObj ([(''id'', JStr (pv_ID v)), (''name'', JStr (pv_Name v)), (''layout'', JStr (pv_Layout v))] @
     omitStr ''group_by_field'' (pv_GroupByField v))"

definition jsonTarget :: "ProjectTarget \<Rightarrow> json" where
  "jsonTarget t = JObj ([(''kind'', JStr (pt_Kind t))] @ omitStr ''id'' (pt_ID t) @ omitStr ''title'' (pt_Title t) @
     omitStr ''body'' (pt_Body t) @ omitStr ''url'' (pt_URL t))"

definition jsonValue :: "ProjectValue \<Rightarrow> json" where
  "jsonValue v = JObj ([(''type'', JStr (va_Type v))] @ omitStr ''text'' (va_Text v) @ omitStr ''number'' (va_Number v) @
     omitStr ''date'' (va_Date v) @ omitStr ''option_id'' (va_OptionID v))"

fun jsonResource :: "ResourceState \<Rightarrow> json" where
  "jsonResource (RProject s) = JObj ([(''schema'', JStr (pj_Schema s)), (''title'', JStr (pj_Title s)),
     (''body'', JStr (pj_Body s)), (''archived'', JBool (pj_Archived s))] @ omitArr ''fields'' jsonField (pj_Fields s) @
     omitArr ''views'' jsonView (pj_Views s) @ omitMap ''metadata'' JStr (pj_Metadata s))"
| "jsonResource (RItem s) = JObj ([(''schema'', JStr (pi_Schema s)), (''project_id'', JStr (pi_ProjectID s)),
     (''project_revision'', JStr (pi_ProjectRevision s)), (''target'', jsonTarget (pi_Target s))] @
     omitMap ''values'' jsonValue (pi_Values s) @ [(''archived'', JBool (pi_Archived s)),
     (''position'', JStr (pi_Position s))] @ omitMap ''metadata'' JStr (pi_Metadata s))"
| "jsonResource (RDiscussion s) = JObj ([(''schema'', JStr (di_Schema s)), (''title'', JStr (di_Title s)),
     (''body'', JStr (di_Body s)), (''category'', JStr (di_Category s)), (''status'', JStr (di_Status s))] @
     omitStr ''accepted_reply_revision'' (di_AcceptedReplyRevision s) @ omitMap ''metadata'' JStr (di_Metadata s))"
| "jsonResource (RReply s) = JObj ([(''schema'', JStr (re_Schema s)), (''discussion_id'', JStr (re_DiscussionID s))] @
     omitStr ''reply_to'' (re_ReplyTo s) @ [(''body'', JStr (re_Body s))] @ omitMap ''metadata'' JStr (re_Metadata s))"
| "jsonResource (RWorkflow s) = JObj ([(''schema'', JStr (wf_Schema s)), (''name'', JStr (wf_Name s)),
     (''title'', JStr (wf_Title s)), (''description'', JStr (wf_Description s)), (''enabled'', JBool (wf_Enabled s))] @
     omitPtr ''pipeline'' jsonPipeline (wf_Pipeline s) @
     omitArr ''source_documents'' (\<lambda>d. JObj [(''format'', JStr (wd_Format d)), (''content'', JStr (wd_Content d)),
       (''digest'', JStr (wd_Digest d))]) (wf_SourceDocuments s) @ omitMap ''metadata'' JStr (wf_Metadata s))"

fun validateState :: "host \<Rightarrow> codec \<Rightarrow> ResourceState \<Rightarrow> unit result" where
  "validateState h cd (RProject s) = validateProjectState s"
| "validateState h cd (RItem s) = validateProjectItemState cd s"
| "validateState h cd (RDiscussion s) = validateDiscussionState s"
| "validateState h cd (RReply s) = validateReplyState s"
| "validateState h cd (RWorkflow s) = validateWorkflowState h s"

text \<open>The defaults that replace absent collections and an empty position.\<close>

fun fillState :: "ResourceState \<Rightarrow> ResourceState" where
  "fillState (RProject s) = RProject (s\<lparr>pj_Fields := Some (elems (pj_Fields s)), pj_Views := Some (elems (pj_Views s)),
     pj_Metadata := Some (elems (pj_Metadata s))\<rparr>)"
| "fillState (RItem s) = RItem (s\<lparr>pi_Position := (if pi_Position s = [] then ''0'' else pi_Position s),
     pi_Values := Some (elems (pi_Values s)), pi_Metadata := Some (elems (pi_Metadata s))\<rparr>)"
| "fillState (RDiscussion s) = RDiscussion (s\<lparr>di_Metadata := Some (elems (di_Metadata s))\<rparr>)"
| "fillState (RReply s) = RReply (s\<lparr>re_Metadata := Some (elems (re_Metadata s))\<rparr>)"
| "fillState (RWorkflow s) = RWorkflow (s\<lparr>wf_SourceDocuments := Some (elems (wf_SourceDocuments s)),
     wf_Metadata := Some (elems (wf_Metadata s))\<rparr>)"

definition CanonicalResourceState :: "host \<Rightarrow> codec \<Rightarrow> string \<Rightarrow> string \<Rightarrow> string result" where
  "CanonicalResourceState h cd family raw =
     (if \<not> validResourceFamily family then errorf ''unsupported resource family %q'' [family]
      else rbind (strictResourceJSON (cd_State cd family) raw (resourcePayloadLimit family)) (\<lambda>state.
        rbind (validateState h cd state) (\<lambda>_.
        let encoded = marshal (jsonResource (fillState state)) in
        if length encoded > resourcePayloadLimit family
        then errorf ''resource state exceeds authenticated payload limit'' [] else Inr encoded)))"

section \<open>Resource facts\<close>

text \<open>
  The text that is hashed: the canonical state is embedded as it stands (a \<open>json.RawMessage\<close>), so the
  object is assembled from texts.
\<close>

definition resourceRequestText :: "Event \<Rightarrow> string \<Rightarrow> string" where
  "resourceRequestText e state =
     (let field = (\<lambda>name v. encodeString name @ CHR '':'' # v) in
      CHR ''{'' # commaSep [field ''kind'' (encodeString (ev_Kind e)), field ''intent'' (encodeString (ev_Intent e)),
        field ''subject'' (encodeString (ev_Subject e)),
        field ''parents'' (marshal (JArr (map JStr (sort (elems (ev_Parents e)))))),
        field ''state'' state] @ ''}'')"

definition ResourceRequestDigest :: "host \<Rightarrow> codec \<Rightarrow> Event \<Rightarrow> string result" where
  "ResourceRequestDigest h cd e =
     rbind (CanonicalResourceState h cd (resourceFamily (ev_Kind e)) (ev_Body e)) (\<lambda>state.
       Inr (eventID h (resourceRequestText e state)))"

definition resourceUnrelated :: "Event \<Rightarrow> bool" where
  "resourceUnrelated e \<longleftrightarrow> ev_Issue e \<noteq> None \<or> ev_Title e \<noteq> [] \<or> ev_Relationship e \<noteq> [] \<or> ev_TargetActor e \<noteq> [] \<or>
     ev_TargetKey e \<noteq> [] \<or> ev_Base e \<noteq> [] \<or> ev_Head e \<noteq> [] \<or> ev_Verdict e \<noteq> [] \<or> ev_Pipeline e \<noteq> [] \<or>
     ev_Definition e \<noteq> [] \<or> ev_Commit e \<noteq> [] \<or> ev_Outcome e \<noteq> [] \<or> ev_ExitCode e \<noteq> 0 \<or> ev_DurationMS e \<noteq> 0 \<or>
     ev_Log e \<noteq> [] \<or> ev_Backend e \<noteq> [] \<or> ev_Platform e \<noteq> [] \<or> ev_Runner e \<noteq> [] \<or> ev_Policy e \<noteq> [] \<or>
     length (elems (ev_Evidence e)) \<noteq> 0"

definition checkResourceShape :: "Event \<Rightarrow> unit result" where
  "checkResourceShape e =
     (if hasSuffix (ev_Kind e) ''.open'' then
        (if ev_Subject e \<noteq> [] \<or> length (elems (ev_Parents e)) \<noteq> 0 \<or> ev_Intent e \<noteq> ''open''
         then errorf ''resource opening requires open intent and no subject/parents'' [] else Inr ())
      else if \<not> validEventID (ev_Subject e) \<or> length (elems (ev_Parents e)) < 1 \<or>
         length (elems (ev_Parents e)) > maxIssueParents \<or> (ev_Intent e \<noteq> ''revise'' \<and> ev_Intent e \<noteq> ''resolve'')
      then errorf ''resource revision requires root, 1..200 parents and revise/resolve intent'' []
      else if (ev_Intent e = ''revise'' \<and> length (elems (ev_Parents e)) \<noteq> 1) \<or>
         (ev_Intent e = ''resolve'' \<and> length (elems (ev_Parents e)) < 2)
      then errorf ''resource intent and parent count disagree'' []
      else checkParents (Errorf ''resource parents require sorted unique full IDs'' []) None (elems (ev_Parents e)))"

definition validateResourceEvent :: "host \<Rightarrow> codec \<Rightarrow> Event \<Rightarrow> unit result" where
  "validateResourceEvent h cd e =
     (let family = resourceFamily (ev_Kind e) in
      if family = [] then Inr ()
      else if resourceUnrelated e
      then errorf ''resource event contains unrelated identity, issue, policy or CI fields'' []
      else rbind (CanonicalResourceState h cd family (ev_Body e)) (\<lambda>_.
        rbind (checkResourceShape e) (\<lambda>_.
        rbind (if ev_Operation e \<noteq> [] \<or> ev_Request e \<noteq> [] then
                 (if length (ev_Operation e) < 1 \<or> length (ev_Operation e) > 128 \<or> \<not> validEventID (ev_Request e)
                  then errorf ''resource operation requires bounded key and digest together'' []
                  else if \<not> printableKey (ev_Operation e)
                  then errorf ''resource operation key must be printable non-whitespace ASCII'' []
                  else rbind (ResourceRequestDigest h cd e) (\<lambda>digest.
                    if digest \<noteq> ev_Request e then errorf ''resource request digest mismatch'' [] else Inr ()))
               else Inr ()) (\<lambda>_.
        if length (marshal (jsonEvent e)) > resourcePayloadLimit family
        then errorf ''resource authenticated payload exceeds %d bytes'' [decimal (resourcePayloadLimit family)]
        else Inr ()))))"

section \<open>What the loops accept\<close>

lemma forEach_enumerate:
  assumes "\<And>i x. f i x = Inr () \<longleftrightarrow> P x"
  shows "forEach (\<lambda>(i, x). f i x) (enumerate n xs) = Inr () \<longleftrightarrow> (\<forall>x \<in> set xs. P x)"
proof (induction xs arbitrary: n)
  case (Cons x xs)
  then show ?case using assms [of n x] by (cases "f n x") auto
qed simp

lemma checkOptions_ok: "checkOptions seen xs = Inr () \<longleftrightarrow>
    (\<forall>x \<in> set xs. resourceIdentifier (po_ID x) \<and> issueText (po_Name x) 256 True) \<and>
    distinct (map po_ID xs) \<and> set (map po_ID xs) \<inter> set seen = {}"
  by (induction seen xs rule: checkOptions.induct) auto

lemma resourceIdentifier_nonempty: "resourceIdentifier v \<Longrightarrow> v \<noteq> []"
  by (auto simp: resourceIdentifier_def)

text \<open>A field that is accepted on its own, and the map that the loop has built.\<close>

definition validField :: "ProjectField \<Rightarrow> bool" where
  "validField f \<longleftrightarrow> resourceIdentifier (pf_ID f) \<and> issueText (pf_Name f) 256 True \<and>
     (if pf_Type f = ''single_select''
      then length (elems (pf_Options f)) \<le> 64 \<and> checkOptions [] (elems (pf_Options f)) = Inr ()
      else pf_Type f \<in> {''text'', ''number'', ''date''} \<and> elems (pf_Options f) = [])"

lemma checkFields_ok:
  assumes "\<And>k g. map_of m k = Some g \<Longrightarrow> pf_ID g = k \<and> k \<noteq> []"
  shows "checkFields m fs = Inr m' \<longleftrightarrow>
    (\<forall>f \<in> set fs. validField f) \<and> distinct (map pf_ID fs) \<and> set (map pf_ID fs) \<inter> dom (map_of m) = {} \<and>
    m' = fold (\<lambda>f. AList.update (pf_ID f) f) fs m"
  using assms
proof (induction fs arbitrary: m)
  case (Cons f fs)
  let ?m = "AList.update (pf_ID f) f m"
  have dup: "(case map_of m (pf_ID f) of None \<Rightarrow> False | Some g \<Rightarrow> pf_ID g \<noteq> []) \<longleftrightarrow> pf_ID f \<in> dom (map_of m)"
    using Cons.prems by (auto split: option.splits)
  have step: "checkFields m (f # fs) = Inr m' \<longleftrightarrow> validField f \<and> pf_ID f \<notin> dom (map_of m) \<and> checkFields ?m fs = Inr m'"
    unfolding checkFields.simps dup by (auto simp: validField_def rbind_unit_ok checkOptions_ok)
  have "checkFields ?m fs = Inr m' \<longleftrightarrow> (\<forall>f \<in> set fs. validField f) \<and> distinct (map pf_ID fs) \<and>
      set (map pf_ID fs) \<inter> dom (map_of ?m) = {} \<and> m' = fold (\<lambda>f. AList.update (pf_ID f) f) fs ?m"
    if "validField f"
    using Cons.prems that
    by (intro Cons.IH) (auto simp: update_conv' validField_def resourceIdentifier_nonempty split: if_splits)
  then show ?case unfolding step by (auto simp: update_conv')
qed auto

lemma map_of_fold_fields: "distinct (map pf_ID fs) \<Longrightarrow>
    map_of (fold (\<lambda>f. AList.update (pf_ID f) f) fs m) k =
      (case find (\<lambda>f. pf_ID f = k) fs of Some f \<Rightarrow> Some f | None \<Rightarrow> map_of m k)"
proof (induction fs arbitrary: m)
  case (Cons f fs)
  have "k = pf_ID f \<Longrightarrow> find (\<lambda>f. pf_ID f = k) fs = None" using Cons.prems by (auto simp: find_None_iff image_iff)
  then show ?case using Cons by (auto simp: update_conv' split: option.splits)
qed simp

lemma checkViews_ok: "checkViews m views vs = Inr () \<longleftrightarrow>
    (\<forall>v \<in> set vs. resourceIdentifier (pv_ID v) \<and> issueText (pv_Name v) 256 True \<and> pv_Layout v \<in> {''table'', ''board''} \<and>
       (pv_GroupByField v = [] \<or> (\<exists>f. map_of m (pv_GroupByField v) = Some f \<and> pf_Type f = ''single_select''))) \<and>
    distinct (map pv_ID vs) \<and> set (map pv_ID vs) \<inter> set views = {}"
proof (induction vs arbitrary: views)
  case (Cons v vs)
  have "(case map_of m (pv_GroupByField v) of None \<Rightarrow> True | Some f \<Rightarrow> pf_Type f \<noteq> ''single_select'') \<longleftrightarrow>
      \<not> (\<exists>f. map_of m (pv_GroupByField v) = Some f \<and> pf_Type f = ''single_select'')"
    by (cases "map_of m (pv_GroupByField v)") auto
  then show ?case by (simp add: Cons.IH del: not_ex) blast
qed simp

section \<open>Properties\<close>

text \<open>
  A pipeline is accepted exactly when it has the known version, between 1 and 64 steps, and every
  step has a name and a command, a command path and a working directory that a walk never leads out
  of the checkout, at most 256 bounded arguments, and a timeout between 0 and 3600 seconds.
\<close>

theorem validatePipeline_correct:
  "validatePipeline p = Inr () \<longleftrightarrow> pd_Version p = ''hn.pipeline/0'' \<and>
     1 \<le> length (elems (pd_Steps p)) \<and> length (elems (pd_Steps p)) \<le> 64 \<and>
     (\<forall>s \<in> set (elems (pd_Steps p)).
        trimSpace (ps_Name s) \<noteq> [] \<and> trimSpace (ps_Command s) \<noteq> [] \<and> CHR 0x00 \<notin> set (ps_Command s) \<and>
        (CHR ''/'' \<in> set (ps_Command s) \<or> CHR 0x5C \<in> set (ps_Command s) \<longrightarrow>
           \<not> isAbs (ps_Command s) \<and> staysBelow (splitOn CHR ''/'' (ps_Command s))) \<and>
        (ps_WorkingDirectory s \<noteq> [] \<longrightarrow>
           \<not> isAbs (ps_WorkingDirectory s) \<and> staysBelow (splitOn CHR ''/'' (ps_WorkingDirectory s))) \<and>
        length (elems (ps_Args s)) \<le> 256 \<and>
        (\<forall>a \<in> set (elems (ps_Args s)). CHR 0x00 \<notin> set a \<and> length a \<le> 16384) \<and>
        0 \<le> ps_TimeoutSeconds s \<and> ps_TimeoutSeconds s \<le> 3600)"
    (is "_ \<longleftrightarrow> _ \<and> _ \<and> _ \<and> (\<forall>s \<in> _. ?ok s)")
proof -
  have "checkStep i s = Inr () \<longleftrightarrow> ?ok s" for i s
  proof -
    have cmd: "trimSpace (ps_Command s) \<noteq> [] \<Longrightarrow> ps_Command s \<noteq> []" by (rule trimSpace_nonempty_imp)
    have any: "containsAny c [CHR ''/'', CHR 0x5C] \<longleftrightarrow> CHR ''/'' \<in> set c \<or> CHR 0x5C \<in> set c" for c
      by (auto simp: containsAny_def)
    show ?thesis
      by (simp add: checkStep_def Let_def containsNul_def maxStepTimeout_def list_ex_iff not_less any
          safeRelativePath_iff safeRelativeDirectory_iff) (use cmd in blast)
  qed
  then have "forEach (\<lambda>(i, s). checkStep i s) (enumerate n ss) = Inr () \<longleftrightarrow> (\<forall>s \<in> set ss. ?ok s)" for n ss
    by (rule forEach_enumerate)
  then show ?thesis by (simp add: validatePipeline_def Suc_le_eq not_less)
qed

text \<open>
  An accepted project has at most 64 fields and 16 views with unique identifiers, options only on
  single-select fields, and every view that groups its items does so by one of the project's own
  single-select fields.
\<close>

theorem validateProjectState_correct:
  assumes "validateProjectState s = Inr ()"
  shows "length (elems (pj_Fields s)) \<le> 64 \<and> length (elems (pj_Views s)) \<le> 16 \<and>
    distinct (map pf_ID (elems (pj_Fields s))) \<and> distinct (map pv_ID (elems (pj_Views s))) \<and>
    (\<forall>f \<in> set (elems (pj_Fields s)). pf_Type f \<in> {''text'', ''number'', ''date'', ''single_select''} \<and>
       (elems (pf_Options f) \<noteq> [] \<longrightarrow> pf_Type f = ''single_select'') \<and> distinct (map po_ID (elems (pf_Options f)))) \<and>
    (\<forall>v \<in> set (elems (pj_Views s)). pv_GroupByField v \<noteq> [] \<longrightarrow>
       (\<exists>f \<in> set (elems (pj_Fields s)). pf_ID f = pv_GroupByField v \<and> pf_Type f = ''single_select''))"
proof -
  obtain m where m: "checkFields [] (elems (pj_Fields s)) = Inr m" and v: "checkViews m [] (elems (pj_Views s)) = Inr ()"
    and len: "length (elems (pj_Fields s)) \<le> 64" "length (elems (pj_Views s)) \<le> 16"
    using assms by (auto simp: validateProjectState_def rbind_eq_Inr)
  have f: "\<forall>f \<in> set (elems (pj_Fields s)). validField f" "distinct (map pf_ID (elems (pj_Fields s)))"
    "m = fold (\<lambda>f. AList.update (pf_ID f) f) (elems (pj_Fields s)) []"
    using checkFields_ok [of "[]" "elems (pj_Fields s)" m] m by simp_all
  have "f \<in> set (elems (pj_Fields s)) \<and> pf_ID f = k" if "map_of m k = Some f" for k f
    using that f(2,3) by (auto simp: map_of_fold_fields find_Some_iff split: option.splits)
  then have "\<exists>f \<in> set (elems (pj_Fields s)). pf_ID f = pv_GroupByField v \<and> pf_Type f = ''single_select''"
    if "v \<in> set (elems (pj_Views s))" "pv_GroupByField v \<noteq> []" for v
    using v that unfolding checkViews_ok by blast
  moreover have "pf_Type f \<in> {''text'', ''number'', ''date'', ''single_select''} \<and>
      (elems (pf_Options f) \<noteq> [] \<longrightarrow> pf_Type f = ''single_select'') \<and> distinct (map po_ID (elems (pf_Options f)))"
    if "f \<in> set (elems (pj_Fields s))" for f
    using f(1) that by (auto simp: validField_def checkOptions_ok split: if_splits)
  ultimately show ?thesis using len f(2) v by (simp add: checkViews_ok)
qed

text \<open>
  An accepted resource revision names its root and between one and 200 strictly increasing
  parents, exactly one for an ordinary revision and at least two for a resolution; its body is a valid
  state of its family; when it carries an operation key its request digest is the digest of the
  canonical content; it carries none of the fields of issues, identities, policies or runs.
\<close>

theorem validateResourceEvent_revision:
  assumes "validateResourceEvent h cd e = Inr ()" and "ev_Kind e = family @ ''.revise''" and "validResourceFamily family"
  shows "is_ok (CanonicalResourceState h cd family (ev_Body e)) \<and> validEventID (ev_Subject e) \<and>
    strictSorted (elems (ev_Parents e)) \<and> (\<forall>p \<in> set (elems (ev_Parents e)). validEventID p) \<and>
    (if ev_Intent e = ''resolve'' then 2 \<le> length (elems (ev_Parents e)) \<and> length (elems (ev_Parents e)) \<le> 200
     else ev_Intent e = ''revise'' \<and> length (elems (ev_Parents e)) = 1) \<and>
    (ev_Operation e \<noteq> [] \<longrightarrow> ResourceRequestDigest h cd e = Inr (ev_Request e)) \<and> \<not> resourceUnrelated e"
proof -
  have fam: "resourceFamily (ev_Kind e) = family" "family \<noteq> []" "\<not> hasSuffix (ev_Kind e) ''.open''"
    using assms(3) by (auto simp: assms(2) validResourceFamily_def resourceFamily_def cut_def hasSuffix_def)
  have ok: "is_ok (CanonicalResourceState h cd family (ev_Body e))" "checkResourceShape e = Inr ()" "\<not> resourceUnrelated e"
    "ev_Operation e \<noteq> [] \<longrightarrow> ResourceRequestDigest h cd e = Inr (ev_Request e)"
    using assms(1) fam(1,2)
    by (auto simp: validateResourceEvent_def Let_def rbind_eq_Inr split: if_splits)
  have "validEventID (ev_Subject e)" "length (elems (ev_Parents e)) \<le> 200" "ev_Intent e \<in> {''revise'', ''resolve''}"
    "ev_Intent e = ''revise'' \<Longrightarrow> length (elems (ev_Parents e)) = 1" "ev_Intent e = ''resolve'' \<Longrightarrow> 2 \<le> length (elems (ev_Parents e))"
    "checkParents (Errorf ''resource parents require sorted unique full IDs'' []) None (elems (ev_Parents e)) = Inr ()"
    using ok(2) fam(3) by (auto simp: checkResourceShape_def maxIssueParents_def not_less)
  then show ?thesis using ok by (auto simp: checkParents_ok)
qed

section \<open>Concrete instances\<close>

definition sampleProject :: ProjectState where
  "sampleProject = \<lparr>pj_Schema = ''hn.project/1'', pj_Title = ''Board'', pj_Body = [], pj_Archived = False,
     pj_Fields = Some [\<lparr>pf_ID = ''status'', pf_Name = ''Status'', pf_Type = ''single_select'',
       pf_Options = Some [\<lparr>po_ID = ''todo'', po_Name = ''To do''\<rparr>]\<rparr>],
     pj_Views = Some [\<lparr>pv_ID = ''v'', pv_Name = ''V'', pv_Layout = ''board'', pv_GroupByField = ''status''\<rparr>],
     pj_Metadata = None\<rparr>"

theorem validateProjectState_correct_witness:
  "validateProjectState sampleProject = Inr () \<and>
   (\<exists>f \<in> set (elems (pj_Fields sampleProject)). pf_ID f = ''status'' \<and> pf_Type f = ''single_select'')"
proof -
  have "validateProjectState sampleProject = Inr ()" by code_simp
  then show ?thesis using validateProjectState_correct [of sampleProject] by (simp add: sampleProject_def)
qed

text \<open>Decoders that know one discussion state.\<close>

definition sampleCodec :: codec where
  "sampleCodec = \<lparr>cd_Unmarshal = (\<lambda>_. errorf [] []), cd_Withdrawal = (\<lambda>_. errorf [] []), cd_Resource = (\<lambda>_. errorf [] []),
     cd_Audit = (\<lambda>_. errorf [] []), cd_Pipeline = (\<lambda>_. errorf [] []),
     cd_State = (\<lambda>family raw. if family = ''discussion'' \<and> raw = ''d'' then
       Inr (RDiscussion \<lparr>di_Schema = ''hn.discussion/1'', di_Title = ''T'', di_Body = [], di_Category = ''c'',
         di_Status = ''open'', di_AcceptedReplyRevision = [], di_Metadata = None\<rparr>) else errorf [] []),
     cd_URL = (\<lambda>_. None), cd_Timestamp = (\<lambda>_. True)\<rparr>"

definition sampleResourceRevision :: Event where
  "sampleResourceRevision = zeroEvent\<lparr>ev_Kind := ''discussion.revise'', ev_Body := ''d'', ev_Intent := ''revise'',
     ev_Subject := sampleID CHR ''a'', ev_Parents := Some [sampleID CHR ''a'']\<rparr>"

theorem validateResourceEvent_revision_witness:
  "validateResourceEvent sampleHost sampleCodec sampleResourceRevision = Inr () \<and>
   is_ok (CanonicalResourceState sampleHost sampleCodec ''discussion'' (ev_Body sampleResourceRevision))"
proof -
  have "validateResourceEvent sampleHost sampleCodec sampleResourceRevision = Inr ()" by code_simp
  then show ?thesis
    using validateResourceEvent_revision [of sampleHost sampleCodec sampleResourceRevision "''discussion''"]
    by (simp add: sampleResourceRevision_def validResourceFamily_def)
qed

definition samplePipeline :: PipelineDefinition where
  "samplePipeline = \<lparr>pd_Version = ''hn.pipeline/0'', pd_Steps = Some [\<lparr>ps_Name = ''test'', ps_Command = ''bin/test'',
     ps_Args = Some [''-v''], ps_WorkingDirectory = ''sub'', ps_TimeoutSeconds = 60\<rparr>]\<rparr>"

theorem validatePipeline_correct_witness:
  "validatePipeline samplePipeline = Inr () \<and>
   staysBelow (splitOn CHR ''/'' ''bin/test'') \<and> staysBelow (splitOn CHR ''/'' ''sub'')"
proof -
  have "validatePipeline samplePipeline = Inr ()" by code_simp
  then show ?thesis
    using validatePipeline_correct [of samplePipeline] by (auto simp: samplePipeline_def)
qed

end
