(* ===== verification/HN_Selection.thy ===== *)
theory HN_Selection
  imports HN_Event
begin

text \<open>
  The per-actor selections: for each actor the fact with the greatest sequence number.  The program
  writes the same loop for reviews, run results, decisions and runner results; its contract is stated
  once, as the locale \<open>latest_index\<close>, and interpreted on the loop body \<^const>\<open>keepLatest\<close>.
\<close>

section \<open>The contract of the selection loop\<close>

locale latest_index =
  fixes owner :: "'e \<Rightarrow> 'k"
    and rank :: "'e \<Rightarrow> 'n::linorder"
    and keep :: "'e \<Rightarrow> ('k \<times> 'e) list \<Rightarrow> ('k \<times> 'e) list"
  assumes keep_lookup: "map_of (keep s m) = (map_of m)(owner s \<mapsto>
        (case map_of m (owner s) of None \<Rightarrow> s | Some p \<Rightarrow> if rank p < rank s then s else p))"
    and keep_distinct: "distinct (map fst m) \<Longrightarrow> distinct (map fst (keep s m))"
begin

lemma fold_distinct: "distinct (map fst m) \<Longrightarrow> distinct (map fst (fold keep es m))"
  by (induction es arbitrary: m) (auto simp: keep_distinct)

lemma fold_None: "map_of (fold keep es m) k = None \<longleftrightarrow> map_of m k = None \<and> k \<notin> owner ` set es"
  by (induction es arbitrary: m) (auto simp: keep_lookup)

lemma fold_Some:
  "map_of (fold keep es m) k = Some s \<Longrightarrow>
     (map_of m k = Some s \<or> s \<in> set es \<and> owner s = k) \<and>
     (\<forall>p. map_of m k = Some p \<longrightarrow> rank p \<le> rank s) \<and> (\<forall>t \<in> set es. owner t = k \<longrightarrow> rank t \<le> rank s)"
proof (induction es arbitrary: m)
  case (Cons e es)
  have m': "map_of (keep e m) k = (if k = owner e then Some (case map_of m k of None \<Rightarrow> e
      | Some p \<Rightarrow> if rank p < rank e then e else p) else map_of m k)"
    by (simp add: keep_lookup)
  from Cons.IH [of "keep e m"] Cons.prems
  have IH: "map_of (keep e m) k = Some s \<or> s \<in> set es \<and> owner s = k"
    "\<And>p. map_of (keep e m) k = Some p \<Longrightarrow> rank p \<le> rank s"
    "\<And>t. t \<in> set es \<Longrightarrow> owner t = k \<Longrightarrow> rank t \<le> rank s"
    by auto
  show ?case
  proof (cases "k = owner e")
    case False
    with IH m' show ?thesis by auto
  next
    case True
    have "rank e \<le> rank s"
      using IH(2) m' True by (cases "map_of m k") (auto split: if_splits)
    moreover have "rank p \<le> rank s" if "map_of m k = Some p" for p
      using IH(2) m' True that by (auto split: if_splits)
    moreover have "map_of m k = Some s \<or> s \<in> set (e # es) \<and> owner s = k"
      using IH(1) m' True by (cases "map_of m k") (auto split: if_splits)
    ultimately show ?thesis using IH(3) by auto
  qed
qed simp

text \<open>From the empty map: a total selection of one greatest element per owner.\<close>

lemma select_Some: "map_of (fold keep es []) k = Some s \<Longrightarrow>
    s \<in> set es \<and> owner s = k \<and> (\<forall>t \<in> set es. owner t = k \<longrightarrow> rank t \<le> rank s)"
  using fold_Some [of es "[]" k s] by simp

lemma select_total: "t \<in> set es \<Longrightarrow> \<exists>s. map_of (fold keep es []) (owner t) = Some s \<and> rank t \<le> rank s"
  using fold_None [of es "[]" "owner t"] select_Some [of es "owner t"] by fastforce

lemma select_mem_iff: "(k, s) \<in> set (fold keep es []) \<longleftrightarrow> map_of (fold keep es []) k = Some s"
  using fold_distinct [of "[]" es] by simp

lemma select_values: "s \<in> snd ` set (fold keep es []) \<Longrightarrow>
    s \<in> set es \<and> (\<forall>t \<in> set es. owner t = owner s \<longrightarrow> rank t \<le> rank s)"
  using select_mem_iff select_Some by fastforce

lemma select_values_distinct: "distinct (map owner (map snd (fold keep es [])))"
proof -
  have "map owner (map snd (fold keep es [])) = map fst (fold keep es [])"
    using select_mem_iff [of _ _ es] select_Some [of es] by auto
  then show ?thesis using fold_distinct [of "[]" es] by (simp only: list.map distinct.simps)
qed

text \<open>When an owner has no two elements of the same rank, the selection depends on the set only.\<close>

lemma select_value_iff:
  assumes inj: "inj_on (\<lambda>e. (owner e, rank e)) (set es)"
  shows "s \<in> snd ` set (fold keep es []) \<longleftrightarrow>
    s \<in> set es \<and> (\<forall>t \<in> set es. owner t = owner s \<longrightarrow> rank t \<le> rank s)" (is "?L \<longleftrightarrow> ?R")
proof
  assume R: ?R
  then obtain s' where s': "map_of (fold keep es []) (owner s) = Some s'" "rank s \<le> rank s'"
    using select_total by blast
  then have "s' \<in> set es" "owner s' = owner s" "rank s' = rank s"
    using select_Some [OF s'(1)] R by force+
  with R inj have "s' = s" by (auto dest: inj_onD)
  with s' show ?L by (force simp: select_mem_iff [symmetric])
qed (rule select_values)

lemma select_perm:
  assumes perm: "mset es = mset es'" and inj: "inj_on (\<lambda>e. (owner e, rank e)) (set es)"
  shows "mset (map snd (fold keep es [])) = mset (map snd (fold keep es' []))"
proof -
  have sets: "set es = set es'" using perm by (metis set_mset_mset)
  have d: "distinct (map snd (fold keep xs []))" for xs
    using select_values_distinct [of xs] by (simp only: distinct_map)
  have "set (map snd (fold keep es [])) = set (map snd (fold keep es' []))"
    unfolding list.set_map set_eq_iff
    using select_value_iff [OF inj] select_value_iff [OF inj [unfolded sets]] sets by simp
  then show ?thesis using d set_eq_iff_mset_eq_distinct by blast
qed

end

section \<open>The loop of the program keeps the contract\<close>

interpretation actor_latest: latest_index
  "\<lambda>s. ev_Actor (st_Event s)" "\<lambda>s. ev_Sequence (st_Event s)" keepLatest
proof
  fix s m
  show "map_of (keepLatest s m) = (map_of m)(ev_Actor (st_Event s) \<mapsto>
        (case map_of m (ev_Actor (st_Event s)) of None \<Rightarrow> s
         | Some p \<Rightarrow> if ev_Sequence (st_Event p) < ev_Sequence (st_Event s) then s else p))"
    by (auto simp: keepLatest_def update_conv' split: option.splits)
  show "distinct (map fst m) \<Longrightarrow> distinct (map fst (keepLatest s m))"
    by (auto simp: keepLatest_def distinct_update split: option.splits)
qed

text \<open>A list of facts in which no actor signs two facts with one sequence number.\<close>

definition uniqueSequences :: "StoredEvent list \<Rightarrow> bool" where
  "uniqueSequences es \<longleftrightarrow> inj_on (\<lambda>s. (ev_Actor (st_Event s), ev_Sequence (st_Event s))) (set es)"

definition uniqueIDs :: "StoredEvent list \<Rightarrow> bool" where
  "uniqueIDs es \<longleftrightarrow> inj_on st_ID (set es)"

lemma uniqueSequences_filter: "uniqueSequences es \<Longrightarrow> uniqueSequences (filter P es)"
  by (auto simp: uniqueSequences_def intro: inj_on_subset)

lemma uniqueIDs_filter: "uniqueIDs es \<Longrightarrow> uniqueIDs (filter P es)"
  by (auto simp: uniqueIDs_def intro: inj_on_subset)

lemma set_sortStoredEvents [simp]: "set (sortStoredEvents es) = set es"
  by (simp add: sortStoredEvents_def)

lemma length_sortStoredEvents [simp]: "length (sortStoredEvents es) = length es"
  by (simp add: sortStoredEvents_def)

lemma sortStoredEvents_perm:
  assumes "mset es = mset es'" "uniqueIDs es"
  shows "sortStoredEvents es = sortStoredEvents es'"
proof -
  have "inj_on (\<lambda>s. (ev_Timestamp (st_Event s), st_ID s)) (set es)"
    using assms(2) by (auto simp: uniqueIDs_def inj_on_def)
  with assms(1) show ?thesis unfolding sortStoredEvents_def by (rule sort_key_perm)
qed

text \<open>The selection behind \<^const>\<open>currentReviews\<close> and \<^const>\<open>currentRunResults\<close>.\<close>

lemma latestByActor_values: "s \<in> snd ` set (latestByActor es) \<Longrightarrow> s \<in> set es \<and>
    (\<forall>t \<in> set es. ev_Actor (st_Event t) = ev_Actor (st_Event s) \<longrightarrow>
       ev_Sequence (st_Event t) \<le> ev_Sequence (st_Event s))"
  unfolding latestByActor_def by (rule actor_latest.select_values)

lemma latestByActor_subset: "snd ` set (latestByActor es) \<subseteq> set es"
  using latestByActor_values by blast

lemma latestByActor_actors: "distinct (map (\<lambda>s. ev_Actor (st_Event s)) (map snd (latestByActor es)))"
  unfolding latestByActor_def by (rule actor_latest.select_values_distinct)

lemma latestByActor_total: "t \<in> set es \<Longrightarrow>
    \<exists>s \<in> snd ` set (latestByActor es). ev_Actor (st_Event s) = ev_Actor (st_Event t) \<and>
       ev_Sequence (st_Event t) \<le> ev_Sequence (st_Event s)"
  using actor_latest.select_total [of t es] actor_latest.select_Some [of es]
  unfolding latestByActor_def by (force simp: actor_latest.select_mem_iff [symmetric])

lemma latest_sorted_perm:
  assumes "mset es = mset es'" "uniqueSequences es" "uniqueIDs es"
  shows "sortStoredEvents (map snd (latestByActor (filter P es))) =
         sortStoredEvents (map snd (latestByActor (filter P es')))"
proof (rule sortStoredEvents_perm)
  show "mset (map snd (latestByActor (filter P es))) = mset (map snd (latestByActor (filter P es')))"
    unfolding latestByActor_def
  proof (rule actor_latest.select_perm)
    show "mset (filter P es) = mset (filter P es')" by (simp add: assms(1))
  qed (rule uniqueSequences_filter [OF assms(2), unfolded uniqueSequences_def])
  show "uniqueIDs (map snd (latestByActor (filter P es)))"
  proof -
    have "set (map snd (latestByActor (filter P es))) \<subseteq> set es"
      using latestByActor_subset [of "filter P es"] filter_is_subset [of P es]
      unfolding list.set_map by (rule order_trans)
    with assms(3) show ?thesis unfolding uniqueIDs_def by (rule inj_on_subset)
  qed
qed

lemma currentReviews_mem: "r \<in> set (currentReviews es p) \<Longrightarrow>
    r \<in> set es \<and> ev_Kind (st_Event r) = ''review.submit'' \<and> ev_Subject (st_Event r) = p"
  using latestByActor_subset
    [of "filter (\<lambda>s. \<not> (ev_Kind (st_Event s) \<noteq> ''review.submit'' \<or> ev_Subject (st_Event s) \<noteq> p)) es"]
  by (fastforce simp: currentReviews_def)

lemma currentReviews_actors: "distinct (map (\<lambda>s. ev_Actor (st_Event s)) (currentReviews es p))"
proof -
  have "mset (map (\<lambda>s. ev_Actor (st_Event s)) (currentReviews es p)) =
      mset (map (\<lambda>s. ev_Actor (st_Event s)) (map snd (latestByActor
        (filter (\<lambda>s. \<not> (ev_Kind (st_Event s) \<noteq> ''review.submit'' \<or> ev_Subject (st_Event s) \<noteq> p)) es))))"
    by (simp add: currentReviews_def sortStoredEvents_def multiset.map_comp comp_def)
  then show ?thesis using latestByActor_actors mset_eq_imp_distinct_iff by blast
qed

text \<open>
  The current reviews of a proposal: of the reviews that an actor submitted for it exactly the
  one with the greatest sequence number counts, so an actor's later review replaces its earlier one
  and no actor counts twice.
\<close>

theorem currentReviews_latest:
  assumes "uniqueSequences es"
  shows "set (currentReviews es p) =
      {r \<in> set es. ev_Kind (st_Event r) = ''review.submit'' \<and> ev_Subject (st_Event r) = p \<and>
        (\<forall>t \<in> set es. ev_Kind (st_Event t) = ''review.submit'' \<and> ev_Subject (st_Event t) = p \<and>
           ev_Actor (st_Event t) = ev_Actor (st_Event r) \<longrightarrow>
           ev_Sequence (st_Event t) \<le> ev_Sequence (st_Event r))}
    \<and> distinct (map (\<lambda>r. ev_Actor (st_Event r)) (currentReviews es p))"
proof -
  let ?P = "\<lambda>s. \<not> (ev_Kind (st_Event s) \<noteq> ''review.submit'' \<or> ev_Subject (st_Event s) \<noteq> p)"
  have "snd ` set (latestByActor (filter ?P es)) = {r \<in> set (filter ?P es).
      (\<forall>t \<in> set (filter ?P es). ev_Actor (st_Event t) = ev_Actor (st_Event r) \<longrightarrow>
         ev_Sequence (st_Event t) \<le> ev_Sequence (st_Event r))}"
    using actor_latest.select_value_iff [of "filter ?P es"] uniqueSequences_filter [OF assms, of ?P]
    unfolding latestByActor_def uniqueSequences_def by blast
  then show ?thesis
    using currentReviews_actors by (auto simp: currentReviews_def)
qed

section \<open>A concrete instance\<close>

theorem currentReviews_latest_witness:
  "let es = [sampleFact ''r1'' ''review.submit'' ''ann'' 1 [] ''p'',
             sampleFact ''r2'' ''review.submit'' ''ann'' 2 ''r1'' ''p'',
             sampleFact ''r3'' ''review.submit'' ''bob'' 1 [] ''p'']
   in uniqueSequences es \<and> map st_ID (currentReviews es ''p'') = [''r2'', ''r3''] \<and>
      sampleFact ''r2'' ''review.submit'' ''ann'' 2 ''r1'' ''p'' \<in> set (currentReviews es ''p'') \<and> 
      distinct (map (\<lambda>r. ev_Actor (st_Event r)) (currentReviews es ''p''))"
proof -
  let ?es = "[sampleFact ''r1'' ''review.submit'' ''ann'' 1 [] ''p'',
             sampleFact ''r2'' ''review.submit'' ''ann'' 2 ''r1'' ''p'',
             sampleFact ''r3'' ''review.submit'' ''bob'' 1 [] ''p'']"
  have u: "uniqueSequences ?es" by (auto simp: uniqueSequences_def sampleFact_def)
  have m: "map st_ID (currentReviews ?es ''p'') = [''r2'', ''r3'']" by code_simp
  show ?thesis using currentReviews_latest [OF u, of "''p''"] u m
    by (auto simp: sampleFact_def)
qed

end
