(* ===== verification/HN_Store.thy ===== *)
theory HN_Store
  imports HN_Selection
begin

text \<open>
  The per-actor hash chains of the fact store (\<open>src/store.go\<close>): the check that the facts of every
  actor form one chain of consecutive sequence numbers linked by the identifiers of their
  predecessors, the position that a new fact takes, and the comparison of a local signing root with
  an accepted history.  Git itself (refs, objects, commits) is not modelled; a fact store is the list
  of facts that \<open>collectEvents\<close> has read and verified.
\<close>

section \<open>Chains\<close>

text \<open>The loop over one actor's facts, \<open>previous\<close> being the fact before in sequence order.\<close>

fun checkChain :: "string \<Rightarrow> nat \<Rightarrow> StoredEvent option \<Rightarrow> StoredEvent list \<Rightarrow> unit result" where
  "checkChain actor index previous [] = Inr ()"
| "checkChain actor index previous (stored # rest) =
     (if (case previous of None \<Rightarrow> False
          | Some p \<Rightarrow> ev_Sequence (st_Event p) = ev_Sequence (st_Event stored) \<and> st_ID p \<noteq> st_ID stored)
      then errorf ''actor %s has conflicting sequence %s'' [shortID actor, decimal (unat (ev_Sequence (st_Event stored)))]
      else if ev_Sequence (st_Event stored) \<noteq> of_nat (index + 1)
      then errorf ''actor %s has invalid sequence %s'' [shortID actor, decimal (unat (ev_Sequence (st_Event stored)))]
      else if ev_Previous (st_Event stored) \<noteq> (case previous of None \<Rightarrow> [] | Some p \<Rightarrow> st_ID p)
      then errorf ''actor %s has a broken event chain at sequence %s'' [shortID actor, decimal (unat (ev_Sequence (st_Event stored)))]
      else checkChain actor (index + 1) (Some stored) rest)"

text \<open>The facts of one actor in sequence order, and the actors in order of first appearance.\<close>

definition actorChain :: "StoredEvent list \<Rightarrow> string \<Rightarrow> StoredEvent list" where
  "actorChain events actor =
     sort_key (\<lambda>s. ev_Sequence (st_Event s)) (filter (\<lambda>s. ev_Actor (st_Event s) = actor) events)"

definition chainActors :: "StoredEvent list \<Rightarrow> string list" where
  "chainActors events = remdups (map (\<lambda>s. ev_Actor (st_Event s)) events)"

definition validateActorChains :: "StoredEvent list \<Rightarrow> unit result" where
  "validateActorChains events =
     forEach (\<lambda>actor. checkChain actor 0 None (actorChain events actor)) (chainActors events)"

section \<open>The position of a new fact\<close>

record Identity =
  id_Actor :: string
  id_Name :: string
  id_PublicKey :: string
  id_PrivateKey :: string

text \<open>\<open>newEvent\<close>, with the clock reading as an argument.\<close>

definition newEvent :: "Identity \<Rightarrow> string \<Rightarrow> string \<Rightarrow> 64 word \<Rightarrow> string \<Rightarrow> Event" where
  "newEvent identity now kind sequence previous = zeroEvent\<lparr>
     ev_Protocol := protocolVersion, ev_Kind := kind, ev_Actor := id_Actor identity,
     ev_ActorName := id_Name identity, ev_PublicKey := id_PublicKey identity,
     ev_Sequence := sequence, ev_Timestamp := now, ev_Previous := previous\<rparr>"

text \<open>\<open>nextEvent\<close>: the argument \<open>head\<close> is the verified fact that the actor's ref points to, if any.\<close>

definition nextEvent :: "Identity \<Rightarrow> string \<Rightarrow> string \<Rightarrow> StoredEvent option \<Rightarrow> Event result" where
  "nextEvent identity now kind head = (case head of
       None \<Rightarrow> Inr (newEvent identity now kind 1 [])
     | Some previous \<Rightarrow>
         if ev_Actor (st_Event previous) \<noteq> id_Actor identity
         then errorf ''actor ref contains an event from another identity'' []
         else Inr (newEvent identity now kind (ev_Sequence (st_Event previous) + 1) (st_ID previous)))"

text \<open>The position check of \<open>appendEventWithAttachments\<close>, made again just before the ref is updated.\<close>

definition checkPosition :: "StoredEvent option \<Rightarrow> Event \<Rightarrow> unit result" where
  "checkPosition head event = (case head of
       Some previous \<Rightarrow>
         if ev_Previous event \<noteq> st_ID previous \<or> ev_Sequence event \<noteq> ev_Sequence (st_Event previous) + 1
         then errorf ''actor history changed while creating event; retry the command'' [] else Inr ()
     | None \<Rightarrow>
         if ev_Previous event \<noteq> [] \<or> ev_Sequence event \<noteq> 1
         then errorf ''first actor event must have sequence 1 and no predecessor'' [] else Inr ())"

text \<open>\<open>requireSigningPrefix\<close>: the accepted history must be a prefix of the local one.\<close>

fun diverges :: "string list \<Rightarrow> string list \<Rightarrow> bool" where
  "diverges local [] = False"
| "diverges [] (a # accepted) = True"
| "diverges (l # local) (a # accepted) = (l \<noteq> a \<or> diverges local accepted)"

definition requireSigningPrefix :: "string list \<Rightarrow> string list \<Rightarrow> string \<Rightarrow> unit result" where
  "requireSigningPrefix local accepted kind =
     (if length accepted \<le> length local then
        (if diverges local accepted
         then errorf ''%s signing root diverges from known accepted history; fence prior writers and explicitly reconcile verified roots'' [kind] else Inr ())
      else errorf ''%s signing root is missing or stale against known accepted history; fence prior writers and explicitly restore the verified root'' [kind])"

section \<open>Lemmas\<close>

text \<open>What a checked chain looks like from position \<open>n\<close> on.\<close>

definition chainFrom :: "nat \<Rightarrow> StoredEvent option \<Rightarrow> StoredEvent list \<Rightarrow> bool" where
  "chainFrom n previous c \<longleftrightarrow> (\<forall>i < length c.
     ev_Sequence (st_Event (c ! i)) = of_nat (n + i + 1) \<and>
     ev_Previous (st_Event (c ! i)) =
       (if i = 0 then (case previous of None \<Rightarrow> [] | Some p \<Rightarrow> st_ID p) else st_ID (c ! (i - 1))))"

lemma chainFrom_Nil [simp]: "chainFrom n p []"
  by (simp add: chainFrom_def)

lemma chainFrom_Cons: "chainFrom n p (s # c) \<longleftrightarrow> ev_Sequence (st_Event s) = of_nat (n + 1) \<and>
    ev_Previous (st_Event s) = (case p of None \<Rightarrow> [] | Some q \<Rightarrow> st_ID q) \<and> chainFrom (n + 1) (Some s) c"
  (is "?L \<longleftrightarrow> ?R")
proof
  assume L: ?L
  have "chainFrom (n + 1) (Some s) c"
    unfolding chainFrom_def
  proof (intro allI impI)
    fix i assume "i < length c"
    then show "ev_Sequence (st_Event (c ! i)) = of_nat (n + 1 + i + 1) \<and> ev_Previous (st_Event (c ! i)) =
        (if i = 0 then (case Some s of None \<Rightarrow> [] | Some p \<Rightarrow> st_ID p) else st_ID (c ! (i - 1)))"
      using L [unfolded chainFrom_def, rule_format, of "Suc i"] by (cases i) (auto simp: add.commute)
  qed
  then show ?R using L [unfolded chainFrom_def, rule_format, of 0] by simp
next
  assume R: ?R
  show ?L
    unfolding chainFrom_def
  proof (intro allI impI)
    fix i assume i: "i < length (s # c)"
    show "ev_Sequence (st_Event ((s # c) ! i)) = of_nat (n + i + 1) \<and> ev_Previous (st_Event ((s # c) ! i)) =
        (if i = 0 then (case p of None \<Rightarrow> [] | Some p \<Rightarrow> st_ID p) else st_ID ((s # c) ! (i - 1)))"
    proof (cases i)
      case 0
      with R show ?thesis by simp
    next
      case (Suc j)
      then show ?thesis
        using i R [THEN conjunct2, THEN conjunct2, unfolded chainFrom_def, rule_format, of j]
        by (auto simp: add.commute nth_Cons')
    qed
  qed
qed

lemma chainFrom_snoc: "chainFrom n p (c @ [s]) \<longleftrightarrow> chainFrom n p c \<and>
    ev_Sequence (st_Event s) = of_nat (n + length c + 1) \<and>
    ev_Previous (st_Event s) = (if c = [] then (case p of None \<Rightarrow> [] | Some q \<Rightarrow> st_ID q) else st_ID (last c))"
  by (induction c arbitrary: n p) (auto simp: chainFrom_Cons add.commute add.left_commute)

lemma checkChain_ok_iff:
  assumes "\<And>p. previous = Some p \<Longrightarrow> ev_Sequence (st_Event p) = of_nat n"
  shows "checkChain actor n previous c = Inr () \<longleftrightarrow> chainFrom n previous c"
  using assms
proof (induction actor n previous c rule: checkChain.induct)
  case (2 actor n previous s c)
  have "ev_Sequence (st_Event s) = of_nat (n + 1) \<Longrightarrow> previous = Some p \<Longrightarrow>
      ev_Sequence (st_Event p) \<noteq> ev_Sequence (st_Event s)" for p
    using 2(2) by simp
  then have no_conflict: "\<not> (case previous of None \<Rightarrow> False
      | Some p \<Rightarrow> ev_Sequence (st_Event p) = ev_Sequence (st_Event s) \<and> st_ID p \<noteq> st_ID s)"
    if "ev_Sequence (st_Event s) = of_nat (n + 1)"
    using that by (auto split: option.splits)
  show ?case
  proof (cases "ev_Sequence (st_Event s) = of_nat (n + 1) \<and>
      ev_Previous (st_Event s) = (case previous of None \<Rightarrow> [] | Some p \<Rightarrow> st_ID p)")
    case True
    then have "checkChain actor n previous (s # c) = checkChain actor (n + 1) (Some s) c"
      using no_conflict by (simp only: checkChain.simps not_True_eq_False if_False simp_thms)
    moreover have "checkChain actor (n + 1) (Some s) c = Inr () \<longleftrightarrow> chainFrom (n + 1) (Some s) c"
    proof (rule 2(1))
      show "\<not> (case previous of None \<Rightarrow> False
      | Some p \<Rightarrow> ev_Sequence (st_Event p) = ev_Sequence (st_Event s) \<and> st_ID p \<noteq> st_ID s)"
        by (rule no_conflict) (rule True [THEN conjunct1])
    next
      fix p assume "Some s = Some p"
      then show "ev_Sequence (st_Event p) = of_nat (n + 1)"
        using True by (simp only: option.inject simp_thms)
    qed (use True in \<open>simp_all only: simp_thms\<close>)
    ultimately show ?thesis using True by (simp only: chainFrom_Cons simp_thms)
  next
    case False
    then have "checkChain actor n previous (s # c) \<noteq> Inr ()"
      by (simp only: checkChain.simps) auto
    with False show ?thesis by (simp only: chainFrom_Cons) blast
  qed
qed simp

lemma validateActorChains_iff:
  "validateActorChains es = Inr () \<longleftrightarrow> (\<forall>a. chainFrom 0 None (actorChain es a))"
proof -
  have "actorChain es a = []" if "a \<notin> set (chainActors es)" for a
  proof -
    have "filter (\<lambda>s. ev_Actor (st_Event s) = a) es = []"
      using that by (auto simp: chainActors_def filter_empty_conv)
    then show ?thesis by (simp only: actorChain_def) simp
  qed
  then show ?thesis
    unfolding validateActorChains_def forEach_ok_iff
    using checkChain_ok_iff [of None 0] by (metis chainFrom_Nil option.distinct(1))
qed

lemma set_actorChain: "set (actorChain es a) = {s \<in> set es. ev_Actor (st_Event s) = a}"
  by (auto simp: actorChain_def)

lemma of_nat_word_inj: "(of_nat m :: 64 word) = of_nat n \<Longrightarrow> m < 2 ^ 64 \<Longrightarrow> n < 2 ^ 64 \<Longrightarrow> m = n"
  by (simp add: word_of_nat_eq_iff take_bit_nat_eq_self)

lemma unat_of_nat_word: "n < 2 ^ 64 \<Longrightarrow> unat (of_nat n :: 64 word) = n"
  by (simp add: unat_of_nat)

lemma length_actorChain_le: "length (actorChain es a) \<le> length es"
  by (simp add: actorChain_def)

lemma chain_distinct_seq:
  assumes "chainFrom 0 None c" "length c < 2 ^ 64" "i < length c" "j < length c"
    and "ev_Sequence (st_Event (c ! i)) = ev_Sequence (st_Event (c ! j))"
  shows "i = j"
proof -
  have "(of_nat (i + 1) :: 64 word) = of_nat (j + 1)"
    using assms unfolding chainFrom_def by (metis add_0)
  then show ?thesis using of_nat_word_inj [of "i + 1" "j + 1"] assms(2-4) by simp
qed

lemma uniqueSequences_of_chains:
  assumes ok: "validateActorChains es = Inr ()" and len: "length es < 2 ^ 64"
  shows "uniqueSequences es"
  unfolding uniqueSequences_def
proof (rule inj_onI)
  fix s t
  assume st: "s \<in> set es" "t \<in> set es"
    and eq: "(ev_Actor (st_Event s), ev_Sequence (st_Event s)) = (ev_Actor (st_Event t), ev_Sequence (st_Event t))"
  let ?c = "actorChain es (ev_Actor (st_Event s))"
  have "s \<in> set ?c" "t \<in> set ?c" using st eq by (auto simp: set_actorChain)
  then obtain i j where "i < length ?c" "?c ! i = s" "j < length ?c" "?c ! j = t"
    by (auto simp: in_set_conv_nth)
  moreover have "chainFrom 0 None ?c" using ok by (simp add: validateActorChains_iff)
  moreover have "length ?c < 2 ^ 64" using len length_actorChain_le [of es] by (meson le_less_trans)
  ultimately show "s = t" using chain_distinct_seq [of ?c i j] eq by auto
qed

lemma actorChain_perm:
  assumes "mset es = mset es'" "uniqueSequences es"
  shows "actorChain es a = actorChain es' a"
  unfolding actorChain_def
proof (rule sort_key_perm)
  show "mset (filter (\<lambda>s. ev_Actor (st_Event s) = a) es) = mset (filter (\<lambda>s. ev_Actor (st_Event s) = a) es')"
    using assms(1) by simp
  show "inj_on (\<lambda>s. ev_Sequence (st_Event s)) (set (filter (\<lambda>s. ev_Actor (st_Event s) = a) es))"
    using assms(2) by (auto simp: uniqueSequences_def inj_on_def)
qed

text \<open>The sequence numbers of a chain that is shorter than the number space, as numbers.\<close>

lemma chain_seq_unat:
  assumes "chainFrom 0 None c" "length c < 2 ^ 64" "i < length c"
  shows "unat (ev_Sequence (st_Event (c ! i))) = i + 1"
proof -
  have "ev_Sequence (st_Event (c ! i)) = of_nat (i + 1)"
    using assms(1,3) unfolding chainFrom_def by (metis add_0)
  moreover have "i + 1 < 2 ^ 64" using assms(2,3) by simp
  ultimately show ?thesis using unat_of_nat_word [of "i + 1"] by (simp only:)
qed

lemma actorChain_append_last:
  assumes ok: "chainFrom 0 None (actorChain es a)" and len: "length (actorChain es a) + 1 < 2 ^ 64"
    and act: "ev_Actor (st_Event s) = a"
    and seq: "ev_Sequence (st_Event s) = of_nat (length (actorChain es a) + 1)"
  shows "actorChain (es @ [s]) a = actorChain es a @ [s]"
proof -
  let ?f = "\<lambda>s. ev_Sequence (st_Event s)" and ?c = "actorChain es a"
  have eq: "map (unat \<circ> ?f) (?c @ [s]) = [1..<length ?c + 2]"
  proof (rule nth_equalityI)
    fix i assume "i < length (map (unat \<circ> ?f) (?c @ [s]))"
    then have i: "i < length ?c \<or> i = length ?c" by auto
    then have "unat (?f ((?c @ [s]) ! i)) = i + 1"
      using chain_seq_unat [OF ok, of i] len unat_of_nat_word [OF len] seq
      by (auto simp: nth_append simp del: of_nat_add)
    with i show "map (unat \<circ> ?f) (?c @ [s]) ! i = [1..<length ?c + 2] ! i"
      by (auto simp: nth_append simp del: upt_Suc)
  qed (simp del: upt_Suc)
  have "sorted (map ?f (?c @ [s]))"
    using sorted_upt [of 1 "length ?c + 2"] unfolding eq [symmetric]
    by (simp add: sorted_iff_nth_mono word_le_nat_alt nth_append del: map_append) 
  moreover have "inj_on ?f (set (?c @ [s]))"
  proof -
    have "distinct (map (unat \<circ> ?f) (?c @ [s]))" unfolding eq by simp
    then have "inj_on (unat \<circ> ?f) (set (?c @ [s]))" by (simp only: distinct_map)
    then show ?thesis by (rule inj_on_imageI2)
  qed
  moreover have "mset (filter (\<lambda>s. ev_Actor (st_Event s) = a) (es @ [s])) = mset (?c @ [s])"
    using act by (simp add: actorChain_def)
  ultimately show ?thesis
    using act sort_key_inj_key_eq [of "filter (\<lambda>s. ev_Actor (st_Event s) = a) (es @ [s])" "?c @ [s]" ?f]
    by (simp add: actorChain_def)
qed

lemma actorChain_append_other: "ev_Actor (st_Event s) \<noteq> a \<Longrightarrow> actorChain (es @ [s]) a = actorChain es a"
  by (simp add: actorChain_def)

section \<open>Properties\<close>

text \<open>
  C1. \<open>validateActorChains\<close> accepts a list of facts exactly when, for every actor, its facts in
  sequence order carry the sequence numbers 1, 2, 3, ... and each names the identifier of the one
  before it as its predecessor, the first naming none.
\<close>

theorem validateActorChains_correct:
  "validateActorChains es = Inr () \<longleftrightarrow>
    (\<forall>a. let c = actorChain es a in \<forall>i < length c.
       ev_Sequence (st_Event (c ! i)) = of_nat (i + 1) \<and>
       ev_Previous (st_Event (c ! i)) = (if i = 0 then [] else st_ID (c ! (i - 1))))"
  by (simp add: validateActorChains_iff chainFrom_def Let_def)

text \<open>
  The verdict of \<open>validateActorChains\<close> does not depend on the order in which the facts were read.
\<close>

theorem validateActorChains_order_independent:
  assumes "mset es = mset es'" and "length es < 2 ^ 64"
  shows "is_ok (validateActorChains es) = is_ok (validateActorChains es')"
proof -
  have len: "length es' < 2 ^ 64" using assms by (metis size_mset)
  have "validateActorChains es = Inr () \<Longrightarrow> validateActorChains es' = Inr ()"
    using uniqueSequences_of_chains [OF _ assms(2)] actorChain_perm [OF assms(1)]
    by (metis validateActorChains_iff)
  moreover have "validateActorChains es' = Inr () \<Longrightarrow> validateActorChains es = Inr ()"
    using uniqueSequences_of_chains [OF _ len] actorChain_perm [OF assms(1) [symmetric]]
    by (metis validateActorChains_iff)
  ultimately show ?thesis by (auto simp: is_ok_unit)
qed

text \<open>
  C2. A fact that \<open>nextEvent\<close> positions after the head of its signer's chain, and that still passes
  the position check when it is stored, extends the store to one that \<open>validateActorChains\<close> accepts.
\<close>

theorem nextEvent_extends_chain:
  assumes "validateActorChains es = Inr ()"
    and "head = (if actorChain es (id_Actor identity) = [] then None
                 else Some (last (actorChain es (id_Actor identity))))"
    and "nextEvent identity now kind head = Inr e0"
    and "ev_Actor e = ev_Actor e0" and "checkPosition head e = Inr ()"
    and "st_Event s = e" and "length es + 1 < 2 ^ 64"
  shows "validateActorChains (es @ [s]) = Inr ()"
  unfolding validateActorChains_iff
proof
  fix a
  let ?a = "id_Actor identity"
  let ?c = "actorChain es ?a"
  have ok: "chainFrom 0 None (actorChain es b)" for b using assms(1) by (simp add: validateActorChains_iff)
  have act: "ev_Actor (st_Event s) = ?a"
    using assms(3,4,6) by (auto simp: nextEvent_def newEvent_def split: option.splits if_splits)
  have len: "length ?c + 1 < 2 ^ 64" using assms(7) length_actorChain_le [of es ?a] by linarith
  have pos: "ev_Sequence (st_Event s) = of_nat (length ?c + 1) \<and>
      ev_Previous (st_Event s) = (if ?c = [] then [] else st_ID (last ?c))"
  proof (cases "?c = []")
    case True
    then show ?thesis using assms(2,5,6) by (auto simp: checkPosition_def split: if_splits)
  next
    case False
    then have "ev_Sequence (st_Event (last ?c)) = of_nat (length ?c)"
      using ok [of ?a, unfolded chainFrom_def, rule_format, of "length ?c - 1"] by (simp add: last_conv_nth)
    then show ?thesis using False assms(2,5,6) by (auto simp: checkPosition_def split: if_splits)
  qed
  show "chainFrom 0 None (actorChain (es @ [s]) a)"
  proof (cases "a = ?a")
    case True
    then have "actorChain (es @ [s]) a = ?c @ [s]"
      using actorChain_append_last [OF ok len act] pos by simp
    then show ?thesis using ok [of ?a] pos by (simp add: chainFrom_snoc)
  next
    case False
    then show ?thesis using act ok by (simp add: actorChain_append_other)
  qed
qed

text \<open>
  C8. \<open>requireSigningPrefix\<close> lets an actor sign exactly when its known accepted history is a prefix
  of its local one: a stale or diverging signing root is refused.
\<close>

theorem requireSigningPrefix_correct:
  "requireSigningPrefix loc accepted kind = Inr () \<longleftrightarrow> (\<exists>rest. loc = accepted @ rest)"
proof -
  have "length accepted \<le> length loc \<Longrightarrow> \<not> diverges loc accepted \<longleftrightarrow> (\<exists>rest. loc = accepted @ rest)"
    by (induction loc accepted rule: diverges.induct) auto
  then show ?thesis by (auto simp: requireSigningPrefix_def)
qed

section \<open>Concrete instances\<close>

theorem validateActorChains_correct_witness:
  "let a = sampleFact ''e1'' ''proposal.open'' ''ann'' 1 [] [];
       b = sampleFact ''e2'' ''proposal.open'' ''ann'' 2 ''e1'' []
   in validateActorChains [b, a] = Inr () \<and> actorChain [b, a] ''ann'' = [a, b] \<and>
      ev_Previous (st_Event ([a, b] ! 1)) = st_ID ([a, b] ! 0)"
proof -
  let ?a = "sampleFact ''e1'' ''proposal.open'' ''ann'' 1 [] []"
  let ?b = "sampleFact ''e2'' ''proposal.open'' ''ann'' 2 ''e1'' []"
  have "validateActorChains [?b, ?a] = Inr ()" by code_simp
  moreover have "actorChain [?b, ?a] ''ann'' = [?a, ?b]" by code_simp
  ultimately show ?thesis
    using validateActorChains_correct [of "[?b, ?a]"] by (simp add: Let_def sampleFact_def)
qed

theorem validateActorChains_order_independent_witness:
  "let a = sampleFact ''e1'' ''proposal.open'' ''ann'' 1 [] []; 
       b = sampleFact ''e2'' ''proposal.open'' ''ann'' 2 ''e1'' []
   in validateActorChains [b, a] = Inr () \<and> is_ok (validateActorChains [a, b])"
proof -
  let ?a = "sampleFact ''e1'' ''proposal.open'' ''ann'' 1 [] []"
  let ?b = "sampleFact ''e2'' ''proposal.open'' ''ann'' 2 ''e1'' []"
  have "validateActorChains [?b, ?a] = Inr ()" by code_simp
  then show ?thesis
    using validateActorChains_order_independent [of "[?a, ?b]" "[?b, ?a]"] by simp
qed

theorem nextEvent_extends_chain_witness:
  "let ann = \<lparr>id_Actor = ''ann'', id_Name = ''Ann'', id_PublicKey = [], id_PrivateKey = []\<rparr>;
       a = sampleFact ''e1'' ''proposal.open'' ''ann'' 1 [] [];
       b = sampleFact ''e2'' [] [] 0 [] []
   in case nextEvent ann ''now'' ''issue.open'' (Some a) of Inl _ \<Rightarrow> False
      | Inr e \<Rightarrow> validateActorChains ([a] @ [b\<lparr>st_Event := e\<rparr>]) = Inr ()"
proof -
  let ?ann = "\<lparr>id_Actor = ''ann'', id_Name = ''Ann'', id_PublicKey = [], id_PrivateKey = []\<rparr>"
  let ?a = "sampleFact ''e1'' ''proposal.open'' ''ann'' 1 [] []"
  let ?b = "sampleFact ''e2'' [] [] 0 [] []"
  let ?e = "newEvent ?ann ''now'' ''issue.open'' 2 ''e1''"
  have nx: "nextEvent ?ann ''now'' ''issue.open'' (Some ?a) = Inr ?e" by (simp add: nextEvent_def sampleFact_def)
  have "validateActorChains ([?a] @ [?b\<lparr>st_Event := ?e\<rparr>]) = Inr ()"
  proof (rule nextEvent_extends_chain [of "[?a]" "Some ?a" ?ann, OF _ _ nx])
    show "validateActorChains [?a] = Inr ()" by code_simp
    show "checkPosition (Some ?a) ?e = Inr ()" by code_simp
  qed (simp_all add: actorChain_def sampleFact_def)
  with nx show ?thesis by simp
qed

end
