(* ===== verification/HN_Content.thy ===== *)
theory HN_Content
  imports HN_Resource_Model HN_Store
begin

text \<open>
  What a single fact must look like (\<open>validateEventContent\<close> of \<open>src/event.go\<close>, with the audit facts of
  \<open>src/audit_protocol.go\<close> and the run withdrawals of \<open>src/run_withdrawal.go\<close>), and how a fact is signed
  and verified.
\<close>

section \<open>Base64\<close>

text \<open>
  \<open>base64.RawStdEncoding.DecodeString\<close>: no padding, carriage returns and line feeds are skipped, bits
  left over in the last group are ignored.
\<close>

definition base64Value :: "char \<Rightarrow> nat option" where
  "base64Value c =
     (let n = byte c in
      if 65 \<le> n \<and> n \<le> 90 then Some (n - 65)
      else if 97 \<le> n \<and> n \<le> 122 then Some (n - 97 + 26)
      else if 48 \<le> n \<and> n \<le> 57 then Some (n - 48 + 52)
      else if n = 43 then Some 62
      else if n = 47 then Some 63
      else None)"

fun base64Groups :: "nat list \<Rightarrow> string option" where
  "base64Groups [] = Some []"
| "base64Groups [a] = None"
| "base64Groups [a, b] = Some [char_of (4 * a + b div 16)]"
| "base64Groups [a, b, c] = Some [char_of (4 * a + b div 16), char_of (16 * (b mod 16) + c div 4)]"
| "base64Groups (a # b # c # d # r) = map_option
     (\<lambda>t. char_of (4 * a + b div 16) # char_of (16 * (b mod 16) + c div 4) # char_of (64 * (c mod 4) + d) # t)
     (base64Groups r)"

definition base64Decode :: "string \<Rightarrow> string option" where
  "base64Decode s =
     (let vs = map base64Value (filter (\<lambda>c. byte c \<noteq> 10 \<and> byte c \<noteq> 13) s) in
      if None \<in> set vs then None else base64Groups (map the vs))"

section \<open>Audit facts\<close>

definition maxAuditPayload :: nat where
  "maxAuditPayload = 2097152"

definition auditPipeline :: "codec \<Rightarrow> string \<Rightarrow> unit result" where
  "auditPipeline cd raw = rbind (strictResourceJSON (cd_Pipeline cd) raw maxPipelineSize) validatePipeline"

text \<open>The envelope that an audit fact may use, \<open>expected\<close>.\<close>

definition auditEnvelope :: "Event \<Rightarrow> Event" where
  "auditEnvelope e = zeroEvent\<lparr>ev_Protocol := ev_Protocol e, ev_Kind := ev_Kind e, ev_Actor := ev_Actor e,
     ev_ActorName := ev_ActorName e, ev_PublicKey := ev_PublicKey e, ev_Sequence := ev_Sequence e,
     ev_Timestamp := ev_Timestamp e, ev_Previous := ev_Previous e, ev_Audit := ev_Audit e,
     ev_Operation := (if ev_Kind e = ''audit.request'' then ev_Operation e else [])\<rparr>"

definition zeroAuditFact :: AuditFact where
  "zeroAuditFact = \<lparr>au_Scope = [], au_Rule = [], au_PolicyCommit = [], au_PolicyDigest = [], au_Parents = None,
     au_Source = None, au_Definition = [], au_DefinitionDigest = [], au_Reason = [], au_Authorization = [],
     au_CodeCommit = [], au_Intent = [], au_Request = [], au_Outcome = [], au_Findings = None, au_Log = [],
     au_Backend = [], au_Platform = [], au_Runner = [], au_ExitCode = 0, au_DurationMS = 0\<rparr>"

definition auditBase :: "AuditFact \<Rightarrow> AuditFact" where
  "auditBase f = zeroAuditFact\<lparr>au_Scope := au_Scope f, au_Rule := au_Rule f,
     au_PolicyCommit := au_PolicyCommit f, au_PolicyDigest := au_PolicyDigest f\<rparr>"

text \<open>The fields that each kind of audit fact may fill, \<open>allowed\<close>.\<close>

definition auditAllowed :: "string \<Rightarrow> AuditFact \<Rightarrow> AuditFact" where
  "auditAllowed kind f =
     (if kind = ''audit.rule-authorize'' then
        (auditBase f)\<lparr>au_Parents := au_Parents f, au_Source := au_Source f, au_Definition := au_Definition f,
          au_DefinitionDigest := au_DefinitionDigest f\<rparr>
      else if kind = ''audit.rule-revoke'' then (auditBase f)\<lparr>au_Parents := au_Parents f, au_Reason := au_Reason f\<rparr>
      else if kind = ''audit.request'' then
        (auditBase f)\<lparr>au_Authorization := au_Authorization f, au_CodeCommit := au_CodeCommit f,
          au_DefinitionDigest := au_DefinitionDigest f, au_Intent := au_Intent f\<rparr>
      else
        (auditBase f)\<lparr>au_Authorization := au_Authorization f, au_CodeCommit := au_CodeCommit f,
          au_DefinitionDigest := au_DefinitionDigest f, au_Request := au_Request f, au_Outcome := au_Outcome f,
          au_Findings := au_Findings f, au_Log := au_Log f, au_Backend := au_Backend f, au_Platform := au_Platform f,
          au_Runner := au_Runner f, au_ExitCode := au_ExitCode f, au_DurationMS := au_DurationMS f\<rparr>)"

definition checkAuditSource :: "AuditSource \<Rightarrow> unit result" where
  "checkAuditSource s =
     (if as_Kind s = ''pipeline'' \<or> as_Kind s = ''git'' then
        (if \<not> validGitOID (as_Commit s) \<or> \<not> safeRelativePath (as_Path s) \<or> as_Revision s \<noteq> []
         then errorf ''audit source requires exact already-present commit/path'' []
         else if as_Kind s = ''pipeline'' \<and> (\<not> hasPrefix (as_Path s) ''.hn/pipelines/'' \<or> \<not> hasSuffix (as_Path s) ''.json'')
         then errorf ''pipeline source must name a committed .hn/pipelines/*.json'' []
         else Inr ())
      else if as_Kind s = ''workflow'' then
        (if \<not> validEventID (as_Revision s) \<or> as_Commit s \<noteq> [] \<or> as_Path s \<noteq> []
         then errorf ''workflow source requires exact native revision'' [] else Inr ())
      else errorf ''unsupported audit source kind'' [])"

fun checkFindings :: "string list \<Rightarrow> AuditFinding list \<Rightarrow> unit result" where
  "checkFindings seen [] = Inr ()"
| "checkFindings seen (f # fs) =
     (if \<not> issueIdentifier (fi_Key f) 128 \<or> fi_Key f \<in> set seen \<or> \<not> issueText (fi_Title f) 512 True \<or>
         \<not> issueText (fi_Body f) 16384 False \<or>
         (fi_Path f \<noteq> [] \<and> (\<not> safeRelativePath (fi_Path f) \<or> length (fi_Path f) > 1024)) \<or>
         fi_Line f < 0 \<or> (fi_Line f > 0 \<and> fi_Path f = [])
      then errorf ''invalid or duplicate audit finding'' []
      else checkFindings (fi_Key f # seen) fs)"

text \<open>The switch over the kind of an audit fact.\<close>

definition checkAuditKind :: "host \<Rightarrow> codec \<Rightarrow> string \<Rightarrow> AuditFact \<Rightarrow> unit result" where
  "checkAuditKind h cd kind f =
     (if kind = ''audit.rule-authorize'' then
        (case au_Source f of
           None \<Rightarrow> errorf ''audit authorization requires exact source and definition digest'' []
         | Some s \<Rightarrow>
             if eventID h (au_Definition f) \<noteq> au_DefinitionDigest f
             then errorf ''audit authorization requires exact source and definition digest'' []
             else rbind (auditPipeline cd (au_Definition f)) (\<lambda>_. checkAuditSource s))
      else if kind = ''audit.rule-revoke'' then
        (if length (elems (au_Parents f)) = 0 \<or> \<not> issueText (au_Reason f) 4096 True
         then errorf ''revocation requires predecessor heads and reason'' [] else Inr ())
      else if kind = ''audit.request'' then
        (if \<not> validEventID (au_Authorization f) \<or> \<not> validGitOID (au_CodeCommit f) \<or>
            \<not> validEventID (au_DefinitionDigest f) \<or> \<not> issueText (au_Intent f) 4096 True
         then errorf ''audit request requires authorization, exact code/definition and intent'' [] else Inr ())
      else if kind = ''audit.result'' then
        (if \<not> validEventID (au_Request f) \<or> \<not> validEventID (au_Authorization f) \<or> \<not> validGitOID (au_CodeCommit f) \<or>
            \<not> validEventID (au_DefinitionDigest f) \<or> \<not> validEventID (au_Log f) \<or>
            (au_Outcome f \<noteq> ''passed'' \<and> au_Outcome f \<noteq> ''failed'') \<or>
            (au_Backend f \<noteq> ''sandbox'' \<and> au_Backend f \<noteq> ''host'') \<or> \<not> issueText (au_Platform f) 128 True \<or>
            \<not> issueText (au_Runner f) 256 True \<or> au_DurationMS f < 0 \<or> au_ExitCode f < 0 \<or> au_ExitCode f > 255
         then errorf ''invalid audit result binding or provenance'' []
         else if (au_Outcome f = ''passed'' \<and> au_ExitCode f \<noteq> 0) \<or> (au_Outcome f = ''failed'' \<and> au_ExitCode f = 0)
         then errorf ''audit outcome and exit code disagree'' []
         else if length (elems (au_Findings f)) > 128 then errorf ''too many audit findings'' []
         else checkFindings [] (elems (au_Findings f)))
      else errorf ''unsupported audit kind'' [])"

definition validateAuditEvent :: "host \<Rightarrow> codec \<Rightarrow> Event \<Rightarrow> unit result" where
  "validateAuditEvent h cd e = (case ev_Audit e of
       None \<Rightarrow> errorf ''audit fact is required'' []
     | Some f \<Rightarrow>
         if ev_Kind e = ''audit.request'' \<and> length (ev_Operation e) > 256 then errorf ''audit operation too long'' []
         else if e \<noteq> auditEnvelope e then errorf ''audit event contains unrelated envelope fields'' []
         else if ev_Previous e \<noteq> [] \<and> \<not> validEventID (ev_Previous e) then errorf ''invalid audit actor predecessor'' []
         else if \<not> issueIdentifier (au_Scope f) 128 \<or> \<not> validPipelineName (au_Rule f) \<or>
                 \<not> validGitOID (au_PolicyCommit f) \<or> \<not> validEventID (au_PolicyDigest f)
         then errorf ''audit requires scope, rule and exact authority policy'' []
         else rbind (checkAuditKind h cd (ev_Kind e) f) (\<lambda>_.
           if length (elems (au_Parents f)) > 64 \<or> \<not> validEvidenceIDs (elems (au_Parents f))
           then errorf ''invalid audit predecessor heads'' []
           else if f \<noteq> auditAllowed (ev_Kind e) f
           then errorf ''audit payload contains fields unrelated to its kind'' []
           else if length (marshal (jsonEvent e)) > maxAuditPayload then errorf ''audit payload too large'' []
           else Inr ()))"

text \<open>The facts and Git objects that an audit fact refers to.\<close>

definition auditReferences :: "Event \<Rightarrow> string list" where
  "auditReferences e = (if \<not> isAuditKind (ev_Kind e) then [] else case ev_Audit e of None \<Rightarrow> [] | Some f \<Rightarrow>
     sortedUniqueStrings (elems (au_Parents f) @
       (if au_Authorization f \<noteq> [] then [au_Authorization f] else []) @
       (if au_Request f \<noteq> [] then [au_Request f] else []) @
       (case au_Source f of None \<Rightarrow> [] | Some s \<Rightarrow> if as_Kind s = ''workflow'' then [as_Revision s] else [])))"

definition auditObjectRoots :: "Event \<Rightarrow> string list" where
  "auditObjectRoots e = (if \<not> isAuditKind (ev_Kind e) then [] else case ev_Audit e of None \<Rightarrow> [] | Some f \<Rightarrow>
     sortedUniqueStrings ([au_PolicyCommit f] @
       (if au_CodeCommit f \<noteq> [] then [au_CodeCommit f] else []) @
       (case au_Source f of None \<Rightarrow> [] | Some s \<Rightarrow> if as_Commit s \<noteq> [] then [as_Commit s] else [])))"

section \<open>Run withdrawals\<close>

definition maxRunWithdrawalReason :: nat where
  "maxRunWithdrawalReason = 4096"

definition withdrawalEnvelope :: "Event \<Rightarrow> Event" where
  "withdrawalEnvelope e = zeroEvent\<lparr>ev_Protocol := ev_Protocol e, ev_Kind := ev_Kind e, ev_Actor := ev_Actor e,
     ev_ActorName := ev_ActorName e, ev_PublicKey := ev_PublicKey e, ev_Sequence := ev_Sequence e,
     ev_Timestamp := ev_Timestamp e, ev_Previous := ev_Previous e, ev_Subject := ev_Subject e, ev_Body := ev_Body e\<rparr>"

definition validateRunWithdrawalContent :: "Event \<Rightarrow> unit result" where
  "validateRunWithdrawalContent e =
     (if \<not> validEventID (ev_Subject e) then errorf ''run withdrawal requires a full run request ID'' []
      else if \<not> validUtf8 (ev_Body e) \<or> ev_Body e = [] \<or> trimSpace (ev_Body e) \<noteq> ev_Body e \<or>
              length (ev_Body e) > maxRunWithdrawalReason
      then errorf ''run withdrawal reason must be trimmed nonblank UTF-8 and at most %d bytes'' [decimal maxRunWithdrawalReason]
      else if e \<noteq> withdrawalEnvelope e then errorf ''run withdrawal contains extraneous fields'' []
      else Inr ())"

definition validateRunWithdrawalRelationship :: "StoredEvent \<Rightarrow> (string, StoredEvent) gomap \<Rightarrow> unit result" where
  "validateRunWithdrawalRelationship withdrawal byID =
     (let event = st_Event withdrawal in
      case map_of byID (ev_Subject event) of
        None \<Rightarrow> errorf ''run withdrawal %s requires an available run request %s'' [shortID (st_ID withdrawal), ev_Subject event]
      | Some request \<Rightarrow>
          if ev_Kind (st_Event request) \<noteq> ''run.request''
          then errorf ''run withdrawal %s requires an available run request %s'' [shortID (st_ID withdrawal), ev_Subject event]
          else if ev_Actor (st_Event request) \<noteq> ev_Actor event \<or> ev_PublicKey (st_Event request) \<noteq> ev_PublicKey event
          then errorf ''run withdrawal must be signed by the original requester actor and public key'' []
          else if ev_Sequence (st_Event request) \<ge> ev_Sequence event
          then errorf ''run withdrawal must follow its original request sequence'' []
          else if list_ex (\<lambda>other. ev_Kind (st_Event other) = ''run.withdraw'' \<and>
                 ev_Subject (st_Event other) = ev_Subject event \<and> st_ID other \<noteq> st_ID withdrawal) (map snd byID)
          then errorf ''run request %s already has a withdrawal; duplicate or conflicting withdrawal facts are invalid'' [shortID (ev_Subject event)]
          else Inr ())"

definition findRunWithdrawal :: "StoredEvent list \<Rightarrow> string \<Rightarrow> StoredEvent option" where
  "findRunWithdrawal events requestID =
     find (\<lambda>s. ev_Kind (st_Event s) = ''run.withdraw'' \<and> ev_Subject (st_Event s) = requestID) events"

section \<open>The content of a fact\<close>

definition decodesToKey :: "string \<Rightarrow> nat \<Rightarrow> string option" where
  "decodesToKey text n = (case base64Decode text of None \<Rightarrow> None
     | Some key \<Rightarrow> if length key \<noteq> n then None else Some key)"

text \<open>The switch of \<open>validateEventContent\<close>, one definition per group of kinds.\<close>

definition checkProposalContent :: "Event \<Rightarrow> unit result" where
  "checkProposalContent e =
     (if ev_Kind e = ''proposal.open'' then
        (if trimSpace (ev_Title e) = [] \<or> \<not> validGitOID (ev_Base e) \<or> \<not> validGitOID (ev_Head e) \<or> ev_Base e = ev_Head e
         then errorf ''proposal requires a title and distinct Git base/head commits'' [] else Inr ())
      else if ev_Kind e = ''proposal.revise'' then
        (if \<not> validEventID (ev_Subject e) \<or> \<not> validGitOID (ev_Base e) \<or> \<not> validGitOID (ev_Head e) \<or> ev_Base e = ev_Head e
         then errorf ''proposal revision requires a predecessor and distinct Git base/head commits'' []
         else if ev_Title e \<noteq> [] then errorf ''proposal revision inherits its title from its predecessor'' []
         else Inr ())
      else if ev_Kind e = ''review.submit'' then
        (if \<not> validEventID (ev_Subject e) \<or> (ev_Verdict e \<noteq> ''approve'' \<and> ev_Verdict e \<noteq> ''request-changes'')
         then errorf ''review requires a proposal subject and valid verdict'' [] else Inr ())
      else if ev_Kind e = ''proposal.decision'' then
        (if \<not> validEventID (ev_Subject e) \<or> \<not> validEventID (ev_Policy e) \<or> (ev_Verdict e \<noteq> ''accept'' \<and> ev_Verdict e \<noteq> ''reject'')
         then errorf ''proposal decision requires a proposal, policy digest, and verdict'' []
         else if ev_Verdict e = ''reject'' \<and> trimSpace (ev_Body e) = []
         then errorf ''proposal rejection requires an explanation'' []
         else if \<not> validEvidenceIDs (elems (ev_Evidence e))
         then errorf ''proposal decision has invalid evidence IDs'' []
         else Inr ())
      else
        (if \<not> validEventID (ev_Subject e) \<or> \<not> validEventID (ev_Policy e) \<or> \<not> validGitOID (ev_Commit e) \<or>
            \<not> validGitOID (ev_Head e) \<or> \<not> validEvidenceIDs (elems (ev_Evidence e))
         then errorf ''proposal merge requires a proposal, policy, head, commit, and decision evidence'' [] else Inr ()))"

definition checkRunContent :: "Event \<Rightarrow> unit result" where
  "checkRunContent e =
     (if ev_Kind e = ''run.request'' then
        (if \<not> validEventID (ev_Subject e) \<or> \<not> validPipelineName (ev_Pipeline e) \<or> \<not> validEventID (ev_Definition e) \<or> \<not> validGitOID (ev_Commit e)
         then errorf ''run request requires a proposal, pipeline digest, and commit'' [] else Inr ())
      else
        (if \<not> validEventID (ev_Subject e) \<or> \<not> validPipelineName (ev_Pipeline e) \<or> \<not> validEventID (ev_Definition e) \<or> \<not> validGitOID (ev_Commit e)
         then errorf ''run result does not match a valid request shape'' []
         else if (ev_Outcome e \<noteq> ''passed'' \<and> ev_Outcome e \<noteq> ''failed'') \<or> \<not> validEventID (ev_Log e) \<or> ev_DurationMS e < 0
         then errorf ''run result requires an outcome, duration, and log digest'' []
         else if (ev_Backend e \<noteq> ''sandbox'' \<and> ev_Backend e \<noteq> ''host'') \<or> trimSpace (ev_Platform e) = [] \<or> trimSpace (ev_Runner e) = []
         then errorf ''run result requires a supported backend, platform, and runner'' []
         else Inr ()))"

definition checkAuthorizationContent :: "host \<Rightarrow> Event \<Rightarrow> unit result" where
  "checkAuthorizationContent h e =
     (if ev_Relationship e \<noteq> ''device'' \<and> ev_Relationship e \<noteq> ''successor''
      then errorf ''identity authorization requires relationship device or successor'' []
      else if \<not> validActorFingerprint (ev_TargetActor e)
      then errorf ''identity authorization requires a full target actor'' []
      else case decodesToKey (ev_TargetKey e) 32 of
          None \<Rightarrow> errorf ''identity authorization has an invalid target public key'' []
        | Some key \<Rightarrow>
            if actorForPublicKey h key \<noteq> ev_TargetActor e
            then errorf ''identity authorization target actor does not match target public key'' []
            else if ev_TargetActor e = ev_Actor e
            then errorf ''identity authorization cannot target its signer'' []
            else Inr ())"

definition validateEventContent :: "host \<Rightarrow> codec \<Rightarrow> Event \<Rightarrow> unit result" where
  "validateEventContent h cd e =
     (if isAuditKind (ev_Kind e) then validateAuditEvent h cd e
      else if ev_Audit e \<noteq> None then errorf ''audit payload requires an audit kind'' []
      else if isResourceKind (ev_Kind e) then
        (if ev_Previous e \<noteq> [] \<and> \<not> validEventID (ev_Previous e) then errorf ''invalid previous event ID'' []
         else validateResourceEvent h cd e)
      else rbind (validateIssueEvent h e) (\<lambda>_.
        if ev_Previous e \<noteq> [] \<and> \<not> validEventID (ev_Previous e) then errorf ''invalid previous event ID'' []
        else if ev_Kind e = ''issue.open'' then
          (if trimSpace (ev_Title e) = [] then errorf ''issue title cannot be empty'' [] else Inr ())
        else if ev_Kind e = ''issue.revise'' then Inr ()
        else if ev_Kind e = ''issue.comment'' then
          (if \<not> validEventID (ev_Subject e) \<or> trimSpace (ev_Body e) = []
           then errorf ''issue comment requires a subject and body'' [] else Inr ())
        else if ev_Kind e \<in> {''proposal.open'', ''proposal.revise'', ''review.submit'', ''proposal.decision'', ''proposal.merged''}
        then checkProposalContent e
        else if ev_Kind e = ''run.request'' \<or> ev_Kind e = ''run.result'' then checkRunContent e
        else if ev_Kind e = ''run.withdraw'' then validateRunWithdrawalContent e
        else if ev_Kind e = ''identity.authorize'' then checkAuthorizationContent h e
        else if ev_Kind e = ''identity.accept'' then
          (if \<not> validEventID (ev_Subject e)
           then errorf ''identity acceptance requires a full authorization event ID'' [] else Inr ())
        else errorf ''unsupported event kind %q'' [ev_Kind e]))"

section \<open>Signing and verifying\<close>

definition privateKey :: "Identity \<Rightarrow> string result" where
  "privateKey i = (case decodesToKey (id_PrivateKey i) 64 of
     None \<Rightarrow> errorf ''invalid private key'' [] | Some key \<Rightarrow> Inr key)"

text \<open>The payload and the signature.\<close>

definition encodeAndSign :: "host \<Rightarrow> codec \<Rightarrow> Event \<Rightarrow> Identity \<Rightarrow> (string \<times> string) result" where
  "encodeAndSign h cd e identity =
     (if ev_Protocol e \<noteq> protocolVersion \<or> ev_Actor e \<noteq> id_Actor identity \<or> ev_PublicKey e \<noteq> id_PublicKey identity
      then errorf ''event identity does not match its signer'' []
      else rbind (validateEventContent h cd e) (\<lambda>_.
        let payload = marshal (jsonEvent e) in
        rbind (privateKey identity) (\<lambda>key. Inr (payload, ed25519Sign h key payload))))"

text \<open>Kinds with a strict envelope are decoded a second time by their own decoder.\<close>

definition decodeEvent :: "codec \<Rightarrow> string \<Rightarrow> Event result" where
  "decodeEvent cd payload = rbind (cd_Unmarshal cd payload) (\<lambda>e0.
     rbind (if ev_Kind e0 = ''run.withdraw'' then cd_Withdrawal cd payload else Inr e0) (\<lambda>e1.
     rbind (if isResourceKind (ev_Kind e1)
            then strictResourceJSON (cd_Resource cd) payload (resourcePayloadLimit (resourceFamily (ev_Kind e1)))
            else Inr e1) (\<lambda>e2.
     if isAuditKind (ev_Kind e2) then strictResourceJSON (cd_Audit cd) payload maxAuditPayload else Inr e2)))"

definition verifyEvent :: "host \<Rightarrow> codec \<Rightarrow> string \<Rightarrow> string \<Rightarrow> (Event \<times> string) result" where
  "verifyEvent h cd payload signature =
     rbind (decodeEvent cd payload) (\<lambda>e.
       if length payload > maxIssuePayload \<and> isIssueKind (ev_Kind e) \<and> (ev_Kind e = ''issue.revise'' \<or> hasIssueFields e)
       then errorf ''issue payload exceeds %d bytes'' [decimal maxIssuePayload]
       else if ev_Protocol e \<noteq> protocolVersion then errorf ''unsupported protocol %q'' [ev_Protocol e]
       else case decodesToKey (ev_PublicKey e) 32 of
           None \<Rightarrow> errorf ''invalid event public key'' []
         | Some key \<Rightarrow>
             if actorForPublicKey h key \<noteq> ev_Actor e then errorf ''event actor does not match public key'' []
             else if \<not> ed25519Verify h key payload signature then errorf ''invalid event signature'' []
             else if ev_Sequence e = 0 then errorf ''event sequence must be positive'' []
             else if \<not> cd_Timestamp cd (ev_Timestamp e) then errorf ''invalid event timestamp'' []
             else rbind (validateEventContent h cd e) (\<lambda>_. Inr (e, eventID h payload)))"

section \<open>Lemmas\<close>

text \<open>A rich issue fact that passes is small enough to be read back.\<close>

lemma validateIssueEvent_size:
  "validateIssueEvent h e = Inr () \<Longrightarrow> isIssueKind (ev_Kind e) \<Longrightarrow> ev_Kind e = ''issue.revise'' \<or> hasIssueFields e \<Longrightarrow>
     length (marshal (jsonEvent e)) \<le> maxIssuePayload"
  by (auto simp: validateIssueEvent_def rbind_eq_Inr)

lemma issueKind_not_resource: "isIssueKind k \<Longrightarrow> \<not> isResourceKind k \<and> \<not> isAuditKind k"
  by (auto simp: isIssueKind_def isResourceKind_def resourceFamily_def isAuditKind_def cut_def validResourceFamily_def)

lemma validateEventContent_issue:
  "validateEventContent h cd e = Inr () \<Longrightarrow> \<not> isAuditKind (ev_Kind e) \<Longrightarrow> \<not> isResourceKind (ev_Kind e) \<Longrightarrow>
     validateIssueEvent h e = Inr ()"
  by (auto simp: validateEventContent_def rbind_eq_Inr)

definition validFinding :: "AuditFinding \<Rightarrow> bool" where
  "validFinding f \<longleftrightarrow> issueIdentifier (fi_Key f) 128 \<and> issueText (fi_Title f) 512 True \<and> issueText (fi_Body f) 16384 False \<and>
     (fi_Path f = [] \<or> safeRelativePath (fi_Path f) \<and> length (fi_Path f) \<le> 1024) \<and>
     0 \<le> fi_Line f \<and> (fi_Line f = 0 \<or> fi_Path f \<noteq> [])"

lemma checkFindings_Cons: "checkFindings seen (f # fs) = Inr () \<longleftrightarrow>
    validFinding f \<and> fi_Key f \<notin> set seen \<and> checkFindings (fi_Key f # seen) fs = Inr ()"
  by (auto simp: validFinding_def not_less)

lemma checkFindings_ok: "checkFindings seen fs = Inr () \<longleftrightarrow>
    (\<forall>f \<in> set fs. validFinding f) \<and> distinct (map fi_Key fs) \<and> set (map fi_Key fs) \<inter> set seen = {}"
  by (induction fs arbitrary: seen) (auto simp: checkFindings_Cons simp del: checkFindings.simps(2))

section \<open>Properties\<close>

text \<open>
  C3. What \<open>encodeAndSign\<close> accepts, no check of \<open>verifyEvent\<close> refuses: the payload it signs verifies as the
  signed fact, under the identifier of the payload, exactly when the decoders read the payload as that
  fact (a text that is not valid UTF-8, which JSON replaces, is the case where they do not).  The
  identity's public key has 32 bytes and the actor is its fingerprint, signatures made with its private
  key verify under it, and the fact has a nonzero sequence number and a time that parses.
\<close>

theorem sign_verify_roundtrip:
  assumes "encodeAndSign h cd e identity = Inr (payload, sig)"
    and "base64Decode (id_PublicKey identity) = Some pk" and "length pk = 32"
    and "id_Actor identity = actorForPublicKey h pk"
    and "\<And>sk m. base64Decode (id_PrivateKey identity) = Some sk \<Longrightarrow> ed25519Verify h pk m (ed25519Sign h sk m)"
    and "ev_Sequence e \<noteq> 0" and "cd_Timestamp cd (ev_Timestamp e)"
  shows "verifyEvent h cd payload sig = Inr (e, eventID h payload) \<longleftrightarrow> decodeEvent cd payload = Inr e"
proof -
  have id: "ev_Protocol e = protocolVersion" "ev_Actor e = id_Actor identity" "ev_PublicKey e = id_PublicKey identity"
    and ok: "validateEventContent h cd e = Inr ()" and payload: "payload = marshal (jsonEvent e)"
    and "\<exists>key. privateKey identity = Inr key \<and> sig = ed25519Sign h key payload"
    using assms(1) by (auto simp: encodeAndSign_def Let_def rbind_eq_Inr)
  then obtain key where "base64Decode (id_PrivateKey identity) = Some key" "sig = ed25519Sign h key payload"
    by (auto simp: privateKey_def decodesToKey_def split: option.splits if_splits)
  then have sig: "ed25519Verify h pk payload sig" using assms(5) by simp
  have size: "isIssueKind (ev_Kind e) \<Longrightarrow> ev_Kind e = ''issue.revise'' \<or> hasIssueFields e \<Longrightarrow> length payload \<le> maxIssuePayload"
    using validateEventContent_issue [OF ok] issueKind_not_resource validateIssueEvent_size payload by blast
  show ?thesis
  proof
    assume "decodeEvent cd payload = Inr e"
    then show "verifyEvent h cd payload sig = Inr (e, eventID h payload)"
      using assms(2-4,6,7) id ok sig size by (auto simp: verifyEvent_def decodesToKey_def)
  next
    assume "verifyEvent h cd payload sig = Inr (e, eventID h payload)"
    then show "decodeEvent cd payload = Inr e"
      by (auto simp: verifyEvent_def rbind_eq_Inr split: option.splits if_split_asm)
  qed
qed

text \<open>
  A fact whose content is accepted carries an audit payload exactly when its kind is an audit
  kind, an issue state only when its kind opens or revises an issue, parents and a request digest only
  on issue and resource kinds, and its predecessor is empty or a full identifier.
\<close>

theorem validateEventContent_payloads:
  assumes "validateEventContent h cd e = Inr ()"
  shows "(ev_Audit e \<noteq> None \<longleftrightarrow> isAuditKind (ev_Kind e)) \<and>
    (ev_Issue e \<noteq> None \<longrightarrow> ev_Kind e = ''issue.open'' \<or> ev_Kind e = ''issue.revise'') \<and>
    (elems (ev_Parents e) \<noteq> [] \<or> ev_Request e \<noteq> [] \<longrightarrow> isIssueKind (ev_Kind e) \<or> isResourceKind (ev_Kind e)) \<and>
    (ev_Previous e = [] \<or> validEventID (ev_Previous e))"
proof (cases "isAuditKind (ev_Kind e)")
  case True
  then have "validateAuditEvent h cd e = Inr ()" using assms by (simp add: validateEventContent_def)
  then have aud: "ev_Audit e \<noteq> None" and env: "e = auditEnvelope e" and prev: "ev_Previous e = [] \<or> validEventID (ev_Previous e)"
    by (auto simp: validateAuditEvent_def split: option.splits)
  have "ev_Issue e = None" "ev_Parents e = None" "ev_Request e = []"
    by (subst env, simp add: auditEnvelope_def zeroEvent_def)+
  then show ?thesis using True aud prev by simp
next
  case False
  then have aud: "ev_Audit e = None" and prev: "ev_Previous e = [] \<or> validEventID (ev_Previous e)"
    using assms by (auto simp: validateEventContent_def rbind_eq_Inr split: if_splits)
  show ?thesis
  proof (cases "isResourceKind (ev_Kind e)")
    case True
    then have "validateResourceEvent h cd e = Inr ()" using assms False aud by (simp add: validateEventContent_def split: if_splits)
    then have "ev_Issue e = None" using True
      by (auto simp: validateResourceEvent_def isResourceKind_def Let_def resourceUnrelated_def)
    then show ?thesis using True False aud prev by simp
  next
    case notres: False
    have iss: "validateIssueEvent h e = Inr ()" by (rule validateEventContent_issue [OF assms False notres])
    have "isIssueKind (ev_Kind e)" if "hasIssueFields e"
      using iss that notres by (cases "isIssueKind (ev_Kind e)") (simp_all add: validateIssueEvent_def)
    moreover have "ev_Kind e \<noteq> ''issue.comment''" if "ev_Issue e \<noteq> None"
      using iss that
      by (auto simp: validateIssueEvent_def isIssueKind_def hasIssueFields_def checkIssueShape_def rbind_eq_Inr)
    ultimately show ?thesis using False aud prev by (auto simp: hasIssueFields_def isIssueKind_def)
  qed
qed

text \<open>
  An accepted audit result binds a request, an authorization, a commit, a definition and a log by
  full identifiers, reports success exactly when its exit code is zero, has at most 128 findings with
  distinct keys whose paths stay inside the repository, and carries no field of another audit kind.
\<close>

theorem validateAuditEvent_result:
  assumes "validateAuditEvent h cd e = Inr ()" and "ev_Kind e = ''audit.result''"
  shows "\<exists>f. ev_Audit e = Some f \<and> validEventID (au_Request f) \<and> validEventID (au_Authorization f) \<and>
    validGitOID (au_CodeCommit f) \<and> validEventID (au_DefinitionDigest f) \<and> validEventID (au_Log f) \<and>
    au_Outcome f = (if au_ExitCode f = 0 then ''passed'' else ''failed'') \<and>
    0 \<le> au_ExitCode f \<and> au_ExitCode f \<le> 255 \<and> 0 \<le> au_DurationMS f \<and>
    length (elems (au_Findings f)) \<le> 128 \<and> distinct (map fi_Key (elems (au_Findings f))) \<and>
    (\<forall>x \<in> set (elems (au_Findings f)). fi_Path x = [] \<or> \<not> isAbs (fi_Path x) \<and> staysBelow (splitOn CHR ''/'' (fi_Path x))) \<and>
    au_Parents f = None \<and> au_Source f = None \<and> au_Definition f = [] \<and> au_Reason f = [] \<and> au_Intent f = []"
proof -
  obtain f where f: "ev_Audit e = Some f" "checkAuditKind h cd (ev_Kind e) f = Inr ()" "f = auditAllowed (ev_Kind e) f"
    using assms(1) by (auto simp: validateAuditEvent_def rbind_eq_Inr split: option.splits)
  have "au_Parents f = None" "au_Source f = None" "au_Definition f = []" "au_Reason f = []" "au_Intent f = []"
    using assms(2) by (subst f(3), simp add: auditAllowed_def auditBase_def zeroAuditFact_def)+
  moreover have "validEventID (au_Request f)" "validEventID (au_Authorization f)" "validGitOID (au_CodeCommit f)"
    "validEventID (au_DefinitionDigest f)" "validEventID (au_Log f)" "0 \<le> au_ExitCode f" "au_ExitCode f \<le> 255"
    "0 \<le> au_DurationMS f" "length (elems (au_Findings f)) \<le> 128"
    "au_Outcome f = (if au_ExitCode f = 0 then ''passed'' else ''failed'')"
    and find: "checkFindings [] (elems (au_Findings f)) = Inr ()"
    using f(2) assms(2) by (auto simp: checkAuditKind_def not_less)
  ultimately show ?thesis
    using f(1) find by (auto simp: checkFindings_ok validFinding_def safeRelativePath_iff)
qed

text \<open>
  A withdrawal that is accepted against the facts of a repository names a run request of the same
  actor and key, made earlier in that actor's chain, and it is the only withdrawal of that request.
\<close>

theorem validateRunWithdrawalRelationship_correct:
  assumes "uniqueIDs es" and "w \<in> set es" and "ev_Kind (st_Event w) = ''run.withdraw''"
  shows "validateRunWithdrawalRelationship w (indexByID es) = Inr () \<longleftrightarrow>
    (\<exists>r \<in> set es. st_ID r = ev_Subject (st_Event w) \<and> ev_Kind (st_Event r) = ''run.request'' \<and>
       ev_Actor (st_Event r) = ev_Actor (st_Event w) \<and> ev_PublicKey (st_Event r) = ev_PublicKey (st_Event w) \<and>
       ev_Sequence (st_Event r) < ev_Sequence (st_Event w)) \<and>
    (\<forall>v \<in> set es. ev_Kind (st_Event v) = ''run.withdraw'' \<and> ev_Subject (st_Event v) = ev_Subject (st_Event w) \<longrightarrow> v = w)"
    (is "_ \<longleftrightarrow> ?req \<and> ?only")
proof -
  have inj: "inj_on st_ID (set es)" using assms(1) by (simp add: uniqueIDs_def)
  have vals: "snd ` set (indexByID es) = set es" by (rule indexByID_values [OF inj])
  have "list_ex (\<lambda>other. ev_Kind (st_Event other) = ''run.withdraw'' \<and>
      ev_Subject (st_Event other) = ev_Subject (st_Event w) \<and> st_ID other \<noteq> st_ID w) (map snd (indexByID es)) \<longleftrightarrow> \<not> ?only"
    using inj_onD [OF inj _ _ assms(2)] by (auto simp: list_ex_iff vals)
  moreover have "?req \<longleftrightarrow> (\<exists>r. map_of (indexByID es) (ev_Subject (st_Event w)) = Some r \<and> ev_Kind (st_Event r) = ''run.request'' \<and>
       ev_Actor (st_Event r) = ev_Actor (st_Event w) \<and> ev_PublicKey (st_Event r) = ev_PublicKey (st_Event w) \<and>
       ev_Sequence (st_Event r) < ev_Sequence (st_Event w))"
    using indexByID_unique [OF inj] indexByID_Some by metis
  ultimately show ?thesis
    by (auto simp: validateRunWithdrawalRelationship_def Let_def not_le split: option.splits)
qed

section \<open>Concrete instances\<close>

definition sampleIdentity :: Identity where
  "sampleIdentity = \<lparr>id_Actor = replicate 64 CHR ''1'', id_Name = ''Ann'', id_PublicKey = replicate 43 CHR ''A'',
     id_PrivateKey = replicate 86 CHR ''A''\<rparr>"

definition sampleAcceptance :: Event where
  "sampleAcceptance = (newEvent sampleIdentity ''2026-01-01T00:00:00Z'' ''identity.accept'' 1 [])\<lparr>ev_Subject := sampleID CHR ''a''\<rparr>"

definition acceptanceCodec :: codec where
  "acceptanceCodec = sampleCodec\<lparr>cd_Unmarshal := (\<lambda>_. Inr sampleAcceptance)\<rparr>"

theorem sign_verify_roundtrip_witness:
  "\<exists>payload sig. encodeAndSign sampleHost acceptanceCodec sampleAcceptance sampleIdentity = Inr (payload, sig) \<and>
     verifyEvent sampleHost acceptanceCodec payload sig = Inr (sampleAcceptance, eventID sampleHost payload)"
proof -
  have "is_ok (encodeAndSign sampleHost acceptanceCodec sampleAcceptance sampleIdentity)" by code_simp
  then obtain payload sig where s: "encodeAndSign sampleHost acceptanceCodec sampleAcceptance sampleIdentity = Inr (payload, sig)"
    by (auto elim: is_okE)
  have "base64Decode (id_PublicKey sampleIdentity) = Some (replicate 32 CHR 0x00)" by code_simp
  moreover have "id_Actor sampleIdentity = actorForPublicKey sampleHost (replicate 32 CHR 0x00)" by code_simp
  moreover have "decodeEvent acceptanceCodec p = Inr sampleAcceptance" for p
    by (simp add: decodeEvent_def acceptanceCodec_def sampleAcceptance_def newEvent_def isResourceKind_def
        resourceFamily_def isAuditKind_def cut_def)
  moreover have "ev_Sequence sampleAcceptance \<noteq> 0" "cd_Timestamp acceptanceCodec (ev_Timestamp sampleAcceptance)"
    by (simp_all add: sampleAcceptance_def newEvent_def acceptanceCodec_def sampleCodec_def)
  ultimately show ?thesis
    using s sign_verify_roundtrip [OF s] by (simp add: sampleHost_def)
qed

theorem validateEventContent_payloads_witness:
  "validateEventContent sampleHost sampleCodec sampleRevision = Inr () \<and> ev_Issue sampleRevision \<noteq> None \<and>
   ev_Audit sampleRevision = None"
proof -
  have "validateEventContent sampleHost sampleCodec sampleRevision = Inr ()" by code_simp
  then show ?thesis
    using validateEventContent_payloads [of sampleHost sampleCodec sampleRevision]
    by (simp add: sampleRevision_def isAuditKind_def)
qed

definition sampleAuditResult :: Event where
  "sampleAuditResult = zeroEvent\<lparr>ev_Kind := ''audit.result'', ev_Audit := Some (zeroAuditFact\<lparr>
     au_Scope := ''s'', au_Rule := ''r'', au_PolicyCommit := replicate 40 CHR ''a'', au_PolicyDigest := sampleID CHR ''b'',
     au_Request := sampleID CHR ''c'', au_Authorization := sampleID CHR ''d'', au_CodeCommit := replicate 40 CHR ''e'',
     au_DefinitionDigest := sampleID CHR ''f'', au_Log := sampleID CHR ''0'', au_Outcome := ''failed'', au_ExitCode := 2,
     au_Backend := ''host'', au_Platform := ''linux'', au_Runner := ''hn'',
     au_Findings := Some [\<lparr>fi_Key = ''k'', fi_Title = ''t'', fi_Body = [], fi_Path = ''src/a.go'', fi_Line = 3\<rparr>]\<rparr>)\<rparr>"

theorem validateAuditEvent_result_witness:
  "validateAuditEvent sampleHost sampleCodec sampleAuditResult = Inr () \<and>
   (\<exists>f. ev_Audit sampleAuditResult = Some f \<and> au_Outcome f = ''failed'' \<and> au_Definition f = [])"
proof -
  have "validateAuditEvent sampleHost sampleCodec sampleAuditResult = Inr ()" by code_simp
  then show ?thesis
    using validateAuditEvent_result [of sampleHost sampleCodec sampleAuditResult]
    by (auto simp: sampleAuditResult_def)
qed

theorem validateRunWithdrawalRelationship_correct_witness:
  "let r = sampleFact ''r'' ''run.request'' ''ann'' 1 [] ''p''; w = sampleFact ''w'' ''run.withdraw'' ''ann'' 2 ''r'' ''r''
   in validateRunWithdrawalRelationship w (indexByID [r, w]) = Inr ()"
  using validateRunWithdrawalRelationship_correct
    [of "[sampleFact ''r'' ''run.request'' ''ann'' 1 [] ''p'', sampleFact ''w'' ''run.withdraw'' ''ann'' 2 ''r'' ''r'']"
      "sampleFact ''w'' ''run.withdraw'' ''ann'' 2 ''r'' ''r''"]
  by (simp add: uniqueIDs_def sampleFact_def zeroEvent_def)

end
