(* ===== verification/HN_Topo.thy ===== *)
theory HN_Topo
  imports HN_Prelude
begin

text \<open>
  The ordering loop that \<open>src/issue_projection.go\<close> and \<open>src/resource_engine.go\<close> share: the vertices of a
  revision graph with their numbers of open parents, and a priority queue of the vertices that have
  none left, from which the least identifier is taken next.

  The queue (\<open>issueIDHeap\<close> with \<open>container/heap\<close>) is kept as its sorted list of elements: \<open>Push\<close> inserts,
  \<open>Pop\<close> takes the least.
\<close>

section \<open>Definitions\<close>

definition degreeOf :: "(string, int) gomap \<Rightarrow> string \<Rightarrow> int" where
  "degreeOf m k = (case map_of m k of None \<Rightarrow> 0 | Some n \<Rightarrow> n)"

text \<open>One vertex with its parents; a vertex that is already present is skipped.\<close>

definition addVertex :: "string \<times> string list \<Rightarrow> (string, int) gomap \<times> (string, string list) gomap \<Rightarrow>
    (string, int) gomap \<times> (string, string list) gomap" where
  "addVertex v st = (case (v, st) of ((i, parents), (indegree, children)) \<Rightarrow>
     if map_of indegree i \<noteq> None then (indegree, children)
     else (AList.update i (int (length parents)) indegree, fold (\<lambda>p m. appendTo p i m) parents children))"

text \<open>The loop over the children of the vertex just taken.\<close>

fun visitChildren :: "string list \<Rightarrow> (string, int) gomap \<Rightarrow> string list \<Rightarrow> (string, int) gomap \<times> string list" where
  "visitChildren [] indegree ready = (indegree, ready)"
| "visitChildren (c # cs) indegree ready =
     (let indegree' = AList.update c (degreeOf indegree c - 1) indegree in
      visitChildren cs indegree' (if degreeOf indegree' c = 0 then insort c ready else ready))"

definition openCount :: "(string, int) gomap \<Rightarrow> nat" where
  "openCount m = length (filter (\<lambda>(k, n). 0 < n) m)"

lemma degreeOf_update [simp]: "degreeOf (AList.update c n m) k = (if k = c then n else degreeOf m k)"
  by (simp add: degreeOf_def update_conv')

lemma openCount_update: "openCount (AList.update c n m) + (if 0 < degreeOf m c then 1 else 0) =
    openCount m + (if 0 < n then 1 else 0)"
  by (induction m) (auto simp: openCount_def degreeOf_def)

lemma visitChildren_measure: "visitChildren cs indegree ready = (indegree', ready') \<Longrightarrow>
    openCount indegree' + length ready' \<le> openCount indegree + length ready"
proof (induction cs indegree ready rule: visitChildren.induct)
  case (2 c cs indegree ready)
  let ?m = "AList.update c (degreeOf indegree c - 1) indegree"
  have "openCount indegree' + length ready' \<le> openCount ?m + length (if degreeOf ?m c = 0 then insort c ready else ready)"
    using "2.prems" by (intro "2.IH") (simp_all add: Let_def)
  then show ?case using openCount_update [of c "degreeOf indegree c - 1" indegree] by (auto split: if_splits)
qed simp

function kahnLoop :: "(string, string list) gomap \<Rightarrow> (string, int) gomap \<Rightarrow> string list \<Rightarrow> string list \<Rightarrow> string list" where
  "kahnLoop children indegree [] ordered = ordered"
| "kahnLoop children indegree (i # ready) ordered =
     (let (indegree', ready') = visitChildren (lookupList children i) indegree ready in
      kahnLoop children indegree' ready' (ordered @ [i]))"
  by pat_completeness auto
termination
proof (relation "measure (\<lambda>(_, m, ready, _). openCount m + length ready)")
  fix children :: "(string, string list) gomap" and indegree i ready and ordered :: "string list" and x indegree' ready'
  assume "x = visitChildren (lookupList children i) indegree ready" "(indegree', ready') = x"
  then show "((children, indegree', ready', ordered @ [i]), children, indegree, i # ready, ordered)
      \<in> measure (\<lambda>(_, m, ready, _). openCount m + length ready)"
    using visitChildren_measure [of "lookupList children i" indegree ready indegree' ready'] by simp
qed simp

text \<open>The order in which the vertices are taken, and how many vertices there are.\<close>

definition kahnFrom :: "(string, int) gomap \<times> (string, string list) gomap \<Rightarrow> string list \<times> nat" where
  "kahnFrom st = (case st of (indegree, children) \<Rightarrow>
     let ready = sort (map fst (filter (\<lambda>(k, n). n = 0) indegree))
     in (kahnLoop children indegree ready [], length indegree))"

definition kahn :: "(string \<times> string list) list \<Rightarrow> string list \<times> nat" where
  "kahn vertices = kahnFrom (fold addVertex vertices ([], []))"

section \<open>The specification\<close>

text \<open>
  The vertices that can come next, and the order that always takes the least of them.
\<close>

definition readySet :: "'n set \<Rightarrow> ('n \<Rightarrow> 'n set) \<Rightarrow> 'n list \<Rightarrow> 'n set" where
  "readySet N par os = {v \<in> N - set os. par v \<subseteq> set os}"

definition greedyPrefix :: "'n :: linorder set \<Rightarrow> ('n \<Rightarrow> 'n set) \<Rightarrow> 'n list \<Rightarrow> bool" where
  "greedyPrefix N par os \<longleftrightarrow> (\<forall>k < length os. os ! k \<in> readySet N par (take k os) \<and> os ! k = Min (readySet N par (take k os)))"

definition depEdges :: "'n set \<Rightarrow> ('n \<Rightarrow> 'n set) \<Rightarrow> ('n \<times> 'n) set" where
  "depEdges N par = {(p, v). v \<in> N \<and> p \<in> par v}"

lemma greedyPrefix_snoc: "greedyPrefix N par (os @ [i]) \<longleftrightarrow>
    greedyPrefix N par os \<and> i \<in> readySet N par os \<and> i = Min (readySet N par os)"
  by (auto simp: greedyPrefix_def nth_append less_Suc_eq)

lemma greedyPrefix_Nil [simp]: "greedyPrefix N par []"
  by (simp add: greedyPrefix_def)

lemma greedyPrefix_distinct: "greedyPrefix N par os \<Longrightarrow> distinct os \<and> set os \<subseteq> N"
  by (induction os rule: rev_induct) (auto simp: greedyPrefix_snoc readySet_def)

lemma greedyPrefix_closed: "greedyPrefix N par os \<Longrightarrow> v \<in> set os \<Longrightarrow> par v \<subseteq> set os"
  by (induction os rule: rev_induct) (auto simp: greedyPrefix_snoc readySet_def)

lemma greedyPrefix_before: "greedyPrefix N par os \<Longrightarrow> k < length os \<Longrightarrow> par (os ! k) \<subseteq> set (take k os)"
  unfolding greedyPrefix_def readySet_def by blast

text \<open>Two greedy orders of the same length agree.\<close>

lemma greedyPrefix_unique:
  "greedyPrefix N par os \<Longrightarrow> greedyPrefix N par os' \<Longrightarrow> length os = length os' \<Longrightarrow> os = os'"
proof (induction os arbitrary: os' rule: rev_induct)
  case (snoc i os)
  then obtain j pre where os': "os' = pre @ [j]" by (metis length_append_singleton length_Suc_conv_rev)
  with snoc have "os = pre" by (auto simp: greedyPrefix_snoc)
  with snoc os' show ?case by (auto simp: greedyPrefix_snoc)
qed simp

lemma acyclic_ready:
  assumes "acyclic (depEdges N par)" "finite N" "\<And>v. v \<in> N \<Longrightarrow> par v \<subseteq> N" "\<not> N \<subseteq> set os"
  shows "readySet N par os \<noteq> {}"
proof -
  have "depEdges N par \<subseteq> N \<times> N" using assms(3) by (auto simp: depEdges_def)
  then have "wf (depEdges N par)" using assms(1,2) finite_acyclic_wf finite_subset finite_SigmaI by metis
  moreover have "N - set os \<noteq> {}" using assms(4) by blast
  ultimately obtain v where "v \<in> N - set os" "\<And>y. (y, v) \<in> depEdges N par \<Longrightarrow> y \<notin> N - set os"
    by (metis wf_eq_minimal ex_in_conv)
  then have "v \<in> readySet N par os" using assms(3) by (auto simp: readySet_def depEdges_def)
  then show ?thesis by blast
qed

lemma greedy_acyclic:
  assumes "greedyPrefix N par os" "set os = N"
  shows "acyclic (depEdges N par)"
proof -
  let ?pos = "\<lambda>v. THE k. k < length os \<and> os ! k = v"
  have pos: "?pos (os ! k) = k" if "k < length os" for k
    using greedyPrefix_distinct [OF assms(1)] that by (intro the_equality) (auto simp: nth_eq_iff_index_eq)
  have "?pos p < ?pos v" if "(p, v) \<in> depEdges N par" for p v
  proof -
    have "v \<in> set os" using that assms(2) by (simp add: depEdges_def)
    then obtain k where k: "k < length os" "os ! k = v" by (auto simp: in_set_conv_nth)
    then have "p \<in> set (take k os)" using greedyPrefix_before [OF assms(1), of k] that by (auto simp: depEdges_def)
    then obtain j where "j < k" "os ! j = p" using k(1) by (auto simp: in_set_conv_nth)
    then show ?thesis using pos [of j] pos [of k] k by simp
  qed
  then have "depEdges N par \<subseteq> measure ?pos" by auto
  then show ?thesis using wf_subset wf_measure wf_acyclic by blast
qed

section \<open>What the collected maps hold\<close>

definition vertexParents :: "(string \<times> string list) list \<Rightarrow> string \<Rightarrow> string set" where
  "vertexParents vs v = (case map_of vs v of None \<Rightarrow> {} | Some ps \<Rightarrow> set ps)"

lemma lookupList_fold_append: "lookupList (fold (\<lambda>p m. appendTo p i m) ps m) q =
    lookupList m q @ replicate (count (mset ps) q) i"
proof (induction ps arbitrary: m)
  case (Cons p ps)
  have "[i] @ replicate n i = replicate (Suc n) i" for n by simp
  then show ?case by (simp add: Cons.IH lookupList_appendTo)
qed simp

lemma collect_maps:
  assumes "fold addVertex vs ([], []) = (deg, ch)" "\<And>v ps. map_of vs v = Some ps \<Longrightarrow> distinct ps"
  shows "map_of deg = (\<lambda>v. map_option (\<lambda>ps. int (length ps)) (map_of vs v)) \<and> distinct (map fst deg) \<and>
    (\<forall>p. distinct (lookupList ch p) \<and> set (lookupList ch p) = {v. p \<in> vertexParents vs v})"
  using assms
proof (induction vs arbitrary: deg ch rule: rev_induct)
  case Nil
  then show ?case by (auto simp: lookupList_def vertexParents_def)
next
  case (snoc x vs)
  obtain i ps where x: "x = (i, ps)" by fastforce
  obtain deg0 ch0 where st: "fold addVertex vs ([], []) = (deg0, ch0)" by fastforce
  have d0: "distinct qs" if "map_of vs v = Some qs" for v qs
    using snoc.prems(2) [of v qs] that by (simp add: map_add_def)
  have "map_of deg0 = (\<lambda>v. map_option (\<lambda>ps. int (length ps)) (map_of vs v)) \<and> distinct (map fst deg0) \<and>
      (\<forall>p. distinct (lookupList ch0 p) \<and> set (lookupList ch0 p) = {v. p \<in> vertexParents vs v})"
    by (rule snoc.IH [OF st]) (rule d0)
  then have IH: "map_of deg0 = (\<lambda>v. map_option (\<lambda>ps. int (length ps)) (map_of vs v))" "distinct (map fst deg0)"
    "\<And>p. distinct (lookupList ch0 p)" "\<And>p. set (lookupList ch0 p) = {v. p \<in> vertexParents vs v}"
    by simp_all
  have step: "(deg, ch) = addVertex (i, ps) (deg0, ch0)" using snoc.prems(1) st by (simp add: x)
  have vp: "vertexParents (vs @ [x]) v = (if v = i \<and> map_of vs i = None then set ps else vertexParents vs v)" for v
    by (auto simp: x vertexParents_def map_add_def split: option.splits)
  show ?case
  proof (cases "map_of vs i")
    case None
    then have new: "map_of deg0 i = None" using IH(1) by simp
    then have st': "deg = AList.update i (int (length ps)) deg0" "ch = fold (\<lambda>p m. appendTo p i m) ps ch0"
      using step by (simp_all add: addVertex_def)
    have ps: "distinct ps" using snoc.prems(2) [of i ps] None by (simp add: x map_add_def)
    have none: "vertexParents vs i = {}" using None by (simp add: vertexParents_def)
    have "lookupList ch p = lookupList ch0 p @ (if p \<in> set ps then [i] else [])" for p
      using ps by (simp add: st'(2) lookupList_fold_append distinct_count_atmost_1)
    then have "distinct (lookupList ch p) \<and> set (lookupList ch p) = {v. p \<in> vertexParents (vs @ [x]) v}" for p
      using IH(3,4) none None by (auto simp: vp)
    moreover have "map_of deg = (\<lambda>v. map_option (\<lambda>ps. int (length ps)) (map_of (vs @ [x]) v))"
      using IH(1) None by (auto simp: st'(1) x update_conv' map_add_def fun_eq_iff split: option.splits)
    moreover have "distinct (map fst deg)" using IH(2) by (simp add: st'(1) distinct_update)
    ultimately show ?thesis by blast
  next
    case (Some qs)
    then have "map_of deg0 i \<noteq> None" using IH(1) by simp
    then have "deg = deg0" "ch = ch0" using step by (simp_all add: addVertex_def)
    moreover have "map_of (vs @ [x]) = map_of vs" using Some by (auto simp: x map_add_def fun_eq_iff split: option.splits)
    ultimately show ?thesis using IH Some by (simp add: vp)
  qed
qed

section \<open>One step of the loop\<close>

lemma visitChildren_result:
  assumes "distinct cs" "sorted ready" "distinct ready" "set cs \<inter> set ready = {}"
    and "visitChildren cs deg ready = (deg', ready')"
  shows "(\<forall>v. degreeOf deg' v = degreeOf deg v - (if v \<in> set cs then 1 else 0)) \<and>
    sorted ready' \<and> distinct ready' \<and> set ready' = set ready \<union> {c \<in> set cs. degreeOf deg c = 1}"
  using assms
proof (induction cs deg ready rule: visitChildren.induct)
  case (2 c cs deg ready)
  let ?m = "AList.update c (degreeOf deg c - 1) deg"
  let ?r = "if degreeOf ?m c = 0 then insort c ready else ready"
  have rec: "visitChildren cs ?m ?r = (deg', ready')" using "2.prems"(5) by (simp add: Let_def)
  have "(\<forall>v. degreeOf deg' v = degreeOf ?m v - (if v \<in> set cs then 1 else 0)) \<and>
      sorted ready' \<and> distinct ready' \<and> set ready' = set ?r \<union> {c \<in> set cs. degreeOf ?m c = 1}"
    using "2.prems" rec by (intro "2.IH") (auto simp: sorted_insort distinct_insort set_insort_key)
  moreover have "set ?r = set ready \<union> (if degreeOf deg c = 1 then {c} else {})" by (auto simp: set_insort_key)
  ultimately show ?case using "2.prems"(1) by auto
qed simp

text \<open>The invariant of the loop.\<close>

definition kahnInv :: "string set \<Rightarrow> (string \<Rightarrow> string set) \<Rightarrow> (string, int) gomap \<Rightarrow> string list \<Rightarrow> string list \<Rightarrow> bool" where
  "kahnInv N par deg ready os \<longleftrightarrow> greedyPrefix N par os \<and>
     (\<forall>v \<in> N. degreeOf deg v = int (card (par v - set os))) \<and>
     sorted ready \<and> distinct ready \<and> set ready = readySet N par os"

lemma kahnInv_step:
  assumes inv: "kahnInv N par deg (i # ready) os" and fin: "finite N" "\<And>v. v \<in> N \<Longrightarrow> finite (par v)"
    and ch: "distinct cs" "set cs = {v \<in> N. i \<in> par v}"
    and st: "visitChildren cs deg ready = (deg', ready')"
  shows "kahnInv N par deg' ready' (os @ [i])"
proof -
  have g: "greedyPrefix N par os" and srt: "sorted (i # ready)" "distinct (i # ready)"
    and rs: "set (i # ready) = readySet N par os"
    and deg: "\<And>v. v \<in> N \<Longrightarrow> degreeOf deg v = int (card (par v - set os))"
    using inv by (auto simp: kahnInv_def)
  have ios: "i \<notin> set os" using rs by (auto simp: readySet_def)
  have min: "i = Min (readySet N par os)"
    unfolding rs [symmetric] using srt by (intro Min_eqI [symmetric]) auto
  have not_ready: "par v \<inter> {i} = {}" if "v \<in> set (i # ready)" for v
    using that rs ios by (auto simp: readySet_def)
  then have disj: "set cs \<inter> set ready = {}" using ch(2) by auto
  have res: "\<And>v. degreeOf deg' v = degreeOf deg v - (if v \<in> set cs then 1 else 0)"
    and r': "sorted ready'" "distinct ready'" "set ready' = set ready \<union> {c \<in> set cs. degreeOf deg c = 1}"
    using visitChildren_result [OF ch(1) _ _ disj st] srt by auto
  have split: "card (par v - set os) = (if i \<in> par v then 1 else 0) + card (par v - set (os @ [i]))" if "v \<in> N" for v
  proof -
    have "par v - set (os @ [i]) = (par v - set os) - {i}" by auto
    then show ?thesis
      using card_Suc_Diff1 [of "par v - set os" i] fin(2) [OF that] ios by (auto simp del: card_Diff_insert)
  qed
  have d': "degreeOf deg' v = int (card (par v - set (os @ [i])))" if "v \<in> N" for v
    using res [of v] deg [OF that] split [OF that] ch(2) that by auto
  have "set ready' = readySet N par (os @ [i])"
  proof -
    have zero: "degreeOf deg c = 1 \<longleftrightarrow> par c \<subseteq> set (os @ [i])" if "c \<in> set cs" for c
    proof -
      have "c \<in> N" "i \<in> par c" using that ch(2) by auto
      then have "degreeOf deg c = 1 \<longleftrightarrow> card (par c - set (os @ [i])) = 0" using deg split by simp
      then show ?thesis using fin(2) [OF \<open>c \<in> N\<close>] by auto
    qed
    have cs_os: "c \<notin> set os" if "c \<in> set cs" for c
      using that ch(2) greedyPrefix_closed [OF g, of c] ios by auto
    have "v \<in> set ready' \<longleftrightarrow> v \<in> readySet N par (os @ [i])" for v
    proof (cases "v \<in> set cs")
      case True
      then show ?thesis using r'(3) zero [OF True] cs_os [OF True] ch(2) disj not_ready [of i]
        by (auto simp: readySet_def)
    next
      case False
      then have "v \<in> N \<Longrightarrow> i \<notin> par v" using ch(2) by auto
      then have "v \<in> readySet N par (os @ [i]) \<longleftrightarrow> v \<in> readySet N par os \<and> v \<noteq> i" by (auto simp: readySet_def)
      also have "\<dots> \<longleftrightarrow> v \<in> set ready" using rs srt(2) by auto
      finally show ?thesis using False r'(3) by auto
    qed
    then show ?thesis by blast
  qed
  moreover have "greedyPrefix N par (os @ [i])" using g min rs by (auto simp: greedyPrefix_snoc)
  ultimately show ?thesis using d' r' by (simp add: kahnInv_def)
qed

lemma kahnLoop_greedy:
  assumes "finite N" "\<And>v. v \<in> N \<Longrightarrow> finite (par v)"
    and "\<And>p. distinct (lookupList ch p) \<and> set (lookupList ch p) = {v \<in> N. p \<in> par v}"
  shows "kahnInv N par deg ready os \<Longrightarrow>
    greedyPrefix N par (kahnLoop ch deg ready os) \<and> readySet N par (kahnLoop ch deg ready os) = {}"
  using assms(3)
proof (induction ch deg ready os rule: kahnLoop.induct)
  case (1 ch deg os)
  then show ?case by (simp add: kahnInv_def)
next
  case (2 ch deg i ready os)
  obtain deg' ready' where st: "visitChildren (lookupList ch i) deg ready = (deg', ready')" by fastforce
  have "kahnInv N par deg' ready' (os @ [i])"
    by (rule kahnInv_step [OF "2.prems"(1) assms(1,2) _ _ st]) (use "2.prems"(2) in auto)
  then show ?case using "2.IH" [OF st [symmetric]] "2.prems"(2) st by simp
qed

section \<open>The whole loop\<close>

text \<open>A graph in which no vertex lists a parent twice and every parent is a vertex.\<close>

definition wellFormed :: "(string \<times> string list) list \<Rightarrow> bool" where
  "wellFormed vs \<longleftrightarrow> (\<forall>v ps. map_of vs v = Some ps \<longrightarrow> distinct ps \<and> set ps \<subseteq> fst ` set vs)"

lemma wellFormed_parents:
  assumes "wellFormed vs"
  shows "vertexParents vs v \<subseteq> fst ` set vs"
    and "map_of vs v = Some ps \<Longrightarrow> card (vertexParents vs v) = length ps"
proof -
  have *: "distinct ps \<and> set ps \<subseteq> fst ` set vs" if "map_of vs v = Some ps" for ps
    using assms that unfolding wellFormed_def by blast
  show "vertexParents vs v \<subseteq> fst ` set vs"
    using * by (cases "map_of vs v") (simp_all add: vertexParents_def)
  show "map_of vs v = Some ps \<Longrightarrow> card (vertexParents vs v) = length ps"
    using * [of ps] by (simp add: vertexParents_def distinct_card)
qed

lemma kahn_greedy:
  assumes "wellFormed vs" "kahn vs = (os, n)"
  shows "greedyPrefix (fst ` set vs) (vertexParents vs) os \<and> readySet (fst ` set vs) (vertexParents vs) os = {} \<and>
    n = card (fst ` set vs)"
proof -
  let ?N = "fst ` set vs" and ?par = "vertexParents vs"
  obtain deg ch where st: "fold addVertex vs ([], []) = (deg, ch)" by fastforce
  have maps: "map_of deg = (\<lambda>v. map_option (\<lambda>ps. int (length ps)) (map_of vs v))" "distinct (map fst deg)"
    "distinct (lookupList ch p) \<and> set (lookupList ch p) = {v. p \<in> ?par v}" for p
    using collect_maps [OF st] assms(1) unfolding wellFormed_def by blast+
  have N: "v \<in> ?N \<longleftrightarrow> map_of vs v \<noteq> None" for v by (simp add: map_of_eq_None_iff)
  have ch: "distinct (lookupList ch p) \<and> set (lookupList ch p) = {v \<in> ?N. p \<in> ?par v}" for p
    using maps(3) [of p] by (auto simp: vertexParents_def N split: option.splits)
  have deg: "degreeOf deg v = int (card (?par v))" for v
    using wellFormed_parents(2) [OF assms(1), of v]
    by (cases "map_of vs v") (simp_all add: degreeOf_def maps(1), simp add: vertexParents_def)
  let ?ready = "sort (map fst (filter (\<lambda>(k, n). n = 0) deg))"
  have "set ?ready = {v \<in> ?N. ?par v = {}}"
  proof -
    have "set ?ready = {v. (v, 0) \<in> set deg}" by force
    also have "\<dots> = {v. map_of deg v = Some 0}" unfolding map_of_eq_Some_iff [OF maps(2)] ..
    also have "\<dots> = {v \<in> ?N. ?par v = {}}"
      unfolding N by (auto simp: maps(1) vertexParents_def split: option.splits)
    finally show ?thesis .
  qed
  moreover have "distinct ?ready"
    using maps(2) by (simp add: distinct_map_filter)
  ultimately have "kahnInv ?N ?par deg ?ready []"
    using deg by (auto simp: kahnInv_def readySet_def)
  then have "greedyPrefix ?N ?par (kahnLoop ch deg ?ready []) \<and> readySet ?N ?par (kahnLoop ch deg ?ready []) = {}"
    by (intro kahnLoop_greedy) (use ch in \<open>auto simp: vertexParents_def split: option.splits\<close>)
  moreover have "os = kahnLoop ch deg ?ready []" "n = length deg" using assms(2) st by (simp_all add: kahn_def kahnFrom_def Let_def)
  moreover have "fst ` set deg = ?N"
    by (metis (no_types, lifting) N dom_map_of_conv_image_fst domIff maps(1) option.map_disc_iff subsetI subset_antisym)
  then have "length deg = card ?N" using distinct_card [OF maps(2)] by simp
  ultimately show ?thesis by simp
qed

theorem kahn_correct:
  assumes "wellFormed vs" "kahn vs = (os, n)"
  shows "n = card (fst ` set vs)" and "distinct os" and "set os \<subseteq> fst ` set vs"
    and "length os = n \<longleftrightarrow> set os = fst ` set vs"
    and "length os = n \<longleftrightarrow> acyclic (depEdges (fst ` set vs) (vertexParents vs))"
    and "k < length os \<Longrightarrow> vertexParents vs (os ! k) \<subseteq> set (take k os)"
proof -
  let ?N = "fst ` set vs" and ?par = "vertexParents vs"
  note g = kahn_greedy [OF assms]
  show n: "n = card ?N" and d: "distinct os" and sub: "set os \<subseteq> ?N"
    using g greedyPrefix_distinct [of ?N ?par os] by auto
  show full: "length os = n \<longleftrightarrow> set os = ?N"
    using n d sub by (metis List.finite_set card_subset_eq distinct_card finite_imageI)
  have "?par v \<subseteq> ?N" for v by (rule wellFormed_parents(1) [OF assms(1)])
  then have "acyclic (depEdges ?N ?par) \<Longrightarrow> ?N \<subseteq> set os"
    using g acyclic_ready [of ?N ?par os] by auto
  then show "length os = n \<longleftrightarrow> acyclic (depEdges ?N ?par)"
    using full g sub greedy_acyclic [of ?N ?par os] by blast
  show "k < length os \<Longrightarrow> ?par (os ! k) \<subseteq> set (take k os)"
    using g greedyPrefix_before by blast
qed

text \<open>The order does not depend on the order in which the vertices were collected.\<close>

lemma kahn_order_independent:
  assumes "wellFormed vs" "wellFormed vs'" "fst ` set vs = fst ` set vs'" "vertexParents vs = vertexParents vs'"
    and "kahn vs = (os, n)" "kahn vs' = (os', n')" "length os = n" "length os' = n'"
  shows "os = os'"
proof (rule greedyPrefix_unique)
  show "greedyPrefix (fst ` set vs) (vertexParents vs) os" using kahn_greedy [OF assms(1,5)] by simp
  show "greedyPrefix (fst ` set vs) (vertexParents vs) os'" using kahn_greedy [OF assms(2,6)] assms(3,4) by simp
  show "length os = length os'" using kahn_greedy [OF assms(1,5)] kahn_greedy [OF assms(2,6)] assms(3,7,8) by simp
qed

section \<open>The interface of an ordered history\<close>

text \<open>
  What the catalogs rely on when they consume an ordered history: which vertices it has, that parents
  come first and stay in the lineage of their root, and that it does not depend on the reading order.
\<close>

locale ordered_history =
  fixes ok :: "'e list \<Rightarrow> bool"
    and order :: "'e list \<Rightarrow> 'e list result"
    and ident :: "'e \<Rightarrow> string"
    and parents :: "'e \<Rightarrow> string list"
    and root :: "'e \<Rightarrow> string"
    and vertices :: "'e list \<Rightarrow> 'e set"
  assumes order_vertices: "ok es \<Longrightarrow> order es = Inr os \<Longrightarrow> set os = vertices es"
    and order_distinct: "ok es \<Longrightarrow> order es = Inr os \<Longrightarrow> distinct (map ident os)"
    and order_before: "ok es \<Longrightarrow> order es = Inr os \<Longrightarrow> k < length os \<Longrightarrow> set (parents (os ! k)) \<subseteq> ident ` set (take k os)"
    and order_root: "ok es \<Longrightarrow> order es = Inr os \<Longrightarrow> p \<in> set os \<Longrightarrow> c \<in> set os \<Longrightarrow> ident p \<in> set (parents c) \<Longrightarrow> root p = root c"
    and order_unique: "ok es \<Longrightarrow> set es = set es' \<Longrightarrow> order es = Inr os \<Longrightarrow> order es' = Inr os"
begin

definition childRel :: "'e list \<Rightarrow> ('e \<times> 'e) set" where
  "childRel es = {(p, c). p \<in> vertices es \<and> c \<in> vertices es \<and> ident p \<in> set (parents c)}"

definition isHead :: "'e list \<Rightarrow> 'e \<Rightarrow> bool" where
  "isHead es v \<longleftrightarrow> v \<in> vertices es \<and> (\<forall>c \<in> vertices es. ident v \<notin> set (parents c))"

lemma child_later:
  assumes "ok es" "order es = Inr os" "i < length os" "j < length os" "(os ! i, os ! j) \<in> childRel es"
  shows "i < j"
proof -
  have "ident (os ! i) \<in> ident ` set (take j os)"
    using order_before [OF assms(1,2,4)] assms(5) by (auto simp: childRel_def)
  then obtain k where k: "k < j" "ident (os ! k) = ident (os ! i)" using assms(4) by (auto simp: in_set_conv_nth)
  then have "k = i"
    using order_distinct [OF assms(1,2)] assms(3,4) by (auto simp: distinct_conv_nth) (metis less_trans)
  with k show ?thesis by simp
qed

lemma childRel_acyclic:
  assumes "ok es" "order es = Inr os"
  shows "acyclic (childRel es)"
proof (rule acyclicI)
  have "i < j" if "(u, v) \<in> (childRel es)\<^sup>+" "i < length os" "j < length os" "os ! i = u" "os ! j = v" for u v i j
    using that
  proof (induction arbitrary: j rule: trancl_induct)
    case (base v)
    then show ?case using child_later [OF assms, of i j] by simp
  next
    case (step v w)
    have "v \<in> set os" using step.hyps(2) order_vertices [OF assms] by (simp add: childRel_def)
    then obtain k where k: "k < length os" "os ! k = v" by (auto simp: in_set_conv_nth)
    then have "i < k" using step by blast
    moreover have "k < j" using child_later [OF assms, of k j] k step by simp
    ultimately show ?case by simp
  qed
  moreover have "v \<in> set os" if "(v, v) \<in> (childRel es)\<^sup>+" for v
    using that order_vertices [OF assms] by (auto simp: childRel_def elim: tranclE)
  ultimately show "\<forall>v. (v, v) \<notin> (childRel es)\<^sup>+" by (metis in_set_conv_nth less_irrefl)
qed

text \<open>Every vertex is a head or has a head among its descendants.\<close>

lemma reaches_head:
  assumes "ok es" "order es = Inr os" "v \<in> vertices es"
  shows "\<exists>h. isHead es h \<and> (v, h) \<in> (childRel es)\<^sup>* \<and> root h = root v"
proof -
  have "finite (vertices es)" using order_vertices [OF assms(1,2)] by (metis List.finite_set)
  moreover have "childRel es \<subseteq> vertices es \<times> vertices es" by (auto simp: childRel_def)
  ultimately have "finite (childRel es)" by (meson finite_SigmaI finite_subset)
  then have "wf ((childRel es)\<inverse>)" using childRel_acyclic [OF assms(1,2)] by (rule finite_acyclic_wf_converse)
  then show ?thesis using assms(3)
  proof (induction v rule: wf_induct_rule)
    case (less v)
    show ?case
    proof (cases "isHead es v")
      case False
      then obtain c where c: "c \<in> vertices es" "(v, c) \<in> childRel es" using less.prems by (auto simp: isHead_def childRel_def)
      then obtain h where "isHead es h" "(c, h) \<in> (childRel es)\<^sup>*" "root h = root c" using less.IH by blast
      moreover have "root v = root c"
        using order_root [OF assms(1,2)] c order_vertices [OF assms(1,2)] by (auto simp: childRel_def)
      ultimately show ?thesis using c(2) by (metis converse_rtrancl_into_rtrancl)
    qed blast
  qed
qed

text \<open>An element of the order without parents that starts each lineage comes before the rest of it.\<close>

lemma lineage_start:
  assumes "ok es" "order es = Inr os"
    and "\<And>v. v \<in> set os \<Longrightarrow> parents v \<noteq> [] \<or> start v"
  shows "k < length os \<Longrightarrow> \<exists>j \<le> k. start (os ! j) \<and> root (os ! j) = root (os ! k)"
proof (induction k rule: less_induct)
  case (less k)
  show ?case
  proof (cases "start (os ! k)")
    case False
    then obtain p where p: "p \<in> set (parents (os ! k))" using assms(3) less.prems by (metis list.set_intros(1) neq_Nil_conv nth_mem)
    then have "p \<in> ident ` set (take k os)" using order_before [OF assms(1,2) less.prems] by blast
    then obtain j where j: "j < k" "ident (os ! j) = p" using less.prems by (auto simp: in_set_conv_nth)
    then have "root (os ! j) = root (os ! k)"
      using order_root [OF assms(1,2)] p less.prems by (metis less_trans nth_mem)
    then show ?thesis using less.IH [OF j(1)] j(1) less.prems by (metis le_less_trans less_imp_le less_trans)
  qed blast
qed

end

end
