(* ===== verification/HN_Scc.thy ===== *)
theory HN_Scc
  imports HN_Prelude
begin

text \<open>
  The iterative search for strongly connected components inside \<open>issueGraphCycles\<close> of
  \<open>src/issue_projection.go\<close> (Kosaraju's two passes), and its correctness: the components it reports are
  exactly the classes of mutually reachable vertices.

  A Go slice used as a stack is a list with its top (the end of the slice) first.
\<close>

section \<open>Definitions\<close>

text \<open>A frame \<open>(v, True)\<close> marks that \<open>v\<close> is finished when it is popped.\<close>

type_synonym frame = "string \<times> bool"

definition weight :: "frame list \<Rightarrow> nat" where
  "weight stack = sum_list (map (\<lambda>(v, fin). if fin then 1 else 2) stack)"

function finishLoop :: "(string, string list) gomap \<Rightarrow> string list \<Rightarrow> string list \<Rightarrow> frame list \<Rightarrow> string list \<times> string list" where
  "finishLoop next visited order [] = (visited, order)"
| "finishLoop next visited order ((v, True) # stack) = finishLoop next visited (order @ [v]) stack"
| "finishLoop next visited order ((v, False) # stack) =
     (if v \<in> set visited then finishLoop next visited order stack
      else finishLoop next (v # visited) order
        (rev (map (\<lambda>c. (c, False)) (filter (\<lambda>c. c \<notin> set (v # visited)) (lookupList next v))) @ (v, True) # stack))"
  by pat_completeness auto
termination
proof (relation "measures [\<lambda>(next, visited, order, stack). card (fst ` set next - set visited),
    \<lambda>(next, visited, order, stack). weight stack]")
  fix "next" :: "(string, string list) gomap" and visited order :: "string list" and v :: string and stack
  assume v: "v \<notin> set visited"
  let ?push = "rev (map (\<lambda>c. (c, False)) (filter (\<lambda>c. c \<notin> set (v # visited)) (lookupList next v)))"
  show "((next, v # visited, order, ?push @ (v, True) # stack), next, visited, order, (v, False) # stack)
      \<in> measures [\<lambda>(next, visited, order, stack). card (fst ` set next - set visited),
          \<lambda>(next, visited, order, stack). weight stack]"
  proof (cases "v \<in> fst ` set next")
    case True
    then have "fst ` set next - set (v # visited) \<subset> fst ` set next - set visited" using v by auto
    then show ?thesis by (simp add: psubset_card_mono del: set_simps)
  next
    case False
    then have "lookupList next v = []"
      by (auto simp: lookupList_def split: option.splits dest!: map_of_SomeD) force
    moreover have "fst ` set next - set (v # visited) = fst ` set next - set visited" using False by auto
    ultimately show ?thesis by (simp add: weight_def del: set_simps)
  qed
qed (simp_all add: weight_def)

text \<open>The first pass over all vertices.\<close>

fun finishAll :: "(string, string list) gomap \<Rightarrow> string list \<Rightarrow> string list \<Rightarrow> string list \<Rightarrow> string list" where
  "finishAll next visited order [] = order"
| "finishAll next visited order (v # vs) =
     (if v \<in> set visited then finishAll next visited order vs
      else let (visited', order') = finishLoop next visited order [(v, False)] in finishAll next visited' order' vs)"

text \<open>One component of the second pass, following the edges backwards.\<close>

function collectLoop :: "(string, string list) gomap \<Rightarrow> string list \<Rightarrow> string list \<Rightarrow> string list \<Rightarrow> string list \<times> string list" where
  "collectLoop prev assigned ms [] = (assigned, ms)"
| "collectLoop prev assigned ms (n # stack) =
     (if n \<in> set assigned then collectLoop prev assigned ms stack
      else collectLoop prev (n # assigned) (ms @ [n]) (rev (lookupList prev n) @ stack))"
  by pat_completeness auto
termination
proof (relation "measures [\<lambda>(prev, assigned, ms, stack). card (fst ` set prev - set assigned),
    \<lambda>(prev, assigned, ms, stack). length stack]")
  fix prev :: "(string, string list) gomap" and assigned ms :: "string list" and n :: string and stack
  assume n: "n \<notin> set assigned"
  show "((prev, n # assigned, ms @ [n], rev (lookupList prev n) @ stack), prev, assigned, ms, n # stack)
      \<in> measures [\<lambda>(prev, assigned, ms, stack). card (fst ` set prev - set assigned),
          \<lambda>(prev, assigned, ms, stack). length stack]"
  proof (cases "n \<in> fst ` set prev")
    case True
    then have "fst ` set prev - set (n # assigned) \<subset> fst ` set prev - set assigned" using n by auto
    then show ?thesis by (simp add: psubset_card_mono del: set_simps)
  next
    case False
    then have "lookupList prev n = []"
      by (auto simp: lookupList_def split: option.splits dest!: map_of_SomeD) force
    moreover have "fst ` set prev - set (n # assigned) = fst ` set prev - set assigned" using False by auto
    ultimately show ?thesis by (simp del: set_simps)
  qed
qed simp_all

text \<open>The second pass, over the finishing order from its end.\<close>

fun collectAll :: "(string, string list) gomap \<Rightarrow> string list \<Rightarrow> string list \<Rightarrow> string list list" where
  "collectAll prev assigned [] = []"
| "collectAll prev assigned (v # vs) =
     (if v \<in> set assigned then collectAll prev assigned vs
      else let (assigned', ms) = collectLoop prev assigned [] [v] in ms # collectAll prev assigned' vs)"

definition components :: "(string, string list) gomap \<Rightarrow> (string, string list) gomap \<Rightarrow> string list \<Rightarrow> string list list" where
  "components next prev ids = collectAll prev [] (rev (finishAll next [] [] ids))"

section \<open>The first pass\<close>

definition stepRel :: "(string, string list) gomap \<Rightarrow> (string \<times> string) set" where
  "stepRel m = {(u, v). v \<in> set (lookupList m u)}"

lemma stepRel_iff [simp]: "(u, v) \<in> stepRel m \<longleftrightarrow> v \<in> set (lookupList m u)"
  by (simp add: stepRel_def)

definition grays :: "frame list \<Rightarrow> string list" where
  "grays stack = map fst (filter snd stack)"

lemma grays_simps [simp]: "grays [] = []" "grays ((v, True) # stack) = v # grays stack"
  "grays ((v, False) # stack) = grays stack" "grays (a @ b) = grays a @ grays b"
  by (simp_all add: grays_def)

lemma grays_white [simp]: "grays (map (\<lambda>c. (c, False)) cs) = []" "grays (rev (map (\<lambda>c. (c, False)) cs)) = []"
  by (simp_all add: grays_def filter_empty_conv)

lemma grays_split: "g \<in> set (grays stack) \<longleftrightarrow> (\<exists>pre post. stack = pre @ (g, True) # post)"
proof
  assume "g \<in> set (grays stack)"
  then have "(g, True) \<in> set stack" by (auto simp: grays_def)
  then show "\<exists>pre post. stack = pre @ (g, True) # post" by (rule split_list)
qed auto

text \<open>
  The invariant.  \<open>s v\<close> is the length of the finishing order when \<open>v\<close> was discovered, so the vertices
  finished between positions \<open>s v\<close> and that of \<open>v\<close> are those discovered from \<open>v\<close>.
\<close>

definition blockOK :: "(string \<times> string) set \<Rightarrow> (string \<Rightarrow> nat) \<Rightarrow> string list \<Rightarrow> string \<Rightarrow> nat \<Rightarrow> bool" where
  "blockOK R s order y n \<longleftrightarrow> s y \<le> n \<and> (\<forall>k. s y \<le> k \<and> k < n \<longrightarrow> (y, order ! k) \<in> R\<^sup>* \<and> s y \<le> s (order ! k))"

definition edgesOK :: "(string \<times> string) set \<Rightarrow> (string \<Rightarrow> nat) \<Rightarrow> string list \<Rightarrow> string list \<Rightarrow> bool" where
  "edgesOK R s order gs \<longleftrightarrow> (\<forall>k < length order. \<forall>v. (order ! k, v) \<in> R \<longrightarrow>
     v \<in> set (take (Suc k) order) \<or> (v \<in> set order \<union> set gs \<and> s v \<le> k))"

definition stackOK :: "(string \<times> string) set \<Rightarrow> (string \<Rightarrow> nat) \<Rightarrow> string list \<Rightarrow> frame list \<Rightarrow> bool" where
  "stackOK R s visited stack \<longleftrightarrow> (\<forall>pre g post. stack = pre @ (g, True) # post \<longrightarrow>
     (\<forall>f \<in> set pre. (g, fst f) \<in> R\<^sup>* \<and> (snd f \<longrightarrow> s g \<le> s (fst f))) \<and>
     (\<forall>v. (g, v) \<in> R \<longrightarrow> v \<in> set visited \<or> (v, False) \<in> set pre))"

definition dfsInv :: "(string \<times> string) set \<Rightarrow> (string \<Rightarrow> nat) \<Rightarrow> string list \<Rightarrow> string list \<Rightarrow> frame list \<Rightarrow> bool" where
  "dfsInv R s visited order stack \<longleftrightarrow> distinct order \<and> distinct (grays stack) \<and> set order \<inter> set (grays stack) = {} \<and>
     set visited = set order \<union> set (grays stack) \<and> edgesOK R s order (grays stack) \<and>
     (\<forall>k < length order. blockOK R s order (order ! k) k) \<and>
     (\<forall>g \<in> set (grays stack). blockOK R s order g (length order)) \<and> stackOK R s visited stack"

lemma stackOK_D:
  assumes "stackOK R s visited stack" "stack = pre @ (g, True) # post"
  shows "f \<in> set pre \<Longrightarrow> (g, fst f) \<in> R\<^sup>*" "f \<in> set pre \<Longrightarrow> snd f \<Longrightarrow> s g \<le> s (fst f)"
    "(g, v) \<in> R \<Longrightarrow> v \<in> set visited \<or> (v, False) \<in> set pre"
  using assms unfolding stackOK_def by blast+

lemma stackOK_tail: "stackOK R s visited (f # stack) \<Longrightarrow> (\<And>v. f = (v, False) \<Longrightarrow> v \<in> set visited) \<Longrightarrow> stackOK R s visited stack"
  unfolding stackOK_def
proof (intro allI impI)
  fix pre g post
  assume ok: "\<forall>pre g post. f # stack = pre @ (g, True) # post \<longrightarrow>
      (\<forall>x \<in> set pre. (g, fst x) \<in> R\<^sup>* \<and> (snd x \<longrightarrow> s g \<le> s (fst x))) \<and>
      (\<forall>v. (g, v) \<in> R \<longrightarrow> v \<in> set visited \<or> (v, False) \<in> set pre)"
    and vis: "\<And>v. f = (v, False) \<Longrightarrow> v \<in> set visited" and st: "stack = pre @ (g, True) # post"
  then have "f # stack = (f # pre) @ (g, True) # post" by simp
  with ok have "(\<forall>x \<in> set (f # pre). (g, fst x) \<in> R\<^sup>* \<and> (snd x \<longrightarrow> s g \<le> s (fst x))) \<and>
      (\<forall>v. (g, v) \<in> R \<longrightarrow> v \<in> set visited \<or> (v, False) \<in> set (f # pre))" by blast
  then show "(\<forall>x \<in> set pre. (g, fst x) \<in> R\<^sup>* \<and> (snd x \<longrightarrow> s g \<le> s (fst x))) \<and>
      (\<forall>v. (g, v) \<in> R \<longrightarrow> v \<in> set visited \<or> (v, False) \<in> set pre)"
    using vis by auto
qed

text \<open>Popping a finishing frame.\<close>

lemma dfsInv_finish:
  assumes "dfsInv R s visited order ((v, True) # stack)"
  shows "dfsInv R s visited (order @ [v]) stack"
proof -
  have st: "stackOK R s visited ((v, True) # stack)" and ord: "distinct order" "distinct (v # grays stack)"
    "set order \<inter> set (v # grays stack) = {}" "set visited = set order \<union> set (v # grays stack)"
    and ed: "edgesOK R s order (v # grays stack)" and fin: "\<forall>k < length order. blockOK R s order (order ! k) k"
    and gr: "\<forall>g \<in> set (v # grays stack). blockOK R s order g (length order)"
    using assms by (auto simp: dfsInv_def)
  have succ: "w \<in> set visited" if "(v, w) \<in> R" for w
    using st that unfolding stackOK_def by (metis append_Nil empty_iff empty_set)
  have below: "(g, v) \<in> R\<^sup>* \<and> s g \<le> s v" if g: "g \<in> set (grays stack)" for g
  proof -
    obtain pre post where "stack = pre @ (g, True) # post" using grays_split [of g stack] g by blast
    then have eq: "(v, True) # stack = ((v, True) # pre) @ (g, True) # post" by simp
    show ?thesis using stackOK_D(1,2) [OF st eq, of "(v, True)"] by simp
  qed
  have "edgesOK R s (order @ [v]) (grays stack)"
    unfolding edgesOK_def
  proof (intro allI impI)
    fix k w assume k: "k < length (order @ [v])" and w: "((order @ [v]) ! k, w) \<in> R"
    show "w \<in> set (take (Suc k) (order @ [v])) \<or> (w \<in> set (order @ [v]) \<union> set (grays stack) \<and> s w \<le> k)"
    proof (cases "k < length order")
      case True
      then show ?thesis using ed w unfolding edgesOK_def by (auto simp: nth_append)
    next
      case False
      then have "k = length order" using k by simp
      moreover have "(v, w) \<in> R" using w \<open>k = length order\<close> by simp
      ultimately show ?thesis using succ [of w] ord(4) gr by (auto simp: blockOK_def)
    qed
  qed
  moreover have "blockOK R s (order @ [v]) ((order @ [v]) ! k) k" if "k < length (order @ [v])" for k
    using that fin gr by (cases "k < length order") (auto simp: blockOK_def nth_append)
  moreover have "blockOK R s (order @ [v]) g (length (order @ [v]))" if "g \<in> set (grays stack)" for g
    using gr below [OF that] that by (auto simp: blockOK_def nth_append less_Suc_eq)
  moreover have "stackOK R s visited stack" by (rule stackOK_tail [OF st]) simp
  ultimately show ?thesis using ord by (auto simp: dfsInv_def)
qed

lemma split_after:
  "xs @ (v, True) # ys = pre @ (g, True) # post \<Longrightarrow> (g, True) \<notin> set xs \<Longrightarrow>
     (pre = xs \<and> g = v) \<or> (\<exists>pre'. pre = xs @ (v, True) # pre' \<and> ys = pre' @ (g, True) # post)"
  by (induction xs arbitrary: pre) (auto simp: Cons_eq_append_conv)

text \<open>Discovering a vertex.\<close>

lemma dfsInv_discover:
  assumes inv: "dfsInv R s visited order ((v, False) # stack)" and new: "v \<notin> set visited"
    and R: "\<And>w. (v, w) \<in> R \<longleftrightarrow> w \<in> set cs"
  shows "dfsInv R (s(v := length order)) (v # visited) order
    (rev (map (\<lambda>c. (c, False)) (filter (\<lambda>c. c \<notin> set (v # visited)) cs)) @ (v, True) # stack)"
    (is "dfsInv R ?s ?vis order (?push @ (v, True) # stack)")
proof -
  have st: "stackOK R s visited ((v, False) # stack)" and ord: "distinct order" "distinct (grays stack)"
    "set order \<inter> set (grays stack) = {}" "set visited = set order \<union> set (grays stack)"
    and ed: "edgesOK R s order (grays stack)" and fin: "\<forall>k < length order. blockOK R s order (order ! k) k"
    and gr: "\<forall>g \<in> set (grays stack). blockOK R s order g (length order)"
    using inv by (auto simp: dfsInv_def)
  have keep: "?s w = s w" if "w \<in> set visited" for w using that new by auto
  have keepo: "?s (order ! k) = s (order ! k)" if "k < length order" for k using that keep ord(4) by simp
  have "edgesOK R ?s order (v # grays stack)"
    using ed new ord(4) unfolding edgesOK_def by fastforce
  moreover have "blockOK R ?s order (order ! k) k" if "k < length order" for k
    using fin that keepo by (auto simp: blockOK_def)
  moreover have "blockOK R ?s order g (length order)" if "g \<in> set (v # grays stack)" for g
  proof (cases "g = v")
    case False
    then have "g \<in> set (grays stack)" using that by simp
    then show ?thesis using gr False keepo by (auto simp: blockOK_def)
  qed (auto simp: blockOK_def)
  moreover have "stackOK R ?s ?vis (?push @ (v, True) # stack)"
    unfolding stackOK_def
  proof (intro allI impI)
    fix pre g post assume eq: "?push @ (v, True) # stack = pre @ (g, True) # post"
    have "(g, True) \<notin> set ?push" by auto
    from split_after [OF eq this]
    consider "pre = ?push" "g = v" | pre' where "pre = ?push @ (v, True) # pre'" "stack = pre' @ (g, True) # post"
      by blast
    then show "(\<forall>f \<in> set pre. (g, fst f) \<in> R\<^sup>* \<and> (snd f \<longrightarrow> ?s g \<le> ?s (fst f))) \<and>
        (\<forall>w. (g, w) \<in> R \<longrightarrow> w \<in> set ?vis \<or> (w, False) \<in> set pre)"
    proof cases
      case 1
      then show ?thesis using R by auto
    next
      case 2
      then have full: "(v, False) # stack = ((v, False) # pre') @ (g, True) # post" by simp
      have old: "\<forall>f \<in> set ((v, False) # pre'). (g, fst f) \<in> R\<^sup>* \<and> (snd f \<longrightarrow> s g \<le> s (fst f))"
        "\<forall>w. (g, w) \<in> R \<longrightarrow> w \<in> set visited \<or> (w, False) \<in> set ((v, False) # pre')"
        using st full unfolding stackOK_def by blast+
      have g: "g \<in> set (grays stack)" using 2(2) by (auto simp: grays_split)
      then have sg: "?s g = s g" "s g \<le> length order" using keep ord(4) gr by (auto simp: blockOK_def)
      have gv: "(g, v) \<in> R\<^sup>*" using old(1) by simp
      have "(g, fst f) \<in> R\<^sup>* \<and> (snd f \<longrightarrow> ?s g \<le> ?s (fst f))" if f: "f \<in> set pre" for f
      proof -
        consider "f \<in> set ?push" | "f = (v, True)" | "f \<in> set pre'" using f 2(1) by auto
        then show ?thesis
        proof cases
          case 1
          then show ?thesis using R gv by (auto intro: rtrancl_into_rtrancl)
        next
          case 2
          then show ?thesis using gv sg by simp
        next
          case 3
          then show ?thesis using old(1) sg by auto
        qed
      qed
      moreover have "w \<in> set ?vis \<or> (w, False) \<in> set pre" if "(g, w) \<in> R" for w
        using old(2) that 2(1) by auto
      ultimately show ?thesis by blast
    qed
  qed
  ultimately show ?thesis using ord new by (simp add: dfsInv_def)
qed

lemma dfsInv_skip:
  assumes "dfsInv R s visited order ((v, False) # stack)" "v \<in> set visited"
  shows "dfsInv R s visited order stack"
  using assms stackOK_tail [of R s visited "(v, False)" stack] by (auto simp: dfsInv_def)

lemma finishLoop_inv:
  "dfsInv (stepRel next) s visited order stack \<Longrightarrow> finishLoop next visited order stack = (visited', order') \<Longrightarrow>
     \<exists>s'. dfsInv (stepRel next) s' visited' order' [] \<and> set visited \<subseteq> set visited' \<and> fst ` set stack \<subseteq> set visited'"
proof (induction "next" visited order stack arbitrary: s rule: finishLoop.induct)
  case (2 "next" visited order v stack)
  have v: "v \<in> set visited" using "2.prems"(1) by (auto simp: dfsInv_def)
  from "2.IH" [OF dfsInv_finish [OF "2.prems"(1)]] "2.prems"(2) obtain s' where
    "dfsInv (stepRel next) s' visited' order' []" "set visited \<subseteq> set visited'" "fst ` set stack \<subseteq> set visited'" by auto
  with v show ?case by (intro exI [of _ s']) auto
next
  case (3 "next" visited order v stack)
  show ?case
  proof (cases "v \<in> set visited")
    case True
    from "3.IH"(1) [OF True dfsInv_skip [OF "3.prems"(1) True]] "3.prems"(2) True obtain s' where
      "dfsInv (stepRel next) s' visited' order' []" "set visited \<subseteq> set visited'" "fst ` set stack \<subseteq> set visited'" by auto
    with True show ?thesis by (intro exI [of _ s']) auto
  next
    case False
    from "3.IH"(2) [OF False dfsInv_discover [OF "3.prems"(1) False]] "3.prems"(2) False obtain s' where
      "dfsInv (stepRel next) s' visited' order' []" "set (v # visited) \<subseteq> set visited'"
      "fst ` set stack \<subseteq> set visited'" by (auto simp del: filter.simps)
    then show ?thesis by (intro exI [of _ s']) auto
  qed
qed auto

lemma finishAll_inv:
  "dfsInv (stepRel next) s visited order [] \<Longrightarrow>
     \<exists>s' visited'. dfsInv (stepRel next) s' visited' (finishAll next visited order vs) [] \<and>
       set visited \<union> set vs \<subseteq> set visited'"
proof (induction vs arbitrary: s visited order)
  case (Cons v vs)
  show ?case
  proof (cases "v \<in> set visited")
    case True
    then show ?thesis using Cons.IH [OF Cons.prems] by auto
  next
    case False
    obtain visited' order' where run: "finishLoop next visited order [(v, False)] = (visited', order')" by fastforce
    have "dfsInv (stepRel next) s visited order [(v, False)]"
      using Cons.prems by (auto simp: dfsInv_def stackOK_def Cons_eq_append_conv)
    from finishLoop_inv [OF this run] obtain s' where
      s': "dfsInv (stepRel next) s' visited' order' []" "set visited \<subseteq> set visited'" "v \<in> set visited'" by auto
    from Cons.IH [OF s'(1)] s' False run show ?thesis by fastforce
  qed
qed auto

text \<open>Only vertices of the graph are finished.\<close>

lemma finishLoop_subset:
  assumes "\<And>x y. (x, y) \<in> stepRel next \<Longrightarrow> y \<in> V"
  shows "finishLoop next visited order stack = (visited', order') \<Longrightarrow> set order \<subseteq> V \<Longrightarrow> fst ` set stack \<subseteq> V \<Longrightarrow> set order' \<subseteq> V"
  using assms
proof (induction "next" visited order stack rule: finishLoop.induct)
  case (3 "next" visited order v stack)
  show ?case
  proof (cases "v \<in> set visited")
    case True
    then show ?thesis using 3 by simp
  next
    case False
    have "fst ` set (rev (map (\<lambda>c. (c, False)) (filter (\<lambda>c. c \<notin> set (v # visited)) (lookupList next v))) @ (v, True) # stack) \<subseteq> V"
      using "3.prems"(3,4) by auto
    then show ?thesis using "3.IH"(2) [OF False] "3.prems" False by simp
  qed
qed auto

lemma finishAll_subset:
  assumes "\<And>x y. (x, y) \<in> stepRel next \<Longrightarrow> y \<in> V" "set order \<subseteq> V" "set vs \<subseteq> V"
  shows "set (finishAll next visited order vs) \<subseteq> V"
  using assms(2,3)
proof (induction vs arbitrary: visited order)
  case (Cons v vs)
  obtain visited' order' where run: "finishLoop next visited order [(v, False)] = (visited', order')" by fastforce
  have "set order' \<subseteq> V" using finishLoop_subset [OF assms(1) run] Cons.prems by simp
  then show ?case using Cons run by (simp del: finishLoop.simps)
qed simp

section \<open>The last finished vertex\<close>

lemma edges_closed:
  assumes "edgesOK R s order []" "x \<in> set order" "(x, y) \<in> R\<^sup>*"
  shows "y \<in> set order"
  using assms(3,2)
proof (induction rule: rtrancl_induct)
  case (step y z)
  then obtain k where "k < length order" "order ! k = y" by (auto simp: in_set_conv_nth)
  with step.hyps(2) have "z \<in> set (take (Suc k) order) \<or> z \<in> set order \<union> set [] \<and> s z \<le> k"
    using assms(1) unfolding edgesOK_def by blast
  then show ?case by (auto dest: in_set_takeD)
qed

text \<open>Of the vertices that \<open>x\<close> reaches, the one that was finished last reaches \<open>x\<close> again.\<close>

lemma last_reaches_back:
  assumes inv: "dfsInv R s visited order []" and i: "i < length order" and j: "j < length order"
    and ij: "(order ! i, order ! j) \<in> R\<^sup>*"
    and last: "\<And>k. j < k \<Longrightarrow> k < length order \<Longrightarrow> (order ! i, order ! k) \<notin> R\<^sup>*"
  shows "(order ! j, order ! i) \<in> R\<^sup>*"
proof -
  let ?x = "order ! i" and ?y = "order ! j"
  have d: "distinct order" and ed: "edgesOK R s order []" and bl: "\<And>k. k < length order \<Longrightarrow> blockOK R s order (order ! k) k"
    using inv by (auto simp: dfsInv_def)
  have "(?x, w) \<in> R\<^sup>* \<Longrightarrow> \<exists>p. p \<le> j \<and> s ?y \<le> p \<and> order ! p = w" if "(w, ?y) \<in> R\<^sup>*" for w
    using that
  proof (induction rule: converse_rtrancl_induct)
    case base
    then show ?case using bl [OF j] by (auto simp: blockOK_def)
  next
    case (step w w')
    then have "(?x, w') \<in> R\<^sup>*" by (auto intro: rtrancl_into_rtrancl)
    then obtain p' where p': "p' \<le> j" "s ?y \<le> p'" "order ! p' = w'" using step.IH by blast
    obtain p where p: "p < length order" "order ! p = w"
      using edges_closed [OF ed _ step.prems] i by (auto simp: in_set_conv_nth)
    then have pj: "p \<le> j" using last [of p] step.prems by force
    have "s ?y \<le> p"
    proof (cases "p' \<le> p")
      case False
      have "w' \<in> set (take (Suc p) order) \<or> s w' \<le> p"
        using ed p step.hyps(1) unfolding edgesOK_def by fastforce
      moreover have "w' \<notin> set (take (Suc p) order)"
        using d p' False j by (auto simp: in_set_conv_nth nth_eq_iff_index_eq)
      moreover have "s ?y \<le> s w'"
        using bl [OF j] p' by (cases "p' = j") (auto simp: blockOK_def)
      ultimately show ?thesis by simp
    qed (use p' in simp)
    then show ?case using p pj by blast
  qed
  from this [OF ij] obtain p where p: "p \<le> j" "s ?y \<le> p" "order ! p = ?x" by blast
  then show ?thesis using bl [OF j] by (cases "p = j") (auto simp: blockOK_def)
qed

section \<open>The second pass\<close>

definition scc :: "('n \<times> 'n) set \<Rightarrow> 'n \<Rightarrow> 'n set" where
  "scc R x = {y. (x, y) \<in> R\<^sup>* \<and> (y, x) \<in> R\<^sup>*}"

lemma scc_refl [simp]: "x \<in> scc R x"
  by (simp add: scc_def)

lemma scc_eq: "y \<in> scc R x \<Longrightarrow> scc R y = scc R x"
  by (auto simp: scc_def)

lemma scc_between: "(x, z) \<in> R\<^sup>* \<Longrightarrow> (z, y) \<in> R\<^sup>* \<Longrightarrow> y \<in> scc R x \<Longrightarrow> z \<in> scc R x"
  by (auto simp: scc_def)

lemma collectLoop_result:
  "collectLoop prev assigned ms stack = (assigned', ms') \<Longrightarrow>
    \<exists>new. ms' = ms @ new \<and> set assigned' = set assigned \<union> set new \<and> distinct new \<and> set new \<inter> set assigned = {} \<and>
      set new \<subseteq> (stepRel prev)\<^sup>* `` set stack \<and> set stack \<subseteq> set assigned' \<and>
      (\<forall>n \<in> set new. set (lookupList prev n) \<subseteq> set assigned')"
proof (induction prev assigned ms stack rule: collectLoop.induct)
  case (2 prev assigned ms n stack)
  show ?case
  proof (cases "n \<in> set assigned")
    case True
    then obtain new where new: "ms' = ms @ new" "set assigned' = set assigned \<union> set new" "distinct new"
      "set new \<inter> set assigned = {}" "set new \<subseteq> (stepRel prev)\<^sup>* `` set stack" "set stack \<subseteq> set assigned'"
      "\<forall>n \<in> set new. set (lookupList prev n) \<subseteq> set assigned'"
      using "2.IH"(1) [OF True] "2.prems" by auto
    moreover from new(5) have "set new \<subseteq> (stepRel prev)\<^sup>* `` set (n # stack)" by auto
    ultimately show ?thesis using True by (intro exI [of _ new]) simp
  next
    case False
    then obtain new where new: "ms' = (ms @ [n]) @ new" "set assigned' = set (n # assigned) \<union> set new" "distinct new"
      "set new \<inter> set (n # assigned) = {}" "set new \<subseteq> (stepRel prev)\<^sup>* `` set (rev (lookupList prev n) @ stack)"
      "set (rev (lookupList prev n) @ stack) \<subseteq> set assigned'" "\<forall>n \<in> set new. set (lookupList prev n) \<subseteq> set assigned'"
      using "2.IH"(2) [OF False] "2.prems" by auto
    have "set new \<subseteq> (stepRel prev)\<^sup>* `` set (n # stack)"
    proof
      fix y assume "y \<in> set new"
      then obtain x where "x \<in> set (lookupList prev n) \<or> x \<in> set stack" "(x, y) \<in> (stepRel prev)\<^sup>*" using new(5) by auto
      then show "y \<in> (stepRel prev)\<^sup>* `` set (n # stack)"
      proof (elim disjE)
        assume "x \<in> set (lookupList prev n)"
        then have "(n, x) \<in> stepRel prev" by simp
        then have "(n, y) \<in> (stepRel prev)\<^sup>*" using \<open>(x, y) \<in> (stepRel prev)\<^sup>*\<close> by (rule converse_rtrancl_into_rtrancl)
        then show ?thesis by auto
      qed auto
    qed
    then show ?thesis using new False by (intro exI [of _ "n # new"]) auto
  qed
qed auto

text \<open>What one run collects when whole components are assigned already.\<close>

lemma collect_component:
  assumes run: "collectLoop prev assigned [] [r] = (assigned', ms)" and tr: "stepRel prev = (stepRel next)\<inverse>"
    and r: "r \<notin> set assigned" and closed: "\<And>x. x \<in> set assigned \<Longrightarrow> scc (stepRel next) x \<subseteq> set assigned"
    and bk: "\<And>y. y \<notin> set assigned \<Longrightarrow> (y, r) \<in> (stepRel next)\<^sup>* \<Longrightarrow> (r, y) \<in> (stepRel next)\<^sup>*"
  shows "set ms = scc (stepRel next) r \<and> distinct ms \<and> set assigned' = set assigned \<union> set ms \<and> set ms \<inter> set assigned = {}"
proof -
  let ?R = "stepRel next"
  obtain new where new: "ms = [] @ new" "set assigned' = set assigned \<union> set new" "distinct new" "set new \<inter> set assigned = {}"
    "set new \<subseteq> (stepRel prev)\<^sup>* `` set [r]" "set [r] \<subseteq> set assigned'" "\<forall>n \<in> set new. set (lookupList prev n) \<subseteq> set assigned'"
    using collectLoop_result [OF run] by blast
  then have ms: "new = ms" by simp
  note res = new(2-7) [unfolded ms]
  have "y \<in> scc ?R r" if "y \<in> set ms" for y
  proof -
    have "(y, r) \<in> ?R\<^sup>*" using res(4) that by (auto simp: tr rtrancl_converse)
    moreover have "y \<notin> set assigned" using res(3) that by auto
    ultimately show ?thesis using bk by (simp add: scc_def)
  qed
  moreover have "y \<in> set ms" if y: "y \<in> scc ?R r" for y
  proof -
    have un: "z \<notin> set assigned" if "z \<in> scc ?R r" for z
      using closed [of z] scc_eq [OF that] r scc_refl [of r ?R] by blast
    have "z \<in> scc ?R r \<longrightarrow> z \<in> set ms" if "(z, r) \<in> ?R\<^sup>*" for z
      using that
    proof (induction rule: converse_rtrancl_induct)
      case base
      then show ?case using res(1,5) r by simp
    next
      case (step a b)
      show ?case
      proof
        assume a: "a \<in> scc ?R r"
        then have "b \<in> scc ?R r" using step.hyps by (auto simp: scc_def intro: rtrancl_into_rtrancl)
        then have "b \<in> set ms" using step.IH by blast
        moreover have "a \<in> set (lookupList prev b)" using step.hyps(1) tr by (metis converse_iff stepRel_iff)
        ultimately show "a \<in> set ms" using res(1,6) un [OF a] by blast
      qed
    qed
    then show ?thesis using y by (simp add: scc_def)
  qed
  ultimately show ?thesis using res by blast
qed

lemma greatest_index:
  assumes "n < length xs" "P (xs ! n)"
  shows "\<exists>j < length xs. n \<le> j \<and> P (xs ! j) \<and> (\<forall>k. j < k \<and> k < length xs \<longrightarrow> \<not> P (xs ! k))"
proof -
  let ?K = "{k. k < length xs \<and> P (xs ! k)}"
  have K: "finite ?K" "n \<in> ?K" using assms by auto
  have "Max ?K \<in> ?K" using Max_in [OF K(1)] K(2) by blast
  moreover have "k \<le> Max ?K" if "k \<in> ?K" for k using Max_ge [OF K(1) that] .
  ultimately show ?thesis using K(2) by (intro exI [of _ "Max ?K"]) (auto simp: not_le [symmetric])
qed

text \<open>The whole second pass, the vertices before position \<open>n\<close> being left to do.\<close>

lemma collectAll_components:
  assumes inv: "dfsInv (stepRel next) s visited order []" and tr: "stepRel prev = (stepRel next)\<inverse>"
    and verts: "\<And>x y. (x, y) \<in> stepRel next \<Longrightarrow> x \<in> set order"
  shows "n \<le> length order \<Longrightarrow> (\<And>k. n \<le> k \<Longrightarrow> k < length order \<Longrightarrow> order ! k \<in> set assigned) \<Longrightarrow>
      (\<And>x. x \<in> set assigned \<Longrightarrow> scc (stepRel next) x \<subseteq> set assigned) \<Longrightarrow>
      set ` set (collectAll prev assigned (rev (take n order))) = scc (stepRel next) ` (set (take n order) - set assigned) \<and>
      distinct (concat (collectAll prev assigned (rev (take n order)))) \<and>
      set (concat (collectAll prev assigned (rev (take n order)))) \<inter> set assigned = {}"
proof (induction n arbitrary: assigned)
  case (Suc n)
  let ?R = "stepRel next" and ?v = "order ! n" and ?A = "set (take n order)"
  have n: "n < length order" using Suc.prems(1) by simp
  then have tk: "rev (take (Suc n) order) = ?v # rev (take n order)" and tks: "set (take (Suc n) order) = insert ?v ?A"
    by (simp_all add: take_Suc_conv_app_nth)
  show ?case
  proof (cases "?v \<in> set assigned")
    case True
    have "order ! k \<in> set assigned" if "n \<le> k" "k < length order" for k
      using Suc.prems(2) [of k] that True by (cases "k = n") auto
    note IH = Suc.IH [OF less_imp_le [OF n] this Suc.prems(3)]
    have "collectAll prev assigned (rev (take (Suc n) order)) = collectAll prev assigned (rev (take n order))"
      "set (take (Suc n) order) - set assigned = ?A - set assigned" using True by (simp_all add: tk tks insert_Diff_if)
    with IH show ?thesis by (simp only:)
  next
    case False
    obtain assigned' ms where run: "collectLoop prev assigned [] [?v] = (assigned', ms)" by fastforce
    have bk: "(?v, y) \<in> ?R\<^sup>*" if un: "y \<notin> set assigned" and yv: "(y, ?v) \<in> ?R\<^sup>*" for y
    proof -
      have "y \<in> set order" using yv verts n by (cases rule: converse_rtranclE) auto
      then obtain i where i: "i < length order" "order ! i = y" by (auto simp: in_set_conv_nth)
      obtain j where j: "j < length order" "n \<le> j" "(y, order ! j) \<in> ?R\<^sup>*"
        and last: "\<And>k. j < k \<Longrightarrow> k < length order \<Longrightarrow> (y, order ! k) \<notin> ?R\<^sup>*"
        using greatest_index [of n order "\<lambda>w. (y, w) \<in> ?R\<^sup>*"] n yv by blast
      have jy: "(order ! j, y) \<in> ?R\<^sup>*"
        using last_reaches_back [OF inv i(1) j(1)] j(3) last unfolding i(2) by blast
      have "j = n"
      proof (rule ccontr)
        assume "j \<noteq> n"
        then have "order ! j \<in> set assigned" using Suc.prems(2) [of j] j by auto
        moreover have "y \<in> scc ?R (order ! j)" using jy j(3) by (simp add: scc_def)
        ultimately show False using Suc.prems(3) un by blast
      qed
      then show ?thesis using jy by simp
    qed
    note comp = collect_component [OF run tr False Suc.prems(3) bk]
    have as: "set assigned' = set assigned \<union> scc ?R ?v" using comp by simp
    have asn: "order ! k \<in> set assigned'" if "n \<le> k" "k < length order" for k
      using Suc.prems(2) [of k] that as by (cases "k = n") auto
    have cl: "scc ?R x \<subseteq> set assigned'" if "x \<in> set assigned'" for x
    proof (cases "x \<in> set assigned")
      case True
      then show ?thesis using Suc.prems(3) [of x] as by blast
    next
      case False
      then show ?thesis using that as scc_eq [of x ?R ?v] by blast
    qed
    have IH: "set ` set (collectAll prev assigned' (rev (take n order))) = scc ?R ` (?A - set assigned')"
      "distinct (concat (collectAll prev assigned' (rev (take n order))))"
      "set (concat (collectAll prev assigned' (rev (take n order)))) \<inter> set assigned' = {}"
      using Suc.IH [OF less_imp_le [OF n] asn cl] by blast+
    have eq: "collectAll prev assigned (rev (take (Suc n) order)) = ms # collectAll prev assigned' (rev (take n order))"
      using False run by (simp add: tk)
    have rest: "scc ?R w = scc ?R ?v" if "w \<in> ?A - set assigned" "w \<in> set assigned'" for w
      using that as by (intro scc_eq) blast
    have "scc ?R ` (set (take (Suc n) order) - set assigned) = insert (scc ?R ?v) (scc ?R ` (?A - set assigned))"
      using False unfolding tks by blast
    also have "\<dots> = insert (scc ?R ?v) (scc ?R ` (?A - set assigned'))"
      using rest as by blast
    finally have cover: "set ` set (ms # collectAll prev assigned' (rev (take n order))) =
        scc ?R ` (set (take (Suc n) order) - set assigned)" using IH(1) comp by simp
    define L where "L = concat (collectAll prev assigned' (rev (take n order)))"
    have ms: "set ms \<subseteq> set assigned'" "distinct ms" "set ms \<inter> set assigned = {}" "set assigned \<subseteq> set assigned'"
      using comp by blast+
    have L: "distinct L" "set L \<inter> set assigned' = {}" using IH(2,3) unfolding L_def .
    then have "distinct (ms @ L)" "set (ms @ L) \<inter> set assigned = {}" using ms unfolding distinct_append set_append by blast+
    with cover show ?thesis unfolding eq concat.simps L_def by blast
  qed
qed simp

section \<open>Correctness\<close>

lemma components_correct:
  assumes tr: "stepRel prev = (stepRel next)\<inverse>" and verts: "\<And>x y. (x, y) \<in> stepRel next \<Longrightarrow> x \<in> set ids \<and> y \<in> set ids"
  shows "set ` set (components next prev ids) = scc (stepRel next) ` set ids \<and> distinct (concat (components next prev ids))"
proof -
  let ?R = "stepRel next" and ?order = "finishAll next [] [] ids"
  have "dfsInv ?R (\<lambda>_. 0) [] [] []" by (simp add: dfsInv_def edgesOK_def stackOK_def)
  from finishAll_inv [OF this] obtain s visited where inv: "dfsInv ?R s visited ?order []" and ids: "set ids \<subseteq> set visited"
    by fastforce
  have ord: "set ids \<subseteq> set ?order" using inv ids by (auto simp: dfsInv_def)
  have "set ` set (components next prev ids) = scc ?R ` set ?order \<and> distinct (concat (components next prev ids))"
    using collectAll_components [OF inv tr, of "length ?order" "[]"] verts ord by (auto simp: components_def)
  moreover have "set ?order \<subseteq> set ids" by (rule finishAll_subset) (use verts in auto)
  ultimately show ?thesis using ord by auto
qed

end
