(* ===== verification/HN_Issue_Catalog.thy ===== *)
theory HN_Issue_Catalog
  imports HN_Content HN_Topo HN_Scc
begin

text \<open>
  The issue catalog (\<open>src/issue_projection.go\<close>): the references of issue facts, the topological history
  of their revisions, the views with their heads, the relation graph between issues, its cycles, and
  the check that a candidate revision introduces no new cycle.
\<close>

section \<open>Data\<close>

record IssueHead =
  ih_ID :: string
  ih_Actor :: string
  ih_State :: IssueState

record IssueView =
  iv_ID :: string
  iv_Creator :: string
  iv_Heads :: "IssueHead list"
  iv_Conflict :: bool
  iv_State :: "IssueState option"
  iv_History :: "StoredEvent list"
  iv_Comments :: "StoredEvent list"

record IssueEdge =
  ed_Source :: string
  ed_Target :: string
  ed_Kind :: string
  ed_Revision :: string
  ed_Actor :: string
  ed_Ambiguous :: bool

record IssueCycle =
  cy_Kind :: string
  cy_Issues :: "string list"

record IssueCatalog =
  cat_Issues :: "(string, IssueView) gomap"
  cat_IDs :: "string list"
  cat_Graph :: "IssueEdge list"
  cat_Cycles :: "IssueCycle list"

section \<open>References\<close>

definition issueRootID :: "StoredEvent \<Rightarrow> string" where
  "issueRootID s =
     (if ev_Kind (st_Event s) = ''issue.open'' then st_ID s
      else if ev_Kind (st_Event s) = ''issue.revise'' \<or> ev_Kind (st_Event s) = ''issue.comment''
      then ev_Subject (st_Event s) else [])"

definition issueRelations :: "Event \<Rightarrow> IssueRelation list" where
  "issueRelations e = (case ev_Issue e of None \<Rightarrow> [] | Some s \<Rightarrow> elems (is_Relations s))"

definition issueReferences :: "Event \<Rightarrow> string list" where
  "issueReferences e = sortedUniqueStrings (
     (if ev_Kind e = ''issue.revise'' \<or> ev_Kind e = ''issue.comment'' then [ev_Subject e] else []) @
     (if ev_Kind e = ''issue.revise'' then elems (ev_Parents e) else []) @
     (if isIssueKind (ev_Kind e) then map rel_Target (issueRelations e) else []))"

definition checkIssueParent :: "StoredEvent \<Rightarrow> (string, StoredEvent) gomap \<Rightarrow> string \<Rightarrow> unit result" where
  "checkIssueParent stored byID parent =
     (let failure = errorf ''issue revision %s has unavailable or wrong-lineage parent %s'' [st_ID stored, parent] in
      case map_of byID parent of
        None \<Rightarrow> failure
      | Some v \<Rightarrow>
          if (ev_Kind (st_Event v) \<noteq> ''issue.open'' \<and> ev_Kind (st_Event v) \<noteq> ''issue.revise'') \<or>
             issueRootID v \<noteq> ev_Subject (st_Event stored)
          then failure else Inr ())"

definition checkIssueRelation :: "StoredEvent \<Rightarrow> (string, StoredEvent) gomap \<Rightarrow> IssueRelation \<Rightarrow> unit result" where
  "checkIssueRelation stored byID r =
     (case map_of byID (rel_Target r) of
        None \<Rightarrow> errorf ''issue %s has unavailable relation target %s'' [st_ID stored, rel_Target r]
      | Some target \<Rightarrow>
          if ev_Kind (st_Event target) \<noteq> ''issue.open''
          then errorf ''issue %s has unavailable relation target %s'' [st_ID stored, rel_Target r]
          else if rel_Target r = issueRootID stored
          then errorf ''issue %s has a self relation'' [st_ID stored]
          else Inr ())"

definition checkOpening :: "StoredEvent \<Rightarrow> (string, StoredEvent) gomap \<Rightarrow> unit result" where
  "checkOpening stored byID =
     (let e = st_Event stored in
      if ev_Kind e \<noteq> ''issue.open'' then
        (case map_of byID (ev_Subject e) of
           None \<Rightarrow> errorf ''issue fact %s requires opening %s'' [st_ID stored, ev_Subject e]
         | Some root \<Rightarrow>
             if ev_Kind (st_Event root) \<noteq> ''issue.open''
             then errorf ''issue fact %s requires opening %s'' [st_ID stored, ev_Subject e] else Inr ())
      else Inr ())"

definition validateIssueReferences :: "StoredEvent \<Rightarrow> (string, StoredEvent) gomap \<Rightarrow> unit result" where
  "validateIssueReferences stored byID =
     (if \<not> isIssueKind (ev_Kind (st_Event stored)) then Inr ()
      else rbind (checkOpening stored byID) (\<lambda>_.
        rbind (forEach (checkIssueParent stored byID) (elems (ev_Parents (st_Event stored)))) (\<lambda>_.
        forEach (checkIssueRelation stored byID) (issueRelations (st_Event stored)))))"

section \<open>The history in topological order\<close>

definition wrapError :: "string \<Rightarrow> string list \<Rightarrow> 'a result \<Rightarrow> 'a result" where
  "wrapError fmt args r = (case r of Inl (Errorf f as) \<Rightarrow> Inl (Errorf (fmt @ f) (args @ as)) | Inl Panic \<Rightarrow> Inl Panic | Inr x \<Rightarrow> Inr x)"

fun collectIssues :: "host \<Rightarrow> (string, StoredEvent) gomap \<Rightarrow> StoredEvent list \<Rightarrow>
    (string, int) gomap \<times> (string, string list) gomap \<Rightarrow> ((string, int) gomap \<times> (string, string list) gomap) result" where
  "collectIssues h byID [] st = Inr st"
| "collectIssues h byID (s # ss) st =
     (if \<not> isIssueKind (ev_Kind (st_Event s)) then collectIssues h byID ss st
      else rbind (wrapError ''issue fact %s: '' [st_ID s] (validateIssueEvent h (st_Event s))) (\<lambda>_.
        rbind (validateIssueReferences s byID) (\<lambda>_.
        if ev_Kind (st_Event s) = ''issue.comment'' then collectIssues h byID ss st
        else collectIssues h byID ss (addVertex (st_ID s, elems (ev_Parents (st_Event s))) st))))"

definition zeroStoredEvent :: StoredEvent where
  "zeroStoredEvent = \<lparr>st_ID = [], st_Commit = [], st_Event = zeroEvent, st_Payload = [], st_Signature = [], st_Attachments = []\<rparr>"

text \<open>\<open>byID[id]\<close>, the zero value when there is none.\<close>

definition lookupEvent :: "(string, StoredEvent) gomap \<Rightarrow> string \<Rightarrow> StoredEvent" where
  "lookupEvent byID i = (case map_of byID i of None \<Rightarrow> zeroStoredEvent | Some s \<Rightarrow> s)"

definition validateIssueRelationships :: "host \<Rightarrow> StoredEvent list \<Rightarrow> StoredEvent list result" where
  "validateIssueRelationships h events =
     (let byID = indexByID events in
      rbind (collectIssues h byID events ([], [])) (\<lambda>st.
        case kahnFrom st of (ordered, n) \<Rightarrow>
          if length ordered \<noteq> n then errorf ''issue revision lineage contains a cycle'' []
          else Inr (map (lookupEvent byID) ordered)))"

section \<open>The graph of relations\<close>

definition edgeKey :: "IssueEdge \<Rightarrow> string \<times> string \<times> string \<times> string" where
  "edgeKey e = (ed_Source e, ed_Kind e, ed_Target e, ed_Revision e)"

definition sortIssueEdges :: "IssueEdge list \<Rightarrow> IssueEdge list" where
  "sortIssueEdges es = sort_key edgeKey es"

definition nextMap :: "string \<Rightarrow> IssueEdge list \<Rightarrow> (string, string list) gomap" where
  "nextMap kind es = fold (\<lambda>e m. if ed_Kind e = kind then appendTo (ed_Source e) (ed_Target e) m else m) es []"

definition prevMap :: "string \<Rightarrow> IssueEdge list \<Rightarrow> (string, string list) gomap" where
  "prevMap kind es = fold (\<lambda>e m. if ed_Kind e = kind then appendTo (ed_Target e) (ed_Source e) m else m) es []"

definition graphNodes :: "string \<Rightarrow> IssueEdge list \<Rightarrow> string list" where
  "graphNodes kind es = sort (remdups (concat (map (\<lambda>e. [ed_Source e, ed_Target e]) (filter (\<lambda>e. ed_Kind e = kind) es))))"

definition kindCycles :: "IssueEdge list \<Rightarrow> string \<Rightarrow> IssueCycle list" where
  "kindCycles es kind =
     map (\<lambda>ms. \<lparr>cy_Kind = kind, cy_Issues = sort ms\<rparr>)
       (filter (\<lambda>ms. length ms > 1) (components (nextMap kind es) (prevMap kind es) (graphNodes kind es)))"

definition issueGraphCycles :: "IssueEdge list \<Rightarrow> IssueCycle list" where
  "issueGraphCycles es = sort_key (\<lambda>c. (cy_Kind c, hd (cy_Issues c))) (concat (map (kindCycles es) [''blocks'', ''parent'']))"

section \<open>The catalog\<close>

definition emptyView :: "string \<Rightarrow> string \<Rightarrow> IssueView" where
  "emptyView root creator = \<lparr>iv_ID = root, iv_Creator = creator, iv_Heads = [], iv_Conflict = False, iv_State = None,
     iv_History = [], iv_Comments = []\<rparr>"

text \<open>The state of a head: a plain opening has one built from its title and body.\<close>

definition headState :: "Event \<Rightarrow> IssueState result" where
  "headState e = (case ev_Issue e of
       None \<Rightarrow> Inr \<lparr>is_Title = ev_Title e, is_Body = ev_Body e, is_Status = ''open'', is_Criteria = Some [],
         is_Labels = Some [], is_Assignees = Some [], is_Relations = Some [], is_Metadata = Some []\<rparr>
     | Some s \<Rightarrow> CanonicalIssueState s)"

text \<open>
  The loop over the ordered history.  A map entry is a pointer to a view, so an update of the view is
  an update of the entry; a missing entry is a nil pointer.
\<close>

fun addHistory :: "string list \<Rightarrow> StoredEvent list \<Rightarrow> IssueCatalog \<Rightarrow> IssueCatalog result" where
  "addHistory consumed [] cat = Inr cat"
| "addHistory consumed (s # ss) cat =
     (let e = st_Event s; root = issueRootID s;
          cat1 = (if ev_Kind e = ''issue.open'' then cat\<lparr>
              cat_Issues := AList.update root (emptyView root (ev_Actor e)) (cat_Issues cat),
              cat_IDs := cat_IDs cat @ [root]\<rparr> else cat)
      in case map_of (cat_Issues cat1) root of
           None \<Rightarrow> nilDereference
         | Some view \<Rightarrow>
             let view1 = view\<lparr>iv_History := iv_History view @ [s]\<rparr> in
             rbind (if st_ID s \<in> set consumed then Inr view1
                    else rbind (headState e) (\<lambda>state. Inr (view1\<lparr>iv_Heads := iv_Heads view1 @
                      [\<lparr>ih_ID = st_ID s, ih_Actor = ev_Actor e, ih_State = state\<rparr>]\<rparr>))) (\<lambda>view2.
             addHistory consumed ss (cat1\<lparr>cat_Issues := AList.update root view2 (cat_Issues cat1)\<rparr>)))"

fun addComments :: "string list \<Rightarrow> StoredEvent list \<Rightarrow> IssueCatalog \<Rightarrow> IssueCatalog result" where
  "addComments seen [] cat = Inr cat"
| "addComments seen (s # ss) cat =
     (if ev_Kind (st_Event s) = ''issue.comment'' \<and> st_ID s \<notin> set seen then
        (case map_of (cat_Issues cat) (ev_Subject (st_Event s)) of
           None \<Rightarrow> nilDereference
         | Some view \<Rightarrow> addComments (st_ID s # seen) ss (cat\<lparr>cat_Issues :=
             AList.update (ev_Subject (st_Event s)) (view\<lparr>iv_Comments := iv_Comments view @ [s]\<rparr>) (cat_Issues cat)\<rparr>))
      else addComments seen ss cat)"

definition finishView :: "IssueView \<Rightarrow> IssueView" where
  "finishView view =
     (let heads = sort_key ih_ID (iv_Heads view) in view\<lparr>iv_Heads := heads,
        iv_Conflict := length heads > 1,
        iv_State := (if length heads = 1 then Some (ih_State (hd heads)) else iv_State view),
        iv_Comments := sort_key (\<lambda>s. (ev_Timestamp (st_Event s), st_ID s)) (iv_Comments view)\<rparr>)"

definition viewEdges :: "string \<Rightarrow> IssueView \<Rightarrow> IssueEdge list" where
  "viewEdges i view = concat (map (\<lambda>head. map (\<lambda>r. \<lparr>ed_Source = i, ed_Target = rel_Target r, ed_Kind = rel_Kind r,
     ed_Revision = ih_ID head, ed_Actor = ih_Actor head, ed_Ambiguous = iv_Conflict view\<rparr>)
     (elems (is_Relations (ih_State head)))) (iv_Heads view))"

fun finishViews :: "string list \<Rightarrow> IssueCatalog \<Rightarrow> IssueCatalog result" where
  "finishViews [] cat = Inr cat"
| "finishViews (i # is) cat = (case map_of (cat_Issues cat) i of
       None \<Rightarrow> nilDereference
     | Some view \<Rightarrow> finishViews is (cat\<lparr>cat_Issues := AList.update i (finishView view) (cat_Issues cat),
         cat_Graph := cat_Graph cat @ viewEdges i (finishView view)\<rparr>))"

definition BuildIssueCatalog :: "host \<Rightarrow> StoredEvent list \<Rightarrow> IssueCatalog result" where
  "BuildIssueCatalog h events =
     rbind (validateIssueRelationships h events) (\<lambda>ordered.
       let consumed = concat (map (\<lambda>s. elems (ev_Parents (st_Event s))) ordered);
           cat0 = \<lparr>cat_Issues = [], cat_IDs = [], cat_Graph = [], cat_Cycles = []\<rparr>
       in rbind (addHistory consumed ordered cat0) (\<lambda>cat1.
          rbind (addComments [] events cat1) (\<lambda>cat2.
          rbind (finishViews (sort (cat_IDs cat2)) (cat2\<lparr>cat_IDs := sort (cat_IDs cat2)\<rparr>)) (\<lambda>cat3.
          let graph = sortIssueEdges (cat_Graph cat3) in
          Inr (cat3\<lparr>cat_Graph := graph, cat_Cycles := issueGraphCycles graph\<rparr>)))))"

definition GraphFor :: "IssueCatalog \<Rightarrow> string \<Rightarrow> IssueEdge list" where
  "GraphFor cat i = filter (\<lambda>e. ed_Source e = i \<or> ed_Target e = i) (cat_Graph cat)"

section \<open>Candidates\<close>

text \<open>The component number of an issue in the cycles of a kind, zero when it is on none.\<close>

definition componentOf :: "IssueCycle list \<Rightarrow> string \<Rightarrow> string \<Rightarrow> nat" where
  "componentOf cycles kind i =
     fold (\<lambda>(n, c) acc. if cy_Kind c = kind \<and> i \<in> set (cy_Issues c) then Suc n else acc) (enumerate 0 cycles) 0"

definition candidateEdge :: "string \<Rightarrow> IssueRelation \<Rightarrow> IssueEdge" where
  "candidateEdge i r = \<lparr>ed_Source = i, ed_Target = rel_Target r, ed_Kind = rel_Kind r, ed_Revision = [], ed_Actor = [],
     ed_Ambiguous = False\<rparr>"

definition candidateGraph :: "IssueCatalog \<Rightarrow> string \<Rightarrow> string list \<Rightarrow> IssueRelation list \<Rightarrow> IssueEdge list" where
  "candidateGraph cat i parents relations =
     filter (\<lambda>e. ed_Source e \<noteq> i \<or> ed_Revision e \<notin> set parents) (cat_Graph cat) @ map (candidateEdge i) relations"

definition ValidateIssueCandidate :: "IssueCatalog \<Rightarrow> string \<Rightarrow> string list \<Rightarrow> IssueState \<Rightarrow> unit result" where
  "ValidateIssueCandidate cat i parents state =
     rbind (CanonicalIssueState state) (\<lambda>canonical.
       let relations = elems (is_Relations canonical);
           isOld = (\<lambda>r. list_ex (\<lambda>e. ed_Source e = i \<and> ed_Kind e = rel_Kind r \<and> ed_Target e = rel_Target r) (cat_Graph cat))
       in rbind (forEach (\<lambda>r.
              if rel_Target r = i then errorf ''issue cannot relate to itself'' []
              else if map_of (cat_Issues cat) (rel_Target r) = None
              then errorf ''issue relation target %s is unavailable'' [rel_Target r] else Inr ()) relations) (\<lambda>_.
          let cycles = issueGraphCycles (candidateGraph cat i parents relations) in
          forEach (\<lambda>r.
            if rel_Kind r = ''related'' \<or> isOld r then Inr ()
            else let component = componentOf cycles (rel_Kind r) i in
              if component \<noteq> 0 \<and> component = componentOf cycles (rel_Kind r) (rel_Target r)
              then errorf ''issue relation would introduce a %s cycle'' [rel_Kind r] else Inr ()) relations))"

section \<open>Cycles\<close>

text \<open>The relation between issues that the edges of a kind describe.\<close>

definition kindRel :: "string \<Rightarrow> IssueEdge list \<Rightarrow> (string \<times> string) set" where
  "kindRel kind es = {(ed_Source e, ed_Target e) | e. e \<in> set es \<and> ed_Kind e = kind}"

lemma stepRel_fold:
  "stepRel (fold (\<lambda>e m. if P e then appendTo (f e) (g e) m else m) es m) = stepRel m \<union> {(f e, g e) | e. e \<in> set es \<and> P e}"
proof (induction es arbitrary: m)
  case (Cons e es)
  have "stepRel (appendTo (f e) (g e) m) = insert (f e, g e) (stepRel m)"
    by (auto simp: stepRel_def lookupList_appendTo split: if_splits)
  then show ?case by (auto simp: Cons.IH)
qed simp

lemma stepRel_nextMap: "stepRel (nextMap kind es) = kindRel kind es"
  by (simp add: nextMap_def stepRel_fold kindRel_def) (simp add: stepRel_def lookupList_def)

lemma stepRel_prevMap: "stepRel (prevMap kind es) = (kindRel kind es)\<inverse>"
proof -
  have "stepRel (prevMap kind es) = {(ed_Target e, ed_Source e) | e. e \<in> set es \<and> ed_Kind e = kind}"
    by (simp add: prevMap_def stepRel_fold) (simp add: stepRel_def lookupList_def)
  then show ?thesis by (auto simp: kindRel_def)
qed

lemma graphNodes_set: "set (graphNodes kind es) = Field (kindRel kind es)"
  by (auto simp: graphNodes_def kindRel_def Field_def)

lemma scc_trivial: "x \<notin> Field R \<Longrightarrow> scc R x = {x}"
proof -
  assume "x \<notin> Field R"
  then have "(x, y) \<in> R\<^sup>* \<Longrightarrow> y = x" for y by (auto simp: Field_def elim: converse_rtranclE)
  then show ?thesis by (auto simp: scc_def)
qed

lemma components_of_kind:
  "set ` set (components (nextMap kind es) (prevMap kind es) (graphNodes kind es)) = scc (kindRel kind es) ` Field (kindRel kind es)"
  "distinct (concat (components (nextMap kind es) (prevMap kind es) (graphNodes kind es)))"
proof -
  have "stepRel (prevMap kind es) = (stepRel (nextMap kind es))\<inverse>" by (simp add: stepRel_nextMap stepRel_prevMap)
  moreover have "x \<in> set (graphNodes kind es) \<and> y \<in> set (graphNodes kind es)" if "(x, y) \<in> stepRel (nextMap kind es)" for x y
    using that by (auto simp: stepRel_nextMap graphNodes_set Field_def simp del: stepRel_iff)
  ultimately show "set ` set (components (nextMap kind es) (prevMap kind es) (graphNodes kind es)) =
      scc (kindRel kind es) ` Field (kindRel kind es)"
    "distinct (concat (components (nextMap kind es) (prevMap kind es) (graphNodes kind es)))"
    using components_correct [of "prevMap kind es" "nextMap kind es" "graphNodes kind es"]
    by (simp_all add: stepRel_nextMap graphNodes_set)
qed

text \<open>The cycles of one kind, and that an issue lies on at most one of them.\<close>

lemma kindCycles_iff:
  "c \<in> set (kindCycles es kind) \<longleftrightarrow> cy_Kind c = kind \<and>
     (\<exists>x. cy_Issues c = sorted_list_of_set (scc (kindRel kind es) x) \<and> 1 < card (scc (kindRel kind es) x))"
proof -
  let ?cs = "components (nextMap kind es) (prevMap kind es) (graphNodes kind es)" and ?S = "scc (kindRel kind es)"
  have d: "distinct ms" if "ms \<in> set ?cs" for ms using components_of_kind(2) that by (simp add: distinct_concat_iff)
  have srt: "sort ms = sorted_list_of_set (set ms)" "length ms = card (set ms)" if "ms \<in> set ?cs" for ms
    using d [OF that] by (simp_all add: sorted_list_of_set_sort_remdups distinct_remdups_id distinct_card)
  show ?thesis
  proof
    assume "c \<in> set (kindCycles es kind)"
    then obtain ms where ms: "ms \<in> set ?cs" "1 < length ms" "c = \<lparr>cy_Kind = kind, cy_Issues = sort ms\<rparr>"
      by (auto simp: kindCycles_def)
    then obtain x where "set ms = ?S x" using components_of_kind(1) [of kind es] by blast
    with ms srt [OF ms(1)] show "cy_Kind c = kind \<and> (\<exists>x. cy_Issues c = sorted_list_of_set (?S x) \<and> 1 < card (?S x))" by auto
  next
    assume "cy_Kind c = kind \<and> (\<exists>x. cy_Issues c = sorted_list_of_set (?S x) \<and> 1 < card (?S x))"
    then obtain x where x: "cy_Kind c = kind" "cy_Issues c = sorted_list_of_set (?S x)" "1 < card (?S x)" by blast
    then have "x \<in> Field (kindRel kind es)" using scc_trivial [of x "kindRel kind es"] by (cases "x \<in> Field (kindRel kind es)") auto
    then have "?S x \<in> set ` set ?cs" unfolding components_of_kind(1) by (rule imageI)
    then obtain ms where ms: "ms \<in> set ?cs" "set ms = ?S x" by (metis imageE)
    have "cy_Issues c = sort ms" "1 < length ms"
      unfolding srt(1) [OF ms(1)] unfolding srt(2) [OF ms(1)] ms(2) using x(2,3) .
    then have "c = \<lparr>cy_Kind = kind, cy_Issues = sort ms\<rparr>" "1 < length ms" using x(1) by (auto intro: IssueCycle.equality)
    with ms(1) show "c \<in> set (kindCycles es kind)" by (auto simp: kindCycles_def)
  qed
qed

lemma scc_finite: "1 < card (scc R x) \<Longrightarrow> finite (scc R x)"
  using card.infinite by force

lemma issueGraphCycles_iff:
  "c \<in> set (issueGraphCycles es) \<longleftrightarrow> cy_Kind c \<in> {''blocks'', ''parent''} \<and>
     (\<exists>x. cy_Issues c = sorted_list_of_set (scc (kindRel (cy_Kind c) es) x) \<and> 1 < card (scc (kindRel (cy_Kind c) es) x))"
  by (auto simp: issueGraphCycles_def kindCycles_iff)

lemma cycle_members:
  assumes "c \<in> set (issueGraphCycles es)" "y \<in> set (cy_Issues c)"
  shows "set (cy_Issues c) = scc (kindRel (cy_Kind c) es) y"
proof -
  obtain x where x: "cy_Issues c = sorted_list_of_set (scc (kindRel (cy_Kind c) es) x)" "1 < card (scc (kindRel (cy_Kind c) es) x)"
    using assms(1) by (auto simp: issueGraphCycles_iff)
  then have "set (cy_Issues c) = scc (kindRel (cy_Kind c) es) x" using scc_finite by (metis set_sorted_list_of_set)
  then show ?thesis using assms(2) scc_eq by metis
qed

lemma cycle_unique:
  assumes "c \<in> set (issueGraphCycles es)" "c' \<in> set (issueGraphCycles es)" "cy_Kind c = cy_Kind c'"
    and "y \<in> set (cy_Issues c)" "y \<in> set (cy_Issues c')"
  shows "c = c'"
proof -
  have "set (cy_Issues c) = set (cy_Issues c')" using cycle_members assms by metis
  moreover have "sorted (cy_Issues c) \<and> distinct (cy_Issues c)" if "c \<in> set (issueGraphCycles es)" for c
    using that by (auto simp: issueGraphCycles_iff)
  ultimately have "cy_Issues c = cy_Issues c'" using assms(1,2) sorted_distinct_set_unique by blast
  then show ?thesis using assms(3) by simp
qed

lemma issueGraphCycles_distinct: "distinct (issueGraphCycles es)"
proof -
  have "distinct (kindCycles es kind)" for kind
  proof -
    let ?cs = "components (nextMap kind es) (prevMap kind es) (graphNodes kind es)"
    have dc: "distinct (concat ?cs)" by (rule components_of_kind(2))
    have "inj_on (\<lambda>ms. \<lparr>cy_Kind = kind, cy_Issues = sort ms\<rparr>) {ms \<in> set ?cs. 1 < length ms}"
    proof (rule inj_onI)
      fix a b assume ab: "a \<in> {ms \<in> set ?cs. 1 < length ms}" "b \<in> {ms \<in> set ?cs. 1 < length ms}"
        and eq: "\<lparr>cy_Kind = kind, cy_Issues = sort a\<rparr> = \<lparr>cy_Kind = kind, cy_Issues = sort b\<rparr>"
      then have "set a = set b" by (metis IssueCycle.select_convs(2) set_sort)
      moreover have "set a \<noteq> {}" using ab by auto
      ultimately have "set a \<inter> set b \<noteq> {}" by simp
      then show "a = b" using dc ab unfolding distinct_concat_iff by blast
    qed
    moreover have "distinct (filter (\<lambda>ms. 1 < length ms) ?cs)"
    proof -
      have "filter (\<lambda>ms. 1 < length ms) ?cs = filter (\<lambda>ms. 1 < length ms) (removeAll [] ?cs)"
        by (simp add: removeAll_filter_not_eq) (rule filter_cong, auto)
      moreover have "distinct (removeAll [] ?cs)" using dc unfolding distinct_concat_iff by blast
      ultimately show ?thesis by (metis distinct_filter)
    qed
    ultimately show ?thesis by (auto simp: kindCycles_def distinct_map)
  qed
  moreover have "set (kindCycles es ''blocks'') \<inter> set (kindCycles es ''parent'') = {}" by (auto simp: kindCycles_iff)
  ultimately show ?thesis by (simp add: issueGraphCycles_def)
qed

section \<open>Candidates\<close>

lemma componentOf_fold:
  "(\<forall>c \<in> set cs. \<not> P c) \<and> fold (\<lambda>(n, c) acc. if P c then Suc n else acc) (enumerate m cs) a = a \<or>
   (\<exists>k < length cs. P (cs ! k) \<and> fold (\<lambda>(n, c) acc. if P c then Suc n else acc) (enumerate m cs) a = Suc (m + k))"
proof (induction cs arbitrary: m a)
  case (Cons c cs)
  let ?a = "if P c then Suc m else a"
  from Cons.IH [of "Suc m" ?a] show ?case
  proof (elim disjE conjE exE)
    fix k assume "k < length cs" "P (cs ! k)"
      "fold (\<lambda>(n, c) acc. if P c then Suc n else acc) (enumerate (Suc m) cs) ?a = Suc (Suc m + k)"
    then show ?thesis by (intro disjI2 exI [of _ "Suc k"]) simp
  qed (cases "P c"; force)
qed simp

lemma componentOf_cases:
  "componentOf cs kind x = 0 \<and> (\<forall>c \<in> set cs. cy_Kind c = kind \<longrightarrow> x \<notin> set (cy_Issues c)) \<or>
   (\<exists>k < length cs. componentOf cs kind x = Suc k \<and> cy_Kind (cs ! k) = kind \<and> x \<in> set (cy_Issues (cs ! k)))"
  using componentOf_fold [of cs "\<lambda>c. cy_Kind c = kind \<and> x \<in> set (cy_Issues c)" 0 0]
  unfolding componentOf_def by (auto simp: conj_commute)

text \<open>Two issues have the same component number when they lie on a common cycle.\<close>

lemma componentOf_same:
  "componentOf (issueGraphCycles es) kind x \<noteq> 0 \<and> componentOf (issueGraphCycles es) kind x = componentOf (issueGraphCycles es) kind y
   \<longleftrightarrow> (\<exists>c \<in> set (issueGraphCycles es). cy_Kind c = kind \<and> x \<in> set (cy_Issues c) \<and> y \<in> set (cy_Issues c))"
  (is "?L \<longleftrightarrow> ?R")
proof
  let ?cs = "issueGraphCycles es"
  assume ?L
  then obtain k where k: "componentOf ?cs kind x = Suc k" "componentOf ?cs kind y = Suc k" by (metis not0_implies_Suc)
  have "k < length ?cs \<and> cy_Kind (?cs ! k) = kind \<and> z \<in> set (cy_Issues (?cs ! k))" if "componentOf ?cs kind z = Suc k" for z
    using componentOf_cases [of ?cs kind z] that by force
  from this [OF k(1)] this [OF k(2)] show ?R by (intro bexI [of _ "?cs ! k"]) auto
next
  let ?cs = "issueGraphCycles es"
  assume ?R
  then obtain c where c: "c \<in> set ?cs" "cy_Kind c = kind" "x \<in> set (cy_Issues c)" "y \<in> set (cy_Issues c)" by blast
  have num: "\<exists>k. componentOf ?cs kind z = Suc k \<and> k < length ?cs \<and> ?cs ! k = c" if z: "z \<in> set (cy_Issues c)" for z
  proof -
    obtain k where k: "k < length ?cs" "componentOf ?cs kind z = Suc k" "cy_Kind (?cs ! k) = kind" "z \<in> set (cy_Issues (?cs ! k))"
      using componentOf_cases [of ?cs kind z] c(1,2) z by blast
    moreover from this have "?cs ! k = c" using cycle_unique [of "?cs ! k" es c z] c(1,2) z by simp
    ultimately show ?thesis using k by blast
  qed
  from num [OF c(3)] num [OF c(4)] show ?L
    using issueGraphCycles_distinct [of es] by (metis nat.distinct(1) nth_eq_iff_index_eq)
qed

text \<open>An edge of the graph lies on a cycle when its target leads back to its source.\<close>

lemma edge_on_cycle:
  assumes "(x, y) \<in> kindRel kind es" "x \<noteq> y" "kind \<in> {''blocks'', ''parent''}"
  shows "(\<exists>c \<in> set (issueGraphCycles es). cy_Kind c = kind \<and> x \<in> set (cy_Issues c) \<and> y \<in> set (cy_Issues c)) \<longleftrightarrow>
    (y, x) \<in> (kindRel kind es)\<^sup>*"
  (is "?L \<longleftrightarrow> ?R")
proof
  assume ?L
  then obtain c where "c \<in> set (issueGraphCycles es)" "cy_Kind c = kind" "x \<in> set (cy_Issues c)" "y \<in> set (cy_Issues c)" by blast
  then have "x \<in> scc (kindRel kind es) y" using cycle_members by metis
  then show ?R by (simp add: scc_def)
next
  assume ?R
  let ?S = "scc (kindRel kind es) x"
  have xy: "x \<in> ?S" "y \<in> ?S" using assms(1) \<open>?R\<close> by (auto simp: scc_def)
  have "finite (kindRel kind es)" by (simp add: kindRel_def)
  then have "finite (Field (kindRel kind es))" by (rule finite_Field)
  moreover have "?S \<subseteq> Field (kindRel kind es)"
  proof
    fix z assume z: "z \<in> ?S"
    then show "z \<in> Field (kindRel kind es)"
      using assms(1) by (cases "z = x") (auto simp: scc_def Field_def elim: converse_rtranclE)
  qed
  ultimately have fin: "finite ?S" by (rule rev_finite_subset)
  have "card {x, y} \<le> card ?S" using xy fin by (intro card_mono) auto
  then have "1 < card ?S" using assms(2) by simp
  then have "\<lparr>cy_Kind = kind, cy_Issues = sorted_list_of_set ?S\<rparr> \<in> set (issueGraphCycles es)"
    using assms(3) by (auto simp: issueGraphCycles_iff)
  then show ?L using xy fin by force
qed

section \<open>Properties of the relation graph\<close>

text \<open>
  C10. The reported cycles are exactly the sets of at least two issues that reach each other along
  blocking edges, or along parent edges: an issue that merely depends on a cycle is not reported.
\<close>

theorem issueGraphCycles_correct:
  "set (issueGraphCycles es) =
     {\<lparr>cy_Kind = kind, cy_Issues = sorted_list_of_set C\<rparr> | kind C. kind \<in> {''blocks'', ''parent''} \<and> 1 < card C \<and>
        (\<exists>x. C = {y. (x, y) \<in> (kindRel kind es)\<^sup>* \<and> (y, x) \<in> (kindRel kind es)\<^sup>*})}"
  (is "_ = ?C")
proof -
  have "c \<in> ?C \<longleftrightarrow> c \<in> set (issueGraphCycles es)" for c
    unfolding issueGraphCycles_iff scc_def by (cases c) auto
  then show ?thesis by blast
qed

text \<open>
  C11. A candidate revision of an issue is accepted exactly when its state is valid, its relations name
  other available issues, and no blocking or parent relation that the issue does not have already
  closes a cycle in the graph that results from replacing the selected heads.
\<close>

theorem ValidateIssueCandidate_correct:
  "ValidateIssueCandidate cat i parents state = Inr () \<longleftrightarrow>
    (\<exists>canonical. CanonicalIssueState state = Inr canonical \<and>
      (\<forall>r \<in> set (elems (is_Relations canonical)). rel_Target r \<noteq> i \<and> rel_Target r \<in> dom (map_of (cat_Issues cat)) \<and>
        (rel_Kind r = ''related'' \<or>
         (\<exists>e \<in> set (cat_Graph cat). ed_Source e = i \<and> ed_Kind e = rel_Kind r \<and> ed_Target e = rel_Target r) \<or>
         (rel_Target r, i) \<notin> (kindRel (rel_Kind r) (candidateGraph cat i parents (elems (is_Relations canonical))))\<^sup>*)))"
proof (cases "CanonicalIssueState state")
  case (Inl e)
  then show ?thesis by (simp add: ValidateIssueCandidate_def)
next
  case (Inr canonical)
  let ?rs = "elems (is_Relations canonical)"
  let ?G = "candidateGraph cat i parents ?rs"
  let ?old = "\<lambda>r. list_ex (\<lambda>e. ed_Source e = i \<and> ed_Kind e = rel_Kind r \<and> ed_Target e = rel_Target r) (cat_Graph cat)"
  let ?avail = "\<lambda>r. rel_Target r \<noteq> i \<and> map_of (cat_Issues cat) (rel_Target r) \<noteq> None"
  let ?step = "\<lambda>r. if rel_Kind r = ''related'' \<or> ?old r then Inr ()
      else let component = componentOf (issueGraphCycles ?G) (rel_Kind r) i in
        if component \<noteq> 0 \<and> component = componentOf (issueGraphCycles ?G) (rel_Kind r) (rel_Target r)
        then errorf ''issue relation would introduce a %s cycle'' [rel_Kind r] else Inr ()"
  have "?step r = Inr () \<longleftrightarrow> rel_Kind r = ''related'' \<or> ?old r \<or> (rel_Target r, i) \<notin> (kindRel (rel_Kind r) ?G)\<^sup>*"
    if r: "r \<in> set ?rs" and i: "rel_Target r \<noteq> i" for r
  proof (cases "rel_Kind r = ''related''")
    case False
    have "validRelation r" using Inr r by (auto simp: CanonicalIssueState_iff validIssueState_def)
    then have k: "rel_Kind r \<in> {''blocks'', ''parent''}" using False by (auto simp: validRelation_def)
    have "candidateEdge i r \<in> set ?G" using r by (simp add: candidateGraph_def)
    then have "(i, rel_Target r) \<in> kindRel (rel_Kind r) ?G" by (force simp: kindRel_def candidateEdge_def)
    from edge_on_cycle [OF this i [symmetric] k] show ?thesis
      unfolding componentOf_same [symmetric] using False by (simp add: Let_def)
  qed simp
  then have "(\<forall>r \<in> set ?rs. ?avail r) \<and> (\<forall>r \<in> set ?rs. ?step r = Inr ()) \<longleftrightarrow> (\<forall>r \<in> set ?rs. ?avail r \<and>
      (rel_Kind r = ''related'' \<or> ?old r \<or> (rel_Target r, i) \<notin> (kindRel (rel_Kind r) ?G)\<^sup>*))" by blast
  moreover have "ValidateIssueCandidate cat i parents state = Inr () \<longleftrightarrow>
      (\<forall>r \<in> set ?rs. ?avail r) \<and> (\<forall>r \<in> set ?rs. ?step r = Inr ())"
    by (simp add: ValidateIssueCandidate_def Inr Let_def rbind_unit_ok forEach_ok_iff)
  ultimately show ?thesis using Inr by (simp add: list_ex_iff domIff)
qed

section \<open>The ordered history\<close>

lemma validateIssueEvent_shape:
  assumes "validateIssueEvent h e = Inr ()" "isIssueKind (ev_Kind e)"
  shows "checkIssueShape e = Inr () \<or> \<not> hasIssueFields e \<and> ev_Kind e \<noteq> ''issue.revise''"
    and "case ev_Issue e of None \<Rightarrow> True | Some s \<Rightarrow> validIssueState s"
proof -
  show "checkIssueShape e = Inr () \<or> \<not> hasIssueFields e \<and> ev_Kind e \<noteq> ''issue.revise''"
    using assms by (cases "hasIssueFields e \<or> ev_Kind e = ''issue.revise''") (auto simp: validateIssueEvent_def rbind_unit_ok)
  show "case ev_Issue e of None \<Rightarrow> True | Some s \<Rightarrow> validIssueState s"
    using assms by (cases "ev_Issue e")
      (auto simp: validateIssueEvent_def rbind_unit_ok hasIssueFields_def rbind_eq_Inr CanonicalIssueState_iff)
qed

definition issueParents :: "StoredEvent \<Rightarrow> string list" where
  "issueParents s = elems (ev_Parents (st_Event s))"

definition isVertex :: "StoredEvent \<Rightarrow> bool" where
  "isVertex s \<longleftrightarrow> ev_Kind (st_Event s) = ''issue.open'' \<or> ev_Kind (st_Event s) = ''issue.revise''"

definition issueVertices :: "StoredEvent list \<Rightarrow> (string \<times> string list) list" where
  "issueVertices es = map (\<lambda>s. (st_ID s, issueParents s)) (filter isVertex es)"

definition issuesValid :: "host \<Rightarrow> StoredEvent list \<Rightarrow> bool" where
  "issuesValid h es \<longleftrightarrow> (\<forall>s \<in> set es. isIssueKind (ev_Kind (st_Event s)) \<longrightarrow>
     validateIssueEvent h (st_Event s) = Inr () \<and> validateIssueReferences s (indexByID es) = Inr ())"

lemma wrapError_ok [simp]: "wrapError f as r = Inr x \<longleftrightarrow> r = Inr x"
  by (auto simp: wrapError_def split: sum.splits go_error.splits)

lemma isVertex_kind: "isIssueKind (ev_Kind (st_Event s)) \<longleftrightarrow> isVertex s \<or> ev_Kind (st_Event s) = ''issue.comment''"
  "isVertex s \<Longrightarrow> ev_Kind (st_Event s) \<noteq> ''issue.comment''"
  by (auto simp: isVertex_def isIssueKind_def)

lemma collectIssues_iff: "collectIssues h byID es st = Inr st' \<longleftrightarrow>
    (\<forall>s \<in> set es. isIssueKind (ev_Kind (st_Event s)) \<longrightarrow>
       validateIssueEvent h (st_Event s) = Inr () \<and> validateIssueReferences s byID = Inr ()) \<and>
    st' = fold addVertex (issueVertices es) st"
proof (induction es arbitrary: st)
  case (Cons s es)
  consider "\<not> isIssueKind (ev_Kind (st_Event s))" "\<not> isVertex s" | "ev_Kind (st_Event s) = ''issue.comment''" "\<not> isVertex s"
    | "isVertex s" using isVertex_kind [of s] by blast
  then show ?case
  proof cases
    case 3
    then have "isIssueKind (ev_Kind (st_Event s))" "ev_Kind (st_Event s) \<noteq> ''issue.comment''" using isVertex_kind [of s] by blast+
    with 3 show ?thesis by (simp add: Cons.IH rbind_unit_ok issueVertices_def issueParents_def)
  qed (auto simp: Cons.IH rbind_unit_ok issueVertices_def isIssueKind_def)
qed (auto simp: issueVertices_def)

lemma validateIssueRelationships_iff:
  "validateIssueRelationships h es = Inr os \<longleftrightarrow> issuesValid h es \<and>
    (\<exists>ids n. kahn (issueVertices es) = (ids, n) \<and> length ids = n \<and> os = map (lookupEvent (indexByID es)) ids)"
  by (auto simp: validateIssueRelationships_def Let_def rbind_eq_Inr collectIssues_iff issuesValid_def kahn_def split: prod.splits)

lemma lookupEvent_known: "uniqueIDs es \<Longrightarrow> s \<in> set es \<Longrightarrow> lookupEvent (indexByID es) (st_ID s) = s"
  by (simp add: lookupEvent_def uniqueIDs_def indexByID_unique)

lemma map_of_issueVertices:
  assumes "uniqueIDs es" "s \<in> set es" "isVertex s"
  shows "map_of (issueVertices es) (st_ID s) = Some (issueParents s)"
proof -
  have "(st_ID s, issueParents s) \<in> set (issueVertices es)" using assms by (auto simp: issueVertices_def)
  then obtain ps where ps: "map_of (issueVertices es) (st_ID s) = Some ps" by (metis weak_map_of_SomeI)
  then have "(st_ID s, ps) \<in> set (issueVertices es)" by (rule map_of_SomeD)
  then obtain t where "t \<in> set es" "st_ID t = st_ID s" "ps = issueParents t" by (auto simp: issueVertices_def)
  moreover have "t = s" using assms(1,2) calculation by (auto simp: uniqueIDs_def inj_on_def)
  ultimately show ?thesis using ps by simp
qed

text \<open>What validation says of one vertex.\<close>

lemma vertex_parents:
  assumes "issuesValid h es" "s \<in> set es" "isVertex s"
  shows "distinct (issueParents s)" "issueParents s = [] \<longleftrightarrow> ev_Kind (st_Event s) = ''issue.open''"
    and "p \<in> set (issueParents s) \<Longrightarrow> \<exists>t \<in> set es. isVertex t \<and> st_ID t = p \<and> issueRootID t = issueRootID s"
proof -
  have k: "isIssueKind (ev_Kind (st_Event s))" using assms(3) isVertex_kind by blast
  then have v: "validateIssueEvent h (st_Event s) = Inr ()" and r: "validateIssueReferences s (indexByID es) = Inr ()"
    using assms by (auto simp: issuesValid_def)
  have op: "issueParents s = []" if "ev_Kind (st_Event s) = ''issue.open''"
    using validateIssueEvent_shape [OF v k] that by (auto simp: hasIssueFields_def issueParents_def checkIssueShape_def)
  have rv: "distinct (issueParents s) \<and> issueParents s \<noteq> []" if "ev_Kind (st_Event s) = ''issue.revise''"
    using validateIssueEvent_shape [OF v k] that
    by (auto simp: issueParents_def checkIssueShape_def checkParents_ok dest: strictSorted_distinct)
  show "distinct (issueParents s)" "issueParents s = [] \<longleftrightarrow> ev_Kind (st_Event s) = ''issue.open''"
    using op rv assms(3) by (auto simp: isVertex_def)
  assume p: "p \<in> set (issueParents s)"
  then have kr: "ev_Kind (st_Event s) = ''issue.revise''" using op assms(3) by (auto simp: isVertex_def)
  have "checkIssueParent s (indexByID es) p = Inr ()"
    using r k p by (simp add: validateIssueReferences_def rbind_unit_ok forEach_ok_iff issueParents_def)
  then obtain t where "map_of (indexByID es) p = Some t" "isVertex t" "issueRootID t = ev_Subject (st_Event s)"
    by (auto simp: checkIssueParent_def Let_def isVertex_def split: option.splits)
  then show "\<exists>t \<in> set es. isVertex t \<and> st_ID t = p \<and> issueRootID t = issueRootID s"
    using indexByID_Some [of es p t] kr by (auto simp: issueRootID_def)
qed

lemma issueVertices_ids: "fst ` set (issueVertices es) = st_ID ` {s \<in> set es. isVertex s}"
  by (simp add: issueVertices_def image_image)

lemma issueVertices_wellFormed:
  assumes "issuesValid h es" "uniqueIDs es"
  shows "wellFormed (issueVertices es)"
  unfolding wellFormed_def
proof (intro allI impI)
  fix v ps assume "map_of (issueVertices es) v = Some ps"
  then have "(v, ps) \<in> set (issueVertices es)" by (rule map_of_SomeD)
  then obtain s where s: "s \<in> set es" "isVertex s" "ps = issueParents s" by (auto simp: issueVertices_def)
  have "p \<in> fst ` set (issueVertices es)" if "p \<in> set ps" for p
    using vertex_parents(3) [OF assms(1) s(1,2), of p] that s(3) unfolding issueVertices_ids by blast
  then show "distinct ps \<and> set ps \<subseteq> fst ` set (issueVertices es)" using vertex_parents(1) [OF assms(1) s(1,2)] s(3) by blast
qed

lemma vertexParents_issue:
  "uniqueIDs es \<Longrightarrow> s \<in> set es \<Longrightarrow> isVertex s \<Longrightarrow> vertexParents (issueVertices es) (st_ID s) = set (issueParents s)"
  by (simp add: vertexParents_def map_of_issueVertices)

text \<open>The identifiers of an accepted order and the facts they stand for.\<close>

lemma issueOrder:
  assumes "uniqueIDs es" "validateIssueRelationships h es = Inr os"
  shows "issuesValid h es" "kahn (issueVertices es) = (map st_ID os, length os)" "set os = {s \<in> set es. isVertex s}" "distinct (map st_ID os)"
proof -
  obtain ids n where ids: "issuesValid h es" "kahn (issueVertices es) = (ids, n)" "length ids = n" "os = map (lookupEvent (indexByID es)) ids"
    using assms(2) by (auto simp: validateIssueRelationships_iff)
  note kc = kahn_correct [OF issueVertices_wellFormed [OF ids(1) assms(1)] ids(2)]
  have set_ids: "set ids = st_ID ` {s \<in> set es. isVertex s}" using kc(4) ids(3) by (simp add: issueVertices_ids)
  have bk: "st_ID (lookupEvent (indexByID es) i) = i" if "i \<in> set ids" for i
    using that set_ids lookupEvent_known [OF assms(1)] by auto
  then have eq: "map st_ID os = ids" by (simp add: ids(4) comp_def map_idI)
  show "issuesValid h es" "kahn (issueVertices es) = (map st_ID os, length os)" "distinct (map st_ID os)"
    using ids eq kc(2) by simp_all
  have "set os = lookupEvent (indexByID es) ` st_ID ` {s \<in> set es. isVertex s}" using ids(4) set_ids by simp
  also have "\<dots> = {s \<in> set es. isVertex s}"
    using lookupEvent_known [OF assms(1)] by (force simp: image_image)
  finally show "set os = {s \<in> set es. isVertex s}" .
qed

lemma indexByID_cong:
  assumes "uniqueIDs es" "set es = set es'"
  shows "map_of (indexByID es) = map_of (indexByID es')"
proof
  fix k
  have u: "inj_on st_ID (set es')" "inj_on st_ID (set es)" using assms by (simp_all add: uniqueIDs_def)
  show "map_of (indexByID es) k = map_of (indexByID es') k"
  proof (cases "k \<in> st_ID ` set es")
    case True
    then obtain s where "s \<in> set es" "k = st_ID s" by blast
    then show ?thesis using indexByID_unique [OF u(1), of s] indexByID_unique [OF u(2), of s] assms(2) by simp
  next
    case False
    then show ?thesis using assms(2) indexByID_None by metis
  qed
qed

lemma validateIssueReferences_cong:
  assumes "map_of byID = map_of byID'"
  shows "validateIssueReferences s byID = validateIssueReferences s byID'"
proof -
  have "checkOpening s byID = checkOpening s byID'" "checkIssueParent s byID = checkIssueParent s byID'"
    "checkIssueRelation s byID = checkIssueRelation s byID'"
    using assms by (simp_all add: checkOpening_def checkIssueParent_def checkIssueRelation_def Let_def fun_eq_iff)
  then show ?thesis by (simp add: validateIssueReferences_def)
qed

lemma issuesValid_cong:
  assumes "uniqueIDs es" "set es = set es'"
  shows "issuesValid h es = issuesValid h es'"
  using validateIssueReferences_cong [OF indexByID_cong [OF assms]] assms(2) by (simp add: issuesValid_def)

lemma issueOrder_unique:
  assumes "uniqueIDs es" "set es = set es'" "validateIssueRelationships h es = Inr os"
  shows "validateIssueRelationships h es' = Inr os"
proof -
  have u': "uniqueIDs es'" using assms(1,2) by (simp add: uniqueIDs_def)
  note o = issueOrder [OF assms(1,3)]
  have v': "issuesValid h es'" using o(1) issuesValid_cong [OF assms(1,2)] by simp
  note wf = issueVertices_wellFormed [OF o(1) assms(1)] issueVertices_wellFormed [OF v' u']
  have N: "fst ` set (issueVertices es) = fst ` set (issueVertices es')" using assms(2) by (simp add: issueVertices_ids)
  have par: "vertexParents (issueVertices es) = vertexParents (issueVertices es')"
  proof
    fix v
    show "vertexParents (issueVertices es) v = vertexParents (issueVertices es') v"
    proof (cases "v \<in> fst ` set (issueVertices es)")
      case True
      then obtain s where "s \<in> set es" "isVertex s" "v = st_ID s" by (auto simp: issueVertices_ids)
      then show ?thesis using assms u' by (simp add: vertexParents_issue)
    next
      case False
      then show ?thesis using N by (metis map_of_eq_None_iff option.simps(4) vertexParents_def)
    qed
  qed
  obtain ids' n' where k': "kahn (issueVertices es') = (ids', n')" by fastforce
  have "length ids' = n'"
    using kahn_correct(5) [OF wf(1) o(2)] kahn_correct(5) [OF wf(2) k'] N par by simp
  moreover have "map st_ID os = ids'"
    by (rule kahn_order_independent [OF wf N par o(2) k']) (use \<open>length ids' = n'\<close> in simp_all)
  moreover have "map (lookupEvent (indexByID es')) (map st_ID os) = os"
    using o(3) lookupEvent_known [OF u'] assms(2) by (auto intro: map_idI)
  ultimately show ?thesis using v' k' by (auto simp: validateIssueRelationships_iff)
qed

interpretation issue_history: ordered_history uniqueIDs "validateIssueRelationships h" st_ID issueParents issueRootID
  "\<lambda>es. {s \<in> set es. isVertex s}" for h
proof unfold_locales
  fix es os k p c es'
  assume u: "uniqueIDs es" and o: "validateIssueRelationships h es = Inr os"
  note io = issueOrder [OF u o]
  show "set os = {s \<in> set es. isVertex s}" "distinct (map st_ID os)" using io by simp_all
  show "set (issueParents (os ! k)) \<subseteq> st_ID ` set (take k os)" if k: "k < length os"
  proof -
    have "os ! k \<in> set es" "isVertex (os ! k)" using k io(3) nth_mem by blast+
    then have "vertexParents (issueVertices es) (map st_ID os ! k) = set (issueParents (os ! k))"
      using u k by (simp add: vertexParents_issue)
    then show ?thesis
      using kahn_correct(6) [OF issueVertices_wellFormed [OF io(1) u] io(2), of k] k by (simp add: take_map)
  qed
  show "issueRootID p = issueRootID c" if pc: "p \<in> set os" "c \<in> set os" "st_ID p \<in> set (issueParents c)"
  proof -
    obtain t where "t \<in> set es" "st_ID t = st_ID p" "issueRootID t = issueRootID c"
      using vertex_parents(3) [OF io(1), of c "st_ID p"] pc io(3) by blast
    moreover have "t = p" using u calculation pc io(3) by (auto simp: uniqueIDs_def inj_on_def)
    ultimately show ?thesis by simp
  qed
  show "validateIssueRelationships h es' = Inr os" if "set es = set es'" by (rule issueOrder_unique [OF u that o])
qed

section \<open>Concrete instances\<close>

text \<open>A catalog of two issues, one of which blocks the other.\<close>

definition blockingCatalog :: IssueCatalog where
  "blockingCatalog = (let a = sampleID CHR ''a''; b = sampleID CHR ''b'' in
     \<lparr>cat_Issues = [(a, emptyView a ''ann''), (b, emptyView b ''ann'')], cat_IDs = [a, b],
      cat_Graph = [candidateEdge a \<lparr>rel_Kind = ''blocks'', rel_Target = b\<rparr>], cat_Cycles = []\<rparr>)"

definition relatedIssue :: "string \<Rightarrow> IssueState" where
  "relatedIssue kind = sampleIssue\<lparr>is_Relations := Some [\<lparr>rel_Kind = kind, rel_Target = sampleID CHR ''a''\<rparr>]\<rparr>"

theorem ValidateIssueCandidate_correct_witness:
  "ValidateIssueCandidate blockingCatalog (sampleID CHR ''b'') [] (relatedIssue ''parent'') = Inr () \<and>
   \<not> is_ok (ValidateIssueCandidate blockingCatalog (sampleID CHR ''b'') [] (relatedIssue ''blocks'')) \<and>
   sampleID CHR ''a'' \<in> dom (map_of (cat_Issues blockingCatalog))"
proof -
  have p: "ValidateIssueCandidate blockingCatalog (sampleID CHR ''b'') [] (relatedIssue ''parent'') = Inr ()" by code_simp
  have "\<not> is_ok (ValidateIssueCandidate blockingCatalog (sampleID CHR ''b'') [] (relatedIssue ''blocks''))" by code_simp
  moreover have "case CanonicalIssueState (relatedIssue ''parent'') of Inl _ \<Rightarrow> False
      | Inr c \<Rightarrow> map rel_Target (elems (is_Relations c)) = [sampleID CHR ''a'']" by code_simp
  moreover obtain c where c: "CanonicalIssueState (relatedIssue ''parent'') = Inr c"
    "\<forall>r \<in> set (elems (is_Relations c)). rel_Target r \<in> dom (map_of (cat_Issues blockingCatalog))"
    using p ValidateIssueCandidate_correct [of blockingCatalog "sampleID CHR ''b''" "[]" "relatedIssue ''parent''"] by blast
  ultimately show ?thesis using p by auto
qed

end
