(* ===== verification/HN_Issue_Views.thy ===== *)
theory HN_Issue_Views
  imports HN_Issue_Catalog
begin

text \<open>
  What \<open>BuildIssueCatalog\<close> (\<open>src/issue_projection.go\<close>) computes: the views it builds from an ordered history,
  that no step of it meets a missing view, that the heads of a view are the maximal revisions of its
  lineage, and that the catalog does not depend on the order in which the facts were read.
\<close>

section \<open>The views that the catalog builds\<close>

lemma find_append: "find P (xs @ ys) = (case find P xs of None \<Rightarrow> find P ys | Some x \<Rightarrow> Some x)"
  by (induction xs) auto

definition isOpening :: "StoredEvent \<Rightarrow> bool" where
  "isOpening s \<longleftrightarrow> ev_Kind (st_Event s) = ''issue.open''"

lemma isOpening_root: "isOpening s \<Longrightarrow> issueRootID s = st_ID s"
  by (simp add: isOpening_def issueRootID_def)

definition headOf :: "StoredEvent \<Rightarrow> IssueHead" where
  "headOf s = \<lparr>ih_ID = st_ID s, ih_Actor = ev_Actor (st_Event s), ih_State = (case headState (st_Event s) of Inr t \<Rightarrow> t | Inl _ \<Rightarrow> undefined)\<rparr>"

definition openingIDs :: "StoredEvent list \<Rightarrow> string list" where
  "openingIDs os = map st_ID (filter isOpening os)"

definition historyView :: "string list \<Rightarrow> StoredEvent list \<Rightarrow> string \<Rightarrow> IssueView" where
  "historyView consumed os r = (emptyView r (case find (\<lambda>s. isOpening s \<and> st_ID s = r) os of Some s \<Rightarrow> ev_Actor (st_Event s) | None \<Rightarrow> []))\<lparr>
     iv_Heads := map headOf (filter (\<lambda>s. issueRootID s = r \<and> st_ID s \<notin> set consumed) os),
     iv_History := filter (\<lambda>s. issueRootID s = r) os\<rparr>"

text \<open>A history in which the opening of every lineage comes first.\<close>

definition rooted :: "StoredEvent list \<Rightarrow> bool" where
  "rooted os \<longleftrightarrow> (\<forall>k < length os. issueRootID (os ! k) \<in> set (openingIDs (take (Suc k) os)))"

lemma rooted_snoc: "rooted (os @ [s]) \<longleftrightarrow> rooted os \<and> issueRootID s \<in> set (openingIDs (os @ [s]))"
  by (auto simp: rooted_def less_Suc_eq nth_append)

lemma rooted_start:
  assumes "\<And>k. k < length os \<Longrightarrow> \<exists>j \<le> k. isOpening (os ! j) \<and> issueRootID (os ! j) = issueRootID (os ! k)"
  shows "rooted os"
  unfolding rooted_def
proof (intro allI impI)
  fix k assume k: "k < length os"
  then obtain j where j: "j \<le> k" "isOpening (os ! j)" "issueRootID (os ! j) = issueRootID (os ! k)" using assms by blast
  then have "os ! j \<in> set (take (Suc k) os)" using k by (auto simp: in_set_conv_nth intro!: exI [of _ j])
  then show "issueRootID (os ! k) \<in> set (openingIDs (take (Suc k) os))"
    using j by (force simp: openingIDs_def isOpening_root)
qed

lemma rooted_append: "rooted (os @ ss) \<Longrightarrow> rooted os"
  by (induction ss rule: rev_induct) (auto simp: rooted_snoc append_assoc [symmetric] simp del: append_assoc)

lemma rooted_member: "rooted os \<Longrightarrow> s \<in> set os \<Longrightarrow> issueRootID s \<in> set (openingIDs os)"
  by (induction os rule: rev_induct) (auto simp: rooted_snoc, auto simp: openingIDs_def)

definition catalogOf :: "string list \<Rightarrow> StoredEvent list \<Rightarrow> IssueCatalog \<Rightarrow> bool" where
  "catalogOf consumed os cat \<longleftrightarrow> cat_IDs cat = openingIDs os \<and> cat_Graph cat = [] \<and> cat_Cycles cat = [] \<and>
     map_of (cat_Issues cat) = (\<lambda>r. if r \<in> set (openingIDs os) then Some (historyView consumed os r) else None)"

lemma historyView_snoc:
  assumes "rooted (os @ [s])" "distinct (map st_ID (os @ [s]))"
  shows "historyView consumed (os @ [s]) r =
    (if r \<noteq> issueRootID s then historyView consumed os r
     else let view = (if isOpening s then emptyView (st_ID s) (ev_Actor (st_Event s)) else historyView consumed os r) in
       view\<lparr>iv_History := iv_History view @ [s],
            iv_Heads := iv_Heads view @ (if st_ID s \<in> set consumed then [] else [headOf s])\<rparr>)"
proof (cases "r = issueRootID s")
  case False
  then have "find (\<lambda>s. isOpening s \<and> st_ID s = r) (os @ [s]) = find (\<lambda>s. isOpening s \<and> st_ID s = r) os"
    using isOpening_root [of s] by (induction os) auto
  then show ?thesis using False by (simp add: historyView_def emptyView_def)
next
  case True
  show ?thesis
  proof (cases "isOpening s")
    case op: True
    then have r: "r = st_ID s" using True isOpening_root by simp
    have fresh: "st_ID t \<noteq> r" if "t \<in> set os" for t using assms(2) that r by (auto simp: image_iff)
    have other: "issueRootID t \<noteq> r" if "t \<in> set os" for t
    proof
      assume "issueRootID t = r"
      then have "r \<in> st_ID ` set os"
        using rooted_member [of os t] assms(1) that unfolding rooted_snoc openingIDs_def by auto
      then show False using fresh by blast
    qed
    have "find (\<lambda>s. isOpening s \<and> st_ID s = r) os = None" using fresh by (auto simp: find_None_iff)
    then have "find (\<lambda>s. isOpening s \<and> st_ID s = r) (os @ [s]) = Some s" using op r by (simp add: find_append)
    moreover have "filter (\<lambda>s. issueRootID s = r) os = []" "filter (\<lambda>s. issueRootID s = r \<and> st_ID s \<notin> set consumed) os = []"
      using other by (auto simp: filter_empty_conv)
    ultimately show ?thesis using op r True by (simp add: historyView_def emptyView_def)
  next
    case nop: False
    then have "r \<in> set (openingIDs os)" using assms(1) True by (simp add: rooted_snoc openingIDs_def)
    then obtain t where "find (\<lambda>s. isOpening s \<and> st_ID s = r) os = Some t"
      by (cases "find (\<lambda>s. isOpening s \<and> st_ID s = r) os") (auto simp: find_None_iff openingIDs_def)
    then have "find (\<lambda>s. isOpening s \<and> st_ID s = r) (os @ [s]) = Some t" by (simp add: find_append)
    with \<open>find _ os = Some t\<close> nop True show ?thesis by (simp add: historyView_def emptyView_def)
  qed
qed

lemma catalogOf_step:
  assumes "catalogOf consumed os cat" "rooted (os @ [s])" "distinct (map st_ID (os @ [s]))"
    and ok: "is_ok (headState (st_Event s))"
  obtains cat' where "catalogOf consumed (os @ [s]) cat'"
    "\<And>ss. addHistory consumed (s # ss) cat = addHistory consumed ss cat'"
proof -
  let ?r = "issueRootID s"
  let ?cat1 = "if isOpening s then cat\<lparr>cat_Issues := AList.update ?r (emptyView ?r (ev_Actor (st_Event s))) (cat_Issues cat),
      cat_IDs := cat_IDs cat @ [?r]\<rparr> else cat"
  define view where "view = (if isOpening s then emptyView (st_ID s) (ev_Actor (st_Event s)) else historyView consumed os ?r)"
  define view2 where "view2 = view\<lparr>iv_History := iv_History view @ [s],
      iv_Heads := iv_Heads view @ (if st_ID s \<in> set consumed then [] else [headOf s])\<rparr>"
  define cat' where "cat' = ?cat1\<lparr>cat_Issues := AList.update ?r view2 (cat_Issues ?cat1)\<rparr>"
  have old: "map_of (cat_Issues cat) = (\<lambda>r. if r \<in> set (openingIDs os) then Some (historyView consumed os r) else None)"
    using assms(1) by (simp add: catalogOf_def)
  have known: "?r \<in> set (openingIDs os)" if "\<not> isOpening s"
    using assms(2) that by (simp add: rooted_snoc openingIDs_def)
  have look: "map_of (cat_Issues ?cat1) ?r = Some view"
    using known by (simp add: view_def old update_conv' isOpening_root)
  obtain t where t: "headState (st_Event s) = Inr t" using ok by (elim is_okE)
  have "addHistory consumed (s # ss) cat = addHistory consumed ss cat'" for ss
    using look by (simp add: Let_def t headOf_def cat'_def view2_def isOpening_def [symmetric] cong: if_cong)
  moreover have "catalogOf consumed (os @ [s]) cat'"
    unfolding catalogOf_def
  proof (intro conjI)
    show "map_of (cat_Issues cat') = (\<lambda>r. if r \<in> set (openingIDs (os @ [s])) then Some (historyView consumed (os @ [s]) r) else None)"
      using known unfolding historyView_snoc [OF assms(2,3)]
      by (auto simp: cat'_def view2_def view_def old update_conv' openingIDs_def isOpening_root fun_eq_iff Let_def)
  qed (use assms(1) in \<open>simp_all add: cat'_def catalogOf_def openingIDs_def isOpening_root\<close>)
  ultimately show ?thesis by (rule that [rotated])
qed

lemma addHistory_catalogOf:
  "catalogOf consumed os cat \<Longrightarrow> rooted (os @ ss) \<Longrightarrow> distinct (map st_ID (os @ ss)) \<Longrightarrow>
     \<forall>s \<in> set ss. is_ok (headState (st_Event s)) \<Longrightarrow> \<exists>cat'. addHistory consumed ss cat = Inr cat' \<and> catalogOf consumed (os @ ss) cat'"
proof (induction ss arbitrary: os cat)
  case (Cons s ss)
  obtain cat1 where c: "catalogOf consumed (os @ [s]) cat1" "\<And>ss. addHistory consumed (s # ss) cat = addHistory consumed ss cat1"
    using catalogOf_step [OF Cons.prems(1), of s] rooted_append [of "os @ [s]" ss] Cons.prems by (auto simp del: addHistory.simps)
  show ?case using Cons.IH [OF c(1)] Cons.prems c(2) by (simp del: addHistory.simps)
qed simp

fun commentsOf :: "string list \<Rightarrow> StoredEvent list \<Rightarrow> string \<Rightarrow> StoredEvent list" where
  "commentsOf seen [] r = []"
| "commentsOf seen (s # ss) r =
     (if ev_Kind (st_Event s) = ''issue.comment'' \<and> st_ID s \<notin> set seen
      then (if ev_Subject (st_Event s) = r then [s] else []) @ commentsOf (st_ID s # seen) ss r
      else commentsOf seen ss r)"

lemma commentsOf_set:
  "inj_on st_ID (set ss) \<Longrightarrow> set (commentsOf seen ss r) =
     {s \<in> set ss. ev_Kind (st_Event s) = ''issue.comment'' \<and> ev_Subject (st_Event s) = r \<and> st_ID s \<notin> set seen}"
  by (induction ss arbitrary: seen) (auto simp: inj_on_def)

lemma commentsOf_distinct: "distinct (map st_ID (commentsOf seen ss r)) \<and> st_ID ` set (commentsOf seen ss r) \<inter> set seen = {}"
proof (induction ss arbitrary: seen)
  case (Cons s ss)
  from Cons.IH [of seen] Cons.IH [of "st_ID s # seen"] show ?case by auto
qed simp

definition withComments :: "StoredEvent list \<Rightarrow> IssueView \<Rightarrow> IssueView" where
  "withComments cs v = v\<lparr>iv_Comments := iv_Comments v @ cs\<rparr>"

lemma withComments_simps: "withComments [] v = v" "withComments cs (withComments ds v) = withComments (ds @ cs) v"
  by (simp_all add: withComments_def)

lemma addComments_ok:
  assumes "\<forall>s \<in> set ss. ev_Kind (st_Event s) = ''issue.comment'' \<longrightarrow> ev_Subject (st_Event s) \<in> dom (map_of (cat_Issues cat))"
  shows "\<exists>m. addComments seen ss cat = Inr (cat\<lparr>cat_Issues := m\<rparr>) \<and>
     map_of m = (\<lambda>r. map_option (withComments (commentsOf seen ss r)) (map_of (cat_Issues cat) r))"
  using assms
proof (induction ss arbitrary: seen cat)
  case Nil
  show ?case by (rule exI [of _ "cat_Issues cat"]) (simp add: withComments_simps option.map_ident_strong)
next
  case (Cons s ss)
  let ?r = "ev_Subject (st_Event s)"
  show ?case
  proof (cases "ev_Kind (st_Event s) = ''issue.comment'' \<and> st_ID s \<notin> set seen")
    case True
    then obtain v where v: "map_of (cat_Issues cat) ?r = Some v" using Cons.prems by auto
    let ?cat = "cat\<lparr>cat_Issues := AList.update ?r (withComments [s] v) (cat_Issues cat)\<rparr>"
    have "\<forall>t \<in> set ss. ev_Kind (st_Event t) = ''issue.comment'' \<longrightarrow> ev_Subject (st_Event t) \<in> dom (map_of (cat_Issues ?cat))"
      using Cons.prems by (auto simp: update_conv')
    from Cons.IH [OF this, of "st_ID s # seen"] obtain m where
      m: "addComments (st_ID s # seen) ss ?cat = Inr (cat\<lparr>cat_Issues := m\<rparr>)"
        "map_of m = (\<lambda>r. map_option (withComments (commentsOf (st_ID s # seen) ss r)) (map_of (cat_Issues ?cat) r))" by auto
    have "addComments seen (s # ss) cat = Inr (cat\<lparr>cat_Issues := m\<rparr>)"
      using True v m(1) by (simp add: withComments_def)
    moreover have "map_of m r = map_option (withComments (commentsOf seen (s # ss) r)) (map_of (cat_Issues cat) r)" for r
      using True v by (simp add: m(2) update_conv' withComments_simps)
    ultimately show ?thesis by blast
  next
    case False
    then have "addComments seen (s # ss) cat = addComments seen ss cat" "commentsOf seen (s # ss) r = commentsOf seen ss r" for r
      by auto
    then show ?thesis using Cons.IH [of cat seen] Cons.prems by (simp del: addComments.simps commentsOf.simps)
  qed
qed

lemma finishViews_ok:
  "distinct is \<Longrightarrow> set is \<subseteq> dom (map_of (cat_Issues cat)) \<Longrightarrow>
   \<exists>m. finishViews is cat = Inr (cat\<lparr>cat_Issues := m,
         cat_Graph := cat_Graph cat @ concat (map (\<lambda>i. viewEdges i (finishView (the (map_of (cat_Issues cat) i)))) is)\<rparr>) \<and>
     map_of m = (\<lambda>r. if r \<in> set is then map_option finishView (map_of (cat_Issues cat) r) else map_of (cat_Issues cat) r)"
proof (induction "is" arbitrary: cat)
  case Nil
  show ?case by (rule exI [of _ "cat_Issues cat"]) simp
next
  case (Cons i "is")
  then obtain v where v: "map_of (cat_Issues cat) i = Some v" by auto
  let ?cat = "cat\<lparr>cat_Issues := AList.update i (finishView v) (cat_Issues cat), cat_Graph := cat_Graph cat @ viewEdges i (finishView v)\<rparr>"
  have other: "map_of (cat_Issues ?cat) j = map_of (cat_Issues cat) j" if "j \<in> set is" for j
    using that Cons.prems(1) by (auto simp: update_conv')
  have "set is \<subseteq> dom (map_of (cat_Issues ?cat))" using Cons.prems(2) by (auto simp: update_conv')
  with Cons.IH [of ?cat] Cons.prems(1) obtain m where
    m: "finishViews is ?cat = Inr (cat\<lparr>cat_Issues := m, cat_Graph := cat_Graph ?cat @
        concat (map (\<lambda>i. viewEdges i (finishView (the (map_of (cat_Issues ?cat) i)))) is)\<rparr>)"
      "map_of m = (\<lambda>r. if r \<in> set is then map_option finishView (map_of (cat_Issues ?cat) r) else map_of (cat_Issues ?cat) r)" by auto
  have same: "map (\<lambda>i. viewEdges i (finishView (the (map_of (cat_Issues ?cat) i)))) is =
      map (\<lambda>i. viewEdges i (finishView (the (map_of (cat_Issues cat) i)))) is"
    using other by (intro map_cong refl) (simp del: IssueCatalog.simps)
  have "finishViews (i # is) cat = Inr (cat\<lparr>cat_Issues := m, cat_Graph := cat_Graph cat @
      concat (map (\<lambda>i. viewEdges i (finishView (the (map_of (cat_Issues cat) i)))) (i # is))\<rparr>)"
    using v m(1) [unfolded same] by simp
  moreover have "map_of m r = (if r \<in> set (i # is) then map_option finishView (map_of (cat_Issues cat) r) else map_of (cat_Issues cat) r)" for r
    using v Cons.prems(1) by (simp add: m(2) update_conv')
  ultimately show ?case by blast
qed

lemma validVertex_headState:
  assumes "issuesValid h es" "s \<in> set es" "isVertex s"
  shows "is_ok (headState (st_Event s))"
proof -
  have "isIssueKind (ev_Kind (st_Event s))" using assms(3) isVertex_kind by blast
  then have "case ev_Issue (st_Event s) of None \<Rightarrow> True | Some t \<Rightarrow> validIssueState t"
    using validateIssueEvent_shape(2) [of h "st_Event s"] assms(1,2) by (auto simp: issuesValid_def)
  then have "CanonicalIssueState t = Inr (canonicalCopy t)" if "ev_Issue (st_Event s) = Some t" for t
    using that by (simp add: CanonicalIssueState_iff)
  then show ?thesis by (cases "ev_Issue (st_Event s)") (simp_all add: headState_def)
qed

lemma comment_opening:
  assumes "issuesValid h es" "s \<in> set es" "ev_Kind (st_Event s) = ''issue.comment''"
  shows "\<exists>t \<in> set es. isOpening t \<and> st_ID t = ev_Subject (st_Event s)"
proof -
  have "validateIssueReferences s (indexByID es) = Inr ()"
    using assms by (auto simp: issuesValid_def isIssueKind_def)
  then have "checkOpening s (indexByID es) = Inr ()"
    using assms(3) by (simp add: validateIssueReferences_def isIssueKind_def rbind_unit_ok)
  then obtain t where "map_of (indexByID es) (ev_Subject (st_Event s)) = Some t" "isOpening t"
    using assms(3) by (auto simp: checkOpening_def Let_def isOpening_def split: option.splits)
  then show ?thesis using indexByID_Some by metis
qed

definition consumedBy :: "StoredEvent list \<Rightarrow> string list" where
  "consumedBy os = concat (map (\<lambda>s. elems (ev_Parents (st_Event s))) os)"

definition issueViewOf :: "StoredEvent list \<Rightarrow> StoredEvent list \<Rightarrow> string \<Rightarrow> IssueView" where
  "issueViewOf es os r = finishView (withComments (commentsOf [] es r) (historyView (consumedBy os) os r))"

lemma issueOrder_rooted:
  assumes "uniqueIDs es" "validateIssueRelationships h es = Inr os"
  shows "rooted os"
proof -
  note io = issueOrder [OF assms]
  have "issueParents v \<noteq> [] \<or> isOpening v" if "v \<in> set os" for v
    using vertex_parents(2) [OF io(1), of v] that io(3) by (auto simp: isOpening_def)
  then show ?thesis
    by (intro rooted_start issue_history.lineage_start [OF assms, where start = isOpening])
qed

lemma set_openingIDs:
  assumes "uniqueIDs es" "validateIssueRelationships h es = Inr os"
  shows "set (openingIDs os) = st_ID ` {s \<in> set es. isOpening s}" "distinct (openingIDs os)"
proof -
  note io = issueOrder [OF assms]
  have "isOpening s \<Longrightarrow> isVertex s" for s by (simp add: isOpening_def isVertex_def)
  then show "set (openingIDs os) = st_ID ` {s \<in> set es. isOpening s}" using io(3) by (auto simp: openingIDs_def)
  show "distinct (openingIDs os)" using io(4) by (simp add: openingIDs_def distinct_map_filter)
qed

lemma BuildIssueCatalog_eq:
  assumes u: "uniqueIDs es" and os: "validateIssueRelationships h es = Inr os"
  shows "\<exists>m. map_of m = (\<lambda>r. if r \<in> set (openingIDs os) then Some (issueViewOf es os r) else None) \<and>
    BuildIssueCatalog h es = Inr (let graph = sortIssueEdges (concat (map (\<lambda>i. viewEdges i (issueViewOf es os i)) (sort (openingIDs os))))
      in \<lparr>cat_Issues = m, cat_IDs = sort (openingIDs os), cat_Graph = graph, cat_Cycles = issueGraphCycles graph\<rparr>)"
proof -
  note io = issueOrder [OF assms]
  let ?I = "openingIDs os" and ?E = "\<lparr>cat_Issues = [], cat_IDs = [], cat_Graph = [], cat_Cycles = []\<rparr>"
  have "catalogOf (consumedBy os) [] ?E" by (simp add: catalogOf_def openingIDs_def)
  then obtain cat1 where c1: "addHistory (consumedBy os) os ?E = Inr cat1" "catalogOf (consumedBy os) os cat1"
    using addHistory_catalogOf [of "consumedBy os" "[]" ?E os] issueOrder_rooted [OF assms] io(3,4)
      validVertex_headState [OF io(1)] by auto
  then have m1: "map_of (cat_Issues cat1) = (\<lambda>r. if r \<in> set ?I then Some (historyView (consumedBy os) os r) else None)"
    and f1: "cat_IDs cat1 = ?I" "cat_Graph cat1 = []" "cat_Cycles cat1 = []" by (simp_all add: catalogOf_def)
  have "dom (map_of (cat_Issues cat1)) = set ?I" by (auto simp: m1 split: if_splits)
  moreover have "ev_Subject (st_Event s) \<in> set ?I" if "s \<in> set es" "ev_Kind (st_Event s) = ''issue.comment''" for s
    using comment_opening [OF io(1) that] unfolding set_openingIDs(1) [OF assms] by force
  ultimately obtain m2 where c2: "addComments [] es cat1 = Inr (cat1\<lparr>cat_Issues := m2\<rparr>)"
      "map_of m2 = (\<lambda>r. map_option (withComments (commentsOf [] es r)) (map_of (cat_Issues cat1) r))"
    using addComments_ok [of es cat1 "[]"] by auto
  let ?cat2 = "cat1\<lparr>cat_Issues := m2, cat_IDs := sort ?I\<rparr>"
  have "distinct (sort ?I)" "set (sort ?I) \<subseteq> dom (map_of (cat_Issues ?cat2))"
    using set_openingIDs(2) [OF assms] by (auto simp: c2(2) m1)
  from finishViews_ok [OF this] obtain m3 where
    c3: "finishViews (sort ?I) ?cat2 = Inr (?cat2\<lparr>cat_Issues := m3, cat_Graph := cat_Graph ?cat2 @
        concat (map (\<lambda>i. viewEdges i (finishView (the (map_of (cat_Issues ?cat2) i)))) (sort ?I))\<rparr>)"
      "map_of m3 = (\<lambda>r. if r \<in> set (sort ?I) then map_option finishView (map_of (cat_Issues ?cat2) r) else map_of (cat_Issues ?cat2) r)"
    by blast
  have v: "finishView (the (map_of (cat_Issues ?cat2) i)) = issueViewOf es os i" if "i \<in> set ?I" for i
    using that by (simp add: c2(2) m1 issueViewOf_def)
  have e: "concat (map (\<lambda>i. viewEdges i (finishView (the (map_of (cat_Issues ?cat2) i)))) (sort ?I)) =
      concat (map (\<lambda>i. viewEdges i (issueViewOf es os i)) (sort ?I))"
    using v by (intro arg_cong [of _ _ concat] map_cong refl) (simp del: IssueCatalog.simps)
  have "map_of m3 = (\<lambda>r. if r \<in> set ?I then Some (issueViewOf es os r) else None)"
    by (auto simp: c3(2) c2(2) m1 issueViewOf_def)
  moreover have "BuildIssueCatalog h es = Inr (let graph = sortIssueEdges (concat (map (\<lambda>i. viewEdges i (issueViewOf es os i)) (sort ?I)))
      in \<lparr>cat_Issues = m3, cat_IDs = sort ?I, cat_Graph = graph, cat_Cycles = issueGraphCycles graph\<rparr>)"
    using c1(1) c2(1) c3(1) [unfolded e] f1 by (simp add: BuildIssueCatalog_def os consumedBy_def [symmetric] Let_def)
  ultimately show ?thesis by blast
qed

section \<open>Properties of the catalog\<close>

text \<open>The checks of the history return an error where they refuse it: the state of a revision is there when its intent is checked.\<close>

lemma checkAdjacent_noPanic: "e \<noteq> Panic \<Longrightarrow> noPanic (checkAdjacent valid e prev xs)"
  by (induction valid e prev xs rule: checkAdjacent.induct) (auto simp: noPanic_def)

lemma checkParents_noPanic: "e \<noteq> Panic \<Longrightarrow> noPanic (checkParents e prev ps)"
  by (induction e prev ps rule: checkParents.induct) (auto simp: noPanic_def)

lemma checkCriteria_noPanic: "noPanic (checkCriteria seen cs)"
  by (induction seen cs rule: checkCriteria.induct) auto

lemma checkMetadata_noPanic: "noPanic (checkMetadata kv)"
  by (auto simp: checkMetadata_def split: prod.splits)

lemma CanonicalIssueState_noPanic: "noPanic (CanonicalIssueState s)"
  unfolding CanonicalIssueState_def Let_def
  by (auto intro!: rbind_noPanic forEach_noPanic checkAdjacent_noPanic checkCriteria_noPanic checkMetadata_noPanic simp del: forEach.simps)

lemma IssueRequestDigest_noPanic: "noPanic (IssueRequestDigest h e)"
  unfolding IssueRequestDigest_def Let_def
  by (auto intro!: rbind_noPanic CanonicalIssueState_noPanic split: option.split)

lemma checkIntent_noPanic: "checkIssueShape e = Inr () \<Longrightarrow> noPanic (checkIntent e)"
  by (auto simp: checkIntent_def checkIssueShape_def split: option.splits)

lemma validateIssueEvent_noPanic: "noPanic (validateIssueEvent h e)"
proof -
  have "noPanic (checkIssueShape e)" "noPanic (checkOperation e)"
    by (auto simp: checkIssueShape_def checkOperation_def checkParents_noPanic)
  then show ?thesis unfolding validateIssueEvent_def
    by (auto intro!: rbind_noPanic CanonicalIssueState_noPanic IssueRequestDigest_noPanic checkIntent_noPanic split: option.split)
qed

lemma validateIssueReferences_noPanic: "noPanic (validateIssueReferences s byID)"
proof -
  have "noPanic (checkOpening s byID)" "noPanic (checkIssueParent s byID i)" "noPanic (checkIssueRelation s byID r)" for i r
    by (auto simp: checkOpening_def checkIssueParent_def checkIssueRelation_def Let_def split: option.splits)
  then show ?thesis unfolding validateIssueReferences_def by (auto intro!: rbind_noPanic forEach_noPanic)
qed

lemma wrapError_noPanic: "noPanic r \<Longrightarrow> noPanic (wrapError f as r)"
  by (auto simp: wrapError_def noPanic_def split: sum.splits go_error.splits)

lemma collectIssues_noPanic: "noPanic (collectIssues h byID ss st)"
proof (induction ss arbitrary: st)
  case (Cons s ss)
  then show ?case
    by (simp add: rbind_noPanic wrapError_noPanic validateIssueEvent_noPanic validateIssueReferences_noPanic)
qed simp

lemma validateIssueRelationships_noPanic: "noPanic (validateIssueRelationships h es)"
  unfolding validateIssueRelationships_def Let_def
  by (auto intro!: rbind_noPanic collectIssues_noPanic split: prod.split)

text \<open>
  C12. The catalog is built exactly when every issue fact is valid, every reference it makes resolves to a
  fact of the right kind and lineage, and revision ancestry has no cycle.  An invalid history is refused
  with an error: no history makes the validation or the build dereference a nil pointer, the missing view
  of an issue included.
\<close>

theorem BuildIssueCatalog_succeeds_iff:
  assumes "uniqueIDs es"
  shows "(is_ok (BuildIssueCatalog h es) \<longleftrightarrow> issuesValid h es \<and>
     acyclic {(p, st_ID c) | p c. c \<in> set es \<and> isVertex c \<and> p \<in> set (issueParents c)}) \<and>
     BuildIssueCatalog h es \<noteq> Inl Panic"
    (is "(_ \<longleftrightarrow> _ \<and> acyclic ?R) \<and> _")
proof
  show "BuildIssueCatalog h es \<noteq> Inl Panic"
    using BuildIssueCatalog_eq [OF assms, of h] validateIssueRelationships_noPanic [of h es]
    by (cases "validateIssueRelationships h es") (auto simp: BuildIssueCatalog_def noPanic_def)
next
  have "is_ok (BuildIssueCatalog h es) \<longleftrightarrow> is_ok (validateIssueRelationships h es)"
    using BuildIssueCatalog_eq [OF assms, of h] by (cases "validateIssueRelationships h es") (auto simp: BuildIssueCatalog_def)
  also have "\<dots> \<longleftrightarrow> issuesValid h es \<and> length (fst (kahn (issueVertices es))) = snd (kahn (issueVertices es))"
    by (auto simp: is_ok_def validateIssueRelationships_iff split: sum.splits)
      (metis Inl_Inr_False obj_sumE prod.collapse validateIssueRelationships_iff)
  also have "\<dots> \<longleftrightarrow> issuesValid h es \<and> acyclic ?R"
  proof (rule conj_cong [OF refl])
    assume v: "issuesValid h es"
    have "depEdges (fst ` set (issueVertices es)) (vertexParents (issueVertices es)) = ?R"
      unfolding depEdges_def issueVertices_ids using vertexParents_issue [OF assms] by auto
    then show "length (fst (kahn (issueVertices es))) = snd (kahn (issueVertices es)) \<longleftrightarrow> acyclic ?R"
      using kahn_correct(5) [OF issueVertices_wellFormed [OF v assms] prod.collapse [symmetric]] by simp
  qed
  finally show "is_ok (BuildIssueCatalog h es) \<longleftrightarrow> issuesValid h es \<and> acyclic ?R" .
qed

lemma catalogHeads:
  assumes "uniqueIDs es" "BuildIssueCatalog h es = Inr cat" "map_of (cat_Issues cat) r = Some view"
  shows "set (map ih_ID (iv_Heads view)) =
      {st_ID s | s. s \<in> set es \<and> isVertex s \<and> issueRootID s = r \<and> \<not> (\<exists>c \<in> set es. isVertex c \<and> st_ID s \<in> set (issueParents c))}"
    and "strictSorted (map ih_ID (iv_Heads view))" "iv_Heads view \<noteq> []"
    and "iv_Conflict view \<longleftrightarrow> 1 < length (iv_Heads view)" "iv_State view \<noteq> None \<longleftrightarrow> length (iv_Heads view) = 1"
proof -
  obtain os where os: "validateIssueRelationships h es = Inr os" using assms(2) by (auto simp: BuildIssueCatalog_def rbind_eq_Inr)
  note io = issueOrder [OF assms(1) os]
  have r: "r \<in> set (openingIDs os)" and view: "view = issueViewOf es os r"
    using BuildIssueCatalog_eq [OF assms(1) os] assms(2,3) by (auto simp: Let_def split: if_splits)
  let ?hs = "map headOf (filter (\<lambda>s. issueRootID s = r \<and> st_ID s \<notin> set (consumedBy os)) os)"
  have heads: "iv_Heads view = sort_key ih_ID ?hs" and st: "iv_State (historyView (consumedBy os) os r) = None"
    by (simp_all add: view issueViewOf_def finishView_def withComments_def historyView_def emptyView_def Let_def)
  have ids: "map ih_ID ?hs = map st_ID (filter (\<lambda>s. issueRootID s = r \<and> st_ID s \<notin> set (consumedBy os)) os)"
    by (simp add: headOf_def comp_def)
  have free: "st_ID s \<notin> set (consumedBy os) \<longleftrightarrow> \<not> (\<exists>c \<in> set es. isVertex c \<and> st_ID s \<in> set (issueParents c))" for s
    using io(3) by (auto simp: consumedBy_def issueParents_def)
  have "set (map ih_ID (iv_Heads view)) = set (map ih_ID ?hs)" by (simp add: heads image_image)
  also have "\<dots> = st_ID ` {s \<in> set os. issueRootID s = r \<and> st_ID s \<notin> set (consumedBy os)}" unfolding ids by simp
  finally show set: "set (map ih_ID (iv_Heads view)) =
      {st_ID s | s. s \<in> set es \<and> isVertex s \<and> issueRootID s = r \<and> \<not> (\<exists>c \<in> set es. isVertex c \<and> st_ID s \<in> set (issueParents c))}"
    unfolding io(3) free by blast
  have "distinct (map ih_ID ?hs)" unfolding ids using io(4) by (rule distinct_map_filter)
  moreover have "mset (map ih_ID (iv_Heads view)) = mset (map ih_ID ?hs)"
    unfolding heads mset_map mset_sort by (rule refl)
  ultimately have "distinct (map ih_ID (iv_Heads view))" using mset_eq_imp_distinct_iff by blast
  then show "strictSorted (map ih_ID (iv_Heads view))" by (simp add: heads strictSorted_iff strict_sorted_iff)
  obtain s where s: "s \<in> set es" "isVertex s" "issueRootID s = r"
    using r io(3) by (auto simp: openingIDs_def isOpening_root)
  then obtain t where "issue_history.isHead es t" "issueRootID t = r"
    using issue_history.reaches_head [OF assms(1) os, of s] by blast
  then have "st_ID t \<in> set (map ih_ID (iv_Heads view))" unfolding set by (auto simp: issue_history.isHead_def)
  then show "iv_Heads view \<noteq> []" by auto
  show "iv_Conflict view \<longleftrightarrow> 1 < length (iv_Heads view)" "iv_State view \<noteq> None \<longleftrightarrow> length (iv_Heads view) = 1"
    using st by (simp_all add: view issueViewOf_def finishView_def withComments_def Let_def)
qed

text \<open>
  C13. The heads of an issue are the maximal revisions of its lineage: exactly the openings and revisions
  under its root that no other revision names as a parent.  An issue in the catalog always has a head,
  it is in conflict exactly when it has several, and it has a state exactly when it has one.
\<close>

theorem BuildIssueCatalog_heads:
  assumes "uniqueIDs es" "BuildIssueCatalog h es = Inr cat" "map_of (cat_Issues cat) r = Some view"
  shows "set (map ih_ID (iv_Heads view)) =
      {st_ID s | s. s \<in> set es \<and> isVertex s \<and> issueRootID s = r \<and> \<not> (\<exists>c \<in> set es. isVertex c \<and> st_ID s \<in> set (issueParents c))} \<and>
    strictSorted (map ih_ID (iv_Heads view)) \<and> iv_Heads view \<noteq> [] \<and>
    (iv_Conflict view \<longleftrightarrow> 1 < length (iv_Heads view)) \<and> (iv_State view \<noteq> None \<longleftrightarrow> length (iv_Heads view) = 1)"
  by (intro conjI catalogHeads [OF assms])

text \<open>
  C14. The catalog does not depend on the order in which the facts were read: issues, views, comments,
  graph and cycles are the same for every order.
\<close>

theorem BuildIssueCatalog_order_independent:
  assumes "uniqueIDs es" "set es = set es'" "BuildIssueCatalog h es = Inr cat"
  shows "\<exists>cat'. BuildIssueCatalog h es' = Inr cat' \<and> map_of (cat_Issues cat') = map_of (cat_Issues cat) \<and>
     cat_IDs cat' = cat_IDs cat \<and> cat_Graph cat' = cat_Graph cat \<and> cat_Cycles cat' = cat_Cycles cat"
proof -
  have u': "uniqueIDs es'" using assms(1,2) by (simp add: uniqueIDs_def)
  obtain os where os: "validateIssueRelationships h es = Inr os" using assms(3) by (auto simp: BuildIssueCatalog_def rbind_eq_Inr)
  then have os': "validateIssueRelationships h es' = Inr os" by (rule issueOrder_unique [OF assms(1,2)])
  have views: "issueViewOf es os = issueViewOf es' os"
  proof
    fix r
    let ?c = "commentsOf [] es r" and ?c' = "commentsOf [] es' r"
    have "set ?c = set ?c'" using assms(1,2) u' by (simp add: commentsOf_set uniqueIDs_def)
    moreover have "distinct ?c" "distinct ?c'" using commentsOf_distinct [of "[]"] by (simp_all add: distinct_map)
    ultimately have "mset ?c = mset ?c'" by (metis set_eq_iff_mset_eq_distinct)
    moreover have "inj_on (\<lambda>s. (ev_Timestamp (st_Event s), st_ID s)) (set ?c)"
      using commentsOf_distinct [of "[]" es r] by (auto simp: inj_on_def distinct_map)
    ultimately have "sort_key (\<lambda>s. (ev_Timestamp (st_Event s), st_ID s)) ?c = sort_key (\<lambda>s. (ev_Timestamp (st_Event s), st_ID s)) ?c'"
      by (rule sort_key_perm)
    then show "issueViewOf es os r = issueViewOf es' os r"
      by (simp add: issueViewOf_def finishView_def withComments_def historyView_def emptyView_def Let_def)
  qed
  show ?thesis
    using BuildIssueCatalog_eq [OF assms(1) os, unfolded views] BuildIssueCatalog_eq [OF u' os'] assms(3) by (auto simp: Let_def)
qed

section \<open>Concrete instances\<close>

text \<open>An issue with two concurrent revisions.\<close>

definition sampleOpening :: "char \<Rightarrow> StoredEvent" where
  "sampleOpening c = (sampleFact (sampleID c) ''issue.open'' ''ann'' 1 [] [])\<lparr>st_Event :=
     zeroEvent\<lparr>ev_Kind := ''issue.open'', ev_Actor := ''ann'', ev_Title := ''bug''\<rparr>\<rparr>"

definition sampleChange :: "char \<Rightarrow> char \<Rightarrow> StoredEvent" where
  "sampleChange c parent = (sampleFact (sampleID c) ''issue.revise'' ''bob'' 1 [] (sampleID CHR ''a''))\<lparr>st_Event :=
     zeroEvent\<lparr>ev_Kind := ''issue.revise'', ev_Actor := ''bob'', ev_Subject := sampleID CHR ''a'', ev_Intent := ''revise'',
       ev_Issue := Some sampleIssue, ev_Parents := Some [sampleID parent]\<rparr>\<rparr>"

definition sampleHistory :: "StoredEvent list" where
  "sampleHistory = [sampleChange CHR ''d'' CHR ''a'', sampleOpening CHR ''a'', sampleChange CHR ''c'' CHR ''a'']"

definition sampleCatalog :: IssueCatalog where
  "sampleCatalog = (case BuildIssueCatalog sampleHost sampleHistory of Inr cat \<Rightarrow> cat
     | Inl _ \<Rightarrow> \<lparr>cat_Issues = [], cat_IDs = [], cat_Graph = [], cat_Cycles = []\<rparr>)"

lemma sampleHistory_heads: "case BuildIssueCatalog sampleHost sampleHistory of Inl _ \<Rightarrow> False
    | Inr cat \<Rightarrow> map_option (\<lambda>v. map ih_ID (iv_Heads v)) (map_of (cat_Issues cat) (sampleID CHR ''a'')) =
        Some [sampleID CHR ''c'', sampleID CHR ''d'']"
  by code_simp

lemma sampleHistory_unique: "uniqueIDs sampleHistory"
  unfolding uniqueIDs_def by code_simp

lemma sampleCatalog: "BuildIssueCatalog sampleHost sampleHistory = Inr sampleCatalog"
  using sampleHistory_heads by (auto simp: sampleCatalog_def split: sum.splits)

theorem BuildIssueCatalog_succeeds_iff_witness:
  "is_ok (BuildIssueCatalog sampleHost sampleHistory) \<and> BuildIssueCatalog sampleHost sampleHistory \<noteq> Inl Panic \<and> issuesValid sampleHost sampleHistory \<and>
   acyclic {(p, st_ID c) | p c. c \<in> set sampleHistory \<and> isVertex c \<and> p \<in> set (issueParents c)}"
  using BuildIssueCatalog_succeeds_iff [OF sampleHistory_unique, of sampleHost] sampleCatalog by simp

theorem BuildIssueCatalog_heads_witness:
  "\<exists>view. map_of (cat_Issues sampleCatalog) (sampleID CHR ''a'') = Some view \<and>
     map ih_ID (iv_Heads view) = [sampleID CHR ''c'', sampleID CHR ''d''] \<and> iv_Conflict view \<and> iv_State view = None"
proof -
  obtain view where v: "map_of (cat_Issues sampleCatalog) (sampleID CHR ''a'') = Some view"
    "map ih_ID (iv_Heads view) = [sampleID CHR ''c'', sampleID CHR ''d'']"
    using sampleHistory_heads by (auto simp: sampleCatalog)
  then have "length (iv_Heads view) = 2" by (metis length_map One_nat_def Suc_1 list.size(3,4) plus_1_eq_Suc add.commute)
  then show ?thesis using v BuildIssueCatalog_heads [OF sampleHistory_unique sampleCatalog v(1)] by auto
qed

theorem BuildIssueCatalog_order_independent_witness:
  "\<exists>cat'. BuildIssueCatalog sampleHost (rev sampleHistory) = Inr cat' \<and> cat_Graph cat' = cat_Graph sampleCatalog"
  using BuildIssueCatalog_order_independent [OF sampleHistory_unique, of "rev sampleHistory" sampleHost sampleCatalog] sampleCatalog by auto

end
