(* ===== verification/HN_Contribution.thy ===== *)
theory HN_Contribution
  imports HN_Content
begin

text \<open>
  Contribution records (\<open>src/internal/contribution/record.go\<close>): signed submissions, moderation decisions and
  intake receipts, their validation, and the envelopes that carry them.  The costs that a receipt binds
  are those of \<open>src/internal/contribution/policy.go\<close>; a Go \<open>int64\<close> is a \<^typ>\<open>64 word\<close> read by \<^const>\<open>sint\<close>.
\<close>

section \<open>Constants\<close>

definition contributionVersion :: string where "contributionVersion = ''hn.contribution/1''"
definition MaxRecordBytes :: nat where "MaxRecordBytes = 65536"
definition MaxLinks :: nat where "MaxLinks = 64"
definition MaxGraphRecords :: nat where "MaxGraphRecords = 16384"
definition LedgerEntryBytes :: "64 word" where "LedgerEntryBytes = 4096"
definition maxInt64 :: "64 word" where "maxInt64 = 9223372036854775807"

section \<open>Data\<close>

record Target =
  tg_Kind :: string
  tg_ID :: string

record AuthorityRef =
  ar_Commit :: string
  ar_Digest :: string

record Reference =
  rf_Kind :: string
  rf_ID :: string

record Content =
  ct_Root :: string
  ct_Revision :: string
  ct_Author :: string
  ct_Parents :: "string slice"
  ct_References :: "Reference slice"

record Submission =
  sb_Operation :: string
  sb_Content :: Content

record Decision =
  dc_Action :: string
  dc_Target :: Target
  dc_Authority :: AuthorityRef
  dc_Parents :: "string slice"

record Cost =
  co_WireBytes :: "64 word"
  co_DecodedBytes :: "64 word"
  co_Objects :: "64 word"
  co_Events :: "64 word"
  co_Depth :: "64 word"
  co_Milliseconds :: "64 word"

record Receipt =
  rc_Submission :: string
  rc_Authority :: AuthorityRef
  rc_Artifact :: string
  rc_Accounting :: string
  rc_Window :: string
  rc_Cost :: Cost
  rc_Automatic :: bool
  rc_Evaluated :: "string slice"

record Record =
  re_Version :: string
  re_Kind :: string
  re_Project :: string
  re_Actor :: string
  re_PublicKey :: string
  re_Intent :: string
  re_Submission :: "Submission option"
  re_Decision :: "Decision option"
  re_Receipt :: "Receipt option"

record Envelope =
  en_Payload :: string
  en_Signature :: string

record Verified =
  vf_payload :: string
  vf_signature :: string
  vf_id :: string

section \<open>Operations\<close>

definition contentOperation :: "string \<Rightarrow> bool" where
  "contentOperation op \<longleftrightarrow> op \<in> {''issue.create'', ''issue.reply'', ''issue.edit'', ''discussion.create'', ''discussion.reply'',
     ''discussion.edit'', ''proposal.create'', ''proposal.revise'', ''project.create'', ''project.edit'',
     ''project-item.create'', ''project-item.edit'', ''workflow.create'', ''workflow.edit''}"

definition authorOperation :: "string \<Rightarrow> bool" where
  "authorOperation op \<longleftrightarrow> op \<in> {''issue.edit'', ''discussion.edit'', ''proposal.revise'', ''project.edit'',
     ''project-item.edit'', ''workflow.edit''}"

section \<open>Validation\<close>

definition hexByte :: "char \<Rightarrow> bool" where
  "hexByte c \<longleftrightarrow> (48 \<le> byte c \<and> byte c \<le> 57) \<or> (97 \<le> byte c \<and> byte c \<le> 102)"

text \<open>
  The loop of \<open>validHex\<close> runs over runes; only ASCII passes it, so it is a loop over bytes (see
  \<open>validHex_runes\<close> below).
\<close>

definition validHex :: "string \<Rightarrow> nat \<Rightarrow> bool" where
  "validHex s n \<longleftrightarrow> length s = n \<and> list_all hexByte s"

definition validID :: "string \<Rightarrow> bool" where
  "validID s \<longleftrightarrow> hasPrefix s ''sha256:'' \<and> validHex (drop 7 s) 64"

definition validActor :: "string \<Rightarrow> bool" where
  "validActor s \<longleftrightarrow> validHex s 64"

definition validOID :: "string \<Rightarrow> bool" where
  "validOID s \<longleftrightarrow> validHex s 40 \<or> validHex s 64"

definition boundedText :: "string \<Rightarrow> nat \<Rightarrow> bool" where
  "boundedText s n \<longleftrightarrow> s \<noteq> [] \<and> length s \<le> n \<and> validUtf8 s \<and> \<not> list_ex (\<lambda>(r, _). r < 32 \<or> r = 127) (runes s)"

text \<open>The loops of \<open>validIDs\<close> and \<open>validActors\<close>: every element is valid and above the one before it.\<close>

fun increasing :: "('a::linorder \<Rightarrow> bool) \<Rightarrow> 'a option \<Rightarrow> 'a list \<Rightarrow> bool" where
  "increasing valid prior [] = True"
| "increasing valid prior (x # xs) =
     (if \<not> valid x \<or> (case prior of None \<Rightarrow> False | Some p \<Rightarrow> p \<ge> x) then False else increasing valid (Some x) xs)"

definition validIDs :: "string list \<Rightarrow> nat \<Rightarrow> bool" where
  "validIDs ids n \<longleftrightarrow> length ids \<le> n \<and> increasing validID None ids"

definition validActors :: "string list \<Rightarrow> nat \<Rightarrow> bool" where
  "validActors ids n \<longleftrightarrow> length ids \<le> n \<and> increasing validActor None ids"

definition referenceKey :: "Reference \<Rightarrow> string" where
  "referenceKey r = rf_Kind r @ '':'' @ rf_ID r"

definition SortReferences :: "Reference list \<Rightarrow> Reference list" where
  "SortReferences refs = sort_key referenceKey refs"

definition referenceIDs :: "Reference list \<Rightarrow> string list" where
  "referenceIDs refs = map rf_ID refs"

fun referencesFrom :: "string \<Rightarrow> Reference list \<Rightarrow> bool" where
  "referencesFrom prior [] = True"
| "referencesFrom prior (r # rs) =
     (if (rf_Kind r \<noteq> ''root'' \<and> rf_Kind r \<noteq> ''revision'') \<or> \<not> validID (rf_ID r) \<or> referenceKey r \<le> prior then False
      else referencesFrom (referenceKey r) rs)"

definition validReferences :: "Reference list \<Rightarrow> bool" where
  "validReferences refs \<longleftrightarrow> length refs \<le> MaxLinks \<and> referencesFrom [] refs"

definition errAuthority :: "'a result" where
  "errAuthority = errorf ''invalid, stale or unestablished authority'' []"

definition validateAuthorityRef :: "AuthorityRef \<Rightarrow> unit result" where
  "validateAuthorityRef r = (if \<not> validOID (ar_Commit r) \<or> \<not> validID (ar_Digest r) then errAuthority else Inr ())"

text \<open>What a content depends on directly: its parents and the identifiers of its references.\<close>

definition contentLinks :: "Content \<Rightarrow> string list" where
  "contentLinks c = elems (ct_Parents c) @ referenceIDs (elems (ct_References c))"

definition validateContent :: "Content \<Rightarrow> unit result" where
  "validateContent c =
     (if \<not> validID (ct_Root c) \<or> \<not> validID (ct_Revision c) \<or> \<not> validActor (ct_Author c) \<or>
         \<not> validIDs (elems (ct_Parents c)) MaxLinks \<or> \<not> validReferences (elems (ct_References c))
      then errorf ''invalid exact content binding'' []
      else forEach (\<lambda>i. if i = ct_Revision c then errorf ''self-referencing content'' [] else Inr ()) (contentLinks c))"

definition validateTarget :: "Target \<Rightarrow> unit result" where
  "validateTarget t =
     (if (tg_Kind t = ''submission'' \<or> tg_Kind t = ''revision'') \<and> validID (tg_ID t) then Inr ()
      else if tg_Kind t = ''actor'' \<and> validActor (tg_ID t) then Inr ()
      else errorf ''invalid typed target'' [])"

definition validateDecision :: "Decision \<Rightarrow> unit result" where
  "validateDecision d =
     rbind (validateTarget (dc_Target d)) (\<lambda>_.
     rbind (validateAuthorityRef (dc_Authority d)) (\<lambda>_.
     if \<not> validIDs (elems (dc_Parents d)) MaxLinks then errorf ''invalid decision parents'' []
     else if (dc_Action d = ''admit'' \<or> dc_Action d = ''reject'') \<and> tg_Kind (dc_Target d) = ''submission'' then Inr ()
     else if (dc_Action d = ''hide'' \<or> dc_Action d = ''restore'') \<and> tg_Kind (dc_Target d) = ''revision'' then Inr ()
     else if (dc_Action d = ''block'' \<or> dc_Action d = ''unblock'') \<and> tg_Kind (dc_Target d) = ''actor'' then Inr ()
     else errorf ''action does not match typed target'' []))"

definition validateCost :: "Cost \<Rightarrow> unit result" where
  "validateCost c =
     (if sint (co_WireBytes c) \<le> 0 \<or> sint (co_DecodedBytes c) \<le> 0 \<or> sint (co_Objects c) \<le> 0 \<or> sint (co_Events c) \<le> 0 \<or>
         sint (co_Depth c) \<le> 0 \<or> sint (co_Milliseconds c) \<le> 0 \<or>
         sint (co_WireBytes c) > sint (maxInt64 - co_DecodedBytes c - LedgerEntryBytes)
      then errorf ''invalid finite request cost'' [] else Inr ())"

section \<open>Base64 encoding\<close>

definition base64Char :: "nat \<Rightarrow> char" where
  "base64Char n = char_of (if n < 26 then n + 65 else if n < 52 then n - 26 + 97 else if n < 62 then n - 52 + 48
     else if n = 62 then 43 else 47)"

text \<open>\<open>base64.RawStdEncoding.EncodeToString\<close>.\<close>

fun base64Encode :: "string \<Rightarrow> string" where
  "base64Encode [] = []"
| "base64Encode [a] = map base64Char [byte a div 4, byte a mod 4 * 16]"
| "base64Encode [a, b] = map base64Char [byte a div 4, byte a mod 4 * 16 + byte b div 16, byte b mod 16 * 4]"
| "base64Encode (a # b # c # r) = map base64Char [byte a div 4, byte a mod 4 * 16 + byte b div 16,
     byte b mod 16 * 4 + byte c div 64, byte c mod 64] @ base64Encode r"

section \<open>Records\<close>

definition Digest :: "host \<Rightarrow> string \<Rightarrow> string" where
  "Digest h b = ''sha256:'' @ hexEncodeToString (sha256 h b)"

definition ActorOf :: "host \<Rightarrow> string \<Rightarrow> string" where
  "ActorOf h k = hexEncodeToString (sha256 h k)"

text \<open>An Ed25519 private key holds its seed and its public key.\<close>

definition PublicKey :: "string \<Rightarrow> string" where
  "PublicKey k = (if length k \<noteq> 64 then [] else base64Encode (drop 32 k))"

definition checkReceipt :: "Receipt \<Rightarrow> unit result" where
  "checkReceipt x =
     (if \<not> validID (rc_Submission x) \<or> \<not> validID (rc_Artifact x) \<or> \<not> validID (rc_Accounting x) \<or>
         \<not> boundedText (rc_Window x) 128 \<or> \<not> validIDs (elems (rc_Evaluated x)) MaxLinks
      then errorf ''invalid intake receipt binding'' []
      else rbind (validateAuthorityRef (rc_Authority x)) (\<lambda>_. validateCost (rc_Cost x)))"

definition checkShape :: "Record \<Rightarrow> unit result" where
  "checkShape r =
     (if re_Kind r = ''submission'' then
        (case re_Submission r of
           None \<Rightarrow> errorf ''invalid submission shape'' []
         | Some s \<Rightarrow>
             if re_Decision r \<noteq> None \<or> re_Receipt r \<noteq> None \<or> \<not> contentOperation (sb_Operation s)
             then errorf ''invalid submission shape'' [] else validateContent (sb_Content s))
      else if re_Kind r = ''decision'' then
        (case re_Decision r of
           None \<Rightarrow> errorf ''invalid decision shape'' []
         | Some d \<Rightarrow>
             if re_Submission r \<noteq> None \<or> re_Receipt r \<noteq> None then errorf ''invalid decision shape'' [] else validateDecision d)
      else if re_Kind r = ''receipt'' then
        (case re_Receipt r of
           None \<Rightarrow> errorf ''invalid receipt shape'' []
         | Some x \<Rightarrow>
             if re_Submission r \<noteq> None \<or> re_Decision r \<noteq> None then errorf ''invalid receipt shape'' [] else checkReceipt x)
      else errorf ''unsupported contribution kind'' [])"

definition validateRecord :: "host \<Rightarrow> Record \<Rightarrow> unit result" where
  "validateRecord h r =
     (if re_Version r \<noteq> contributionVersion \<or> \<not> validID (re_Project r) \<or> \<not> validActor (re_Actor r) \<or> \<not> boundedText (re_Intent r) 128
      then errorf ''invalid contribution envelope'' []
      else case base64Decode (re_PublicKey r) of
             None \<Rightarrow> errorf ''actor does not match native public key'' []
           | Some public \<Rightarrow>
               if length public \<noteq> 32 \<or> base64Encode public \<noteq> re_PublicKey r \<or> ActorOf h public \<noteq> re_Actor r
               then errorf ''actor does not match native public key'' []
               else checkShape r)"

subsection \<open>Canonical text\<close>

definition jsonTarget' :: "Target \<Rightarrow> json" where
  "jsonTarget' t = JObj [(''kind'', JStr (tg_Kind t)), (''id'', JStr (tg_ID t))]"

definition jsonAuthorityRef :: "AuthorityRef \<Rightarrow> json" where
  "jsonAuthorityRef r = JObj [(''commit'', JStr (ar_Commit r)), (''digest'', JStr (ar_Digest r))]"

definition jsonContent :: "Content \<Rightarrow> json" where
  "jsonContent c = JObj [(''root'', JStr (ct_Root c)), (''revision'', JStr (ct_Revision c)), (''author'', JStr (ct_Author c)),
     (''parents'', jsonSlice JStr (ct_Parents c)),
     (''references'', jsonSlice (\<lambda>r. JObj [(''kind'', JStr (rf_Kind r)), (''id'', JStr (rf_ID r))]) (ct_References c))]"

definition jsonCost :: "Cost \<Rightarrow> json" where
  "jsonCost c = JObj [(''wireBytes'', JInt (sint (co_WireBytes c))), (''decodedBytes'', JInt (sint (co_DecodedBytes c))),
     (''objects'', JInt (sint (co_Objects c))), (''events'', JInt (sint (co_Events c))), (''depth'', JInt (sint (co_Depth c))),
     (''milliseconds'', JInt (sint (co_Milliseconds c)))]"

definition jsonSubmission :: "Submission \<Rightarrow> json" where
  "jsonSubmission s = JObj [(''operation'', JStr (sb_Operation s)), (''content'', jsonContent (sb_Content s))]"

definition jsonDecision :: "Decision \<Rightarrow> json" where
  "jsonDecision d = JObj [(''action'', JStr (dc_Action d)), (''target'', jsonTarget' (dc_Target d)),
     (''authority'', jsonAuthorityRef (dc_Authority d)), (''parents'', jsonSlice JStr (dc_Parents d))]"

definition jsonReceipt :: "Receipt \<Rightarrow> json" where
  "jsonReceipt x = JObj [(''submission'', JStr (rc_Submission x)), (''authority'', jsonAuthorityRef (rc_Authority x)),
     (''artifact'', JStr (rc_Artifact x)), (''accounting'', JStr (rc_Accounting x)), (''window'', JStr (rc_Window x)),
     (''cost'', jsonCost (rc_Cost x)), (''automatic'', JBool (rc_Automatic x)), (''evaluated'', jsonSlice JStr (rc_Evaluated x))]"

definition jsonRecord :: "Record \<Rightarrow> json" where
  "jsonRecord r = JObj ([(''version'', JStr (re_Version r)), (''kind'', JStr (re_Kind r)), (''project'', JStr (re_Project r)),
     (''actor'', JStr (re_Actor r)), (''publicKey'', JStr (re_PublicKey r)), (''intent'', JStr (re_Intent r))] @
     omitPtr ''submission'' jsonSubmission (re_Submission r) @ omitPtr ''decision'' jsonDecision (re_Decision r) @
     omitPtr ''receipt'' jsonReceipt (re_Receipt r))"

section \<open>Envelopes\<close>

text \<open>
  \<open>newKeyFromSeed\<close> stands for \<open>ed25519.NewKeyFromSeed\<close> and \<open>decode\<close> for the strict decoder (\<open>json.Decoder\<close> with
  \<open>DisallowUnknownFields\<close>); both are arguments.
\<close>

definition Sign :: "host \<Rightarrow> (string \<Rightarrow> string) \<Rightarrow> Record \<Rightarrow> string \<Rightarrow> Envelope result" where
  "Sign h newKeyFromSeed r key =
     rbind (validateRecord h r) (\<lambda>_.
     if length key \<noteq> 64 \<or> PublicKey key \<noteq> re_PublicKey r then errorf ''signer mismatch'' []
     else if newKeyFromSeed (take 32 key) \<noteq> key then errorf ''invalid private key'' []
     else let payload = marshal (jsonRecord r) in
       if length payload > MaxRecordBytes then errorf ''envelope exceeds format bound'' []
       else Inr \<lparr>en_Payload = payload, en_Signature = ed25519Sign h key payload\<rparr>)"

definition Verify :: "host \<Rightarrow> (string \<Rightarrow> Record result) \<Rightarrow> string \<Rightarrow> string \<Rightarrow> Verified result" where
  "Verify h decode payload signature =
     (if length payload = 0 \<or> length payload > MaxRecordBytes \<or> \<not> validUtf8 payload \<or> length signature \<noteq> 64
      then errorf ''invalid envelope size/encoding'' []
      else rbind (decode payload) (\<lambda>r.
        if marshal (jsonRecord r) \<noteq> payload then errorf ''noncanonical, duplicate or trailing envelope fields'' []
        else rbind (validateRecord h r) (\<lambda>_.
          let public = (case base64Decode (re_PublicKey r) of None \<Rightarrow> [] | Some b \<Rightarrow> b) in
          if \<not> ed25519Verify h public payload signature then errorf ''invalid contribution signature'' []
          else Inr \<lparr>vf_payload = payload, vf_signature = signature, vf_id = Digest h payload\<rparr>)))"

section \<open>Lemmas\<close>

text \<open>The loop of \<open>validHex\<close> over the runes of a string.\<close>

lemma validHex_runes:
  "validHex s n \<longleftrightarrow> length s = n \<and> list_all (\<lambda>(r, _). (48 \<le> r \<and> r \<le> 57) \<or> (97 \<le> r \<and> r \<le> 102)) (runes s)"
proof -
  have "list_all hexByte s \<longleftrightarrow> list_all (\<lambda>(r, _). (48 \<le> r \<and> r \<le> 57) \<or> (97 \<le> r \<and> r \<le> 102)) (runes s)"
  proof (induction s rule: runes.induct)
    case (1 s)
    show ?case
    proof (cases s)
      case Nil
      then show ?thesis by (simp add: runes.simps)
    next
      case (Cons a t)
      obtain r w where d: "decodeRune s = (r, w)" by fastforce
      have un: "runes s = (r, take w s) # runes (drop w s)" using d Cons by (subst runes.simps) simp
      show ?thesis
      proof (cases "byte a < 128")
        case True
        then have "r = byte a" "w = 1" using d Cons by (auto simp: decodeRune_def)
        then show ?thesis using 1 d Cons un by (auto simp: hexByte_def)
      next
        case False
        then have "r \<ge> 128" using d Cons by (auto simp: decodeRune_def Let_def runeError_def isCont_def split: list.splits if_splits)
        then show ?thesis using Cons un False by (auto simp: hexByte_def)
      qed
    qed
  qed
  then show ?thesis by (simp add: validHex_def)
qed

lemma base64Value_Char: "n < 64 \<Longrightarrow> base64Value (base64Char n) = Some n"
  by (auto simp: base64Value_def base64Char_def byte_def Let_def)

lemma base64Char_printable: "n < 64 \<Longrightarrow> byte (base64Char n) \<noteq> 10 \<and> byte (base64Char n) \<noteq> 13"
  by (auto simp: base64Char_def byte_def)


fun sextets :: "string \<Rightarrow> nat list" where
  "sextets [] = []"
| "sextets [a] = [byte a div 4, byte a mod 4 * 16]"
| "sextets [a, b] = [byte a div 4, byte a mod 4 * 16 + byte b div 16, byte b mod 16 * 4]"
| "sextets (a # b # c # r) = [byte a div 4, byte a mod 4 * 16 + byte b div 16, byte b mod 16 * 4 + byte c div 64, byte c mod 64] @ sextets r"

lemma base64Encode_sextets: "base64Encode s = map base64Char (sextets s)"
  by (induction s rule: sextets.induct) simp_all

lemma sextet_bounds: "byte a div 4 < 64" "byte a mod 4 * 16 < 64" "byte a mod 16 * 4 < 64"
  "byte a mod 4 * 16 + byte b div 16 < 64" "byte b mod 16 * 4 + byte c div 64 < 64" "byte c mod 64 < 64"
  using byte_less [of a] byte_less [of b] byte_less [of c] by linarith+

lemma sextets_bound: "n \<in> set (sextets s) \<Longrightarrow> n < 64"
  by (induction s rule: sextets.induct) (auto simp: sextet_bounds)

lemma sextet_parts [simp]: "byte b div 16 div 16 = 0" "byte b div 16 mod 16 = byte b div 16" "byte c div 64 div 4 = 0"
  "byte c div 64 mod 4 = byte c div 64"
proof -
  have "byte b div 16 < 16" "byte c div 64 < 4" using byte_less [of b] byte_less [of c] by linarith+
  then show "byte b div 16 div 16 = 0" "byte b div 16 mod 16 = byte b div 16" "byte c div 64 div 4 = 0"
    "byte c div 64 mod 4 = byte c div 64" by simp_all
qed

lemma base64Groups_sextets: "base64Groups (sextets s) = Some s"
  by (induction s rule: sextets.induct) simp_all

lemma base64_roundtrip: "base64Decode (base64Encode s) = Some s"
proof -
  have "filter (\<lambda>c. byte c \<noteq> 10 \<and> byte c \<noteq> 13) (base64Encode s) = base64Encode s"
    using sextets_bound base64Char_printable by (auto simp: base64Encode_sextets intro!: filter_True)
  moreover have "map base64Value (base64Encode s) = map Some (sextets s)"
    using sextets_bound base64Value_Char by (auto simp: base64Encode_sextets)
  ultimately show ?thesis by (auto simp: base64Decode_def Let_def comp_def base64Groups_sextets)
qed

lemma validateRecord_key:
  assumes "validateRecord h r = Inr ()"
  obtains public where "base64Decode (re_PublicKey r) = Some public" "length public = 32" "base64Encode public = re_PublicKey r"
    "ActorOf h public = re_Actor r" "checkShape r = Inr ()"
  using assms by (auto simp: validateRecord_def split: option.splits)

lemma checkShape_kinds:
  assumes "checkShape r = Inr ()"
  shows "(re_Kind r = ''submission'' \<longleftrightarrow> re_Submission r \<noteq> None) \<and> (re_Kind r = ''decision'' \<longleftrightarrow> re_Decision r \<noteq> None) \<and>
    (re_Kind r = ''receipt'' \<longleftrightarrow> re_Receipt r \<noteq> None)"
  using assms by (auto simp: checkShape_def split: if_splits option.splits)

section \<open>Properties\<close>

text \<open>
  C19. An envelope that verifies is the canonical text of exactly one well-typed record: it has the one
  body that its kind names, it is signed by the key it carries, that key's fingerprint is its actor,
  and its identifier is the digest of its bytes.  Two verified envelopes with the same record have the
  same bytes and the same identifier.
\<close>

theorem Verify_sound:
  assumes "Verify h decode payload signature = Inr v"
  shows "\<exists>r public. decode payload = Inr r \<and> payload = marshal (jsonRecord r) \<and> validateRecord h r = Inr () \<and>
    (case (re_Submission r, re_Decision r, re_Receipt r) of
       (Some s, None, None) \<Rightarrow> re_Kind r = ''submission'' \<and> validateContent (sb_Content s) = Inr ()
     | (None, Some d, None) \<Rightarrow> re_Kind r = ''decision'' \<and> validateDecision d = Inr ()
     | (None, None, Some x) \<Rightarrow> re_Kind r = ''receipt'' \<and> validateCost (rc_Cost x) = Inr ()
     | _ \<Rightarrow> False) \<and>
    base64Decode (re_PublicKey r) = Some public \<and> ActorOf h public = re_Actor r \<and> ed25519Verify h public payload signature \<and>
    vf_id v = Digest h payload \<and> vf_payload v = payload"
proof -
  obtain r where r: "decode payload = Inr r" "marshal (jsonRecord r) = payload" "validateRecord h r = Inr ()"
    and sig: "ed25519Verify h (case base64Decode (re_PublicKey r) of None \<Rightarrow> [] | Some b \<Rightarrow> b) payload signature"
    and v: "v = \<lparr>vf_payload = payload, vf_signature = signature, vf_id = Digest h payload\<rparr>"
    using assms by (auto simp: Verify_def Let_def rbind_eq_Inr)
  obtain public where k: "base64Decode (re_PublicKey r) = Some public" "ActorOf h public = re_Actor r" "checkShape r = Inr ()"
    using validateRecord_key [OF r(3)] by metis
  have "case (re_Submission r, re_Decision r, re_Receipt r) of
       (Some s, None, None) \<Rightarrow> re_Kind r = ''submission'' \<and> validateContent (sb_Content s) = Inr ()
     | (None, Some d, None) \<Rightarrow> re_Kind r = ''decision'' \<and> validateDecision d = Inr ()
     | (None, None, Some x) \<Rightarrow> re_Kind r = ''receipt'' \<and> validateCost (rc_Cost x) = Inr ()
     | _ \<Rightarrow> False"
    using k(3) by (auto simp: checkShape_def checkReceipt_def rbind_unit_ok split: if_splits option.splits)
  then show ?thesis using r sig v k by auto
qed

text \<open>
  C20. A record that is signed with its own key comes back from verification: given a decoder that inverts
  the encoder and a signature scheme that accepts its own signatures, the envelope verifies and its
  identifier is the digest of the payload.
\<close>

theorem Sign_Verify_roundtrip:
  assumes "Sign h newKeyFromSeed r key = Inr env"
    and "decode (marshal (jsonRecord r)) = Inr r" "validUtf8 (marshal (jsonRecord r))"
    and "\<And>m. ed25519Verify h (drop 32 key) m (ed25519Sign h key m) \<and> length (ed25519Sign h key m) = 64"
  shows "Verify h decode (en_Payload env) (en_Signature env) =
    Inr \<lparr>vf_payload = en_Payload env, vf_signature = en_Signature env, vf_id = Digest h (en_Payload env)\<rparr>"
proof -
  let ?p = "marshal (jsonRecord r)"
  have v: "validateRecord h r = Inr ()" and k: "length key = 64" "PublicKey key = re_PublicKey r"
    and e: "env = \<lparr>en_Payload = ?p, en_Signature = ed25519Sign h key ?p\<rparr>" "length ?p \<le> MaxRecordBytes"
    using assms(1) by (auto simp: Sign_def rbind_eq_Inr Let_def)
  have "base64Decode (re_PublicKey r) = Some (drop 32 key)"
    unfolding k(2) [symmetric] using k(1) by (simp add: PublicKey_def base64_roundtrip)
  moreover have "?p \<noteq> []" by (simp add: jsonRecord_def)
  ultimately show ?thesis using v e assms(2-4) by (simp add: Verify_def)
qed

section \<open>Concrete instances\<close>

definition contributionHost :: host where
  "contributionHost = sampleHost\<lparr>ed25519Sign := (\<lambda>k m. replicate 64 CHR 0x00)\<rparr>"

definition sampleKey :: string where
  "sampleKey = replicate 64 CHR 0x00"

definition sampleRecord :: Record where
  "sampleRecord = \<lparr>re_Version = contributionVersion, re_Kind = ''decision'', re_Project = sampleID CHR ''1'', re_Actor = replicate 64 CHR ''1'',
     re_PublicKey = PublicKey sampleKey, re_Intent = ''i'', re_Submission = None,
     re_Decision = Some \<lparr>dc_Action = ''block'', dc_Target = \<lparr>tg_Kind = ''actor'', tg_ID = replicate 64 CHR ''2''\<rparr>,
       dc_Authority = \<lparr>ar_Commit = replicate 40 CHR ''c'', ar_Digest = sampleID CHR ''d''\<rparr>, dc_Parents = Some []\<rparr>, re_Receipt = None\<rparr>"

definition sampleSeedKey :: "string \<Rightarrow> string" where
  "sampleSeedKey seed = seed @ replicate 32 CHR 0x00"

lemma sampleRecord_text: "validUtf8 (marshal (jsonRecord sampleRecord))" "length (marshal (jsonRecord sampleRecord)) \<le> MaxRecordBytes"
  "validateRecord contributionHost sampleRecord = Inr ()"
  by code_simp+

lemma sampleSign_ok: "is_ok (Sign contributionHost sampleSeedKey sampleRecord sampleKey)" by code_simp

theorem Sign_Verify_roundtrip_witness:
  "\<exists>env v. Sign contributionHost sampleSeedKey sampleRecord sampleKey = Inr env \<and>
     Verify contributionHost (\<lambda>_. Inr sampleRecord) (en_Payload env) (en_Signature env) = Inr v \<and> vf_id v = Digest contributionHost (en_Payload env)"
proof -
  obtain env where e: "Sign contributionHost sampleSeedKey sampleRecord sampleKey = Inr env" using sampleSign_ok by (auto elim!: is_okE)
  show ?thesis
    using sampleRecord_text(1) e Sign_Verify_roundtrip [OF e, of "\<lambda>_. Inr sampleRecord"] by (simp add: contributionHost_def sampleHost_def)
qed

theorem Verify_sound_witness:
  "let p = marshal (jsonRecord sampleRecord); sg = replicate 64 CHR 0x00 in
   is_ok (Verify contributionHost (\<lambda>_. Inr sampleRecord) p sg) \<and>
   (\<exists>public. base64Decode (re_PublicKey sampleRecord) = Some public \<and> ActorOf contributionHost public = re_Actor sampleRecord)"
proof -
  let ?p = "marshal (jsonRecord sampleRecord)" and ?s = "replicate 64 CHR 0x00"
  have "?p \<noteq> []" by (simp add: jsonRecord_def)
  then have ok: "is_ok (Verify contributionHost (\<lambda>_. Inr sampleRecord) ?p ?s)"
    using sampleRecord_text by (simp add: Verify_def Let_def contributionHost_def sampleHost_def)
  then obtain v where v: "Verify contributionHost (\<lambda>_. Inr sampleRecord) ?p ?s = Inr v" by (rule is_okE)
  obtain r public where "(Inr sampleRecord :: Record result) = Inr r" "base64Decode (re_PublicKey r) = Some public"
    "ActorOf contributionHost public = re_Actor r" using Verify_sound [OF v] by blast
  moreover from this(1) have "r = sampleRecord" by (simp only: sum.inject)
  ultimately show ?thesis unfolding Let_def using ok by blast
qed

end
