(* ===== verification/HN_Ledger.thy ===== *)
theory HN_Ledger
  imports HN_Contribution
begin

text \<open>
  Contribution policy and intake accounting (\<open>src/internal/contribution/policy.go\<close>): which operation an actor may
  perform, and the ledger that charges every intake before its input is opened.  Amounts are \<open>int64\<close>
  values, so additions wrap unless the code checks them first.
\<close>

section \<open>Data\<close>

record Rule =
  ru_Operation :: string
  ru_Automatic :: bool
  ru_Actors :: "string slice"
  ru_AllowMaintainers :: bool

record Usage =
  us_Bytes :: "64 word"
  us_Objects :: "64 word"
  us_Events :: "64 word"
  us_Requests :: "64 word"

record Limits =
  lm_WireBytes :: "64 word"
  lm_DecodedBytes :: "64 word"
  lm_Objects :: "64 word"
  lm_Events :: "64 word"
  lm_Depth :: "64 word"
  lm_Milliseconds :: "64 word"
  lm_Window :: Usage
  lm_Retained :: Usage

record Policy =
  po_Project :: string
  po_Moderators :: "string slice"
  po_RevokedModerators :: "string slice"
  po_Rules :: "Rule slice"
  po_Baseline :: "string slice"
  po_Limits :: Limits

record Authority =
  at_Ref :: AuthorityRef
  at_Policy :: "Policy option"
  at_Maintainers :: "string slice"

record Request =
  rq_Operation :: string
  rq_Actor :: string
  rq_Author :: string
  rq_Verified :: bool
  rq_DependenciesAdmitted :: bool
  rq_Receipt :: bool
  rq_Manual :: bool
  rq_Moderator :: string

record Permission =
  pm_Allowed :: bool
  pm_Automatic :: bool
  pm_Legacy :: bool
  pm_RequiresNativeAuthority :: bool
  pm_Reason :: string

record Reservation =
  rv_Intent :: string
  rv_Artifact :: string
  rv_Cost :: Cost
  rv_Window :: string

record Ledger =
  ld_PriorWindows :: "string slice"
  ld_Project :: string
  ld_Window :: string
  ld_WindowUsed :: Usage
  ld_RetainedUsed :: Usage
  ld_Reservations :: "Reservation slice"

section \<open>Limits and usage\<close>

definition zeroUsage :: Usage where
  "zeroUsage = \<lparr>us_Bytes = 0, us_Objects = 0, us_Events = 0, us_Requests = 0\<rparr>"

definition DefaultLimits :: Limits where
  "DefaultLimits = \<lparr>lm_WireBytes = 16777216, lm_DecodedBytes = 33554432, lm_Objects = 4096, lm_Events = 2048, lm_Depth = 256,
     lm_Milliseconds = 30000,
     lm_Window = \<lparr>us_Bytes = 268435456, us_Objects = 32768, us_Events = 16384, us_Requests = 256\<rparr>,
     lm_Retained = \<lparr>us_Bytes = 1073741824, us_Objects = 131072, us_Events = 65536, us_Requests = 1024\<rparr>\<rparr>"

definition positive :: "Usage \<Rightarrow> bool" where
  "positive u \<longleftrightarrow> sint (us_Bytes u) > 0 \<and> sint (us_Objects u) > 0 \<and> sint (us_Events u) > 0 \<and> sint (us_Requests u) > 0"

definition nonnegative :: "Usage \<Rightarrow> bool" where
  "nonnegative u \<longleftrightarrow> sint (us_Bytes u) \<ge> 0 \<and> sint (us_Objects u) \<ge> 0 \<and> sint (us_Events u) \<ge> 0 \<and> sint (us_Requests u) \<ge> 0"

definition usageWithin :: "Usage \<Rightarrow> Usage \<Rightarrow> bool" where
  "usageWithin u m \<longleftrightarrow> nonnegative u \<and> sint (us_Bytes u) \<le> sint (us_Bytes m) \<and> sint (us_Objects u) \<le> sint (us_Objects m) \<and>
     sint (us_Events u) \<le> sint (us_Events m) \<and> sint (us_Requests u) \<le> sint (us_Requests m)"

definition validateLimits :: "Limits \<Rightarrow> unit result" where
  "validateLimits l =
     rbind (validateCost \<lparr>co_WireBytes = lm_WireBytes l, co_DecodedBytes = lm_DecodedBytes l, co_Objects = lm_Objects l,
       co_Events = lm_Events l, co_Depth = lm_Depth l, co_Milliseconds = lm_Milliseconds l\<rparr>) (\<lambda>_.
     if \<not> positive (lm_Window l) \<or> \<not> positive (lm_Retained l)
     then errorf ''project budgets must be positive finite limits'' [] else Inr ())"

definition costWithin :: "Cost \<Rightarrow> Limits \<Rightarrow> bool" where
  "costWithin c l \<longleftrightarrow> validateCost c = Inr () \<and> sint (co_WireBytes c) \<le> sint (lm_WireBytes l) \<and>
     sint (co_DecodedBytes c) \<le> sint (lm_DecodedBytes l) \<and> sint (co_Objects c) \<le> sint (lm_Objects l) \<and>
     sint (co_Events c) \<le> sint (lm_Events l) \<and> sint (co_Depth c) \<le> sint (lm_Depth l) \<and>
     sint (co_Milliseconds c) \<le> sint (lm_Milliseconds l)"

definition addUsage :: "Usage \<Rightarrow> Usage \<Rightarrow> Usage result" where
  "addUsage a b =
     (if \<not> nonnegative a \<or> \<not> nonnegative b \<or> sint (us_Bytes a) > sint (maxInt64 - us_Bytes b) \<or>
         sint (us_Objects a) > sint (maxInt64 - us_Objects b) \<or> sint (us_Events a) > sint (maxInt64 - us_Events b) \<or>
         sint (us_Requests a) > sint (maxInt64 - us_Requests b)
      then errorf ''accounting overflow'' []
      else Inr \<lparr>us_Bytes = us_Bytes a + us_Bytes b, us_Objects = us_Objects a + us_Objects b,
        us_Events = us_Events a + us_Events b, us_Requests = us_Requests a + us_Requests b\<rparr>)"

section \<open>Permissions\<close>

definition listed :: "string \<Rightarrow> string list \<Rightarrow> bool" where
  "listed s ss \<longleftrightarrow> list_ex (\<lambda>x. x = s) ss"

fun checkRules :: "string list \<Rightarrow> Rule list \<Rightarrow> unit result" where
  "checkRules seen [] = Inr ()"
| "checkRules seen (r # rs) =
     (if \<not> contentOperation (ru_Operation r) \<or> ru_Operation r \<in> set seen \<or> \<not> validActors (elems (ru_Actors r)) MaxLinks
      then errorf ''invalid or duplicate operation rule'' [] else checkRules (ru_Operation r # seen) rs)"

definition validateProjectPolicy :: "Policy \<Rightarrow> unit result" where
  "validateProjectPolicy p =
     (if \<not> validID (po_Project p) \<or> length (elems (po_Moderators p)) = 0 \<or> \<not> validActors (elems (po_Moderators p)) MaxLinks \<or>
         \<not> validActors (elems (po_RevokedModerators p)) MaxLinks \<or> \<not> validIDs (elems (po_Baseline p)) MaxGraphRecords \<or>
         length (elems (po_Rules p)) > 32
      then errorf ''invalid project policy'' []
      else rbind (checkRules [] (elems (po_Rules p))) (\<lambda>_. validateLimits (po_Limits p)))"

definition validateAuthority :: "Authority \<Rightarrow> unit result" where
  "validateAuthority a =
     (case at_Policy a of
        None \<Rightarrow> errorf ''contributions disabled'' []
      | Some p \<Rightarrow>
          rbind (validateAuthorityRef (at_Ref a)) (\<lambda>_.
          if length (elems (at_Maintainers a)) = 0 \<or> \<not> validActors (elems (at_Maintainers a)) MaxLinks then errAuthority
          else validateProjectPolicy p))"

definition zeroPermission :: Permission where
  "zeroPermission = \<lparr>pm_Allowed = False, pm_Automatic = False, pm_Legacy = False, pm_RequiresNativeAuthority = False, pm_Reason = []\<rparr>"

definition deny :: "string \<Rightarrow> Permission result" where
  "deny why = Inr (zeroPermission\<lparr>pm_Reason := why\<rparr>)"

definition nativeOperation :: "string \<Rightarrow> bool" where
  "nativeOperation op \<longleftrightarrow> op = ''native.review'' \<or> op = ''native.execute'' \<or> op = ''native.accept'' \<or> op = ''native.merge''"

text \<open>The loop over the rules: the first rule for the operation decides.\<close>

fun applyRules :: "string list \<Rightarrow> Request \<Rightarrow> Rule list \<Rightarrow> Permission result" where
  "applyRules maintainers r [] = deny ''no explicit operation rule''"
| "applyRules maintainers r (rule # rules) =
     (if ru_Operation rule \<noteq> rq_Operation r then applyRules maintainers r rules
      else let maintainer = ru_AllowMaintainers rule \<and> listed (rq_Actor r) maintainers in
        if length (elems (ru_Actors rule)) > 0 \<and> \<not> listed (rq_Actor r) (elems (ru_Actors rule)) \<and> \<not> maintainer
        then deny ''operation actor not permitted''
        else if authorOperation (rq_Operation r) \<and> rq_Actor r \<noteq> rq_Author r \<and> \<not> maintainer
        then deny ''original author required''
        else if \<not> ru_Automatic rule \<and> \<not> rq_Manual r
        then deny ''project moderator admission required''
        else Inr (zeroPermission\<lparr>pm_Allowed := True, pm_Automatic := ru_Automatic rule \<and> \<not> rq_Manual r\<rparr>))"

definition evaluatePolicy :: "Authority \<Rightarrow> Policy \<Rightarrow> Request \<Rightarrow> Permission result" where
  "evaluatePolicy a p r =
     rbind (validateAuthority a) (\<lambda>_.
     if nativeOperation (rq_Operation r)
     then Inr (zeroPermission\<lparr>pm_RequiresNativeAuthority := True, pm_Reason := ''existing native authority and evidence required''\<rparr>)
     else if rq_Operation r = ''moderate'' \<and> listed (rq_Actor r) (elems (po_RevokedModerators p))
     then deny ''actor explicitly revoked''
     else if rq_Operation r = ''moderate'' then
       (if \<not> listed (rq_Actor r) (elems (po_Moderators p)) then deny ''current moderator required''
        else Inr (zeroPermission\<lparr>pm_Allowed := True\<rparr>))
     else if \<not> rq_Verified r \<or> \<not> rq_DependenciesAdmitted r \<or> \<not> rq_Receipt r
     then deny ''authenticated content, admitted dependencies and durable intake receipt required''
     else if rq_Manual r \<and> (\<not> listed (rq_Moderator r) (elems (po_Moderators p)) \<or>
         listed (rq_Moderator r) (elems (po_RevokedModerators p)))
     then deny ''evaluated moderator required for manual admission''
     else applyRules (elems (at_Maintainers a)) r (elems (po_Rules p)))"

definition Evaluate :: "Authority \<Rightarrow> Request \<Rightarrow> Permission result" where
  "Evaluate a r =
     (if \<not> validActor (rq_Actor r) then deny ''invalid actor''
      else if rq_Operation r = ''prepare''
      then Inr (zeroPermission\<lparr>pm_Allowed := True, pm_Reason := ''local preparation grants no authority''\<rparr>)
      else if rq_Operation r = ''transport'' then
        (if \<not> rq_Verified r then deny ''native transport authentication required''
         else Inr (zeroPermission\<lparr>pm_Allowed := True\<rparr>))
      else if \<not> contentOperation (rq_Operation r) \<and> rq_Operation r \<noteq> ''moderate'' \<and> \<not> nativeOperation (rq_Operation r)
      then deny ''unsupported operation''
      else case at_Policy a of
             None \<Rightarrow> if rq_Operation r = ''moderate'' then deny ''contributions disabled''
                     else Inr (zeroPermission\<lparr>pm_Allowed := True, pm_Legacy := True,
                       pm_RequiresNativeAuthority := \<not> contentOperation (rq_Operation r)\<rparr>)
           | Some p \<Rightarrow> evaluatePolicy a p r)"

section \<open>The ledger\<close>

text \<open>\<open>append([]T(nil), xs...)\<close>: a copy, nil when there is nothing to copy.\<close>

definition cloneSlice :: "'a slice \<Rightarrow> 'a slice" where
  "cloneSlice s = (if elems s = [] then None else s)"

definition cloneLedger :: "Ledger \<Rightarrow> Ledger" where
  "cloneLedger l = l\<lparr>ld_Reservations := cloneSlice (ld_Reservations l), ld_PriorWindows := cloneSlice (ld_PriorWindows l)\<rparr>"

definition appendSlice :: "'a slice \<Rightarrow> 'a \<Rightarrow> 'a slice" where
  "appendSlice s x = Some (elems s @ [x])"

text \<open>What a reservation is charged.\<close>

definition delta :: "Cost \<Rightarrow> Usage" where
  "delta c = \<lparr>us_Bytes = co_WireBytes c + co_DecodedBytes c + LedgerEntryBytes, us_Objects = co_Objects c,
     us_Events = co_Events c, us_Requests = 1\<rparr>"

fun checkWindows :: "string list \<Rightarrow> string list \<Rightarrow> (string list) result" where
  "checkWindows windows [] = Inr windows"
| "checkWindows windows (w # ws) =
     (if \<not> boundedText w 128 \<or> w \<in> set windows then errorf ''invalid window history'' []
      else checkWindows (w # windows) ws)"

fun recount :: "string \<Rightarrow> string list \<Rightarrow> string list \<Rightarrow> Reservation list \<Rightarrow> Usage \<Rightarrow> Usage \<Rightarrow> (Usage \<times> Usage) result" where
  "recount current windows intents [] retained window = Inr (retained, window)"
| "recount current windows intents (r # rs) retained window =
     (if \<not> boundedText (rv_Intent r) 128 \<or> \<not> validID (rv_Artifact r) \<or> validateCost (rv_Cost r) \<noteq> Inr () \<or>
         rv_Window r \<notin> set windows \<or> rv_Intent r \<in> set intents
      then errorf ''invalid retained reservation'' []
      else rbind (addUsage retained (delta (rv_Cost r))) (\<lambda>retained'.
        rbind (if rv_Window r = current then addUsage window (delta (rv_Cost r)) else Inr window) (\<lambda>window'.
        recount current windows (rv_Intent r # intents) rs retained' window')))"

definition validateLedger :: "Ledger \<Rightarrow> unit result" where
  "validateLedger l =
     (if \<not> validID (ld_Project l) \<or> \<not> boundedText (ld_Window l) 128 \<or> length (elems (ld_Reservations l)) > MaxGraphRecords \<or>
         length (elems (ld_PriorWindows l)) > MaxGraphRecords \<or>
         length (elems (ld_PriorWindows l)) > length (elems (ld_Reservations l))
      then errorf ''invalid ledger'' []
      else rbind (checkWindows [ld_Window l] (elems (ld_PriorWindows l))) (\<lambda>windows.
        rbind (recount (ld_Window l) windows [] (elems (ld_Reservations l)) zeroUsage zeroUsage) (\<lambda>(retained, window).
        if retained \<noteq> ld_RetainedUsed l \<or> window \<noteq> ld_WindowUsed l
        then errorf ''ledger counters differ from retained reservations'' [] else Inr ())))"

text \<open>
  \<open>Reserve\<close> returns a replacement ledger and whether the call replays an earlier one; on an error the
  ledger it was given stays in force.
\<close>

definition Reserve :: "Ledger \<Rightarrow> Policy \<Rightarrow> string \<Rightarrow> string \<Rightarrow> Cost \<Rightarrow> (Ledger \<times> bool) result" where
  "Reserve l p intent artifact cost =
     rbind (validateProjectPolicy p) (\<lambda>_.
     if ld_Project l \<noteq> po_Project p \<or> \<not> boundedText (ld_Window l) 128 \<or> \<not> boundedText intent 128 \<or> \<not> validID artifact \<or>
        validateLedger l \<noteq> Inr ()
     then errorf ''invalid reservation or project scope'' []
     else if length (elems (ld_Reservations l)) > MaxGraphRecords then errorf ''retained reservation limit'' []
     else case find (\<lambda>r. rv_Intent r = intent) (elems (ld_Reservations l)) of
       Some r \<Rightarrow> if rv_Artifact r \<noteq> artifact \<or> rv_Cost r \<noteq> cost then errorf ''conflicting operation intent'' []
                 else Inr (cloneLedger l, True)
     | None \<Rightarrow>
         if \<not> costWithin cost (po_Limits p) then errorf ''request budget exceeded'' []
         else rbind (addUsage (ld_WindowUsed l) (delta cost)) (\<lambda>window.
           rbind (addUsage (ld_RetainedUsed l) (delta cost)) (\<lambda>retained.
           if \<not> usageWithin window (lm_Window (po_Limits p)) \<or> \<not> usageWithin retained (lm_Retained (po_Limits p)) \<or>
              length (elems (ld_Reservations l)) \<ge> MaxGraphRecords
           then errorf ''project intake budget exhausted'' []
           else let c = cloneLedger l in Inr (c\<lparr>ld_WindowUsed := window, ld_RetainedUsed := retained,
             ld_Reservations := appendSlice (ld_Reservations c)
               \<lparr>rv_Intent = intent, rv_Artifact = artifact, rv_Cost = cost, rv_Window = ld_Window l\<rparr>\<rparr>, False))))"

definition Rollover :: "Ledger \<Rightarrow> Policy \<Rightarrow> string \<Rightarrow> string \<Rightarrow> bool \<Rightarrow> Ledger result" where
  "Rollover l p expected nextWindow authorized =
     rbind (validateProjectPolicy p) (\<lambda>_.
     if \<not> authorized \<or> ld_Project l \<noteq> po_Project p \<or> ld_Window l \<noteq> expected \<or> \<not> boundedText nextWindow 128 \<or>
        nextWindow = expected \<or> listed nextWindow (elems (ld_PriorWindows l)) \<or> validateLedger l \<noteq> Inr ()
     then errAuthority
     else if \<not> list_ex (\<lambda>r. rv_Window r = ld_Window l) (elems (ld_Reservations l)) \<or>
        length (elems (ld_PriorWindows l)) \<ge> MaxGraphRecords
     then errorf ''cannot roll over an empty window'' []
     else let c = cloneLedger l in Inr (c\<lparr>ld_PriorWindows := appendSlice (ld_PriorWindows c) (ld_Window l),
       ld_Window := nextWindow, ld_WindowUsed := zeroUsage\<rparr>))"

lemma errAuthority_ok [simp]: "errAuthority \<noteq> Inr x" "(if b then errAuthority else r) = Inr x \<longleftrightarrow> \<not> b \<and> r = Inr x"
  by (simp_all add: errAuthority_def)

section \<open>Arithmetic at 64 bits\<close>

lemma sint64_range: "- (2 ^ 63) \<le> sint (w :: 64 word)" "sint (w :: 64 word) < 2 ^ 63"
  using sint_ge [of w] sint_lt [of w] by simp_all

lemma sint64_of_int: "- (2 ^ 63) \<le> k \<Longrightarrow> k < 2 ^ 63 \<Longrightarrow> sint (word_of_int k :: 64 word) = k"
  by (simp add: sint_sbintrunc' signed_take_bit_int_eq_self)

lemma sint_maxInt64: "sint maxInt64 = 2 ^ 63 - 1"
  by (simp add: maxInt64_def)

lemma sint64_diff:
  assumes "- (2 ^ 63) \<le> sint a - sint b" "sint a - sint b < 2 ^ 63"
  shows "sint (a - b :: 64 word) = sint a - sint b"
proof -
  have "a - b = word_of_int (sint a - sint b)" by simp
  then show ?thesis using sint64_of_int [OF assms] by simp
qed

lemma sint64_add:
  assumes "- (2 ^ 63) \<le> sint a + sint b" "sint a + sint b < 2 ^ 63"
  shows "sint (a + b :: 64 word) = sint a + sint b"
proof -
  have "a + b = word_of_int (sint a + sint b)" by simp
  then show ?thesis using sint64_of_int [OF assms] by simp
qed

text \<open>The guard \<open>a > math.MaxInt64 - b\<close> is exactly the overflow of \<open>a + b\<close>.\<close>

lemma addGuard:
  assumes "0 \<le> sint b"
  shows "sint a \<le> sint (maxInt64 - b) \<longleftrightarrow> sint a + sint b < 2 ^ 63"
  using sint64_diff [of maxInt64 b] assms sint64_range [of b] by (simp add: sint_maxInt64) linarith

lemma sint64_eq_iff: "sint (a :: 64 word) = sint b \<longleftrightarrow> a = b"
  using signed_word_eqI by blast

lemma checkedAdd:
  assumes "0 \<le> sint a" "0 \<le> sint b"
  shows "\<not> sint a > sint (maxInt64 - b) \<and> a + b = c \<longleftrightarrow> sint c = sint a + sint b"
  unfolding not_less addGuard [OF assms(2)]
  using sint64_add [of a b] sint64_range(2) [of c] assms sint64_eq_iff [of "a + b" c] by auto

section \<open>Usage as unbounded amounts\<close>

text \<open>The four counters of a usage, read as integers.\<close>

definition amounts :: "(Usage \<Rightarrow> int) set" where
  "amounts = {\<lambda>u. sint (us_Bytes u), \<lambda>u. sint (us_Objects u), \<lambda>u. sint (us_Events u), \<lambda>u. sint (us_Requests u)}"

lemma nonnegative_iff: "nonnegative u \<longleftrightarrow> (\<forall>f \<in> amounts. 0 \<le> f u)"
  by (auto simp: nonnegative_def amounts_def)

lemma usageWithin_iff: "usageWithin u m \<longleftrightarrow> nonnegative u \<and> (\<forall>f \<in> amounts. f u \<le> f m)"
  by (auto simp: usageWithin_def amounts_def)

lemma usage_eq_iff: "u = v \<longleftrightarrow> (\<forall>f \<in> amounts. f u = f v)"
  by (cases u; cases v) (auto simp: amounts_def sint64_eq_iff)

lemma amounts_range: "f \<in> amounts \<Longrightarrow> f u < 2 ^ 63"
  using sint64_range(2) by (auto simp: amounts_def)

lemma amounts_zero [simp]: "f \<in> amounts \<Longrightarrow> f zeroUsage = 0"
  by (auto simp: amounts_def zeroUsage_def)

lemma amounts_exist:
  assumes "\<And>f. f \<in> amounts \<Longrightarrow> 0 \<le> n f \<and> n f < 2 ^ 63"
  obtains u where "\<And>f. f \<in> amounts \<Longrightarrow> f u = n f"
proof
  let ?u = "\<lparr>us_Bytes = word_of_int (n (\<lambda>u. sint (us_Bytes u))), us_Objects = word_of_int (n (\<lambda>u. sint (us_Objects u))),
    us_Events = word_of_int (n (\<lambda>u. sint (us_Events u))), us_Requests = word_of_int (n (\<lambda>u. sint (us_Requests u)))\<rparr>"
  have r: "sint (word_of_int (n f) :: 64 word) = n f" if "f \<in> amounts" for f
    using assms [OF that] by (intro sint64_of_int) auto
  show "f ?u = n f" if "f \<in> amounts" for f
    using that r [of "\<lambda>u. sint (us_Bytes u)"] r [of "\<lambda>u. sint (us_Objects u)"] r [of "\<lambda>u. sint (us_Events u)"]
      r [of "\<lambda>u. sint (us_Requests u)"]
    unfolding amounts_def by (elim insertE emptyE) simp_all
qed

text \<open>\<open>addUsage\<close> either adds every counter exactly or reports the overflow.\<close>

lemma addUsage_iff:
  assumes "nonnegative a" "nonnegative b"
  shows "addUsage a b = Inr c \<longleftrightarrow> (\<forall>f \<in> amounts. f c = f a + f b)"
proof -
  have "addUsage a b = Inr c \<longleftrightarrow>
      (\<not> sint (us_Bytes a) > sint (maxInt64 - us_Bytes b) \<and> us_Bytes a + us_Bytes b = us_Bytes c) \<and>
      (\<not> sint (us_Objects a) > sint (maxInt64 - us_Objects b) \<and> us_Objects a + us_Objects b = us_Objects c) \<and>
      (\<not> sint (us_Events a) > sint (maxInt64 - us_Events b) \<and> us_Events a + us_Events b = us_Events c) \<and>
      (\<not> sint (us_Requests a) > sint (maxInt64 - us_Requests b) \<and> us_Requests a + us_Requests b = us_Requests c)"
    using assms by (cases c) (auto simp: addUsage_def)
  also have "\<dots> \<longleftrightarrow> (\<forall>f \<in> amounts. f c = f a + f b)"
    using assms unfolding nonnegative_def amounts_def by (simp only: checkedAdd) simp
  finally show ?thesis .
qed

lemma validateCost_iff: "validateCost c = Inr () \<longleftrightarrow>
    0 < sint (co_WireBytes c) \<and> 0 < sint (co_DecodedBytes c) \<and> 0 < sint (co_Objects c) \<and> 0 < sint (co_Events c) \<and>
    0 < sint (co_Depth c) \<and> 0 < sint (co_Milliseconds c) \<and>
    sint (co_WireBytes c) + sint (co_DecodedBytes c) + 4096 < 2 ^ 63"
proof (cases "0 < sint (co_DecodedBytes c)")
  case True
  have e: "sint LedgerEntryBytes = 4096" by (simp add: LedgerEntryBytes_def)
  have "sint (maxInt64 - co_DecodedBytes c) = 2 ^ 63 - 1 - sint (co_DecodedBytes c)"
    using True sint64_range [of "co_DecodedBytes c"] sint64_diff [of maxInt64 "co_DecodedBytes c"] by (simp add: sint_maxInt64)
  then have "sint (maxInt64 - co_DecodedBytes c - LedgerEntryBytes) = 2 ^ 63 - 1 - sint (co_DecodedBytes c) - 4096"
    using True sint64_range [of "co_DecodedBytes c"] sint64_diff [of "maxInt64 - co_DecodedBytes c" LedgerEntryBytes] by (simp add: e)
  then show ?thesis by (auto simp: validateCost_def)
qed (simp add: validateCost_def)

lemma delta_amounts:
  assumes "validateCost c = Inr ()"
  shows "sint (us_Bytes (delta c)) = sint (co_WireBytes c) + sint (co_DecodedBytes c) + 4096"
    and "sint (us_Objects (delta c)) = sint (co_Objects c)" "sint (us_Events (delta c)) = sint (co_Events c)"
    and "sint (us_Requests (delta c)) = 1" "nonnegative (delta c)"
proof -
  have e: "sint LedgerEntryBytes = 4096" by (simp add: LedgerEntryBytes_def)
  have "sint (co_WireBytes c + co_DecodedBytes c) = sint (co_WireBytes c) + sint (co_DecodedBytes c)"
    using assms sint64_add [of "co_WireBytes c" "co_DecodedBytes c"] by (simp add: validateCost_iff)
  then show b: "sint (us_Bytes (delta c)) = sint (co_WireBytes c) + sint (co_DecodedBytes c) + 4096"
    using assms sint64_add [of "co_WireBytes c + co_DecodedBytes c" LedgerEntryBytes] by (simp add: delta_def validateCost_iff e)
  show "sint (us_Objects (delta c)) = sint (co_Objects c)" "sint (us_Events (delta c)) = sint (co_Events c)"
    "sint (us_Requests (delta c)) = 1" by (simp_all add: delta_def)
  then show "nonnegative (delta c)" using b assms by (simp add: nonnegative_def validateCost_iff)
qed

section \<open>What a ledger records\<close>

definition charges :: "(Usage \<Rightarrow> int) \<Rightarrow> Reservation list \<Rightarrow> int" where
  "charges f rs = (\<Sum>r \<leftarrow> rs. f (delta (rv_Cost r)))"

definition inWindow :: "string \<Rightarrow> Reservation list \<Rightarrow> Reservation list" where
  "inWindow w rs = filter (\<lambda>r. rv_Window r = w) rs"

definition validReservation :: "string list \<Rightarrow> Reservation \<Rightarrow> bool" where
  "validReservation windows r \<longleftrightarrow> boundedText (rv_Intent r) 128 \<and> validID (rv_Artifact r) \<and>
     validateCost (rv_Cost r) = Inr () \<and> rv_Window r \<in> set windows"

definition accounts :: "Usage \<Rightarrow> Reservation list \<Rightarrow> bool" where
  "accounts u rs \<longleftrightarrow> (\<forall>f \<in> amounts. f u = charges f rs)"

lemma charges_simps [simp]: "charges f [] = 0" "charges f (r # rs) = f (delta (rv_Cost r)) + charges f rs"
  "charges f (rs @ qs) = charges f rs + charges f qs"
  by (simp_all add: charges_def)

lemma inWindow_simps [simp]: "inWindow w [] = []" "inWindow w (r # rs) = (if rv_Window r = w then [r] else []) @ inWindow w rs"
  "inWindow w (rs @ qs) = inWindow w rs @ inWindow w qs"
  by (simp_all add: inWindow_def)

lemma charges_nonneg:
  "\<forall>r \<in> set rs. validateCost (rv_Cost r) = Inr () \<Longrightarrow> f \<in> amounts \<Longrightarrow> 0 \<le> charges f rs"
  by (induction rs) (use delta_amounts(5) in \<open>auto simp: nonnegative_iff\<close>)

lemma charges_inWindow:
  "\<forall>r \<in> set rs. validateCost (rv_Cost r) = Inr () \<Longrightarrow> f \<in> amounts \<Longrightarrow> charges f (inWindow w rs) \<le> charges f rs"
proof (induction rs)
  case (Cons r rs)
  then have "0 \<le> f (delta (rv_Cost r))" using delta_amounts(5) by (auto simp: nonnegative_iff)
  with Cons show ?case by simp
qed simp

text \<open>Adding a charge leaves room for the rest exactly when the sum fits.\<close>

lemma addUsage_then:
  assumes "nonnegative u" "nonnegative d" "\<And>f. f \<in> amounts \<Longrightarrow> 0 \<le> n f"
  shows "(\<exists>v. addUsage u d = Inr v \<and> (\<forall>f \<in> amounts. f w = f v + n f)) \<longleftrightarrow> (\<forall>f \<in> amounts. f w = f u + f d + n f)"
proof
  assume "\<exists>v. addUsage u d = Inr v \<and> (\<forall>f \<in> amounts. f w = f v + n f)"
  then show "\<forall>f \<in> amounts. f w = f u + f d + n f" using addUsage_iff [OF assms(1,2)] by auto
next
  assume w: "\<forall>f \<in> amounts. f w = f u + f d + n f"
  have "0 \<le> f u + f d \<and> f u + f d < 2 ^ 63" if f: "f \<in> amounts" for f
    using amounts_range [OF f, of w] w f assms by (fastforce simp: nonnegative_iff)
  then obtain v where "\<And>f. f \<in> amounts \<Longrightarrow> f v = f u + f d" using amounts_exist [of "\<lambda>f. f u + f d"] by blast
  then show "\<exists>v. addUsage u d = Inr v \<and> (\<forall>f \<in> amounts. f w = f v + n f)" using addUsage_iff [OF assms(1,2)] w by auto
qed

lemma recount_iff:
  assumes "nonnegative retained" "nonnegative window"
  shows "recount current windows intents rs retained window = Inr (retained', window') \<longleftrightarrow>
    (\<forall>r \<in> set rs. validReservation windows r) \<and> distinct (map rv_Intent rs) \<and> rv_Intent ` set rs \<inter> set intents = {} \<and>
    (\<forall>f \<in> amounts. f retained' = f retained + charges f rs) \<and>
    (\<forall>f \<in> amounts. f window' = f window + charges f (inWindow current rs))"
  using assms
proof (induction rs arbitrary: retained window intents)
  case Nil
  then show ?case by (auto simp: usage_eq_iff)
next
  case (Cons r rs)
  let ?d = "delta (rv_Cost r)"
  let ?ok = "\<lambda>i. (\<forall>r \<in> set rs. validReservation windows r) \<and> distinct (map rv_Intent rs) \<and> rv_Intent ` set rs \<inter> set i = {}"
  show ?case
  proof (cases "validReservation windows r \<and> rv_Intent r \<notin> set intents \<and> ?ok (rv_Intent r # intents)")
    case False
    have "\<not> recount current windows intents (r # rs) retained window = Inr (retained', window')"
    proof
      assume rec: "recount current windows intents (r # rs) retained window = Inr (retained', window')"
      then have v: "validReservation windows r" "rv_Intent r \<notin> set intents" by (auto simp: validReservation_def split: if_splits)
      then have d: "nonnegative ?d" using delta_amounts(5) by (simp add: validReservation_def)
      obtain ret win where rw: "addUsage retained ?d = Inr ret" "(if rv_Window r = current then addUsage window ?d else Inr window) = Inr win"
        "recount current windows (rv_Intent r # intents) rs ret win = Inr (retained', window')"
        using rec by (simp only: recount.simps guard_ok rbind_eq_Inr) blast
      have "nonnegative c" if "addUsage a ?d = Inr c" "nonnegative a" for a c
        using that d addUsage_iff [OF that(2) d] by (auto simp: nonnegative_iff)
      then have "nonnegative ret" "nonnegative win" using rw Cons.prems by (auto split: if_splits)
      then show False using Cons.IH rw(3) v False by blast
    qed
    moreover have "\<not> ((\<forall>r \<in> set (r # rs). validReservation windows r) \<and> distinct (map rv_Intent (r # rs)) \<and>
        rv_Intent ` set (r # rs) \<inter> set intents = {})"
      using False by auto
    ultimately show ?thesis by blast
  next
    case True
    then have c: "\<forall>r \<in> set rs. validateCost (rv_Cost r) = Inr ()" "validateCost (rv_Cost r) = Inr ()" by (auto simp: validReservation_def)
    then have d: "nonnegative ?d" using delta_amounts(5) by blast
    have cw: "\<forall>r \<in> set (inWindow current rs). validateCost (rv_Cost r) = Inr ()" using c by (auto simp: inWindow_def)
    have nn: "nonnegative v" if "addUsage u ?d = Inr v" "nonnegative u" for u v
      using that d addUsage_iff [OF that(2) d] by (auto simp: nonnegative_iff)
    have "recount current windows intents (r # rs) retained window = Inr (retained', window') \<longleftrightarrow>
        (\<exists>ret. addUsage retained ?d = Inr ret \<and> (\<exists>win. (if rv_Window r = current then addUsage window ?d else Inr window) = Inr win \<and>
           recount current windows (rv_Intent r # intents) rs ret win = Inr (retained', window')))"
      using True by (auto simp: validReservation_def rbind_eq_Inr)
    also have "\<dots> \<longleftrightarrow> (\<exists>ret. addUsage retained ?d = Inr ret \<and> (\<forall>f \<in> amounts. f retained' = f ret + charges f rs)) \<and>
        (\<exists>win. (if rv_Window r = current then addUsage window ?d else Inr window) = Inr win \<and>
           (\<forall>f \<in> amounts. f window' = f win + charges f (inWindow current rs)))"
      using True Cons.IH nn Cons.prems by (auto split: if_splits)
    also have "\<dots> \<longleftrightarrow> (\<forall>f \<in> amounts. f retained' = f retained + charges f (r # rs)) \<and>
        (\<forall>f \<in> amounts. f window' = f window + charges f (inWindow current (r # rs)))"
      using addUsage_then [OF Cons.prems(1) d, of "\<lambda>f. charges f rs" retained'] addUsage_then [OF Cons.prems(2) d, of "\<lambda>f. charges f (inWindow current rs)" window']
        charges_nonneg [OF c(1)] charges_nonneg [OF cw] by (simp add: add.assoc)
    finally show ?thesis using True by (auto simp: image_iff)
  qed
qed

lemma checkWindows_iff: "checkWindows windows ws = Inr windows' \<longleftrightarrow>
    (\<forall>w \<in> set ws. boundedText w 128) \<and> distinct ws \<and> set ws \<inter> set windows = {} \<and> windows' = rev ws @ windows"
  by (induction windows ws rule: checkWindows.induct) auto

lemma nonnegative_zero [simp]: "nonnegative zeroUsage"
  by (simp add: nonnegative_iff)

definition ledgerWindows :: "Ledger \<Rightarrow> string list" where
  "ledgerWindows l = ld_Window l # elems (ld_PriorWindows l)"

lemma validateLedger_iff: "validateLedger l = Inr () \<longleftrightarrow>
    validID (ld_Project l) \<and> length (elems (ld_PriorWindows l)) \<le> length (elems (ld_Reservations l)) \<and>
    length (elems (ld_Reservations l)) \<le> MaxGraphRecords \<and>
    (\<forall>w \<in> set (ledgerWindows l). boundedText w 128) \<and> distinct (ledgerWindows l) \<and>
    (\<forall>r \<in> set (elems (ld_Reservations l)). validReservation (ledgerWindows l) r) \<and>
    distinct (map rv_Intent (elems (ld_Reservations l))) \<and>
    accounts (ld_RetainedUsed l) (elems (ld_Reservations l)) \<and>
    accounts (ld_WindowUsed l) (inWindow (ld_Window l) (elems (ld_Reservations l)))"
proof -
  let ?ps = "elems (ld_PriorWindows l)" and ?rs = "elems (ld_Reservations l)"
  have w: "validReservation (rev ?ps @ [ld_Window l]) r = validReservation (ledgerWindows l) r" for r
    by (auto simp: validReservation_def ledgerWindows_def)
  have "validateLedger l = Inr () \<longleftrightarrow> validID (ld_Project l) \<and> boundedText (ld_Window l) 128 \<and> length ?rs \<le> MaxGraphRecords \<and>
      length ?ps \<le> length ?rs \<and> (\<exists>ws. checkWindows [ld_Window l] ?ps = Inr ws \<and>
        recount (ld_Window l) ws [] ?rs zeroUsage zeroUsage = Inr (ld_RetainedUsed l, ld_WindowUsed l))"
    by (auto simp: validateLedger_def rbind_eq_Inr)
  also have "\<dots> \<longleftrightarrow> validID (ld_Project l) \<and> boundedText (ld_Window l) 128 \<and> length ?rs \<le> MaxGraphRecords \<and>
      length ?ps \<le> length ?rs \<and> (\<forall>w \<in> set ?ps. boundedText w 128) \<and> distinct ?ps \<and> ld_Window l \<notin> set ?ps \<and>
      recount (ld_Window l) (rev ?ps @ [ld_Window l]) [] ?rs zeroUsage zeroUsage = Inr (ld_RetainedUsed l, ld_WindowUsed l)"
    by (auto simp: checkWindows_iff)
  also have "\<dots> \<longleftrightarrow> validID (ld_Project l) \<and> boundedText (ld_Window l) 128 \<and> length ?rs \<le> MaxGraphRecords \<and>
      length ?ps \<le> length ?rs \<and> (\<forall>w \<in> set ?ps. boundedText w 128) \<and> distinct ?ps \<and> ld_Window l \<notin> set ?ps \<and>
      (\<forall>r \<in> set ?rs. validReservation (ledgerWindows l) r) \<and> distinct (map rv_Intent ?rs) \<and>
      accounts (ld_RetainedUsed l) ?rs \<and> accounts (ld_WindowUsed l) (inWindow (ld_Window l) ?rs)"
    by (simp add: recount_iff w accounts_def)
  finally show ?thesis by (auto simp: ledgerWindows_def)
qed

lemma elems_clone [simp]: "elems (cloneSlice s) = elems s" "elems (appendSlice s x) = elems s @ [x]"
  by (simp_all add: cloneSlice_def appendSlice_def)

lemma cloneLedger_simps [simp]: "ld_Project (cloneLedger l) = ld_Project l" "ld_Window (cloneLedger l) = ld_Window l"
  "ld_WindowUsed (cloneLedger l) = ld_WindowUsed l" "ld_RetainedUsed (cloneLedger l) = ld_RetainedUsed l"
  "elems (ld_Reservations (cloneLedger l)) = elems (ld_Reservations l)"
  "elems (ld_PriorWindows (cloneLedger l)) = elems (ld_PriorWindows l)"
  by (simp_all add: cloneLedger_def)

lemma cloneLedger_idem [simp]: "cloneLedger (cloneLedger l) = cloneLedger l"
  by (simp add: cloneLedger_def cloneSlice_def)

lemma validate_cloneLedger [simp]: "validateLedger (cloneLedger l) = Inr () \<longleftrightarrow> validateLedger l = Inr ()"
  by (simp add: validateLedger_iff ledgerWindows_def)

lemma accounts_unique: "accounts u rs \<Longrightarrow> accounts v rs \<Longrightarrow> u = v"
  unfolding accounts_def usage_eq_iff by metis

lemma accounts_nonneg: "accounts u rs \<Longrightarrow> \<forall>r \<in> set rs. validateCost (rv_Cost r) = Inr () \<Longrightarrow> nonnegative u"
  unfolding accounts_def nonnegative_iff using charges_nonneg by metis

lemma accounts_add:
  assumes "accounts u rs" "\<forall>r \<in> set rs. validateCost (rv_Cost r) = Inr ()" "validateCost c = Inr ()" "rv_Cost q = c"
  shows "addUsage u (delta c) = Inr v \<longleftrightarrow> accounts v (rs @ [q])"
  using assms addUsage_iff [OF accounts_nonneg [OF assms(1,2)] delta_amounts(5) [OF assms(3)]]
  by (auto simp: accounts_def)

section \<open>What the operations do\<close>

text \<open>A new reservation, in terms of unbounded amounts.\<close>

definition newReservation :: "Ledger \<Rightarrow> string \<Rightarrow> string \<Rightarrow> Cost \<Rightarrow> Reservation" where
  "newReservation l intent artifact cost = \<lparr>rv_Intent = intent, rv_Artifact = artifact, rv_Cost = cost, rv_Window = ld_Window l\<rparr>"

lemma Reserve_cases:
  assumes "Reserve l p intent artifact cost = Inr (l', replayed)"
  obtains (replay) r where "replayed" "l' = cloneLedger l" "validateLedger l = Inr ()" "r \<in> set (elems (ld_Reservations l))"
      "rv_Intent r = intent" "rv_Artifact r = artifact" "rv_Cost r = cost"
  | (fresh) window retained where "\<not> replayed" "validateLedger l = Inr ()" "ld_Project l = po_Project p" "boundedText intent 128" "validID artifact"
      "intent \<notin> rv_Intent ` set (elems (ld_Reservations l))" "costWithin cost (po_Limits p)"
      "addUsage (ld_WindowUsed l) (delta cost) = Inr window" "addUsage (ld_RetainedUsed l) (delta cost) = Inr retained"
      "usageWithin window (lm_Window (po_Limits p))" "usageWithin retained (lm_Retained (po_Limits p))"
      "length (elems (ld_Reservations l)) < MaxGraphRecords"
      "l' = (cloneLedger l)\<lparr>ld_WindowUsed := window, ld_RetainedUsed := retained,
         ld_Reservations := appendSlice (ld_Reservations (cloneLedger l)) (newReservation l intent artifact cost)\<rparr>"
proof (cases "find (\<lambda>r. rv_Intent r = intent) (elems (ld_Reservations l))")
  case None
  then have "intent \<notin> rv_Intent ` set (elems (ld_Reservations l))" by (auto simp: find_None_iff)
  then show ?thesis
    using assms None fresh by (auto simp: Reserve_def rbind_eq_Inr Let_def newReservation_def not_le)
next
  case (Some r)
  then have "r \<in> set (elems (ld_Reservations l))" "rv_Intent r = intent" by (auto simp: find_Some_iff)
  then show ?thesis using assms Some replay by (auto simp: Reserve_def rbind_eq_Inr)
qed

lemma validLedger_costs: "validateLedger l = Inr () \<Longrightarrow> r \<in> set (elems (ld_Reservations l)) \<Longrightarrow> validateCost (rv_Cost r) = Inr ()"
  by (simp add: validateLedger_iff validReservation_def)

lemma inWindow_costs: "validateLedger l = Inr () \<Longrightarrow> \<forall>r \<in> set (inWindow w (elems (ld_Reservations l))). validateCost (rv_Cost r) = Inr ()"
  using validLedger_costs by (auto simp: inWindow_def)

lemma Reserve_accounts:
  assumes "validateLedger l = Inr ()" "costWithin cost limits"
    and "addUsage (ld_WindowUsed l) (delta cost) = Inr window" "addUsage (ld_RetainedUsed l) (delta cost) = Inr retained"
  shows "accounts retained (elems (ld_Reservations l) @ [newReservation l intent artifact cost])"
    and "accounts window (inWindow (ld_Window l) (elems (ld_Reservations l) @ [newReservation l intent artifact cost]))"
proof -
  let ?q = "newReservation l intent artifact cost"
  have q: "rv_Cost ?q = cost" "rv_Window ?q = ld_Window l" by (simp_all add: newReservation_def)
  have c: "validateCost cost = Inr ()" using assms(2) by (simp add: costWithin_def)
  have a: "accounts (ld_RetainedUsed l) (elems (ld_Reservations l))" "accounts (ld_WindowUsed l) (inWindow (ld_Window l) (elems (ld_Reservations l)))"
    using assms(1) by (simp_all add: validateLedger_iff)
  show "accounts retained (elems (ld_Reservations l) @ [?q])"
    using accounts_add [OF a(1) _ c q(1)] validLedger_costs [OF assms(1)] assms(4) by blast
  show "accounts window (inWindow (ld_Window l) (elems (ld_Reservations l) @ [?q]))"
    using accounts_add [OF a(2) inWindow_costs [OF assms(1)] c q(1), of window] assms(3) q(2) by simp
qed

lemma Reserve_valid:
  assumes "Reserve l p intent artifact cost = Inr (l', replayed)"
  shows "validateLedger l' = Inr ()"
  using assms
proof (cases rule: Reserve_cases)
  case (fresh window retained)
  have "validReservation (ledgerWindows l) (newReservation l intent artifact cost)"
    using fresh by (simp add: validReservation_def newReservation_def ledgerWindows_def costWithin_def)
  moreover have "rv_Intent (newReservation l intent artifact cost) = intent" by (simp add: newReservation_def)
  ultimately show ?thesis
    using fresh Reserve_accounts [OF fresh(2,7,8,9), of intent artifact] unfolding fresh(13)
    by (auto simp: validateLedger_iff ledgerWindows_def simp del: inWindow_simps)
qed simp

lemma Rollover_cases:
  assumes "Rollover l p expected w authorized = Inr l'"
  shows "authorized" "validateLedger l = Inr ()" "ld_Project l = po_Project p" "ld_Window l = expected" "boundedText w 128" "w \<notin> set (ledgerWindows l)"
    "inWindow (ld_Window l) (elems (ld_Reservations l)) \<noteq> []"
    "l' = (cloneLedger l)\<lparr>ld_PriorWindows := appendSlice (ld_PriorWindows (cloneLedger l)) (ld_Window l),
       ld_Window := w, ld_WindowUsed := zeroUsage\<rparr>"
  using assms
  by (auto simp: Rollover_def rbind_eq_Inr Let_def listed_def list_ex_iff ledgerWindows_def inWindow_def filter_empty_conv)

text \<open>
  The invariant of the operations: the ledger validates, and every window that was rolled over has a
  reservation.  \<open>validate\<close> itself checks only that there are no more prior windows than reservations.
\<close>

definition ledgerInv :: "Ledger \<Rightarrow> bool" where
  "ledgerInv l \<longleftrightarrow> validateLedger l = Inr () \<and> (\<forall>w \<in> set (elems (ld_PriorWindows l)). inWindow w (elems (ld_Reservations l)) \<noteq> [])"

lemma windows_used:
  assumes "distinct ws" "\<forall>w \<in> set ws. inWindow w rs \<noteq> []"
  shows "length ws \<le> length rs"
proof -
  have "set ws \<subseteq> rv_Window ` set rs" using assms(2) by (auto simp: inWindow_def filter_empty_conv)
  then have "card (set ws) \<le> card (rv_Window ` set rs)" by (intro card_mono) auto
  also have "\<dots> \<le> length rs" using card_image_le [of "set rs" rv_Window] card_length [of rs] by simp
  finally show ?thesis using distinct_card [OF assms(1)] by simp
qed

lemma Reserve_inv:
  assumes "ledgerInv l" "Reserve l p intent artifact cost = Inr (l', replayed)"
  shows "ledgerInv l'"
proof -
  have "elems (ld_PriorWindows l') = elems (ld_PriorWindows l) \<and> (\<exists>rs. elems (ld_Reservations l') = elems (ld_Reservations l) @ rs)"
    using assms(2) by (cases rule: Reserve_cases) auto
  then show ?thesis using assms(1) Reserve_valid [OF assms(2)] by (auto simp: ledgerInv_def)
qed

text \<open>The only check that an accepted rollover can break is the number of its prior windows.\<close>

lemma Rollover_validates:
  assumes "Rollover l p expected w authorized = Inr l'"
  shows "validateLedger l' = Inr () \<longleftrightarrow> length (elems (ld_PriorWindows l)) < length (elems (ld_Reservations l))"
proof -
  note r = Rollover_cases [OF assms]
  let ?rs = "elems (ld_Reservations l)" and ?ps = "elems (ld_PriorWindows l)"
  have v: "validReservation (ledgerWindows l) q" if "q \<in> set ?rs" for q using r(2) that by (simp add: validateLedger_iff)
  have w: "inWindow w ?rs = []" using v r(6) by (auto simp: inWindow_def filter_empty_conv validReservation_def)
  have s: "ledgerWindows l' = w # ?ps @ [ld_Window l]" by (simp add: r(8) ledgerWindows_def)
  have "validReservation (ledgerWindows l') q" if "q \<in> set ?rs" for q
    using v [OF that] unfolding s by (auto simp: validReservation_def ledgerWindows_def)
  moreover have "distinct (ledgerWindows l')" "\<forall>x \<in> set (ledgerWindows l'). boundedText x 128"
    using r(2,5,6) unfolding s by (auto simp: validateLedger_iff ledgerWindows_def)
  moreover have "elems (ld_Reservations l') = ?rs" "elems (ld_PriorWindows l') = ?ps @ [ld_Window l]" "ld_Window l' = w"
    "ld_RetainedUsed l' = ld_RetainedUsed l" "ld_WindowUsed l' = zeroUsage" "ld_Project l' = ld_Project l" by (simp_all add: r(8))
  ultimately show ?thesis
    using r(2) w by (simp add: validateLedger_iff) (auto simp: accounts_def)
qed

lemma Rollover_inv:
  assumes "ledgerInv l" "Rollover l p expected w authorized = Inr l'"
  shows "ledgerInv l'"
proof -
  note r = Rollover_cases [OF assms(2)]
  let ?rs = "elems (ld_Reservations l)" and ?ps = "elems (ld_PriorWindows l)"
  have u: "\<forall>x \<in> set (?ps @ [ld_Window l]). inWindow x ?rs \<noteq> []" using assms(1) r(7) by (auto simp: ledgerInv_def)
  have "distinct (?ps @ [ld_Window l])" using r(2) by (auto simp: validateLedger_iff ledgerWindows_def)
  then have "length (?ps @ [ld_Window l]) \<le> length ?rs" using windows_used u by blast
  then have "validateLedger l' = Inr ()" using Rollover_validates [OF assms(2)] by simp
  then show ?thesis using u by (simp add: ledgerInv_def r(8))
qed

section \<open>The ledger as a machine\<close>

text \<open>A machine that keeps an invariant and only ever appends to a log.\<close>

locale journal =
  fixes step :: "'s \<Rightarrow> 's \<Rightarrow> bool"
    and inv :: "'s \<Rightarrow> bool"
    and log :: "'s \<Rightarrow> 'e list"
  assumes step_inv: "inv s \<Longrightarrow> step s t \<Longrightarrow> inv t"
    and step_log: "inv s \<Longrightarrow> step s t \<Longrightarrow> \<exists>es. log t = log s @ es"
begin

lemma reachable_inv: "step\<^sup>*\<^sup>* s t \<Longrightarrow> inv s \<Longrightarrow> inv t"
  by (induction rule: rtranclp_induct) (auto intro: step_inv)

lemma reachable_log: "step\<^sup>*\<^sup>* s t \<Longrightarrow> inv s \<Longrightarrow> \<exists>es. log t = log s @ es"
proof (induction rule: rtranclp_induct)
  case (step t u)
  then show ?case using step_log [of t u] reachable_inv [of s t] by auto
qed simp

lemma recorded_forever: "step\<^sup>*\<^sup>* s t \<Longrightarrow> inv s \<Longrightarrow> e \<in> set (log s) \<Longrightarrow> e \<in> set (log t)"
  using reachable_log by fastforce

end

inductive ledgerStep :: "Policy \<Rightarrow> Ledger \<Rightarrow> Ledger \<Rightarrow> bool" for p where
  reserve: "Reserve l p intent artifact cost = Inr (l', replayed) \<Longrightarrow> ledgerStep p l l'"
| rollover: "Rollover l p expected w authorized = Inr l' \<Longrightarrow> ledgerStep p l l'"

inductive_cases ledgerStepE: "ledgerStep p l l'"

text \<open>No window was ever charged more than the window budget, and all of them together no more than the retained one.\<close>

definition withinBudget :: "Limits \<Rightarrow> Ledger \<Rightarrow> bool" where
  "withinBudget limits l \<longleftrightarrow> (\<forall>f \<in> amounts. charges f (elems (ld_Reservations l)) \<le> f (lm_Retained limits) \<and>
     (\<forall>w. charges f (inWindow w (elems (ld_Reservations l))) \<le> f (lm_Window limits)))"

lemma ledgerStep_budget:
  assumes "ledgerInv l \<and> withinBudget (po_Limits p) l" "ledgerStep p l l'"
  shows "ledgerInv l' \<and> withinBudget (po_Limits p) l'"
  using assms(2)
proof (cases rule: ledgerStep.cases)
  case (rollover expected w authorized)
  then show ?thesis using assms(1) Rollover_inv [OF _ rollover] Rollover_cases(8) [OF rollover] by (auto simp: withinBudget_def)
next
  case (reserve intent artifact cost replayed)
  then have inv: "ledgerInv l'" using assms(1) Reserve_inv by blast
  from reserve show ?thesis
  proof (cases rule: Reserve_cases)
    case replay
    then show ?thesis using assms(1) inv by (simp add: withinBudget_def)
  next
    case (fresh window retained)
    let ?q = "newReservation l intent artifact cost"
    have rs: "elems (ld_Reservations l') = elems (ld_Reservations l) @ [?q]" by (simp add: fresh(13))
    note acc = Reserve_accounts [OF fresh(2,7,8,9), of intent artifact]
    have other: "inWindow w (elems (ld_Reservations l')) = inWindow w (elems (ld_Reservations l))" if "w \<noteq> ld_Window l" for w
      using that by (simp add: rs newReservation_def)
    have "charges f (inWindow w (elems (ld_Reservations l'))) \<le> f (lm_Window (po_Limits p))" if f: "f \<in> amounts" for f w
    proof (cases "w = ld_Window l")
      case True
      then show ?thesis using acc(2) fresh(10) f unfolding rs accounts_def usageWithin_iff by (metis True)
    next
      case False
      then show ?thesis using assms(1) f other by (auto simp: withinBudget_def)
    qed
    moreover have "charges f (elems (ld_Reservations l')) \<le> f (lm_Retained (po_Limits p))" if "f \<in> amounts" for f
      using acc(1) fresh(11) that unfolding rs accounts_def usageWithin_iff by metis
    ultimately show ?thesis using inv unfolding withinBudget_def by blast
  qed
qed

interpretation ledger: journal "ledgerStep p" "\<lambda>l. ledgerInv l \<and> withinBudget (po_Limits p) l" "\<lambda>l. elems (ld_Reservations l)" for p
proof unfold_locales
  fix l l' assume "ledgerInv l \<and> withinBudget (po_Limits p) l" "ledgerStep p l l'"
  then show "ledgerInv l' \<and> withinBudget (po_Limits p) l'" by (rule ledgerStep_budget)
  show "\<exists>es. elems (ld_Reservations l') = elems (ld_Reservations l) @ es"
    using \<open>ledgerStep p l l'\<close>
  proof (cases rule: ledgerStep.cases)
    case (reserve intent artifact cost replayed)
    then show ?thesis by (cases rule: Reserve_cases) auto
  next
    case (rollover expected w authorized)
    then show ?thesis using Rollover_cases(8) [OF rollover] by simp
  qed
qed

section \<open>The specification with unbounded amounts\<close>

definition fits :: "Limits \<Rightarrow> string \<Rightarrow> Reservation list \<Rightarrow> bool" where
  "fits limits w rs \<longleftrightarrow> length rs \<le> MaxGraphRecords \<and>
     (\<forall>f \<in> amounts. charges f rs \<le> f (lm_Retained limits) \<and> charges f (inWindow w rs) \<le> f (lm_Window limits))"

definition specReserve :: "Limits \<Rightarrow> Reservation list \<Rightarrow> Reservation \<Rightarrow> (Reservation list \<times> bool) option" where
  "specReserve limits rs q = (case find (\<lambda>r. rv_Intent r = rv_Intent q) rs of
       Some r \<Rightarrow> if rv_Artifact r = rv_Artifact q \<and> rv_Cost r = rv_Cost q then Some (rs, True) else None
     | None \<Rightarrow> if costWithin (rv_Cost q) limits \<and> fits limits (rv_Window q) (rs @ [q]) then Some (rs @ [q], False) else None)"

lemma addUsage_within:
  assumes "accounts u rs" "\<forall>r \<in> set rs. validateCost (rv_Cost r) = Inr ()" "validateCost (rv_Cost q) = Inr ()"
  shows "(\<exists>v. addUsage u (delta (rv_Cost q)) = Inr v \<and> usageWithin v m) \<longleftrightarrow> (\<forall>f \<in> amounts. charges f (rs @ [q]) \<le> f m)"
proof -
  have c: "\<forall>r \<in> set (rs @ [q]). validateCost (rv_Cost r) = Inr ()" using assms by auto
  have "(\<exists>v. accounts v (rs @ [q]) \<and> usageWithin v m) \<longleftrightarrow> (\<forall>f \<in> amounts. charges f (rs @ [q]) \<le> f m)"
  proof
    assume "\<exists>v. accounts v (rs @ [q]) \<and> usageWithin v m"
    then show "\<forall>f \<in> amounts. charges f (rs @ [q]) \<le> f m" unfolding accounts_def usageWithin_iff by metis
  next
    assume m: "\<forall>f \<in> amounts. charges f (rs @ [q]) \<le> f m"
    have "0 \<le> charges f (rs @ [q]) \<and> charges f (rs @ [q]) < 2 ^ 63" if f: "f \<in> amounts" for f
    proof -
      have "charges f (rs @ [q]) \<le> f m" using m f by blast
      then show ?thesis using charges_nonneg [OF c f] amounts_range [OF f, of m] by linarith
    qed
    then obtain v where v: "\<And>f. f \<in> amounts \<Longrightarrow> f v = charges f (rs @ [q])"
      using amounts_exist [of "\<lambda>f. charges f (rs @ [q])"] by blast
    then have "accounts v (rs @ [q])" unfolding accounts_def by blast
    moreover have "usageWithin v m" using v m accounts_nonneg [OF \<open>accounts v (rs @ [q])\<close> c] unfolding usageWithin_iff by metis
    ultimately show "\<exists>v. accounts v (rs @ [q]) \<and> usageWithin v m" by blast
  qed
  then show ?thesis using accounts_add [OF assms(1,2,3) refl] by simp
qed

section \<open>Properties\<close>

text \<open>
  C15. The 64-bit accounting implements the unbounded one: on a valid ledger, reserving succeeds exactly
  when the intent was reserved before with the same artifact and cost, or the cost is within the
  request limits and the exact sums of all charges stay within the window and retained budgets; the
  new reservation is then appended.  An overflow is never an acceptance.
\<close>

theorem Reserve_refines:
  assumes "validateProjectPolicy p = Inr ()" "validateLedger l = Inr ()" "ld_Project l = po_Project p"
    and "boundedText intent 128" "validID artifact"
  shows "(case Reserve l p intent artifact cost of Inl _ \<Rightarrow> None
      | Inr (l', replayed) \<Rightarrow> Some (elems (ld_Reservations l'), replayed)) =
    specReserve (po_Limits p) (elems (ld_Reservations l)) (newReservation l intent artifact cost)"
proof -
  let ?rs = "elems (ld_Reservations l)" and ?q = "newReservation l intent artifact cost" and ?lim = "po_Limits p"
  have q: "rv_Intent ?q = intent" "rv_Artifact ?q = artifact" "rv_Cost ?q = cost" "rv_Window ?q = ld_Window l"
    by (simp_all add: newReservation_def)
  have w: "boundedText (ld_Window l) 128" "length ?rs \<le> MaxGraphRecords" using assms(2) by (simp_all add: validateLedger_iff ledgerWindows_def)
  show ?thesis
  proof (cases "find (\<lambda>r. rv_Intent r = intent) ?rs")
    case (Some r)
    then show ?thesis using assms w by (auto simp: Reserve_def specReserve_def q errorf_def)
  next
    case None
    have a: "accounts (ld_RetainedUsed l) ?rs" "accounts (ld_WindowUsed l) (inWindow (ld_Window l) ?rs)"
      using assms(2) by (simp_all add: validateLedger_iff)
    have fit: "fits ?lim (ld_Window l) (?rs @ [?q]) \<longleftrightarrow> length ?rs < MaxGraphRecords \<and>
        (\<exists>v. addUsage (ld_WindowUsed l) (delta cost) = Inr v \<and> usageWithin v (lm_Window ?lim)) \<and>
        (\<exists>v. addUsage (ld_RetainedUsed l) (delta cost) = Inr v \<and> usageWithin v (lm_Retained ?lim))"
      if "validateCost cost = Inr ()"
      using addUsage_within [OF a(1), of ?q "lm_Retained ?lim"] addUsage_within [OF a(2), of ?q "lm_Window ?lim"] validLedger_costs [OF assms(2)]
        inWindow_costs [OF assms(2)] that unfolding fits_def q inWindow_simps
      by (auto simp: q)
    show ?thesis
    proof (cases "costWithin cost ?lim")
      case False
      then show ?thesis using assms w None by (simp add: Reserve_def specReserve_def q errorf_def)
    next
      case True
      then have "validateCost cost = Inr ()" by (simp add: costWithin_def)
      with fit True None assms w show ?thesis
        by (cases "addUsage (ld_WindowUsed l) (delta cost)"; cases "addUsage (ld_RetainedUsed l) (delta cost)")
          (auto simp: Reserve_def specReserve_def q Let_def newReservation_def [symmetric] not_le errorf_def)
    qed
  qed
qed

text \<open>
  C16. However reservations and rollovers follow each other under a policy, starting from a ledger without
  reservations: no window is ever charged more than the window budget, all windows together never more
  than the retained budget, no intent is charged twice, the counters are the exact sums, and a charge
  that was made stays in the ledger.
\<close>

theorem ledger_never_overspends:
  assumes "validateLedger l0 = Inr ()" "elems (ld_Reservations l0) = []" "validateProjectPolicy p = Inr ()"
    and "(ledgerStep p)\<^sup>*\<^sup>* l0 l" "(ledgerStep p)\<^sup>*\<^sup>* l l'"
  shows "withinBudget (po_Limits p) l' \<and> distinct (map rv_Intent (elems (ld_Reservations l'))) \<and>
    accounts (ld_RetainedUsed l') (elems (ld_Reservations l')) \<and>
    accounts (ld_WindowUsed l') (inWindow (ld_Window l') (elems (ld_Reservations l'))) \<and>
    (\<exists>new. elems (ld_Reservations l') = elems (ld_Reservations l) @ new)"
proof -
  have pos: "0 \<le> f (lm_Window (po_Limits p)) \<and> 0 \<le> f (lm_Retained (po_Limits p))" if "f \<in> amounts" for f
    using assms(3) that
    by (auto simp: validateProjectPolicy_def rbind_unit_ok validateLimits_def positive_def amounts_def intro: less_imp_le)
  have "elems (ld_PriorWindows l0) = []" using assms(1,2) by (simp add: validateLedger_iff)
  then have start: "ledgerInv l0 \<and> withinBudget (po_Limits p) l0" using assms(1,2) pos by (simp add: ledgerInv_def withinBudget_def)
  have mid: "ledgerInv l \<and> withinBudget (po_Limits p) l" by (rule ledger.reachable_inv [OF assms(4) start])
  have final: "ledgerInv l' \<and> withinBudget (po_Limits p) l'" by (rule ledger.reachable_inv [OF assms(5) mid])
  then show ?thesis using ledger.reachable_log [OF assms(5) mid] by (simp add: ledgerInv_def validateLedger_iff)
qed

text \<open>
  C17. A reservation is charged once: repeating a successful call returns the ledger unchanged and says so,
  and reusing its intent for another artifact or cost is refused.
\<close>

theorem Reserve_replay:
  assumes "Reserve l p intent artifact cost = Inr (l', replayed)"
  shows "Reserve l' p intent artifact cost = Inr (cloneLedger l', True) \<and>
    (artifact' \<noteq> artifact \<or> cost' \<noteq> cost \<longrightarrow> \<not> is_ok (Reserve l' p intent artifact' cost'))"
proof -
  let ?rs = "elems (ld_Reservations l')"
  have v': "validateLedger l' = Inr ()" by (rule Reserve_valid [OF assms])
  have g: "validateProjectPolicy p = Inr ()" "ld_Project l = po_Project p" "boundedText intent 128" "validID artifact"
    using assms by (auto simp: Reserve_def rbind_eq_Inr)
  have "\<exists>r \<in> set ?rs. rv_Intent r = intent \<and> rv_Artifact r = artifact \<and> rv_Cost r = cost"
    and pw: "ld_Project l' = ld_Project l" "ld_Window l' = ld_Window l"
    using assms by (cases rule: Reserve_cases; auto simp: newReservation_def)+
  then obtain r where r: "r \<in> set ?rs" "rv_Intent r = intent" "rv_Artifact r = artifact" "rv_Cost r = cost" by blast
  have d: "distinct (map rv_Intent ?rs)" using v' by (simp add: validateLedger_iff)
  obtain q where q: "find (\<lambda>r. rv_Intent r = intent) ?rs = Some q"
    using r by (cases "find (\<lambda>r. rv_Intent r = intent) ?rs") (auto simp: find_None_iff)
  then have "q \<in> set ?rs" "rv_Intent q = intent" by (auto simp: find_Some_iff)
  then have "q = r" using d r by (auto simp: distinct_map inj_on_def)
  moreover have "boundedText (ld_Window l') 128" "length ?rs \<le> MaxGraphRecords" using v' by (simp_all add: validateLedger_iff ledgerWindows_def)
  ultimately show ?thesis using g pw v' q r by (auto simp: Reserve_def)
qed

text \<open>
  C18. What \<open>Evaluate\<close> lets happen to content.  The actor is well-formed.  Under a contribution policy the
  content is authenticated, its dependencies are admitted and its intake is receipted; an explicit rule
  of the policy covers the operation and admits the actor; an edit comes from the original author or an
  allowed maintainer; and unless the rule is automatic a current, unrevoked moderator admits it.  Without
  a policy content is let through by the legacy permission, which is marked as such and is not automatic.
\<close>

theorem Evaluate_content:
  assumes "Evaluate a r = Inr perm" "pm_Allowed perm" "contentOperation (rq_Operation r)"
  shows "validActor (rq_Actor r) \<and> (case at_Policy a of
      None \<Rightarrow> pm_Legacy perm \<and> \<not> pm_RequiresNativeAuthority perm \<and> \<not> pm_Automatic perm
    | Some p \<Rightarrow> \<not> pm_Legacy perm \<and> rq_Verified r \<and> rq_DependenciesAdmitted r \<and> rq_Receipt r \<and>
        (\<exists>rule \<in> set (elems (po_Rules p)). ru_Operation rule = rq_Operation r \<and>
          (elems (ru_Actors rule) = [] \<or> rq_Actor r \<in> set (elems (ru_Actors rule)) \<or>
            ru_AllowMaintainers rule \<and> rq_Actor r \<in> set (elems (at_Maintainers a))) \<and>
          (authorOperation (rq_Operation r) \<longrightarrow> rq_Actor r = rq_Author r \<or>
            ru_AllowMaintainers rule \<and> rq_Actor r \<in> set (elems (at_Maintainers a))) \<and>
          (ru_Automatic rule \<or> rq_Manual r) \<and> (pm_Automatic perm \<longleftrightarrow> ru_Automatic rule \<and> \<not> rq_Manual r)) \<and>
        (rq_Manual r \<longrightarrow> rq_Moderator r \<in> set (elems (po_Moderators p)) \<and> rq_Moderator r \<notin> set (elems (po_RevokedModerators p))))"
proof -
  have op: "rq_Operation r \<noteq> ''prepare''" "rq_Operation r \<noteq> ''transport''" "rq_Operation r \<noteq> ''moderate''" "\<not> nativeOperation (rq_Operation r)"
    using assms(3) by (auto simp: contentOperation_def nativeOperation_def)
  have rules: "applyRules ms r rs = Inr perm \<Longrightarrow> pm_Allowed perm \<Longrightarrow> \<not> pm_Legacy perm \<and>
      (\<exists>rule \<in> set rs. ru_Operation rule = rq_Operation r \<and>
      (elems (ru_Actors rule) = [] \<or> rq_Actor r \<in> set (elems (ru_Actors rule)) \<or> ru_AllowMaintainers rule \<and> rq_Actor r \<in> set ms) \<and>
      (authorOperation (rq_Operation r) \<longrightarrow> rq_Actor r = rq_Author r \<or> ru_AllowMaintainers rule \<and> rq_Actor r \<in> set ms) \<and>
      (ru_Automatic rule \<or> rq_Manual r) \<and> (pm_Automatic perm \<longleftrightarrow> ru_Automatic rule \<and> \<not> rq_Manual r))" for ms rs
    by (induction rs) (auto simp: deny_def zeroPermission_def Let_def listed_def list_ex_iff split: if_splits)
  have actor: "validActor (rq_Actor r)"
    using assms(1,2) by (auto simp: Evaluate_def deny_def zeroPermission_def split: if_splits)
  show ?thesis
  proof (cases "at_Policy a")
    case None
    then show ?thesis using assms actor op by (auto simp: Evaluate_def zeroPermission_def)
  next
    case (Some p)
    then have "evaluatePolicy a p r = Inr perm" using assms actor op by (auto simp: Evaluate_def)
    then have "rq_Verified r \<and> rq_DependenciesAdmitted r \<and> rq_Receipt r" "applyRules (elems (at_Maintainers a)) r (elems (po_Rules p)) = Inr perm"
      "rq_Manual r \<Longrightarrow> rq_Moderator r \<in> set (elems (po_Moderators p)) \<and> rq_Moderator r \<notin> set (elems (po_RevokedModerators p))"
      using assms(2) op by (auto simp: evaluatePolicy_def rbind_eq_Inr deny_def zeroPermission_def listed_def list_ex_iff split: if_splits)
    then show ?thesis using rules assms(2) actor unfolding Some option.case by blast
  qed
qed

text \<open>
  C27. After a rollover that is accepted, the new ledger validates exactly when the old one had more
  reservations than prior windows.  When the two numbers were equal, which \<open>validate\<close> accepts when some
  window has no reservation, no reservation succeeds on the new ledger any more.
\<close>

theorem Rollover_valid_iff:
  assumes "Rollover l p expected w authorized = Inr l'"
  shows "(validateLedger l' = Inr () \<longleftrightarrow> length (elems (ld_PriorWindows l)) < length (elems (ld_Reservations l))) \<and>
    (length (elems (ld_PriorWindows l)) = length (elems (ld_Reservations l)) \<longrightarrow>
      \<not> is_ok (Reserve l' q intent artifact cost))"
  using Rollover_validates [OF assms] by (auto simp: Reserve_def is_ok_rbind)

section \<open>Concrete instances\<close>

definition sampleActor :: "char \<Rightarrow> string" where
  "sampleActor c = replicate 64 c"

definition samplePolicy :: Policy where
  "samplePolicy = \<lparr>po_Project = sampleID CHR ''1'', po_Moderators = Some [sampleActor CHR ''a''], po_RevokedModerators = None,
     po_Rules = Some [\<lparr>ru_Operation = ''issue.create'', ru_Automatic = True, ru_Actors = None, ru_AllowMaintainers = False\<rparr>,
       \<lparr>ru_Operation = ''issue.edit'', ru_Automatic = False, ru_Actors = None, ru_AllowMaintainers = True\<rparr>],
     po_Baseline = None, po_Limits = DefaultLimits\<rparr>"

definition sampleLedger :: Ledger where
  "sampleLedger = \<lparr>ld_PriorWindows = None, ld_Project = sampleID CHR ''1'', ld_Window = ''w1'', ld_WindowUsed = zeroUsage,
     ld_RetainedUsed = zeroUsage, ld_Reservations = None\<rparr>"

definition sampleCost :: Cost where
  "sampleCost = \<lparr>co_WireBytes = 1000, co_DecodedBytes = 2000, co_Objects = 3, co_Events = 1, co_Depth = 1, co_Milliseconds = 10\<rparr>"

definition sampleAuthority :: Authority where
  "sampleAuthority = \<lparr>at_Ref = \<lparr>ar_Commit = replicate 40 CHR ''c'', ar_Digest = sampleID CHR ''d''\<rparr>, at_Policy = Some samplePolicy,
     at_Maintainers = Some [sampleActor CHR ''b'']\<rparr>"

lemma samplePolicy_ok: "validateProjectPolicy samplePolicy = Inr ()" by code_simp
lemma sampleLedger_ok: "validateLedger sampleLedger = Inr ()" by code_simp

lemma sampleReserve_ok: "is_ok (Reserve sampleLedger samplePolicy ''i'' (sampleID CHR ''2'') sampleCost)" by code_simp

theorem Reserve_refines_witness:
  "specReserve DefaultLimits [] (newReservation sampleLedger ''i'' (sampleID CHR ''2'') sampleCost) =
     Some ([newReservation sampleLedger ''i'' (sampleID CHR ''2'') sampleCost], False)"
proof -
  obtain l' b where r: "Reserve sampleLedger samplePolicy ''i'' (sampleID CHR ''2'') sampleCost = Inr (l', b)"
    using sampleReserve_ok by (auto elim!: is_okE)
  then have "elems (ld_Reservations l') = [newReservation sampleLedger ''i'' (sampleID CHR ''2'') sampleCost] \<and> \<not> b"
    by (cases rule: Reserve_cases) (auto simp: sampleLedger_def)
  moreover have "boundedText ''i'' 128" "validID (sampleID CHR ''2'')" by code_simp+
  ultimately show ?thesis
    using Reserve_refines [OF samplePolicy_ok sampleLedger_ok, of "''i''" "sampleID CHR ''2''" sampleCost] r
    by (simp add: sampleLedger_def samplePolicy_def)
qed

theorem ledger_never_overspends_witness:
  "\<exists>l'. Reserve sampleLedger samplePolicy ''i'' (sampleID CHR ''2'') sampleCost = Inr (l', False) \<and>
     withinBudget DefaultLimits l' \<and> sint (us_Bytes (ld_RetainedUsed l')) = 7096"
proof -
  have "case Reserve sampleLedger samplePolicy ''i'' (sampleID CHR ''2'') sampleCost of Inl _ \<Rightarrow> False
      | Inr (l', b) \<Rightarrow> \<not> b \<and> sint (us_Bytes (ld_RetainedUsed l')) = 7096" by code_simp
  then obtain l' where r: "Reserve sampleLedger samplePolicy ''i'' (sampleID CHR ''2'') sampleCost = Inr (l', False)"
    "sint (us_Bytes (ld_RetainedUsed l')) = 7096" by (auto split: sum.splits)
  then have "(ledgerStep samplePolicy)\<^sup>*\<^sup>* sampleLedger l'" by (blast intro: ledgerStep.reserve)
  then show ?thesis
    using ledger_never_overspends [OF sampleLedger_ok _ samplePolicy_ok rtranclp.rtrancl_refl, of l'] r
    by (auto simp: sampleLedger_def samplePolicy_def)
qed

theorem Reserve_replay_witness:
  "\<exists>l'. Reserve sampleLedger samplePolicy ''i'' (sampleID CHR ''2'') sampleCost = Inr (l', False) \<and>
     Reserve l' samplePolicy ''i'' (sampleID CHR ''2'') sampleCost = Inr (cloneLedger l', True) \<and>
     \<not> is_ok (Reserve l' samplePolicy ''i'' (sampleID CHR ''3'') sampleCost)"
proof -
  have "case Reserve sampleLedger samplePolicy ''i'' (sampleID CHR ''2'') sampleCost of Inl _ \<Rightarrow> False | Inr (l', b) \<Rightarrow> \<not> b"
    by code_simp
  then obtain l' where r: "Reserve sampleLedger samplePolicy ''i'' (sampleID CHR ''2'') sampleCost = Inr (l', False)"
    by (auto split: sum.splits)
  have "sampleID CHR ''3'' \<noteq> sampleID CHR ''2''" by code_simp
  then show ?thesis using r Reserve_replay [OF r, of "sampleID CHR ''3''" sampleCost] by blast
qed

theorem Evaluate_content_witness:
  "let r = \<lparr>rq_Operation = ''issue.edit'', rq_Actor = sampleActor CHR ''e'', rq_Author = sampleActor CHR ''e'', rq_Verified = True,
         rq_DependenciesAdmitted = True, rq_Receipt = True, rq_Manual = True, rq_Moderator = sampleActor CHR ''a''\<rparr>
   in case Evaluate sampleAuthority r of Inl _ \<Rightarrow> False
      | Inr perm \<Rightarrow> pm_Allowed perm \<and> rq_Moderator r \<in> set (elems (po_Moderators samplePolicy))"
proof -
  let ?r = "\<lparr>rq_Operation = ''issue.edit'', rq_Actor = sampleActor CHR ''e'', rq_Author = sampleActor CHR ''e'', rq_Verified = True,
    rq_DependenciesAdmitted = True, rq_Receipt = True, rq_Manual = True, rq_Moderator = sampleActor CHR ''a''\<rparr>"
  have "case Evaluate sampleAuthority ?r of Inl _ \<Rightarrow> False | Inr perm \<Rightarrow> pm_Allowed perm" by code_simp
  then obtain perm where p: "Evaluate sampleAuthority ?r = Inr perm" "pm_Allowed perm" by (auto split: sum.splits)
  then show ?thesis
    using Evaluate_content [OF p] by (simp add: sampleAuthority_def contentOperation_def)
qed

text \<open>A ledger with a window that no reservation used: it validates, rolls over, and is stuck.\<close>

definition unusedWindowLedger :: Ledger where
  "unusedWindowLedger = \<lparr>ld_PriorWindows = Some [''w0''], ld_Project = sampleID CHR ''1'', ld_Window = ''w1'', ld_WindowUsed = delta sampleCost,
     ld_RetainedUsed = delta sampleCost,
     ld_Reservations = Some [\<lparr>rv_Intent = ''i'', rv_Artifact = sampleID CHR ''2'', rv_Cost = sampleCost, rv_Window = ''w1''\<rparr>]\<rparr>"

theorem Rollover_valid_iff_witness:
  "validateLedger unusedWindowLedger = Inr () \<and>
   (\<exists>l'. Rollover unusedWindowLedger samplePolicy ''w1'' ''w2'' True = Inr l' \<and> validateLedger l' \<noteq> Inr () \<and>
      \<not> is_ok (Reserve l' samplePolicy ''j'' (sampleID CHR ''2'') sampleCost))"
proof -
  have valid: "validateLedger unusedWindowLedger = Inr ()" by code_simp
  have "is_ok (Rollover unusedWindowLedger samplePolicy ''w1'' ''w2'' True)" by code_simp
  then obtain l' where r: "Rollover unusedWindowLedger samplePolicy ''w1'' ''w2'' True = Inr l'" by (auto elim: is_okE)
  then show ?thesis
    using Rollover_valid_iff [OF r, of samplePolicy "''j''" "sampleID CHR ''2''" sampleCost] valid
    by (simp add: unusedWindowLedger_def)
qed

end
