(* ===== verification/HN_Reduce.thy ===== *)
theory HN_Reduce
  imports HN_Ledger
begin

text \<open>
  The reduction of contribution records to a governed view (\<open>src/internal/contribution/model.go\<close>): which native facts
  are admitted, which are visible, and which decisions are in conflict.  The native event source, the
  authority source and the decoder of a verified payload are arguments (\<open>adapters\<close>); a Go map with values
  \<open>true\<close> only is a list of its keys, a pointer to a node is its identifier.
\<close>

section \<open>Data\<close>

record Fact =
  fa_Actor :: string
  fa_Operation :: string
  fa_Content :: Content

record Conflict =
  cf_Key :: string
  cf_IDs :: "string list"

record Diagnostic =
  dg_ID :: string
  dg_Reason :: string

record View =
  vw_Roots :: "(string, string) gomap"
  vw_Project :: string
  vw_Authority :: AuthorityRef
  vw_BlockedActors :: "string list"
  vw_Admitted :: "string list"
  vw_Visible :: "string list"
  vw_Heads :: "(string, string list) gomap"
  vw_Pending :: "string list"
  vw_Conflicts :: "Conflict list"
  vw_Revoked :: "string list"
  vw_Invalid :: "Diagnostic list"
  vw_DecisionHeads :: "(Target, string list) gomap"

record graphRecord =
  gr_id :: string
  gr_record :: Record
  gr_authority :: Authority
  gr_effective :: bool
  gr_valid :: bool

record adapters =
  ad_record :: "Verified \<Rightarrow> Record"
  ad_Fact :: "string \<Rightarrow> Fact result"
  ad_Historical :: "AuthorityRef \<Rightarrow> Authority result"
  ad_Established :: "string \<Rightarrow> AuthorityRef \<Rightarrow> bool result"

text \<open>The variables that the closures of \<open>Reduce\<close> share.\<close>

record reduction =
  rd_nodes :: "(string, graphRecord) gomap"
  rd_Invalid :: "Diagnostic list"
  rd_Conflicts :: "Conflict list"
  rd_Revoked :: "string list"
  rd_facts :: "(string, Fact) gomap"
  rd_factErrors :: "(string, go_error) gomap"
  rd_factDepth :: "(string, nat) gomap"
  rd_decisionDepth :: "(string, nat) gomap"
  rd_visited :: "string list"

section \<open>Helpers\<close>

definition targetKey :: "Target \<Rightarrow> string" where
  "targetKey t = tg_Kind t @ '':'' @ tg_ID t"

fun equalReferences :: "Reference list \<Rightarrow> Reference list \<Rightarrow> bool" where
  "equalReferences [] [] = True"
| "equalReferences (a # as) (b # bs) = (a = b \<and> equalReferences as bs)"
| "equalReferences _ _ = False"

fun equalIDs :: "string list \<Rightarrow> string list \<Rightarrow> bool" where
  "equalIDs [] [] = True"
| "equalIDs (a # as) (b # bs) = (a = b \<and> equalIDs as bs)"
| "equalIDs _ _ = False"

definition sameContent :: "Content \<Rightarrow> Content \<Rightarrow> bool" where
  "sameContent a b \<longleftrightarrow> ct_Root a = ct_Root b \<and> ct_Revision a = ct_Revision b \<and> ct_Author a = ct_Author b \<and>
     equalIDs (elems (ct_Parents a)) (elems (ct_Parents b)) \<and> equalReferences (elems (ct_References a)) (elems (ct_References b))"

definition sameFamily :: "string \<Rightarrow> string \<Rightarrow> bool" where
  "sameFamily root revision =
     (if revision = ''issue.edit'' then root = ''issue.create''
      else if revision = ''discussion.edit'' then root = ''discussion.create'' \<or> root = ''discussion.reply''
      else if revision = ''proposal.revise'' then root = ''proposal.create''
      else if revision = ''project.edit'' then root = ''project.create''
      else if revision = ''project-item.edit'' then root = ''project-item.create''
      else if revision = ''workflow.edit'' then root = ''workflow.create''
      else False)"

definition zeroFact :: Fact where
  "zeroFact = \<lparr>fa_Actor = [], fa_Operation = [],
     fa_Content = \<lparr>ct_Root = [], ct_Revision = [], ct_Author = [], ct_Parents = None, ct_References = None\<rparr>\<rparr>"

definition factOf :: "reduction \<Rightarrow> string \<Rightarrow> Fact" where
  "factOf st i = (case map_of (rd_facts st) i of None \<Rightarrow> zeroFact | Some f \<Rightarrow> f)"

definition depthOf :: "(string, nat) gomap \<Rightarrow> string \<Rightarrow> nat" where
  "depthOf m i = (case map_of m i of None \<Rightarrow> 0 | Some n \<Rightarrow> n)"

text \<open>The closure \<open>invalid\<close>: the first reason is kept as a diagnostic.\<close>

definition invalidate :: "string \<Rightarrow> string \<Rightarrow> reduction \<Rightarrow> reduction" where
  "invalidate i why st = (case map_of (rd_nodes st) i of
       None \<Rightarrow> st
     | Some n \<Rightarrow> st\<lparr>rd_Invalid := (if gr_valid n then rd_Invalid st @ [\<lparr>dg_ID = i, dg_Reason = why\<rparr>] else rd_Invalid st),
         rd_nodes := AList.update i (n\<lparr>gr_valid := False, gr_effective := False\<rparr>) (rd_nodes st)\<rparr>)"

section \<open>Native facts\<close>

definition overBudget :: "Policy \<Rightarrow> reduction \<Rightarrow> bool" where
  "overBudget p st \<longleftrightarrow> (let n = length (rd_nodes st) + length (rd_facts st) + length (rd_factErrors st) in
     n \<ge> MaxGraphRecords \<or> int n \<ge> sint (us_Events (lm_Retained (po_Limits p))) \<or>
     int n \<ge> sint (us_Objects (lm_Retained (po_Limits p))))"

definition depthLimit :: "Policy \<Rightarrow> int" where
  "depthLimit p = sint (lm_Depth (po_Limits p))"

text \<open>The checks on a native fact before its dependencies are fetched.\<close>

definition checkFact :: "string \<Rightarrow> Fact \<Rightarrow> unit result" where
  "checkFact i f =
     (if ct_Revision (fa_Content f) \<noteq> i \<or> \<not> validActor (fa_Actor f) \<or> \<not> contentOperation (fa_Operation f)
      then errorf ''invalid classified native fact'' []
      else rbind (validateContent (fa_Content f)) (\<lambda>_.
        if ct_Root (fa_Content f) = i then
          (if authorOperation (fa_Operation f) then errorf ''native edit lacks predecessor lineage'' []
           else if fa_Actor f \<noteq> ct_Author (fa_Content f) \<or> length (elems (ct_Parents (fa_Content f))) \<noteq> 0
           then errorf ''invalid native root/author'' [] else Inr ())
        else if \<not> authorOperation (fa_Operation f) then errorf ''native creation/reply cannot revise another root'' []
        else Inr ()))"

definition checkRootFact :: "Fact \<Rightarrow> Fact \<Rightarrow> unit result" where
  "checkRootFact f r =
     (if ct_Root (fa_Content r) \<noteq> ct_Root (fa_Content f) \<or> ct_Author (fa_Content r) \<noteq> ct_Author (fa_Content f) \<or>
         length (elems (ct_Parents (fa_Content f))) = 0 \<or> \<not> sameFamily (fa_Operation r) (fa_Operation f)
      then errorf ''invalid native root lineage'' [] else Inr ())"

definition checkParentFact :: "Fact \<Rightarrow> Fact \<Rightarrow> unit result" where
  "checkParentFact f q =
     (if ct_Root (fa_Content q) \<noteq> ct_Root (fa_Content f) \<or> ct_Author (fa_Content q) \<noteq> ct_Author (fa_Content f)
      then errorf ''cross-root native predecessor'' [] else Inr ())"

definition checkReferenceFact :: "Reference \<Rightarrow> Fact \<Rightarrow> unit result" where
  "checkReferenceFact r target =
     (if rf_Kind r = ''root'' \<and> ct_Root (fa_Content target) \<noteq> rf_ID r
      then errorf ''root reference names a non-root revision'' [] else Inr ())"

text \<open>The facts that are fetched for a fact, in order, each with the check that follows.\<close>

definition dependencyChecks :: "string \<Rightarrow> Fact \<Rightarrow> (string \<times> (Fact \<Rightarrow> unit result)) list" where
  "dependencyChecks i f =
     (if ct_Root (fa_Content f) = i then [] else [(ct_Root (fa_Content f), checkRootFact f)]) @
     map (\<lambda>q. (q, checkParentFact f)) (elems (ct_Parents (fa_Content f))) @
     map (\<lambda>r. (rf_ID r, checkReferenceFact r)) (elems (ct_References (fa_Content f)))"

definition structuralDepth :: "string \<Rightarrow> Fact \<Rightarrow> (string, nat) gomap \<Rightarrow> nat" where
  "structuralDepth i f depths =
     fold (\<lambda>dep m. if depthOf depths dep + 1 > m then depthOf depths dep + 1 else m)
       (contentLinks (fa_Content f) @ (if ct_Root (fa_Content f) \<noteq> i then [ct_Root (fa_Content f)] else [])) 0"

definition failFact :: "string \<Rightarrow> go_error \<Rightarrow> reduction \<Rightarrow> Fact result \<times> reduction" where
  "failFact i e st = (Inl e, st\<lparr>rd_factErrors := AList.update i e (rd_factErrors st)\<rparr>)"

definition finishFact :: "Policy \<Rightarrow> string \<Rightarrow> Fact \<Rightarrow> reduction \<Rightarrow> Fact result \<times> reduction" where
  "finishFact p i f st =
     (if (fa_Operation f = ''issue.reply'' \<or> fa_Operation f = ''discussion.reply'') \<and> length (elems (ct_References (fa_Content f))) = 0
      then failFact i (Errorf ''reply lacks exact target reference'' []) st
      else let maxDepth = structuralDepth i f (rd_factDepth st) in
        if int maxDepth > depthLimit p then failFact i (Errorf ''native dependency depth exceeded'' []) st
        else (Inr f, st\<lparr>rd_factDepth := AList.update i maxDepth (rd_factDepth st),
               rd_facts := AList.update i f (rd_facts st)\<rparr>))"

text \<open>
  \<open>getFact\<close>: \<open>visiting\<close> holds the facts that are being fetched, \<open>fetchAll\<close> is the sequence of loops over root,
  parents and references.
\<close>

function (sequential) getFact :: "adapters \<Rightarrow> Policy \<Rightarrow> string list \<Rightarrow> string \<Rightarrow> nat \<Rightarrow> reduction \<Rightarrow> Fact result \<times> reduction"
  and fetchAll :: "adapters \<Rightarrow> Policy \<Rightarrow> string list \<Rightarrow> (string \<times> (Fact \<Rightarrow> unit result)) list \<Rightarrow> nat \<Rightarrow> reduction \<Rightarrow> unit result \<times> reduction"
where
  "getFact ad p visiting i depth st =
     (case map_of (rd_facts st) i of Some f \<Rightarrow> (Inr f, st) | None \<Rightarrow>
      case map_of (rd_factErrors st) i of Some e \<Rightarrow> (Inl e, st) | None \<Rightarrow>
      if int depth > depthLimit p \<or> overBudget p st then (errorf ''native dependency budget exceeded'' [], st)
      else if i \<in> set visiting then (errorf ''native dependency cycle'' [], st)
      else case rbind (ad_Fact ad i) (\<lambda>f. rbind (checkFact i f) (\<lambda>_. Inr f)) of
             Inl e \<Rightarrow> failFact i e st
           | Inr f \<Rightarrow>
               (case fetchAll ad p (i # visiting) (dependencyChecks i f) (Suc depth) st of
                  (Inl e, st1) \<Rightarrow> failFact i e st1
                | (Inr _, st1) \<Rightarrow> finishFact p i f st1))"
| "fetchAll ad p visiting [] depth st = (Inr (), st)"
| "fetchAll ad p visiting (d # ds) depth st =
     (case getFact ad p visiting (fst d) depth st of
        (Inl e, st1) \<Rightarrow> (Inl e, st1)
      | (Inr f, st1) \<Rightarrow> (case snd d f of Inl e \<Rightarrow> (Inl e, st1) | Inr _ \<Rightarrow> fetchAll ad p visiting ds depth st1))"
  by pat_completeness auto

termination
proof (relation "inv_image (less_than <*lex*> less_than)
    (\<lambda>x. case x of Inl (ad, p, visiting, i, depth, st) \<Rightarrow> (nat (depthLimit p + 2 - int depth), 0)
      | Inr (ad, p, visiting, ds, depth, st) \<Rightarrow> (nat (depthLimit p + 2 - int depth), Suc (length ds)))")
qed (auto simp: in_lex_prod)

declare getFact.simps [simp del] fetchAll.simps [simp del]

section \<open>Reading the records\<close>

definition setNode :: "string \<Rightarrow> graphRecord \<Rightarrow> reduction \<Rightarrow> reduction" where
  "setNode i n st = st\<lparr>rd_nodes := AList.update i n (rd_nodes st)\<rparr>"

definition emptyAuthority :: Authority where
  "emptyAuthority = \<lparr>at_Ref = \<lparr>ar_Commit = [], ar_Digest = []\<rparr>, at_Policy = None, at_Maintainers = None\<rparr>"

text \<open>The loop over the input: nodes, their identifiers, and the identifiers per actor and intent.\<close>

fun readInput :: "adapters \<Rightarrow> string \<Rightarrow> Verified list \<Rightarrow> string list \<Rightarrow> reduction \<times> string list \<times> (string, string list) gomap \<Rightarrow>
    (reduction \<times> string list \<times> (string, string list) gomap) result" where
  "readInput ad project [] seen acc = Inr acc"
| "readInput ad project (v # vs) seen (st, ids, intents) =
     (if vf_id v = [] \<or> length (vf_payload v) = 0 then errorf ''unauthenticated contribution record'' []
      else if vf_id v \<in> set seen then readInput ad project vs seen (st, ids, intents)
      else let r = ad_record ad v in
        if re_Project r \<noteq> project
        then readInput ad project vs (vf_id v # seen)
          (st\<lparr>rd_Invalid := rd_Invalid st @ [\<lparr>dg_ID = vf_id v, dg_Reason = ''wrong project scope''\<rparr>]\<rparr>, ids, intents)
        else readInput ad project vs (vf_id v # seen)
          (setNode (vf_id v) \<lparr>gr_id = vf_id v, gr_record = r, gr_authority = emptyAuthority, gr_effective = True, gr_valid = True\<rparr> st,
           ids @ [vf_id v], appendTo (re_Actor r @ '':'' @ re_Intent r) (vf_id v) intents))"

definition conflictIntents :: "(string, string list) gomap \<Rightarrow> reduction \<Rightarrow> reduction" where
  "conflictIntents intents st = fold (\<lambda>(k, grp) st.
     if length grp > 1 then
       fold (\<lambda>i. invalidate i ''conflicting actor/project intent'') (sort grp)
         (st\<lparr>rd_Conflicts := rd_Conflicts st @ [\<lparr>cf_Key = ''intent:'' @ k, cf_IDs = sort grp\<rparr>]\<rparr>)
     else st) intents st"

section \<open>The baseline\<close>

fun fetchBaseline :: "adapters \<Rightarrow> Policy \<Rightarrow> string list \<Rightarrow> reduction \<Rightarrow> reduction result" where
  "fetchBaseline ad p [] st = Inr st"
| "fetchBaseline ad p (i # is) st = (case getFact ad p [] i 0 st of
       (Inl e, _) \<Rightarrow> (case e of Errorf f as \<Rightarrow> errorf (''invalid historical baseline: '' @ f) as | Panic \<Rightarrow> Inl Panic)
     | (Inr _, st1) \<Rightarrow> fetchBaseline ad p is st1)"

definition checkBaseline :: "Policy \<Rightarrow> reduction \<Rightarrow> unit result" where
  "checkBaseline p st = forEach (\<lambda>i. forEach (\<lambda>dep.
       if dep \<notin> set (elems (po_Baseline p)) then errorf ''baseline lacks exact structural dependency closure'' [] else Inr ())
     (contentLinks (fa_Content (factOf st i)))) (elems (po_Baseline p))"

section \<open>Authority of the records\<close>

definition authorizeSubmission :: "adapters \<Rightarrow> Policy \<Rightarrow> string \<Rightarrow> Record \<Rightarrow> Submission \<Rightarrow> reduction \<Rightarrow> reduction" where
  "authorizeSubmission ad p i r s st =
     (case getFact ad p [] (ct_Revision (sb_Content s)) 0 st of
        (Inl e, st1) \<Rightarrow> invalidate i ''submission does not bind exact authenticated native fact'' st1
      | (Inr f, st1) \<Rightarrow>
          if fa_Actor f \<noteq> re_Actor r \<or> fa_Operation f \<noteq> sb_Operation s \<or> \<not> sameContent (fa_Content f) (sb_Content s)
          then invalidate i ''submission does not bind exact authenticated native fact'' st1 else st1)"

definition authorizeSigner :: "Policy \<Rightarrow> string \<Rightarrow> graphRecord \<Rightarrow> Authority \<Rightarrow> Policy \<Rightarrow> reduction \<Rightarrow> reduction" where
  "authorizeSigner p i n a ap st =
     (let r = gr_record n; st1 = setNode i (n\<lparr>gr_authority := a\<rparr>) st in
      if re_Decision r \<noteq> None \<and> \<not> listed (re_Actor r) (elems (po_Moderators ap))
      then invalidate i ''decision signer lacks evaluated moderator authority'' st1
      else if re_Receipt r \<noteq> None \<and> \<not> listed (re_Actor r) (elems (at_Maintainers a)) \<and> \<not> listed (re_Actor r) (elems (po_Moderators ap))
      then invalidate i ''receipt signer lacks evaluated intake authority'' st1
      else if listed (re_Actor r) (elems (po_RevokedModerators ap))
      then invalidate i ''signer revoked by evaluated policy'' st1
      else if listed (re_Actor r) (elems (po_RevokedModerators p))
      then setNode i (n\<lparr>gr_authority := a, gr_effective := False\<rparr>) (st1\<lparr>rd_Revoked := rd_Revoked st1 @ [i]\<rparr>)
      else st1)"

definition establishedOK :: "adapters \<Rightarrow> AuthorityRef \<Rightarrow> string \<Rightarrow> AuthorityRef \<Rightarrow> bool" where
  "establishedOK ad current i ref \<longleftrightarrow> ar_Digest ref = ar_Digest current \<or> ad_Established ad i ref = Inr True"

text \<open>One record; a record without submission has a decision or, without one, a receipt.\<close>

definition authorizeRecord :: "adapters \<Rightarrow> Authority \<Rightarrow> Policy \<Rightarrow> string \<Rightarrow> reduction \<Rightarrow> reduction result" where
  "authorizeRecord ad current p i st =
     (case map_of (rd_nodes st) i of None \<Rightarrow> nilDereference | Some n \<Rightarrow>
      if \<not> gr_valid n then Inr st
      else let r = gr_record n in
      case re_Submission r of Some s \<Rightarrow> Inr (authorizeSubmission ad p i r s st) | None \<Rightarrow>
      rbind (case (re_Decision r, re_Receipt r) of (Some d, _) \<Rightarrow> Inr (dc_Authority d) | (None, Some x) \<Rightarrow> Inr (rc_Authority x)
             | (None, None) \<Rightarrow> nilDereference) (\<lambda>ref.
      Inr (case ad_Historical ad ref of
             Inl e \<Rightarrow> invalidate i ''invalid historical authority'' st
           | Inr a \<Rightarrow>
               if at_Ref a \<noteq> ref \<or> validateAuthority a \<noteq> Inr () \<or> map_option po_Project (at_Policy a) \<noteq> Some (re_Project r)
               then invalidate i ''invalid historical authority'' st
               else if \<not> establishedOK ad (at_Ref current) i ref
               then invalidate i ''old policy requires established authority checkpoint'' st
               else authorizeSigner p i n a (the (at_Policy a)) st)))"

fun authorizeAll :: "adapters \<Rightarrow> Authority \<Rightarrow> Policy \<Rightarrow> string list \<Rightarrow> reduction \<Rightarrow> reduction result" where
  "authorizeAll ad current p [] st = Inr st"
| "authorizeAll ad current p (i # is) st = rbind (authorizeRecord ad current p i st) (authorizeAll ad current p is)"

section \<open>Decisions\<close>

definition isDecision :: "reduction \<Rightarrow> string \<Rightarrow> Target \<Rightarrow> bool" where
  "isDecision st i t \<longleftrightarrow> (case map_of (rd_nodes st) i of None \<Rightarrow> False
     | Some n \<Rightarrow> map_option dc_Target (re_Decision (gr_record n)) = Some t)"

definition nodeValid :: "reduction \<Rightarrow> string \<Rightarrow> bool" where
  "nodeValid st i \<longleftrightarrow> (case map_of (rd_nodes st) i of None \<Rightarrow> False | Some n \<Rightarrow> gr_valid n)"

definition validSubmission :: "reduction \<Rightarrow> string \<Rightarrow> bool" where
  "validSubmission st i \<longleftrightarrow> (case map_of (rd_nodes st) i of None \<Rightarrow> False
     | Some n \<Rightarrow> gr_valid n \<and> re_Submission (gr_record n) \<noteq> None)"

definition checkDecisionTarget :: "adapters \<Rightarrow> Policy \<Rightarrow> string \<Rightarrow> Target \<Rightarrow> reduction \<Rightarrow> reduction" where
  "checkDecisionTarget ad p i t st =
     (if tg_Kind t = ''submission'' then
        (if \<not> validSubmission st (tg_ID t) then invalidate i ''missing valid submission target'' st else st)
      else if tg_Kind t = ''revision'' then
        (case getFact ad p [] (tg_ID t) 0 st of
           (Inl _, st1) \<Rightarrow> invalidate i ''missing authenticated revision target'' st1
         | (Inr _, st1) \<Rightarrow> st1)
      else st)"

definition deepen :: "string \<Rightarrow> string \<Rightarrow> reduction \<Rightarrow> reduction" where
  "deepen parent i st =
     (if depthOf (rd_decisionDepth st) parent + 1 > depthOf (rd_decisionDepth st) i
      then st\<lparr>rd_decisionDepth := AList.update i (depthOf (rd_decisionDepth st) parent + 1) (rd_decisionDepth st)\<rparr> else st)"

definition finishDecision :: "Policy \<Rightarrow> string \<Rightarrow> reduction \<Rightarrow> bool \<times> reduction" where
  "finishDecision p i st =
     (let st1 = (if int (depthOf (rd_decisionDepth st) i) > depthLimit p
                 then invalidate i ''decision dependency depth exceeded'' st else st);
          st2 = st1\<lparr>rd_visited := i # rd_visited st1\<rparr>
      in (nodeValid st2 i, st2))"

function (sequential) decisionValid :: "adapters \<Rightarrow> Policy \<Rightarrow> string list \<Rightarrow> string \<Rightarrow> nat \<Rightarrow> reduction \<Rightarrow> bool \<times> reduction"
  and parentsValid :: "adapters \<Rightarrow> Policy \<Rightarrow> string list \<Rightarrow> string \<Rightarrow> Target \<Rightarrow> string list \<Rightarrow> nat \<Rightarrow> reduction \<Rightarrow> reduction"
where
  "decisionValid ad p visiting i depth st =
     (case map_of (rd_nodes st) i of None \<Rightarrow> (False, st) | Some n \<Rightarrow>
      if \<not> gr_valid n then (False, st)
      else if i \<in> set (rd_visited st) then (gr_valid n, st)
      else if int depth > depthLimit p \<or> i \<in> set visiting then (False, invalidate i ''decision cycle/depth exceeded'' st)
      else case re_Decision (gr_record n) of None \<Rightarrow> (False, st) | Some d \<Rightarrow>
        finishDecision p i (parentsValid ad p (i # visiting) i (dc_Target d) (elems (dc_Parents d)) (Suc depth)
          (checkDecisionTarget ad p i (dc_Target d) st)))"
| "parentsValid ad p visiting i t [] depth st = st"
| "parentsValid ad p visiting i t (q # qs) depth st =
     (if \<not> isDecision st q t
      then parentsValid ad p visiting i t qs depth (invalidate i ''missing or invalid same-target decision parent'' st)
      else case decisionValid ad p visiting q depth st of
             (False, st1) \<Rightarrow> parentsValid ad p visiting i t qs depth (invalidate i ''missing or invalid same-target decision parent'' st1)
           | (True, st1) \<Rightarrow> parentsValid ad p visiting i t qs depth (deepen q i st1))"
  by pat_completeness auto
termination
proof (relation "inv_image (less_than <*lex*> less_than)
    (\<lambda>x. case x of Inl (ad, p, visiting, i, depth, st) \<Rightarrow> (nat (depthLimit p + 2 - int depth), 0)
      | Inr (ad, p, visiting, i, t, qs, depth, st) \<Rightarrow> (nat (depthLimit p + 2 - int depth), Suc (length qs)))")
qed (auto simp: in_lex_prod)

declare decisionValid.simps [simp del] parentsValid.simps [simp del]

definition decisionsValid :: "adapters \<Rightarrow> Policy \<Rightarrow> string list \<Rightarrow> reduction \<Rightarrow> reduction" where
  "decisionsValid ad p ids st = fold (\<lambda>i st. case map_of (rd_nodes st) i of None \<Rightarrow> st
     | Some n \<Rightarrow> if gr_valid n \<and> re_Decision (gr_record n) \<noteq> None then snd (decisionValid ad p [] i 0 st) else st) ids st"

section \<open>Receipts\<close>

definition nodeDecision :: "reduction \<Rightarrow> string \<Rightarrow> Decision option" where
  "nodeDecision st i = (case map_of (rd_nodes st) i of None \<Rightarrow> None | Some n \<Rightarrow> re_Decision (gr_record n))"

text \<open>The first loop over the evaluated evidence: a node that is no valid moderation decision.\<close>

definition badEvidence :: "reduction \<Rightarrow> string \<Rightarrow> bool" where
  "badEvidence st q \<longleftrightarrow> \<not> nodeValid st q \<or> (case nodeDecision st q of None \<Rightarrow> True | Some d \<Rightarrow> tg_Kind (dc_Target d) = ''submission'')"

definition relevantEvidence :: "reduction \<Rightarrow> string \<Rightarrow> Content \<Rightarrow> Target \<Rightarrow> bool" where
  "relevantEvidence st actor subject t \<longleftrightarrow>
     (tg_Kind t = ''actor'' \<and> (tg_ID t = actor \<or> tg_ID t = ct_Author subject)) \<or>
     (tg_Kind t = ''revision'' \<and>
       (let target = factOf st (tg_ID t) in
        list_ex (\<lambda>parent. tg_ID t = parent \<or> ct_Root (fa_Content target) = ct_Root (fa_Content (factOf st parent))) (elems (ct_Parents subject)) \<or>
        list_ex (\<lambda>r. tg_ID t = rf_ID r \<or> rf_Kind r = ''root'' \<and> ct_Root (fa_Content target) = rf_ID r) (elems (ct_References subject))))"

text \<open>The second loop: the reason for which it breaks.\<close>

fun evidenceProblem :: "reduction \<Rightarrow> string \<Rightarrow> Content \<Rightarrow> Target list \<Rightarrow> string list \<Rightarrow> string option" where
  "evidenceProblem st actor subject seen [] = None"
| "evidenceProblem st actor subject seen (q # qs) = (case nodeDecision st q of None \<Rightarrow> None | Some d \<Rightarrow>
     if dc_Target d \<in> set seen then Some ''conflicted evaluated moderation heads''
     else if \<not> relevantEvidence st actor subject (dc_Target d) then Some ''irrelevant evaluated moderation evidence''
     else if dc_Action d = ''block'' \<or> dc_Action d = ''hide'' then Some ''evaluated moderation forbids intake''
     else evidenceProblem st actor subject (dc_Target d # seen) qs)"

definition contentRequest :: "Record \<Rightarrow> Submission \<Rightarrow> Request" where
  "contentRequest r s = \<lparr>rq_Operation = sb_Operation s, rq_Actor = re_Actor r, rq_Author = ct_Author (sb_Content s), rq_Verified = True,
     rq_DependenciesAdmitted = True, rq_Receipt = True, rq_Manual = False, rq_Moderator = []\<rparr>"

definition automaticOK :: "Authority \<Rightarrow> Request \<Rightarrow> bool" where
  "automaticOK a r \<longleftrightarrow> (case Evaluate a r of Inl _ \<Rightarrow> False | Inr perm \<Rightarrow> pm_Allowed perm \<and> pm_Automatic perm)"

text \<open>The limits a receipt was evaluated under; the authority of a valid receipt has a policy.\<close>

definition limitsOf :: "Authority \<Rightarrow> Limits" where
  "limitsOf a = (case at_Policy a of None \<Rightarrow> DefaultLimits | Some p \<Rightarrow> po_Limits p)"

text \<open>The checks on one valid receipt: the reason for which it is invalid.\<close>

definition receiptProblem :: "reduction \<Rightarrow> graphRecord \<Rightarrow> Receipt \<Rightarrow> string option" where
  "receiptProblem st n x =
     (if \<not> validSubmission st (rc_Submission x) then Some ''receipt lacks exact valid submission''
      else if \<not> costWithin (rc_Cost x) (limitsOf (gr_authority n)) then Some ''receipt exceeds evaluated intake bounds''
      else if list_ex (badEvidence st) (elems (rc_Evaluated x)) then Some ''invalid evaluated moderation evidence''
      else case map_of (rd_nodes st) (rc_Submission x) of None \<Rightarrow> None | Some sn \<Rightarrow>
        (case re_Submission (gr_record sn) of None \<Rightarrow> None | Some s \<Rightarrow>
          (case evidenceProblem st (re_Actor (gr_record sn)) (sb_Content s) [] (elems (rc_Evaluated x)) of
             Some why \<Rightarrow> Some why
           | None \<Rightarrow> if rc_Automatic x \<and> \<not> automaticOK (gr_authority n) (contentRequest (gr_record sn) s)
                     then Some ''receipt does not satisfy evaluated automatic rule'' else None)))"

fun collectReceipts :: "string list \<Rightarrow> (string, string list) gomap \<Rightarrow> reduction \<Rightarrow> (string, string list) gomap \<times> reduction" where
  "collectReceipts [] receipts st = (receipts, st)"
| "collectReceipts (i # is) receipts st =
     (case map_of (rd_nodes st) i of None \<Rightarrow> collectReceipts is receipts st | Some n \<Rightarrow>
      case re_Receipt (gr_record n) of None \<Rightarrow> collectReceipts is receipts st | Some x \<Rightarrow>
      if \<not> gr_valid n then collectReceipts is receipts st
      else case receiptProblem st n x of
             Some why \<Rightarrow> collectReceipts is receipts (invalidate i why st)
           | None \<Rightarrow> collectReceipts is (if gr_effective n then appendTo (rc_Submission x) i receipts else receipts) st)"

section \<open>Decision heads\<close>

fun collectGroups :: "(string, string list) gomap \<Rightarrow> string list \<Rightarrow> (Target, string list) gomap \<Rightarrow> reduction \<Rightarrow>
    (Target, string list) gomap \<times> reduction" where
  "collectGroups receipts [] groups st = (groups, st)"
| "collectGroups receipts (i # is) groups st =
     (case map_of (rd_nodes st) i of None \<Rightarrow> collectGroups receipts is groups st | Some n \<Rightarrow>
      case re_Decision (gr_record n) of None \<Rightarrow> collectGroups receipts is groups st | Some d \<Rightarrow>
      if gr_valid n \<and> gr_effective n then
        (if tg_Kind (dc_Target d) = ''submission'' \<and> lookupList receipts (tg_ID (dc_Target d)) = []
         then collectGroups receipts is groups (invalidate i ''admission decision lacks completed bounded intake'' st)
         else collectGroups receipts is (appendTo (dc_Target d) i groups) st)
      else collectGroups receipts is groups st)"

definition decisionParents :: "reduction \<Rightarrow> string \<Rightarrow> string list" where
  "decisionParents st i = (case nodeDecision st i of None \<Rightarrow> [] | Some d \<Rightarrow> elems (dc_Parents d))"

definition headsOf :: "reduction \<Rightarrow> string list \<Rightarrow> string list" where
  "headsOf st grp = sort (remdups (filter (\<lambda>i. \<not> list_ex (\<lambda>j. i \<in> set (decisionParents st j)) grp) grp))"

definition decisionHeads :: "reduction \<Rightarrow> (Target, string list) gomap \<Rightarrow> (Target, string list) gomap" where
  "decisionHeads st groups = map (\<lambda>(t, grp). (t, headsOf st grp)) groups"

definition conflicted :: "(Target, string list) gomap \<Rightarrow> Target \<Rightarrow> bool" where
  "conflicted heads t \<longleftrightarrow> length (lookupList heads t) > 1"

definition chosen :: "(Target, string list) gomap \<Rightarrow> Target \<Rightarrow> string option" where
  "chosen heads t = (case lookupList heads t of [i] \<Rightarrow> Some i | _ \<Rightarrow> None)"

definition chosenAction :: "reduction \<Rightarrow> (Target, string list) gomap \<Rightarrow> Target \<Rightarrow> string option" where
  "chosenAction st heads t = (case chosen heads t of None \<Rightarrow> None | Some i \<Rightarrow> map_option dc_Action (nodeDecision st i))"

definition headConflicts :: "(Target, string list) gomap \<Rightarrow> Conflict list" where
  "headConflicts heads = map (\<lambda>(t, is). \<lparr>cf_Key = targetKey t, cf_IDs = is\<rparr>) (filter (\<lambda>(t, is). length is > 1) heads)"

definition actorTarget :: "string \<Rightarrow> Target" where "actorTarget a = \<lparr>tg_Kind = ''actor'', tg_ID = a\<rparr>"
definition revisionTarget :: "string \<Rightarrow> Target" where "revisionTarget i = \<lparr>tg_Kind = ''revision'', tg_ID = i\<rparr>"
definition submissionTarget :: "string \<Rightarrow> Target" where "submissionTarget i = \<lparr>tg_Kind = ''submission'', tg_ID = i\<rparr>"

definition actorBlocked :: "reduction \<Rightarrow> (Target, string list) gomap \<Rightarrow> string \<Rightarrow> bool" where
  "actorBlocked st heads a \<longleftrightarrow> conflicted heads (actorTarget a) \<or> chosenAction st heads (actorTarget a) = Some ''block''"

definition blockedActors :: "reduction \<Rightarrow> (Target, string list) gomap \<Rightarrow> string list" where
  "blockedActors st heads = map tg_ID (filter (\<lambda>t. tg_Kind t = ''actor'' \<and> actorBlocked st heads (tg_ID t)) (map fst heads))"

section \<open>Admission\<close>

text \<open>Whether the submission of a node is admitted by its chosen decision or, without one, by an automatic receipt.\<close>

definition manualOK :: "reduction \<Rightarrow> string \<Rightarrow> Record \<Rightarrow> Submission \<Rightarrow> bool" where
  "manualOK st i r s \<longleftrightarrow> (case map_of (rd_nodes st) i of None \<Rightarrow> False | Some n \<Rightarrow>
     (case Evaluate (gr_authority n) ((contentRequest r s)\<lparr>rq_Manual := True, rq_Moderator := re_Actor (gr_record n)\<rparr>) of
        Inl _ \<Rightarrow> False | Inr perm \<Rightarrow> pm_Allowed perm))"

definition automaticReceipt :: "reduction \<Rightarrow> string \<Rightarrow> bool" where
  "automaticReceipt st i \<longleftrightarrow> (case map_of (rd_nodes st) i of None \<Rightarrow> False | Some n \<Rightarrow>
     (case re_Receipt (gr_record n) of None \<Rightarrow> False | Some x \<Rightarrow> rc_Automatic x))"

definition submissionAdmitted :: "reduction \<Rightarrow> (string, string list) gomap \<Rightarrow> (Target, string list) gomap \<Rightarrow> string \<Rightarrow> Record \<Rightarrow> Submission \<Rightarrow> bool" where
  "submissionAdmitted st receipts heads i r s =
     (let t = submissionTarget i in
      if \<not> conflicted heads t \<and> \<not> actorBlocked st heads (re_Actor r) then
        (case chosen heads t of
           Some d \<Rightarrow> chosenAction st heads t = Some ''admit'' \<and> manualOK st d r s
         | None \<Rightarrow> list_ex (automaticReceipt st) (lookupList receipts i))
      else False)"

text \<open>The loop over the submissions: candidate revisions and pending submissions.\<close>

definition validSubmissions :: "reduction \<Rightarrow> string list \<Rightarrow> (string \<times> Record \<times> Submission) list" where
  "validSubmissions st ids = List.map_filter (\<lambda>i. case map_of (rd_nodes st) i of None \<Rightarrow> None | Some n \<Rightarrow>
     if \<not> gr_valid n then None else map_option (\<lambda>s. (i, gr_record n, s)) (re_Submission (gr_record n))) ids"

definition candidateSet :: "Policy \<Rightarrow> reduction \<Rightarrow> (string, string list) gomap \<Rightarrow> (Target, string list) gomap \<Rightarrow> string list \<Rightarrow> string list" where
  "candidateSet p st receipts heads ids = sort (remdups (elems (po_Baseline p) @
     map (\<lambda>(i, r, s). ct_Revision (sb_Content s)) (filter (\<lambda>(i, r, s). submissionAdmitted st receipts heads i r s) (validSubmissions st ids))))"

definition notAdmitted :: "reduction \<Rightarrow> (string, string list) gomap \<Rightarrow> (Target, string list) gomap \<Rightarrow> string list \<Rightarrow> string list" where
  "notAdmitted st receipts heads ids =
     map fst (filter (\<lambda>(i, r, s). \<not> submissionAdmitted st receipts heads i r s) (validSubmissions st ids))"

text \<open>
  \<open>admit\<close>: the state of a candidate is absent, 1 (in progress) or 2 (decided); \<open>admitAll\<close> is the loop over the
  parents and references of a fact, which does not stop at the first failure.
\<close>

type_synonym admission = "(string, nat) gomap \<times> string list"

definition factAllowed :: "reduction \<Rightarrow> (Target, string list) gomap \<Rightarrow> string \<Rightarrow> bool" where
  "factAllowed st heads i \<longleftrightarrow> (case map_of (rd_facts st) i of None \<Rightarrow> False
     | Some f \<Rightarrow> \<not> actorBlocked st heads (fa_Actor f) \<and> \<not> actorBlocked st heads (ct_Author (fa_Content f)))"

function (sequential) admit :: "int \<Rightarrow> (string \<Rightarrow> string list) \<Rightarrow> (string \<Rightarrow> bool) \<Rightarrow> string list \<Rightarrow> string \<Rightarrow> nat \<Rightarrow> admission \<Rightarrow> bool \<times> admission"
  and admitAll :: "int \<Rightarrow> (string \<Rightarrow> string list) \<Rightarrow> (string \<Rightarrow> bool) \<Rightarrow> string list \<Rightarrow> string list \<Rightarrow> nat \<Rightarrow> admission \<Rightarrow> bool \<times> admission"
where
  "admit limit links allowedFact candidates i depth adm =
     (if map_of (fst adm) i = Some 2 then (i \<in> set (snd adm), adm)
      else if map_of (fst adm) i = Some 1 \<or> int depth > limit \<or> i \<notin> set candidates then (False, adm)
      else let adm1 = (AList.update i 1 (fst adm), snd adm);
               (allowed, adm2) = (if allowedFact i then admitAll limit links allowedFact candidates (links i) (Suc depth) adm1 else (False, adm1))
           in (allowed, (AList.update i 2 (fst adm2), if allowed then List.insert i (snd adm2) else snd adm2)))"
| "admitAll limit links allowedFact candidates [] depth adm = (True, adm)"
| "admitAll limit links allowedFact candidates (d # ds) depth adm =
     (let (ok, adm1) = admit limit links allowedFact candidates d depth adm;
          (oks, adm2) = admitAll limit links allowedFact candidates ds depth adm1
      in (ok \<and> oks, adm2))"
  by pat_completeness auto
termination
proof (relation "inv_image (less_than <*lex*> less_than)
    (\<lambda>x. case x of Inl (limit, links, allowedFact, candidates, i, depth, adm) \<Rightarrow> (nat (limit + 2 - int depth), 0)
      | Inr (limit, links, allowedFact, candidates, ds, depth, adm) \<Rightarrow> (nat (limit + 2 - int depth), Suc (length ds)))")
qed (auto simp: in_lex_prod)

declare admit.simps [simp del] admitAll.simps [simp del]

definition admitted :: "Policy \<Rightarrow> reduction \<Rightarrow> (Target, string list) gomap \<Rightarrow> string list \<Rightarrow> string list" where
  "admitted p st heads candidates = snd (fold (\<lambda>i adm. snd (admit (depthLimit p) (\<lambda>j. contentLinks (fa_Content (factOf st j)))
     (factAllowed st heads) candidates i 0 adm)) candidates ([], []))"

section \<open>Heads and visibility\<close>

definition rootOf :: "reduction \<Rightarrow> string \<Rightarrow> string" where
  "rootOf st i = ct_Root (fa_Content (factOf st i))"

definition parentsOf :: "reduction \<Rightarrow> string \<Rightarrow> string list" where
  "parentsOf st i = elems (ct_Parents (fa_Content (factOf st i)))"

definition referencesOf :: "reduction \<Rightarrow> string \<Rightarrow> Reference list" where
  "referencesOf st i = elems (ct_References (fa_Content (factOf st i)))"

text \<open>The heads of a root among the admitted facts: those that no admitted fact of the root names as a parent.\<close>

definition stateHeads :: "reduction \<Rightarrow> string list \<Rightarrow> string \<Rightarrow> string list" where
  "stateHeads st as r = sort (filter (\<lambda>i. rootOf st i = r \<and> \<not> list_ex (\<lambda>j. rootOf st j = r \<and> i \<in> set (parentsOf st j)) as) as)"

definition viewHeads :: "reduction \<Rightarrow> string list \<Rightarrow> (string, string list) gomap" where
  "viewHeads st as = filter (\<lambda>(r, is). is \<noteq> []) (map (\<lambda>r. (r, stateHeads st as r)) (remdups (map (rootOf st) as)))"

definition gate :: "string \<Rightarrow> string" where "gate r = ''root:'' @ r"

type_synonym visibility = "(string, bool) gomap"

definition shown :: "reduction \<Rightarrow> (Target, string list) gomap \<Rightarrow> string \<Rightarrow> bool" where
  "shown st heads i \<longleftrightarrow> \<not> conflicted heads (revisionTarget i) \<and> chosenAction st heads (revisionTarget i) \<noteq> Some ''hide''"

definition addGates :: "(string, string list) gomap \<Rightarrow> visibility \<times> (string, string list) gomap \<Rightarrow> visibility \<times> (string, string list) gomap" where
  "addGates vheads = fold (\<lambda>(r, hs) (vis, dependents). (AList.update (gate r) (length hs > 0) vis, fold (\<lambda>h m. appendTo h (gate r) m) hs dependents)) vheads"

definition addReference :: "string \<Rightarrow> Reference \<Rightarrow> visibility \<times> (string, string list) gomap \<times> string list \<Rightarrow>
    visibility \<times> (string, string list) gomap \<times> string list" where
  "addReference i r = (\<lambda>(vis, dependents, queue).
     if rf_Kind r = ''revision'' then (vis, appendTo (rf_ID r) i dependents, queue)
     else if rf_Kind r = ''root'' then
       (if map_of vis (gate (rf_ID r)) = None
        then (AList.update (gate (rf_ID r)) False vis, appendTo (gate (rf_ID r)) i dependents, queue @ [gate (rf_ID r)])
        else (vis, appendTo (gate (rf_ID r)) i dependents, queue))
     else (vis, dependents, queue))"

definition addReferences :: "reduction \<Rightarrow> string list \<Rightarrow> visibility \<times> (string, string list) gomap \<times> string list \<Rightarrow>
    visibility \<times> (string, string list) gomap \<times> string list" where
  "addReferences st as = fold (\<lambda>i. fold (addReference i) (referencesOf st i)) as"

fun markHidden :: "string list \<Rightarrow> visibility \<Rightarrow> visibility \<times> string list" where
  "markHidden [] vis = (vis, [])"
| "markHidden (d # ds) vis =
     (if map_of vis d = Some True
      then (case markHidden ds (AList.update d False vis) of (vis', new) \<Rightarrow> (vis', d # new))
      else markHidden ds vis)"

definition trueCount :: "visibility \<Rightarrow> nat" where
  "trueCount vis = length (filter snd vis)"

lemma trueCount_update: "map_of vis d = Some True \<Longrightarrow> trueCount (AList.update d False vis) + 1 = trueCount vis"
  by (induction vis) (auto simp: trueCount_def)

lemma markHidden_count: "markHidden ds vis = (vis', new) \<Longrightarrow> trueCount vis' + length new = trueCount vis"
proof (induction ds arbitrary: vis vis' new)
  case (Cons d ds)
  then show ?case using trueCount_update [of vis d] by (fastforce split: if_splits prod.splits)
qed simp

function propagate :: "(string, string list) gomap \<Rightarrow> string list \<Rightarrow> visibility \<Rightarrow> visibility" where
  "propagate dependents [] vis = vis"
| "propagate dependents (x # queue) vis = (case markHidden (lookupList dependents x) vis of (vis', new) \<Rightarrow> propagate dependents (queue @ new) vis')"
  by pat_completeness auto
termination
  by (relation "measure (\<lambda>(dependents, queue, vis). length queue + trueCount vis)") (auto dest!: markHidden_count [OF sym])

definition visibility :: "reduction \<Rightarrow> (Target, string list) gomap \<Rightarrow> string list \<Rightarrow> visibility" where
  "visibility st heads as =
     (let (vis1, rev1) = addGates (viewHeads st as) (map (\<lambda>i. (i, shown st heads i)) as, []);
          (vis2, rev2, queue) = addReferences st as (vis1, rev1, filter (\<lambda>i. \<not> shown st heads i) as)
      in propagate rev2 queue vis2)"

section \<open>The reduction\<close>

definition emptyReduction :: reduction where
  "emptyReduction = \<lparr>rd_nodes = [], rd_Invalid = [], rd_Conflicts = [], rd_Revoked = [], rd_facts = [], rd_factErrors = [],
     rd_factDepth = [], rd_decisionDepth = [], rd_visited = []\<rparr>"

text \<open>Everything up to the receipts and decision groups.\<close>

definition prepare :: "adapters \<Rightarrow> Authority \<Rightarrow> Policy \<Rightarrow> Verified list \<Rightarrow>
    (string list \<times> reduction \<times> (string, string list) gomap \<times> (Target, string list) gomap) result" where
  "prepare ad current p input =
     rbind (readInput ad (po_Project p) input [] (emptyReduction, [], [])) (\<lambda>(st0, ids0, intents).
     let ids = sort ids0 in
     rbind (fetchBaseline ad p (elems (po_Baseline p)) (conflictIntents intents st0)) (\<lambda>st1.
     rbind (checkBaseline p st1) (\<lambda>_.
     rbind (authorizeAll ad current p ids st1) (\<lambda>st2.
     let st3 = decisionsValid ad p ids st2;
         (receipts, st4) = collectReceipts ids [] st3;
         (groups, st5) = collectGroups receipts ids [] st4
     in Inr (ids, st5, receipts, groups)))))"

definition makeView :: "Authority \<Rightarrow> Policy \<Rightarrow> string list \<Rightarrow> reduction \<Rightarrow> (string, string list) gomap \<Rightarrow> (Target, string list) gomap \<Rightarrow> View" where
  "makeView current p ids st receipts groups =
     (let heads = decisionHeads st groups;
          candidates = candidateSet p st receipts heads ids;
          adm = admitted p st heads candidates;
          as = filter (\<lambda>i. i \<in> set adm) candidates;
          vis = visibility st heads as;
          pending = notAdmitted st receipts heads ids;
          more = map fst (filter (\<lambda>(i, r, s). ct_Revision (sb_Content s) \<notin> set adm \<and> \<not> listed i pending) (validSubmissions st ids))
      in \<lparr>vw_Roots = map (\<lambda>(i, f). (i, ct_Root (fa_Content f))) (rd_facts st), vw_Project = po_Project p, vw_Authority = at_Ref current,
          vw_BlockedActors = blockedActors st heads, vw_Admitted = adm, vw_Visible = filter (\<lambda>i. map_of vis i = Some True) as,
          vw_Heads = viewHeads st as, vw_Pending = sort (pending @ more),
          vw_Conflicts = sort_key cf_Key (rd_Conflicts st @ headConflicts heads), vw_Revoked = sort (rd_Revoked st),
          vw_Invalid = sort_key dg_ID (rd_Invalid st), vw_DecisionHeads = heads\<rparr>)"

definition Reduce :: "Authority \<Rightarrow> Verified list \<Rightarrow> adapters option \<Rightarrow> View result" where
  "Reduce current input sources =
     rbind (validateAuthority current) (\<lambda>_.
     case (at_Policy current, sources) of
       (Some p, Some ad) \<Rightarrow>
         if length input > MaxGraphRecords \<or> int (length input) > sint (us_Events (lm_Retained (po_Limits p)))
         then errorf ''contribution graph budget exceeded'' []
         else rbind (prepare ad current p input) (\<lambda>(ids, st, receipts, groups). Inr (makeView current p ids st receipts groups))
     | _ \<Rightarrow> errorf ''native and authority adapters required'' [])"

section \<open>Evidence for a new receipt\<close>

definition requireExact :: "View \<Rightarrow> string \<Rightarrow> string list result" where
  "requireExact view i =
     (if i \<notin> set (vw_Admitted view) \<or> i \<notin> set (vw_Visible view) then errorf ''dependency is not admitted and visible'' []
      else Inr (lookupList (vw_DecisionHeads view) (revisionTarget i)))"

fun requireEach :: "('a \<Rightarrow> string list result) \<Rightarrow> 'a list \<Rightarrow> string list result" where
  "requireEach f [] = Inr []"
| "requireEach f (x # xs) = rbind (f x) (\<lambda>is. rbind (requireEach f xs) (\<lambda>js. Inr (is @ js)))"

definition requireRoot :: "View \<Rightarrow> string \<Rightarrow> string list result" where
  "requireRoot view r =
     (if length (lookupList (vw_Heads view) r) = 0 then errorf ''resource lacks admitted state heads'' []
      else requireEach (requireExact view) (lookupList (vw_Heads view) r))"

definition requireParent :: "View \<Rightarrow> string \<Rightarrow> string list result" where
  "requireParent view i = rbind (requireExact view i) (\<lambda>is.
     rbind (requireRoot view (case map_of (vw_Roots view) i of None \<Rightarrow> [] | Some r \<Rightarrow> r)) (\<lambda>js. Inr (is @ js)))"

definition requireReference :: "View \<Rightarrow> Reference \<Rightarrow> string list result" where
  "requireReference view r =
     (if rf_ID r \<notin> set (vw_Admitted view) then errorf ''reference identity is not admitted'' []
      else if rf_Kind r = ''root'' then requireRoot view (rf_ID r) else requireExact view (rf_ID r))"

definition IntakeEvidence :: "(Verified \<Rightarrow> Record) \<Rightarrow> View \<Rightarrow> Verified \<Rightarrow> string list result" where
  "IntakeEvidence recordOf view submission =
     (if vf_id submission = [] then errorf ''authenticated submission required'' []
      else let r = recordOf submission in
      case re_Submission r of None \<Rightarrow> errorf ''wrong project or record kind'' [] | Some s \<Rightarrow>
      if re_Project r \<noteq> vw_Project view then errorf ''wrong project or record kind'' []
      else if re_Actor r \<in> set (vw_BlockedActors view) \<or> ct_Author (sb_Content s) \<in> set (vw_BlockedActors view)
      then errorf ''blocked actor cannot authorize intake'' []
      else
        rbind (requireEach (requireParent view) (elems (ct_Parents (sb_Content s)))) (\<lambda>ps.
        rbind (requireEach (requireReference view) (elems (ct_References (sb_Content s)))) (\<lambda>rs.
        let result = sort (remdups (lookupList (vw_DecisionHeads view) (actorTarget (re_Actor r)) @
              lookupList (vw_DecisionHeads view) (actorTarget (ct_Author (sb_Content s))) @ ps @ rs))
        in if length result > MaxLinks then errorf ''evaluated moderation evidence limit exceeded'' [] else Inr result)))"

end
