(* ===== verification/HN_Admission.thy ===== *)
theory HN_Admission
  imports HN_Reduce
begin

text \<open>
  The state of a reduction (\<open>src/internal/contribution/model.go\<close>) from phase to phase: the lineage of the facts that \<open>getFact\<close> has
  fetched, the correctness of the depth-first search \<open>admit\<close>, and what the authorization of records
  establishes of their signers.
\<close>

section \<open>Fetched facts\<close>

definition factDeps :: "string \<Rightarrow> Fact \<Rightarrow> string list" where
  "factDeps i f = contentLinks (fa_Content f) @ (if ct_Root (fa_Content f) \<noteq> i then [ct_Root (fa_Content f)] else [])"

text \<open>
  Every fetched fact passed its checks, everything it depends on was fetched and passed the check for it,
  and depths decrease along dependencies.
\<close>

definition factsOK :: "adapters \<Rightarrow> Policy \<Rightarrow> reduction \<Rightarrow> bool" where
  "factsOK ad p st \<longleftrightarrow> (\<forall>i f. map_of (rd_facts st) i = Some f \<longrightarrow> ad_Fact ad i = Inr f \<and> checkFact i f = Inr () \<and>
     (\<forall>x \<in> set (dependencyChecks i f). \<exists>g. map_of (rd_facts st) (fst x) = Some g \<and> snd x g = Inr ()) \<and>
     (\<forall>d \<in> set (factDeps i f). depthOf (rd_factDepth st) d < depthOf (rd_factDepth st) i) \<and>
     int (depthOf (rd_factDepth st) i) \<le> depthLimit p)"

definition extendsFacts :: "reduction \<Rightarrow> reduction \<Rightarrow> bool" where
  "extendsFacts st st' \<longleftrightarrow> map_of (rd_facts st) \<subseteq>\<^sub>m map_of (rd_facts st') \<and>
     (\<forall>i \<in> dom (map_of (rd_facts st)). depthOf (rd_factDepth st') i = depthOf (rd_factDepth st) i) \<and>
     rd_nodes st' = rd_nodes st \<and> rd_Invalid st' = rd_Invalid st \<and> rd_Conflicts st' = rd_Conflicts st \<and> rd_Revoked st' = rd_Revoked st \<and>
     rd_decisionDepth st' = rd_decisionDepth st \<and> rd_visited st' = rd_visited st"

lemma extendsFacts_refl [simp]: "extendsFacts st st"
  by (simp add: extendsFacts_def)

lemma extendsFacts_trans:
  assumes "extendsFacts a b" "extendsFacts b c"
  shows "extendsFacts a c"
proof -
  have m: "map_of (rd_facts a) \<subseteq>\<^sub>m map_of (rd_facts b)" "map_of (rd_facts b) \<subseteq>\<^sub>m map_of (rd_facts c)" using assms by (simp_all add: extendsFacts_def)
  then have "depthOf (rd_factDepth c) i = depthOf (rd_factDepth a) i" if "i \<in> dom (map_of (rd_facts a))" for i
    using assms that map_le_implies_dom_le [OF m(1)] unfolding extendsFacts_def by (metis subsetD)
  then show ?thesis using assms map_le_trans [OF m] by (simp add: extendsFacts_def)
qed

lemma extendsFacts_fetched: "extendsFacts st st' \<Longrightarrow> map_of (rd_facts st) i = Some f \<Longrightarrow> map_of (rd_facts st') i = Some f"
  unfolding extendsFacts_def map_le_def by (metis domI)

lemma structuralDepth_bound:
  assumes "d \<in> set (factDeps i f)"
  shows "depthOf depths d < structuralDepth i f depths"
proof -
  let ?g = "\<lambda>dep m. if depthOf depths dep + 1 > m then depthOf depths dep + 1 else m"
  have "n \<le> fold ?g ds n \<and> (\<forall>d \<in> set ds. depthOf depths d < fold ?g ds n)" for ds n
  proof (induction ds arbitrary: n)
    case (Cons d ds)
    have "n \<le> ?g d n" "depthOf depths d < ?g d n" by simp_all
    then show ?case using Cons.IH [of "?g d n"] by (metis (no_types, lifting) fold_simps(2) le_trans less_le_trans set_ConsD)
  qed simp
  then show ?thesis using assms unfolding structuralDepth_def factDeps_def by blast
qed

lemma dependencyChecks_ids: "set (map fst (dependencyChecks i f)) = set (factDeps i f)"
  by (auto simp: dependencyChecks_def factDeps_def contentLinks_def referenceIDs_def image_iff)

lemma factsOK_cong: "rd_facts st' = rd_facts st \<Longrightarrow> rd_factDepth st' = rd_factDepth st \<Longrightarrow> factsOK ad p st' = factsOK ad p st"
  unfolding factsOK_def by (simp only:)

lemma failFact_props:
  assumes "failFact i e st = (r, st')"
  shows "factsOK ad p st \<Longrightarrow> factsOK ad p st'" "extendsFacts st st'" "rd_facts st' = rd_facts st" "r = Inl e"
proof -
  have st': "st' = st\<lparr>rd_factErrors := AList.update i e (rd_factErrors st)\<rparr>" "r = Inl e" using assms by (simp_all add: failFact_def)
  then show "extendsFacts st st'" "rd_facts st' = rd_facts st" "r = Inl e" by (simp_all add: extendsFacts_def)
  show "factsOK ad p st \<Longrightarrow> factsOK ad p st'" using factsOK_cong [of st' st ad p] by (simp add: st')
qed

lemma finishFact_cases: "(\<exists>e. finishFact p i f st = failFact i e st) \<or>
    int (structuralDepth i f (rd_factDepth st)) \<le> depthLimit p \<and>
    finishFact p i f st = (Inr f, st\<lparr>rd_factDepth := AList.update i (structuralDepth i f (rd_factDepth st)) (rd_factDepth st),
      rd_facts := AList.update i f (rd_facts st)\<rparr>)"
proof -
  let ?a = "(fa_Operation f = ''issue.reply'' \<or> fa_Operation f = ''discussion.reply'') \<and> length (elems (ct_References (fa_Content f))) = 0"
  let ?b = "int (structuralDepth i f (rd_factDepth st)) > depthLimit p"
  consider ?a | "\<not> ?a" ?b | "\<not> ?a" "\<not> ?b" by blast
  then show ?thesis
  proof cases
    case 1
    have "finishFact p i f st = failFact i (Errorf ''reply lacks exact target reference'' []) st" by (subst finishFact_def) (simp only: if_P [OF 1])
    then show ?thesis by blast
  next
    case 2
    have "finishFact p i f st = failFact i (Errorf ''native dependency depth exceeded'' []) st"
      by (subst finishFact_def) (simp only: Let_def if_not_P [OF 2(1)] if_P [OF 2(2)])
    then show ?thesis by blast
  next
    case 3
    have "int (structuralDepth i f (rd_factDepth st)) \<le> depthLimit p" using 3(2) by simp
    then show ?thesis by (subst (2) finishFact_def) (simp only: Let_def if_not_P [OF 3(1)] if_not_P [OF 3(2)] simp_thms)
  qed
qed

lemma finishFact_props:
  assumes "finishFact p i f st = (r, st')" "factsOK ad p st" "ad_Fact ad i = Inr f \<and> checkFact i f = Inr ()" "map_of (rd_facts st) i = None"
    and "\<forall>x \<in> set (dependencyChecks i f). \<exists>g. map_of (rd_facts st) (fst x) = Some g \<and> snd x g = Inr ()"
  shows "factsOK ad p st' \<and> extendsFacts st st' \<and> (\<forall>g. r = Inr g \<longrightarrow> map_of (rd_facts st') i = Some g) \<and>
    (\<forall>x. x \<noteq> i \<longrightarrow> map_of (rd_facts st') x = map_of (rd_facts st) x)"
proof (cases "\<exists>e. finishFact p i f st = failFact i e st")
  case True
  then obtain e where e: "failFact i e st = (r, st')" using assms(1) by auto
  show ?thesis using failFact_props [OF e] assms(2) by simp
next
  case False
  let ?m = "structuralDepth i f (rd_factDepth st)"
  have st': "st' = st\<lparr>rd_factDepth := AList.update i ?m (rd_factDepth st), rd_facts := AList.update i f (rd_facts st)\<rparr>"
    and g: "r = Inr f" and m: "int ?m \<le> depthLimit p"
    using finishFact_cases [of p i f st] False assms(1) by auto
  have d: "depthOf (rd_factDepth st') x = (if x = i then ?m else depthOf (rd_factDepth st) x)" for x
    by (simp add: st' depthOf_def update_conv')
  have ids: "d \<noteq> i" if "map_of (rd_facts st) d \<noteq> None" for d using that assms(4) by auto
  have deps: "d \<noteq> i" if dep: "d \<in> set (factDeps i f)" for d
  proof -
    obtain x where "x \<in> set (dependencyChecks i f)" "fst x = d" using dep unfolding dependencyChecks_ids [symmetric] by auto
    then show ?thesis using assms(4,5) by auto
  qed
  have old: "\<forall>d \<in> set (factDeps j h). d \<noteq> i" if known: "map_of (rd_facts st) j = Some h" for j h
  proof
    fix d assume "d \<in> set (factDeps j h)"
    then obtain x where "x \<in> set (dependencyChecks j h)" "fst x = d" unfolding dependencyChecks_ids [symmetric] by auto
    then obtain g where "map_of (rd_facts st) d = Some g" using assms(2) known unfolding factsOK_def by blast
    then show "d \<noteq> i" using assms(4) by auto
  qed
  have map': "map_of (rd_facts st') x = (if x = i then Some f else map_of (rd_facts st) x)" for x by (simp add: st' update_conv')
  have keep: "\<forall>x \<in> set xs. \<exists>g. map_of (rd_facts st') (fst x) = Some g \<and> snd x g = Inr ()"
    if before: "\<forall>x \<in> set xs. \<exists>g. map_of (rd_facts st) (fst x) = Some g \<and> snd x g = Inr ()" for xs
  proof
    fix x assume "x \<in> set xs"
    then obtain g where "map_of (rd_facts st) (fst x) = Some g" "snd x g = Inr ()" using before by blast
    then show "\<exists>g. map_of (rd_facts st') (fst x) = Some g \<and> snd x g = Inr ()" using ids [of "fst x"] by (simp add: map')
  qed
  have "ad_Fact ad j = Inr h \<and> checkFact j h = Inr () \<and> (\<forall>x \<in> set (dependencyChecks j h). \<exists>g. map_of (rd_facts st') (fst x) = Some g \<and> snd x g = Inr ()) \<and>
     (\<forall>d \<in> set (factDeps j h). depthOf (rd_factDepth st') d < depthOf (rd_factDepth st') j) \<and> int (depthOf (rd_factDepth st') j) \<le> depthLimit p"
    if "map_of (rd_facts st') j = Some h" for j h
  proof (cases "j = i")
    case True
    then have "h = f" using that by (simp add: map')
    moreover have "\<forall>d' \<in> set (factDeps i f). depthOf (rd_factDepth st') d' < depthOf (rd_factDepth st') i"
      using deps structuralDepth_bound [of _ i f "rd_factDepth st"] by (simp add: d)
    ultimately show ?thesis using True assms(3) keep [OF assms(5)] m by (simp add: d)
  next
    case False
    then have h: "map_of (rd_facts st) j = Some h" using that by (simp add: map')
    then have k: "ad_Fact ad j = Inr h \<and> checkFact j h = Inr ()" "\<forall>x \<in> set (dependencyChecks j h). \<exists>g. map_of (rd_facts st) (fst x) = Some g \<and> snd x g = Inr ()"
      "\<forall>d \<in> set (factDeps j h). depthOf (rd_factDepth st) d < depthOf (rd_factDepth st) j" "int (depthOf (rd_factDepth st) j) \<le> depthLimit p"
      using assms(2) unfolding factsOK_def by blast+
    have "\<forall>d' \<in> set (factDeps j h). depthOf (rd_factDepth st') d' < depthOf (rd_factDepth st') j"
      using k(3) old [OF h] False by (simp add: d)
    then show ?thesis using k(1,4) keep [OF k(2)] False by (simp add: d)
  qed
  then have "factsOK ad p st'" unfolding factsOK_def by blast
  moreover have "extendsFacts st st'"
    using assms(4) by (auto simp: extendsFacts_def map_le_def map' d) (auto simp: st')
  ultimately show ?thesis using g by (simp add: map')
qed

text \<open>What fetching does, by induction over the calls.\<close>

definition fetchedOK :: "adapters \<Rightarrow> Policy \<Rightarrow> string list \<Rightarrow> reduction \<Rightarrow> reduction \<Rightarrow> bool" where
  "fetchedOK ad p visiting st st' \<longleftrightarrow> factsOK ad p st' \<and> extendsFacts st st' \<and>
     (\<forall>x \<in> set visiting. map_of (rd_facts st) x = None \<longrightarrow> map_of (rd_facts st') x = None)"

lemma fetchedOK_trans: "fetchedOK ad p v a b \<Longrightarrow> fetchedOK ad p v b c \<Longrightarrow> fetchedOK ad p v a c"
  unfolding fetchedOK_def using extendsFacts_trans by blast

lemma getFact_fetches:
  "factsOK ad p st \<Longrightarrow> getFact ad p visiting i depth st = (r, st') \<Longrightarrow>
     fetchedOK ad p visiting st st' \<and> (\<forall>f. r = Inr f \<longrightarrow> map_of (rd_facts st') i = Some f)"
  "factsOK ad p st \<Longrightarrow> fetchAll ad p visiting ds depth st = (u, st') \<Longrightarrow>
     fetchedOK ad p visiting st st' \<and> (u = Inr () \<longrightarrow> (\<forall>x \<in> set ds. \<exists>g. map_of (rd_facts st') (fst x) = Some g \<and> snd x g = Inr ()))"
proof (induction ad p visiting i depth st and ad p visiting ds depth st arbitrary: r st' and u st' rule: getFact_fetchAll.induct)
  case (1 ad p visiting i depth st)
  note eq = 1(3) [unfolded getFact.simps [of ad p visiting i depth st]]
  have refl: "fetchedOK ad p visiting st st" using 1(2) by (simp add: fetchedOK_def)
  show ?case
  proof (cases "map_of (rd_facts st) i")
    case (Some f)
    then show ?thesis using eq refl by auto
  next
    case None
    note none = this
    show ?thesis
    proof (cases "map_of (rd_factErrors st) i")
      case (Some e)
      then show ?thesis using eq none refl by auto
    next
      case ne: None
      show ?thesis
      proof (cases "int depth > depthLimit p \<or> overBudget p st \<or> i \<in> set visiting")
        case True
        then show ?thesis using eq none ne refl by (auto split: if_splits)
      next
        case False
        show ?thesis
        proof (cases "rbind (ad_Fact ad i) (\<lambda>f. rbind (checkFact i f) (\<lambda>_. Inr f))")
          case (Inl e)
          then have "failFact i e st = (r, st')" using eq none ne False by auto
          note ff = failFact_props [OF this]
          show ?thesis using ff(1) [OF 1(2)] ff(2,3,4) by (simp add: fetchedOK_def)
        next
          case (Inr f)
          then have chk: "ad_Fact ad i = Inr f \<and> checkFact i f = Inr ()" by (auto simp: rbind_eq_Inr)
          obtain u st1 where fa: "fetchAll ad p (i # visiting) (dependencyChecks i f) (Suc depth) st = (u, st1)" by fastforce
          have ih: "fetchedOK ad p (i # visiting) st st1 \<and> (u = Inr () \<longrightarrow> (\<forall>x \<in> set (dependencyChecks i f).
              \<exists>g. map_of (rd_facts st1) (fst x) = Some g \<and> snd x g = Inr ()))"
            using 1(1) [OF none ne _ _ Inr 1(2) fa] False by blast
          then have i1: "map_of (rd_facts st1) i = None" and ok1: "factsOK ad p st1" and fo: "fetchedOK ad p visiting st st1"
            using none by (auto simp: fetchedOK_def)
          show ?thesis
          proof (cases u)
            case (Inl e)
            then have "failFact i e st1 = (r, st')" using eq none ne False Inr fa by auto
            note ff = failFact_props [OF this]
            have "fetchedOK ad p visiting st1 st'" using ff(1) [OF ok1] ff(2,3) by (simp add: fetchedOK_def)
            then show ?thesis using fetchedOK_trans [OF fo] ff(4) by auto
          next
            case (Inr x)
            then have "finishFact p i f st1 = (r, st')" using eq none ne False \<open>rbind _ _ = Inr f\<close> fa by auto
            note fin = finishFact_props [OF this ok1 chk i1]
            have "fetchedOK ad p visiting st1 st'" using fin ih Inr False unfolding fetchedOK_def by auto
            then show ?thesis using fetchedOK_trans [OF fo] fin ih Inr by auto
          qed
        qed
      qed
    qed
  qed
next
  case (2 ad p visiting depth st)
  then show ?case by (auto simp: fetchAll.simps fetchedOK_def)
next
  case (3 ad p visiting d ds depth st)
  obtain r1 st1 where g: "getFact ad p visiting (fst d) depth st = (r1, st1)" by fastforce
  have a: "fetchedOK ad p visiting st st1" "\<forall>f. r1 = Inr f \<longrightarrow> map_of (rd_facts st1) (fst d) = Some f" using 3(1) [OF 3(3) g] by blast+
  show ?case
  proof (cases "\<exists>f. r1 = Inr f \<and> snd d f = Inr ()")
    case False
    then have "st' = st1" "u \<noteq> Inr ()" using 3(4) g by (auto simp: fetchAll.simps split: sum.splits)
    then show ?thesis using a by blast
  next
    case True
    then obtain f where f: "r1 = Inr f" "snd d f = Inr ()" by blast
    then have rest: "fetchAll ad p visiting ds depth st1 = (u, st')" using 3(4) g by (simp add: fetchAll.simps)
    have "factsOK ad p st1" using a by (simp add: fetchedOK_def)
    note b = 3(2) [OF g [symmetric] f(1) f(2) this rest]
    have "map_of (rd_facts st') (fst d) = Some f"
      using a(2) f(1) b extendsFacts_fetched unfolding fetchedOK_def by blast
    then show ?thesis using fetchedOK_trans [OF a(1)] b f(2) by auto
  qed
qed

section \<open>Admission\<close>

text \<open>What a candidate needs: everything it links to, at any depth, is an allowed candidate.\<close>

definition linkRel :: "(string \<Rightarrow> string list) \<Rightarrow> (string \<times> string) set" where
  "linkRel links = {(i, j). j \<in> set (links i)}"

definition admissible :: "(string \<Rightarrow> string list) \<Rightarrow> (string \<Rightarrow> bool) \<Rightarrow> string list \<Rightarrow> string \<Rightarrow> bool" where
  "admissible links allowedFact candidates i \<longleftrightarrow> (\<forall>j. (i, j) \<in> (linkRel links)\<^sup>* \<longrightarrow> j \<in> set candidates \<and> allowedFact j)"

lemma admissible_unfold: "admissible links allowedFact candidates i \<longleftrightarrow>
    i \<in> set candidates \<and> allowedFact i \<and> (\<forall>d \<in> set (links i). admissible links allowedFact candidates d)" (is "?l \<longleftrightarrow> ?r")
proof
  assume l: ?l
  have "(d, j) \<in> (linkRel links)\<^sup>* \<Longrightarrow> (i, j) \<in> (linkRel links)\<^sup>*" if "d \<in> set (links i)" for d j
    using that by (auto simp: linkRel_def intro: converse_rtrancl_into_rtrancl)
  then show ?r using l unfolding admissible_def by blast
next
  assume r: ?r
  show ?l unfolding admissible_def
  proof (intro allI impI)
    fix j assume "(i, j) \<in> (linkRel links)\<^sup>*"
    then show "j \<in> set candidates \<and> allowedFact j"
      by (cases rule: converse_rtranclE) (use r in \<open>auto simp: admissible_def linkRel_def\<close>)
  qed
qed

text \<open>The loop invariant: decided candidates are decided rightly, and only they are admitted.\<close>

definition admissionOK :: "(string \<Rightarrow> bool) \<Rightarrow> admission \<Rightarrow> bool" where
  "admissionOK good adm \<longleftrightarrow> (\<forall>i. map_of (fst adm) i = Some 2 \<longrightarrow> (i \<in> set (snd adm) \<longleftrightarrow> good i)) \<and>
     (\<forall>i \<in> set (snd adm). map_of (fst adm) i = Some 2)"

definition inProgress :: "admission \<Rightarrow> string set" where
  "inProgress adm = {j. map_of (fst adm) j = Some 1}"

definition decided :: "admission \<Rightarrow> string set" where
  "decided adm = {j. map_of (fst adm) j = Some 2}"

text \<open>A rank that links decrease, and what it makes of the recursion: no fact in progress is met again.\<close>

definition ranked :: "(string \<Rightarrow> nat) \<Rightarrow> (string \<Rightarrow> string list) \<Rightarrow> (string \<Rightarrow> bool) \<Rightarrow> bool" where
  "ranked rank links ok \<longleftrightarrow> (\<forall>i d. ok i \<longrightarrow> d \<in> set (links i) \<longrightarrow> rank d < rank i)"

lemma admit_correct:
  "ranked rank links ok \<Longrightarrow> admissionOK (admissible links ok candidates) adm \<Longrightarrow> \<forall>j \<in> inProgress adm. rank i < rank j \<Longrightarrow>
     int depth + int (rank i) \<le> limit \<Longrightarrow> admit limit links ok candidates i depth adm = (b, adm') \<Longrightarrow>
     b = admissible links ok candidates i \<and> admissionOK (admissible links ok candidates) adm' \<and> inProgress adm' = inProgress adm \<and>
     decided adm \<subseteq> decided adm' \<and> (i \<in> set candidates \<longrightarrow> i \<in> decided adm')"
  "ranked rank links ok \<Longrightarrow> admissionOK (admissible links ok candidates) adm \<Longrightarrow> \<forall>j \<in> inProgress adm. \<forall>d \<in> set ds. rank d < rank j \<Longrightarrow>
     \<forall>d \<in> set ds. int depth + int (rank d) \<le> limit \<Longrightarrow> admitAll limit links ok candidates ds depth adm = (b, adm') \<Longrightarrow>
     b = (\<forall>d \<in> set ds. admissible links ok candidates d) \<and> admissionOK (admissible links ok candidates) adm' \<and>
     inProgress adm' = inProgress adm \<and> decided adm \<subseteq> decided adm'"
proof (induction limit links ok candidates i depth adm and limit links ok candidates ds depth adm
    arbitrary: b adm' and b adm' rule: admit_admitAll.induct)
  case (1 limit links ok candidates i depth adm)
  note eq = 1(6) [unfolded admit.simps [of limit links ok candidates i depth adm]]
  consider "map_of (fst adm) i = Some 2" | "map_of (fst adm) i \<noteq> Some 2" "i \<notin> set candidates"
    | "map_of (fst adm) i \<noteq> Some 2" "i \<in> set candidates" by blast
  then show ?case
  proof cases
    case 1
    then show ?thesis using eq "1.prems"(2) by (auto simp: admissionOK_def decided_def)
  next
    case 2
    then have "b = False" "adm' = adm" using eq by auto
    moreover have "\<not> admissible links ok candidates i" using 2(2) admissible_unfold [of links ok candidates i] by blast
    ultimately show ?thesis using "1.prems"(2) 2(2) by simp
  next
    case 3
    have one: "map_of (fst adm) i \<noteq> Some 1" using "1.prems"(3) by (auto simp: inProgress_def)
    have deep: "\<not> (map_of (fst adm) i = Some 1 \<or> int depth > limit \<or> i \<notin> set candidates)" using one "1.prems"(4) 3(2) by auto
    let ?adm1 = "(AList.update i 1 (fst adm), snd adm)"
    obtain allowed adm2 where rec: "(if ok i then admitAll limit links ok candidates (links i) (Suc depth) ?adm1 else (False, ?adm1)) = (allowed, adm2)"
      by (rule prod.exhaust)
    have res: "b = allowed" "adm' = (AList.update i 2 (fst adm2), if allowed then List.insert i (snd adm2) else snd adm2)"
      using eq unfolding if_not_P [OF 3(1)] if_not_P [OF deep] Let_def rec prod.case prod.inject by blast+
    have i1: "i \<notin> set (snd adm)" using "1.prems"(2) 3(1) by (auto simp: admissionOK_def)
    have ok1: "admissionOK (admissible links ok candidates) ?adm1" using "1.prems"(2) 3(1) i1 by (auto simp: admissionOK_def update_conv')
    have p1: "inProgress ?adm1 = insert i (inProgress adm)" by (auto simp: inProgress_def update_conv')
    have d1: "decided ?adm1 = decided adm" using 3(1) by (auto simp: decided_def update_conv')
    have ih: "allowed = admissible links ok candidates i \<and> admissionOK (admissible links ok candidates) adm2 \<and>
        inProgress adm2 = insert i (inProgress adm) \<and> decided adm \<subseteq> decided adm2"
    proof (cases "ok i")
      case False
      then show ?thesis using rec ok1 p1 d1 admissible_unfold [of links ok candidates i] by auto
    next
      case True
      have r: "rank d < rank i" if "d \<in> set (links i)" for d using "1.prems"(1) True that by (auto simp: ranked_def)
      have pr: "\<forall>j \<in> inProgress ?adm1. \<forall>d \<in> set (links i). rank d < rank j" using r "1.prems"(3) p1 by fastforce
      have lim: "\<forall>d \<in> set (links i). int (Suc depth) + int (rank d) \<le> limit" using r "1.prems"(4) by fastforce
      have "admitAll limit links ok candidates (links i) (Suc depth) ?adm1 = (allowed, adm2)" using rec True by simp
      from "1.IH" [OF 3(1) deep refl True "1.prems"(1) ok1 pr lim this]
      show ?thesis using p1 d1 True 3(2) admissible_unfold [of links ok candidates i] by auto
    qed
    have "i \<notin> inProgress adm" using one by (simp add: inProgress_def)
    moreover have "map_of (fst adm2) i = Some 1" using ih by (auto simp: inProgress_def)
    ultimately show ?thesis using ih res by (auto simp: admissionOK_def inProgress_def decided_def update_conv' split: if_splits)
  qed
next
  case (2 limit links ok candidates depth adm)
  then show ?case by (simp add: admitAll.simps)
next
  case (3 limit links ok candidates d ds depth adm)
  obtain b1 adm1 where a: "admit limit links ok candidates d depth adm = (b1, adm1)" by (rule prod.exhaust)
  obtain b2 adm2 where r: "admitAll limit links ok candidates ds depth adm1 = (b2, adm2)" by (rule prod.exhaust)
  have x: "b1 = admissible links ok candidates d" "admissionOK (admissible links ok candidates) adm1" "inProgress adm1 = inProgress adm"
    "decided adm \<subseteq> decided adm1"
    using "3.IH"(1) [OF "3.prems"(1,2) _ _ a] "3.prems"(3,4) by auto
  have y: "b2 = (\<forall>d \<in> set ds. admissible links ok candidates d) \<and> admissionOK (admissible links ok candidates) adm2 \<and>
      inProgress adm2 = inProgress adm1 \<and> decided adm1 \<subseteq> decided adm2"
    by (rule "3.IH"(2) [OF a [symmetric] refl "3.prems"(1) x(2) _ _ r]) (use "3.prems"(3,4) x(3) in auto)
  have "b = (b1 \<and> b2)" "adm' = adm2" using "3.prems"(5) a r by (auto simp: admitAll.simps Let_def)
  then show ?case using x y by auto
qed

lemma admit_loop:
  assumes "ranked rank links ok" "\<forall>i \<in> set xs. int (rank i) \<le> limit"
    and "admissionOK (admissible links ok candidates) adm" "inProgress adm = {}"
  shows "admissionOK (admissible links ok candidates) (fold (\<lambda>i adm. snd (admit limit links ok candidates i 0 adm)) xs adm) \<and>
    set xs \<inter> set candidates \<subseteq> decided (fold (\<lambda>i adm. snd (admit limit links ok candidates i 0 adm)) xs adm) \<and>
    decided adm \<subseteq> decided (fold (\<lambda>i adm. snd (admit limit links ok candidates i 0 adm)) xs adm)"
  using assms(2-4)
proof (induction xs arbitrary: adm)
  case (Cons i xs)
  obtain b adm1 where a: "admit limit links ok candidates i 0 adm = (b, adm1)" by (rule prod.exhaust)
  have "\<forall>j \<in> inProgress adm. rank i < rank j" "int 0 + int (rank i) \<le> limit" using Cons.prems by auto
  note c = admit_correct(1) [OF assms(1) Cons.prems(2) this a]
  have "\<forall>i \<in> set xs. int (rank i) \<le> limit" "inProgress adm1 = {}" using Cons.prems c by auto
  note d = Cons.IH [OF this(1) _ this(2)]
  show ?case using c d by (auto simp: a)
qed simp

lemma admitted_iff:
  assumes "factsOK ad p st" "0 \<le> depthLimit p"
  shows "i \<in> set (admitted p st heads candidates) \<longleftrightarrow>
    admissible (\<lambda>j. contentLinks (fa_Content (factOf st j))) (factAllowed st heads) candidates i"
proof -
  let ?links = "\<lambda>j. contentLinks (fa_Content (factOf st j))" and ?ok = "factAllowed st heads"
  let ?rank = "\<lambda>j. if map_of (rd_facts st) j = None then 0 else depthOf (rd_factDepth st) j"
  have "ranked ?rank ?links ?ok"
  unfolding ranked_def
  proof (intro allI impI)
    fix j d assume "?ok j" and d: "d \<in> set (?links j)"
    then obtain f where f: "map_of (rd_facts st) j = Some f" by (auto simp: factAllowed_def split: option.splits)
    then have "d \<in> set (factDeps j f)" using d by (simp add: factDeps_def factOf_def)
    then show "?rank d < ?rank j" using assms(1) f unfolding factsOK_def by fastforce
  qed
  moreover have "\<forall>j \<in> set candidates. int (?rank j) \<le> depthLimit p"
    using assms unfolding factsOK_def by (auto split: if_splits)
  moreover have "admissionOK (admissible ?links ?ok candidates) ([], [])" "inProgress ([], []) = {}"
    by (simp_all add: admissionOK_def inProgress_def)
  ultimately have "admissionOK (admissible ?links ?ok candidates) (fold (\<lambda>i adm. snd (admit (depthLimit p) ?links ?ok candidates i 0 adm)) candidates ([], []))"
    "set candidates \<subseteq> decided (fold (\<lambda>i adm. snd (admit (depthLimit p) ?links ?ok candidates i 0 adm)) candidates ([], []))"
    using admit_loop [of ?rank ?links ?ok candidates "depthLimit p" candidates "([], [])"] by auto
  moreover have "admissible ?links ?ok candidates i \<Longrightarrow> i \<in> set candidates" using admissible_unfold by blast
  ultimately show ?thesis unfolding admitted_def admissionOK_def decided_def by blast
qed

section \<open>The phases of the reduction\<close>

text \<open>
  How the nodes change once the input is read: they keep their record and authority and are never made
  valid or effective again.
\<close>

definition nodesShrink :: "reduction \<Rightarrow> reduction \<Rightarrow> bool" where
  "nodesShrink st st' \<longleftrightarrow> (\<forall>i n'. map_of (rd_nodes st') i = Some n' \<longrightarrow> (\<exists>n. map_of (rd_nodes st) i = Some n \<and>
     gr_record n' = gr_record n \<and> gr_authority n' = gr_authority n \<and> (gr_valid n' \<longrightarrow> gr_valid n) \<and> (gr_effective n' \<longrightarrow> gr_effective n)))"

lemma nodesShrinkD:
  assumes "nodesShrink st st'" "map_of (rd_nodes st') i = Some n'"
  obtains n where "map_of (rd_nodes st) i = Some n" "gr_record n' = gr_record n" "gr_authority n' = gr_authority n"
    "gr_valid n' \<longrightarrow> gr_valid n" "gr_effective n' \<longrightarrow> gr_effective n"
  using assms unfolding nodesShrink_def by blast

lemma nodesShrink_refl [simp]: "nodesShrink st st"
  by (auto simp: nodesShrink_def)

lemma nodesShrink_trans:
  assumes "nodesShrink a b" "nodesShrink b c"
  shows "nodesShrink a c"
  unfolding nodesShrink_def
proof (intro allI impI)
  fix i n' assume "map_of (rd_nodes c) i = Some n'"
  then obtain m where m: "map_of (rd_nodes b) i = Some m" "gr_record n' = gr_record m" "gr_authority n' = gr_authority m"
    "gr_valid n' \<longrightarrow> gr_valid m" "gr_effective n' \<longrightarrow> gr_effective m"
    using nodesShrinkD [OF assms(2)] by blast
  obtain n where "map_of (rd_nodes a) i = Some n" "gr_record m = gr_record n" "gr_authority m = gr_authority n"
    "gr_valid m \<longrightarrow> gr_valid n" "gr_effective m \<longrightarrow> gr_effective n"
    using nodesShrinkD [OF assms(1) m(1)] by blast
  then show "\<exists>n. map_of (rd_nodes a) i = Some n \<and> gr_record n' = gr_record n \<and> gr_authority n' = gr_authority n \<and>
      (gr_valid n' \<longrightarrow> gr_valid n) \<and> (gr_effective n' \<longrightarrow> gr_effective n)" using m by auto
qed

lemma nodesShrink_same: "rd_nodes st' = rd_nodes st \<Longrightarrow> nodesShrink st st'"
  by (auto simp: nodesShrink_def)

lemma nodesShrink_update:
  assumes "map_of (rd_nodes st) i = Some n" "rd_nodes st' = AList.update i n' (rd_nodes st)"
    and "gr_record n' = gr_record n" "gr_authority n' = gr_authority n" "gr_valid n' \<Longrightarrow> gr_valid n" "gr_effective n' \<Longrightarrow> gr_effective n"
  shows "nodesShrink st st'"
  using assms by (auto simp: nodesShrink_def update_conv')

lemma invalidate_facts [simp]: "rd_facts (invalidate i why st) = rd_facts st" "rd_factDepth (invalidate i why st) = rd_factDepth st"
  by (simp_all add: invalidate_def split: option.splits)

lemma invalidate_shrinks: "nodesShrink st (invalidate i why st)"
proof (cases "map_of (rd_nodes st) i")
  case (Some n)
  have "rd_nodes (invalidate i why st) = AList.update i (n\<lparr>gr_valid := False, gr_effective := False\<rparr>) (rd_nodes st)"
    using Some by (simp add: invalidate_def)
  then show ?thesis by (rule nodesShrink_update [OF Some]) simp_all
qed (simp add: invalidate_def)

lemma setNode_facts [simp]: "rd_facts (setNode i n st) = rd_facts st" "rd_factDepth (setNode i n st) = rd_factDepth st"
  by (simp_all add: setNode_def)

text \<open>What every phase but the authorization keeps.\<close>

definition phaseOK :: "adapters \<Rightarrow> Policy \<Rightarrow> reduction \<Rightarrow> reduction \<Rightarrow> bool" where
  "phaseOK ad p st st' \<longleftrightarrow> (factsOK ad p st \<longrightarrow> factsOK ad p st' \<and> map_of (rd_facts st) \<subseteq>\<^sub>m map_of (rd_facts st') \<and> nodesShrink st st')"

lemma phaseOK_refl [simp]: "phaseOK ad p st st"
  by (simp add: phaseOK_def)

lemma phaseOK_trans [trans]: "phaseOK ad p a b \<Longrightarrow> phaseOK ad p b c \<Longrightarrow> phaseOK ad p a c"
  unfolding phaseOK_def using nodesShrink_trans map_le_trans by blast

lemma phaseOK_sameFacts: "rd_facts st' = rd_facts st \<Longrightarrow> rd_factDepth st' = rd_factDepth st \<Longrightarrow> nodesShrink st st' \<Longrightarrow> phaseOK ad p st st'"
  by (simp add: phaseOK_def factsOK_cong [of st' st])

lemma phaseOK_invalidate [simp]: "phaseOK ad p st (invalidate i why st)"
  by (simp add: phaseOK_sameFacts invalidate_shrinks)

lemma phaseOK_fold: "(\<And>x st. x \<in> set xs \<Longrightarrow> phaseOK ad p st (f x st)) \<Longrightarrow> phaseOK ad p st (fold f xs st)"
  by (induction xs arbitrary: st) (auto intro: phaseOK_trans)

lemma phaseOK_getFact:
  assumes "getFact ad p [] i 0 st = (r, st')"
  shows "phaseOK ad p st st'" "factsOK ad p st \<Longrightarrow> r = Inr f \<Longrightarrow> map_of (rd_facts st') i = Some f"
  using getFact_fetches(1) [OF _ assms] by (auto simp: phaseOK_def fetchedOK_def extendsFacts_def intro: nodesShrink_same)

lemma phaseOK_conflictIntents: "phaseOK ad p st (conflictIntents intents st)"
  unfolding conflictIntents_def
proof (rule phaseOK_fold, clarify)
  fix k grp and st :: reduction
  let ?st = "st\<lparr>rd_Conflicts := rd_Conflicts st @ [\<lparr>cf_Key = ''intent:'' @ k, cf_IDs = sort grp\<rparr>]\<rparr>"
  have "phaseOK ad p st ?st" by (rule phaseOK_sameFacts) (simp_all add: nodesShrink_same)
  also have "phaseOK ad p ?st (fold (\<lambda>i. invalidate i ''conflicting actor/project intent'') (sort grp) ?st)"
    by (rule phaseOK_fold) simp
  finally show "phaseOK ad p st (if length grp > 1 then fold (\<lambda>i. invalidate i ''conflicting actor/project intent'') (sort grp) ?st else st)"
    by simp
qed

lemma phaseOK_fetchBaseline: "fetchBaseline ad p is st = Inr st' \<Longrightarrow> phaseOK ad p st st'"
proof (induction "is" arbitrary: st)
  case (Cons i xs)
  obtain r st1 where g: "getFact ad p [] i 0 st = (r, st1)" by (rule prod.exhaust)
  then have "fetchBaseline ad p xs st1 = Inr st'" using Cons.prems by (auto split: sum.splits go_error.splits)
  then show ?case using Cons.IH phaseOK_getFact(1) [OF g] phaseOK_trans by blast
qed simp

lemma phaseOK_checkDecisionTarget: "phaseOK ad p st (checkDecisionTarget ad p i t st)"
proof -
  obtain r st1 where g: "getFact ad p [] (tg_ID t) 0 st = (r, st1)" by (rule prod.exhaust)
  note h = phaseOK_getFact(1) [OF g]
  show ?thesis unfolding checkDecisionTarget_def g using h phaseOK_trans [OF h phaseOK_invalidate] by (cases r) simp_all
qed

lemma phaseOK_finishDecision: "phaseOK ad p st (snd (finishDecision p i st))"
proof -
  let ?st1 = "if int (depthOf (rd_decisionDepth st) i) > depthLimit p then invalidate i ''decision dependency depth exceeded'' st else st"
  have "phaseOK ad p st ?st1" by simp
  also have "phaseOK ad p ?st1 (?st1\<lparr>rd_visited := i # rd_visited ?st1\<rparr>)" by (rule phaseOK_sameFacts) (simp_all add: nodesShrink_same)
  finally show ?thesis by (simp add: finishDecision_def Let_def)
qed

lemma phaseOK_deepen [simp]: "phaseOK ad p st (deepen q i st)"
  by (rule phaseOK_sameFacts) (simp_all add: deepen_def nodesShrink_same)

lemma phaseOK_decisionValid:
  "phaseOK ad p st (snd (decisionValid ad p visiting i depth st))"
  "phaseOK ad p st (parentsValid ad p visiting i t qs depth st)"
proof (induction ad p visiting i depth st and ad p visiting i t qs depth st rule: decisionValid_parentsValid.induct)
  case (1 ad p visiting i depth st)
  show ?case
  proof (cases "map_of (rd_nodes st) i")
    case (Some n)
    consider "\<not> gr_valid n \<or> i \<in> set (rd_visited st)" | "gr_valid n" "i \<notin> set (rd_visited st)" "int depth > depthLimit p \<or> i \<in> set visiting"
      | "gr_valid n" "i \<notin> set (rd_visited st)" "\<not> (int depth > depthLimit p \<or> i \<in> set visiting)" "re_Decision (gr_record n) = None"
      | d where "gr_valid n" "i \<notin> set (rd_visited st)" "\<not> (int depth > depthLimit p \<or> i \<in> set visiting)" "re_Decision (gr_record n) = Some d"
      by (cases "re_Decision (gr_record n)") blast+
    then show ?thesis
    proof cases
      case 4
      let ?st1 = "checkDecisionTarget ad p i (dc_Target d) st"
      let ?st2 = "parentsValid ad p (i # visiting) i (dc_Target d) (elems (dc_Parents d)) (Suc depth) ?st1"
      have "phaseOK ad p ?st1 ?st2" using "1.IH" [OF Some] 4 by simp
      then have "phaseOK ad p st (snd (finishDecision p i ?st2))"
        by (rule phaseOK_trans [OF phaseOK_trans [OF phaseOK_checkDecisionTarget] phaseOK_finishDecision])
      then show ?thesis using Some 4 by (simp add: decisionValid.simps [of ad p visiting i depth st])
    qed (use Some in \<open>auto simp: decisionValid.simps [of ad p visiting i depth st]\<close>)
  qed (simp add: decisionValid.simps [of ad p visiting i depth st])
next
  case (2 ad p visiting i t depth st)
  then show ?case by (simp add: parentsValid.simps)
next
  case (3 ad p visiting i t q qs depth st)
  note inv = phaseOK_invalidate [of ad p _ i "''missing or invalid same-target decision parent''"]
  show ?case
  proof (cases "isDecision st q t")
    case False
    then show ?thesis using phaseOK_trans [OF inv "3.IH"(1) [OF False]] by (simp add: parentsValid.simps)
  next
    case True
    obtain b st1 where d: "decisionValid ad p visiting q depth st = (b, st1)" by (rule prod.exhaust)
    have nn: "\<not> \<not> isDecision st q t" using True by simp
    have h: "phaseOK ad p st st1" using "3.IH"(2) True d by simp
    show ?thesis
    proof (cases b)
      case bt: True
      have "phaseOK ad p (deepen q i st1) (parentsValid ad p visiting i t qs depth (deepen q i st1))" using "3.IH"(3) [OF nn d [symmetric]] bt by simp
      then show ?thesis using True d bt phaseOK_trans [OF phaseOK_trans [OF h phaseOK_deepen]] by (simp add: parentsValid.simps)
    next
      case bf: False
      let ?st2 = "invalidate i ''missing or invalid same-target decision parent'' st1"
      have "phaseOK ad p ?st2 (parentsValid ad p visiting i t qs depth ?st2)" using "3.IH"(4) [OF nn d [symmetric]] bf by simp
      then show ?thesis using True d bf phaseOK_trans [OF phaseOK_trans [OF h inv]] by (simp add: parentsValid.simps)
    qed
  qed
qed

lemma phaseOK_decisionsValid: "phaseOK ad p st (decisionsValid ad p ids st)"
  unfolding decisionsValid_def by (rule phaseOK_fold) (simp add: phaseOK_decisionValid split: option.split)

lemma phaseOK_collectReceipts: "collectReceipts is receipts st = (receipts', st') \<Longrightarrow> phaseOK ad p st st'"
proof (induction "is" arbitrary: receipts st)
  case (Cons i xs)
  have "\<exists>receipts1 st1. collectReceipts xs receipts1 st1 = (receipts', st') \<and> (st1 = st \<or> (\<exists>why. st1 = invalidate i why st))"
    using Cons.prems by (auto split: option.splits if_splits)
  then show ?case using Cons.IH phaseOK_trans [OF phaseOK_invalidate] by blast
qed simp

lemma phaseOK_collectGroups: "collectGroups receipts is groups st = (groups', st') \<Longrightarrow> phaseOK ad p st st'"
proof (induction "is" arbitrary: groups st)
  case (Cons i xs)
  have "\<exists>groups1 st1. collectGroups receipts xs groups1 st1 = (groups', st') \<and> (st1 = st \<or> (\<exists>why. st1 = invalidate i why st))"
    using Cons.prems by (auto split: option.splits if_splits)
  then show ?case using Cons.IH phaseOK_trans [OF phaseOK_invalidate] by blast
qed simp

section \<open>Authorized records\<close>

lemma listed_iff: "listed x xs \<longleftrightarrow> x \<in> set xs"
  by (auto simp: listed_def list_ex_iff)

text \<open>
  What makes a decision or receipt of the actor \<open>r\<close> count: the authority it names existed, was established for it and lists
  its signer, and the current policy has not revoked the signer (unless the record is ineffective).
\<close>

definition signerAuthorized :: "adapters \<Rightarrow> Authority \<Rightarrow> Policy \<Rightarrow> string \<Rightarrow> Record \<Rightarrow> Authority \<Rightarrow> bool" where
  "signerAuthorized ad current p i r a \<longleftrightarrow> (\<exists>ref ap.
     (case (re_Decision r, re_Receipt r) of (Some d, _) \<Rightarrow> ref = dc_Authority d | (None, Some x) \<Rightarrow> ref = rc_Authority x | _ \<Rightarrow> False) \<and>
     ad_Historical ad ref = Inr a \<and> at_Ref a = ref \<and> validateAuthority a = Inr () \<and> at_Policy a = Some ap \<and> po_Project ap = re_Project r \<and>
     establishedOK ad (at_Ref current) i ref \<and>
     (re_Decision r \<noteq> None \<longrightarrow> re_Actor r \<in> set (elems (po_Moderators ap))) \<and>
     (re_Receipt r \<noteq> None \<longrightarrow> re_Actor r \<in> set (elems (at_Maintainers a)) \<union> set (elems (po_Moderators ap))) \<and>
     re_Actor r \<notin> set (elems (po_RevokedModerators ap)))"

definition bindsFact :: "reduction \<Rightarrow> Record \<Rightarrow> Submission \<Rightarrow> bool" where
  "bindsFact st r s \<longleftrightarrow> (\<exists>f. map_of (rd_facts st) (ct_Revision (sb_Content s)) = Some f \<and>
     fa_Actor f = re_Actor r \<and> fa_Operation f = sb_Operation s \<and> sameContent (fa_Content f) (sb_Content s))"

definition authorizedNode :: "adapters \<Rightarrow> Authority \<Rightarrow> Policy \<Rightarrow> reduction \<Rightarrow> string \<Rightarrow> bool" where
  "authorizedNode ad current p st i \<longleftrightarrow> (\<forall>n. map_of (rd_nodes st) i = Some n \<longrightarrow> gr_valid n \<longrightarrow>
     (case re_Submission (gr_record n) of Some s \<Rightarrow> bindsFact st (gr_record n) s
      | None \<Rightarrow> signerAuthorized ad current p i (gr_record n) (gr_authority n) \<and>
          (gr_effective n \<longrightarrow> re_Actor (gr_record n) \<notin> set (elems (po_RevokedModerators p)))))"

lemma authorizedNode_keep:
  assumes "authorizedNode ad current p st i" "map_of (rd_facts st) \<subseteq>\<^sub>m map_of (rd_facts st')"
    and "\<And>n'. map_of (rd_nodes st') i = Some n' \<Longrightarrow> \<exists>n. map_of (rd_nodes st) i = Some n \<and>
      gr_record n' = gr_record n \<and> gr_authority n' = gr_authority n \<and> (gr_valid n' \<longrightarrow> gr_valid n) \<and> (gr_effective n' \<longrightarrow> gr_effective n)"
  shows "authorizedNode ad current p st' i"
  unfolding authorizedNode_def
proof (intro allI impI)
  fix n' assume "map_of (rd_nodes st') i = Some n'" and v: "gr_valid n'"
  then obtain n where n: "map_of (rd_nodes st) i = Some n" "gr_record n' = gr_record n" "gr_authority n' = gr_authority n"
    "gr_valid n' \<longrightarrow> gr_valid n" "gr_effective n' \<longrightarrow> gr_effective n" using assms(3) by blast
  have mono: "bindsFact st r s \<Longrightarrow> bindsFact st' r s" for r s using assms(2) unfolding bindsFact_def map_le_def by (metis domI)
  have "case re_Submission (gr_record n) of Some s \<Rightarrow> bindsFact st (gr_record n) s
      | None \<Rightarrow> signerAuthorized ad current p i (gr_record n) (gr_authority n) \<and>
          (gr_effective n \<longrightarrow> re_Actor (gr_record n) \<notin> set (elems (po_RevokedModerators p)))"
    using assms(1) n v unfolding authorizedNode_def by blast
  then show "case re_Submission (gr_record n') of Some s \<Rightarrow> bindsFact st' (gr_record n') s
      | None \<Rightarrow> signerAuthorized ad current p i (gr_record n') (gr_authority n') \<and>
          (gr_effective n' \<longrightarrow> re_Actor (gr_record n') \<notin> set (elems (po_RevokedModerators p)))"
    using n mono by (cases "re_Submission (gr_record n)") simp_all
qed

lemma authorizedNode_phase:
  "authorizedNode ad current p st i \<Longrightarrow> nodesShrink st st' \<Longrightarrow> map_of (rd_facts st) \<subseteq>\<^sub>m map_of (rd_facts st') \<Longrightarrow> authorizedNode ad current p st' i"
  by (rule authorizedNode_keep) (auto simp: nodesShrink_def)

text \<open>Authorizing one record leaves the other nodes alone and keeps every record.\<close>

definition recordsKept :: "reduction \<Rightarrow> reduction \<Rightarrow> bool" where
  "recordsKept st st' \<longleftrightarrow> (\<forall>i. map_option gr_record (map_of (rd_nodes st') i) = map_option gr_record (map_of (rd_nodes st) i))"

lemma invalidate_other [simp]: "j \<noteq> i \<Longrightarrow> map_of (rd_nodes (invalidate i why st)) j = map_of (rd_nodes st) j"
  by (simp add: invalidate_def update_conv' split: option.split)

lemma invalidate_this: "map_of (rd_nodes (invalidate i why st)) i = map_option (\<lambda>n. n\<lparr>gr_valid := False, gr_effective := False\<rparr>) (map_of (rd_nodes st) i)"
  by (simp add: invalidate_def update_conv' split: option.split)

lemma invalidate_authorized [simp]: "authorizedNode ad current p (invalidate i why st) i"
  by (auto simp: authorizedNode_def invalidate_this)

lemma recordsKept_invalidate [simp]: "recordsKept st (invalidate i why st)"
proof -
  have "map_option gr_record (map_of (rd_nodes (invalidate i why st)) j) = map_option gr_record (map_of (rd_nodes st) j)" for j
    by (cases "j = i") (simp_all add: invalidate_this option.map_comp comp_def)
  then show ?thesis by (simp add: recordsKept_def)
qed

lemma recordsKept_trans: "recordsKept a b \<Longrightarrow> recordsKept b c \<Longrightarrow> recordsKept a c"
  by (simp add: recordsKept_def)

definition authorizedStep :: "adapters \<Rightarrow> Authority \<Rightarrow> Policy \<Rightarrow> string \<Rightarrow> reduction \<Rightarrow> reduction \<Rightarrow> bool" where
  "authorizedStep ad current p i st st' \<longleftrightarrow> factsOK ad p st' \<and> map_of (rd_facts st) \<subseteq>\<^sub>m map_of (rd_facts st') \<and> recordsKept st st' \<and>
     (\<forall>j. j \<noteq> i \<longrightarrow> map_of (rd_nodes st') j = map_of (rd_nodes st) j) \<and> authorizedNode ad current p st' i"

lemma authorizedStep_invalidate [simp]: "factsOK ad p st \<Longrightarrow> authorizedStep ad current p i st (invalidate i why st)"
  by (simp add: authorizedStep_def factsOK_cong [of "invalidate i why st" st])

lemma authorizeSubmission_step:
  assumes "factsOK ad p st" "map_of (rd_nodes st) i = Some n" "re_Submission (gr_record n) = Some s"
  shows "authorizedStep ad current p i st (authorizeSubmission ad p i (gr_record n) s st)"
proof -
  obtain r st1 where g: "getFact ad p [] (ct_Revision (sb_Content s)) 0 st = (r, st1)" by (rule prod.exhaust)
  have f: "fetchedOK ad p [] st st1" and got: "r = Inr f \<Longrightarrow> map_of (rd_facts st1) (ct_Revision (sb_Content s)) = Some f" for f
    using getFact_fetches(1) [OF assms(1) g] by auto
  have st1: "factsOK ad p st1" "map_of (rd_facts st) \<subseteq>\<^sub>m map_of (rd_facts st1)" "rd_nodes st1 = rd_nodes st"
    using f by (auto simp: fetchedOK_def extendsFacts_def)
  have inv: "authorizedStep ad current p i st (invalidate i why st1)" for why
    using authorizedStep_invalidate [OF st1(1), of current i why] st1(2,3) by (simp add: authorizedStep_def recordsKept_def)
  show ?thesis
  proof (cases "\<exists>f. r = Inr f \<and> fa_Actor f = re_Actor (gr_record n) \<and> fa_Operation f = sb_Operation s \<and> sameContent (fa_Content f) (sb_Content s)")
    case True
    then obtain f where r: "r = Inr f" and k: "fa_Actor f = re_Actor (gr_record n)" "fa_Operation f = sb_Operation s" "sameContent (fa_Content f) (sb_Content s)"
      by blast
    have "bindsFact st1 (gr_record n) s" using k got [OF r] by (auto simp: bindsFact_def)
    then have "authorizedStep ad current p i st st1" using st1 assms(2,3) by (simp add: authorizedStep_def recordsKept_def authorizedNode_def)
    then show ?thesis using r k by (simp add: authorizeSubmission_def g)
  next
    case False
    then have "\<exists>why. authorizeSubmission ad p i (gr_record n) s st = invalidate i why st1" by (cases r) (auto simp: authorizeSubmission_def g)
    then show ?thesis using inv by auto
  qed
qed

lemma authorizeSigner_step:
  assumes "factsOK ad p st" "map_of (rd_nodes st) i = Some n" "re_Submission (gr_record n) = None"
    and "case (re_Decision (gr_record n), re_Receipt (gr_record n)) of (Some d, _) \<Rightarrow> ref = dc_Authority d | (None, Some x) \<Rightarrow> ref = rc_Authority x | _ \<Rightarrow> False"
    and "ad_Historical ad ref = Inr a" "at_Ref a = ref" "validateAuthority a = Inr ()" "at_Policy a = Some ap" "po_Project ap = re_Project (gr_record n)"
    and "establishedOK ad (at_Ref current) i ref"
  shows "authorizedStep ad current p i st (authorizeSigner p i n a ap st)"
proof -
  let ?r = "gr_record n" and ?st1 = "setNode i (n\<lparr>gr_authority := a\<rparr>) st"
  have st1: "factsOK ad p ?st1" using assms(1) by (simp add: factsOK_cong [of ?st1 st])
  have kept: "recordsKept st (setNode i m st)" if "gr_record m = ?r" for m
    using that assms(2) by (simp add: recordsKept_def setNode_def update_conv')
  have inv: "authorizedStep ad current p i st (invalidate i why ?st1)" for why
    using authorizedStep_invalidate [OF st1, of current i why] recordsKept_trans [OF kept recordsKept_invalidate, of "n\<lparr>gr_authority := a\<rparr>" i why]
    by (simp add: authorizedStep_def setNode_def update_conv')
  let ?bad = "re_Decision ?r \<noteq> None \<and> \<not> listed (re_Actor ?r) (elems (po_Moderators ap)) \<or>
    re_Receipt ?r \<noteq> None \<and> \<not> listed (re_Actor ?r) (elems (at_Maintainers a)) \<and> \<not> listed (re_Actor ?r) (elems (po_Moderators ap)) \<or>
    listed (re_Actor ?r) (elems (po_RevokedModerators ap))"
  show ?thesis
  proof (cases ?bad)
    case True
    then have "\<exists>why. authorizeSigner p i n a ap st = invalidate i why ?st1" by (auto simp: authorizeSigner_def Let_def)
    then show ?thesis using inv by auto
  next
    case False
    then have sig: "signerAuthorized ad current p i ?r a"
      unfolding signerAuthorized_def 
      using assms(4-10) by (intro exI [of _ ref] exI [of _ ap]) (auto simp: listed_iff)
    let ?m = "if listed (re_Actor ?r) (elems (po_RevokedModerators p)) then n\<lparr>gr_authority := a, gr_effective := False\<rparr> else n\<lparr>gr_authority := a\<rparr>"
    have res: "map_of (rd_nodes (authorizeSigner p i n a ap st)) j = (if j = i then Some ?m else map_of (rd_nodes st) j)"
      "rd_facts (authorizeSigner p i n a ap st) = rd_facts st" "rd_factDepth (authorizeSigner p i n a ap st) = rd_factDepth st" for j
      using False by (auto simp: authorizeSigner_def Let_def setNode_def update_conv')
    have "factsOK ad p (authorizeSigner p i n a ap st)" using assms(1) factsOK_cong [OF res(2,3)] by simp
    moreover have "recordsKept st (authorizeSigner p i n a ap st)" using assms(2) by (simp add: recordsKept_def res(1))
    moreover have "authorizedNode ad current p (authorizeSigner p i n a ap st) i"
      using sig assms(3) by (simp add: authorizedNode_def res(1) listed_iff)
    ultimately show ?thesis by (simp add: authorizedStep_def res(1,2))
  qed
qed

lemma authorizeRecord_step:
  assumes "authorizeRecord ad current p i st = Inr st'" "factsOK ad p st"
  shows "authorizedStep ad current p i st st'"
proof -
  obtain n where n: "map_of (rd_nodes st) i = Some n" using assms(1) by (cases "map_of (rd_nodes st) i") (simp_all add: authorizeRecord_def)
  show ?thesis
  proof (cases "gr_valid n")
    case False
    then have "st' = st" using assms(1) n by (simp add: authorizeRecord_def)
    then show ?thesis using n False assms(2) by (simp add: authorizedStep_def recordsKept_def authorizedNode_def)
  next
    case True
    show ?thesis
    proof (cases "re_Submission (gr_record n)")
      case (Some s)
      then have "st' = authorizeSubmission ad p i (gr_record n) s st" using assms(1) n True by (simp add: authorizeRecord_def)
      then show ?thesis using authorizeSubmission_step [OF assms(2) n Some] by simp
    next
      case None
      obtain ref where ref: "case (re_Decision (gr_record n), re_Receipt (gr_record n)) of (Some d, _) \<Rightarrow> ref = dc_Authority d
          | (None, Some x) \<Rightarrow> ref = rc_Authority x | _ \<Rightarrow> False"
        and st': "st' = (case ad_Historical ad ref of
             Inl e \<Rightarrow> invalidate i ''invalid historical authority'' st
           | Inr a \<Rightarrow>
               if at_Ref a \<noteq> ref \<or> validateAuthority a \<noteq> Inr () \<or> map_option po_Project (at_Policy a) \<noteq> Some (re_Project (gr_record n))
               then invalidate i ''invalid historical authority'' st
               else if \<not> establishedOK ad (at_Ref current) i ref
               then invalidate i ''old policy requires established authority checkpoint'' st
               else authorizeSigner p i n a (the (at_Policy a)) st)"
        using assms(1) n True None
        by (cases "re_Decision (gr_record n)"; cases "re_Receipt (gr_record n)") (simp_all add: authorizeRecord_def Let_def)
      show ?thesis
      proof (cases "\<exists>a ap. ad_Historical ad ref = Inr a \<and> at_Ref a = ref \<and> validateAuthority a = Inr () \<and> at_Policy a = Some ap \<and>
          po_Project ap = re_Project (gr_record n) \<and> establishedOK ad (at_Ref current) i ref")
        case True
        then obtain a ap where a: "ad_Historical ad ref = Inr a" "at_Ref a = ref" "validateAuthority a = Inr ()" "at_Policy a = Some ap"
          "po_Project ap = re_Project (gr_record n)" "establishedOK ad (at_Ref current) i ref" by blast
        then have "st' = authorizeSigner p i n a ap st" using st' by simp
        then show ?thesis using authorizeSigner_step [OF assms(2) n None ref a] by simp
      next
        case False
        then have "\<exists>why. st' = invalidate i why st" unfolding st' by (auto split: sum.split)
        then show ?thesis using assms(2) by auto
      qed
    qed
  qed
qed

lemma authorizeAll_authorized:
  assumes "authorizeAll ad current p is st = Inr st'" "factsOK ad p st" "\<forall>i \<in> A. authorizedNode ad current p st i"
  shows "factsOK ad p st' \<and> map_of (rd_facts st) \<subseteq>\<^sub>m map_of (rd_facts st') \<and> recordsKept st st' \<and> (\<forall>i \<in> A \<union> set is. authorizedNode ad current p st' i)"
  using assms
proof (induction "is" arbitrary: st A)
  case Nil
  then show ?case by (simp add: recordsKept_def)
next
  case (Cons i xs)
  obtain st1 where st1: "authorizeRecord ad current p i st = Inr st1" "authorizeAll ad current p xs st1 = Inr st'"
    using Cons.prems(1) by (auto simp: rbind_eq_Inr)
  note s = authorizeRecord_step [OF st1(1) Cons.prems(2), unfolded authorizedStep_def]
  have "authorizedNode ad current p st1 j" if "j \<in> insert i A" for j
  proof (cases "j = i")
    case False
    have same: "map_of (rd_nodes st1) j = map_of (rd_nodes st) j" using s False by blast
    show ?thesis by (rule authorizedNode_keep [of ad current p st]) (use Cons.prems(3) that False s same in auto)
  qed (use s in simp)
  then have all: "\<forall>j \<in> insert i A. authorizedNode ad current p st1 j" by blast
  have "factsOK ad p st1" using s by blast
  note r = Cons.IH [OF st1(2) this all]
  have "A \<union> set (i # xs) = insert i A \<union> set xs" by auto
  then show ?case using r s recordsKept_trans map_le_trans by (metis (no_types, lifting))
qed

end
