(* ===== verification/HN_View.thy ===== *)
theory HN_View
  imports HN_Admission
begin

text \<open>
  The view that \<open>Reduce\<close> (\<open>src/internal/contribution/model.go\<close>) returns: where an admitted fact comes from, which facts are
  its heads, and which are visible.
\<close>

section \<open>The state after the preparation\<close>

text \<open>Every node is a record of the input, of the project of the policy, under its identifier.\<close>

definition nodesFrom :: "adapters \<Rightarrow> string \<Rightarrow> Verified list \<Rightarrow> string list \<Rightarrow> reduction \<Rightarrow> bool" where
  "nodesFrom ad project input ids st \<longleftrightarrow> (\<forall>i n. map_of (rd_nodes st) i = Some n \<longrightarrow> i \<in> set ids \<and>
     (\<exists>v \<in> set input. vf_id v = i \<and> gr_record n = ad_record ad v \<and> re_Project (ad_record ad v) = project))"

lemma nodesFrom_keep:
  assumes "nodesFrom ad project input ids st"
    and "\<And>i n'. map_of (rd_nodes st') i = Some n' \<Longrightarrow> \<exists>n. map_of (rd_nodes st) i = Some n \<and> gr_record n' = gr_record n"
  shows "nodesFrom ad project input ids st'"
  unfolding nodesFrom_def
proof (intro allI impI)
  fix i n' assume "map_of (rd_nodes st') i = Some n'"
  then obtain n where n: "map_of (rd_nodes st) i = Some n" "gr_record n' = gr_record n" using assms(2) by blast
  show "i \<in> set ids \<and> (\<exists>v \<in> set input. vf_id v = i \<and> gr_record n' = ad_record ad v \<and> re_Project (ad_record ad v) = project)"
    unfolding n(2) using assms(1) n(1) unfolding nodesFrom_def by blast
qed

lemma nodesFrom_shrink: "nodesFrom ad project input ids st \<Longrightarrow> nodesShrink st st' \<Longrightarrow> nodesFrom ad project input ids st'"
  by (erule nodesFrom_keep) (auto simp: nodesShrink_def)

lemma nodesFrom_records: "nodesFrom ad project input ids st \<Longrightarrow> recordsKept st st' \<Longrightarrow> nodesFrom ad project input ids st'"
proof (erule nodesFrom_keep)
  fix i n' assume "recordsKept st st'" "map_of (rd_nodes st') i = Some n'"
  then have "map_option gr_record (map_of (rd_nodes st) i) = Some (gr_record n')" unfolding recordsKept_def by (metis option.simps(9))
  then show "\<exists>n. map_of (rd_nodes st) i = Some n \<and> gr_record n' = gr_record n" by auto
qed

lemma readInput_nodes:
  assumes "readInput ad project vs seen (st, ids, intents) = Inr (st', ids', intents')"
    and "nodesFrom ad project input ids st" "set vs \<subseteq> set input"
  shows "nodesFrom ad project input ids' st' \<and> rd_facts st' = rd_facts st \<and> rd_factDepth st' = rd_factDepth st"
  using assms
proof (induction vs arbitrary: seen st ids intents)
  case (Cons v vs)
  let ?r = "ad_record ad v"
  have sub: "set vs \<subseteq> set input" using Cons.prems(3) by simp
  consider "vf_id v \<in> set seen" "readInput ad project vs seen (st, ids, intents) = Inr (st', ids', intents')"
    | "vf_id v \<notin> set seen" "re_Project ?r \<noteq> project" "readInput ad project vs (vf_id v # seen)
          (st\<lparr>rd_Invalid := rd_Invalid st @ [\<lparr>dg_ID = vf_id v, dg_Reason = ''wrong project scope''\<rparr>]\<rparr>, ids, intents) = Inr (st', ids', intents')"
    | "vf_id v \<notin> set seen" "re_Project ?r = project" "readInput ad project vs (vf_id v # seen)
          (setNode (vf_id v) \<lparr>gr_id = vf_id v, gr_record = ?r, gr_authority = emptyAuthority, gr_effective = True, gr_valid = True\<rparr> st,
           ids @ [vf_id v], appendTo (re_Actor ?r @ '':'' @ re_Intent ?r) (vf_id v) intents) = Inr (st', ids', intents')"
    using Cons.prems(1) by (auto simp: Let_def split: if_splits)
  then show ?case
  proof cases
    case 1
    show ?thesis using Cons.IH [OF 1(2) Cons.prems(2) sub] .
  next
    case 2
    show ?thesis using Cons.IH [OF 2(3) _ sub] Cons.prems(2) by (simp add: nodesFrom_def)
  next
    case 3
    let ?st = "setNode (vf_id v) \<lparr>gr_id = vf_id v, gr_record = ?r, gr_authority = emptyAuthority, gr_effective = True, gr_valid = True\<rparr> st"
    have "nodesFrom ad project input (ids @ [vf_id v]) ?st"
      using Cons.prems(2,3) 3(2) by (auto simp: nodesFrom_def setNode_def update_conv')
    from Cons.IH [OF 3(3) this sub] show ?thesis by simp
  qed
qed simp

lemma factsOK_empty: "rd_facts st = [] \<Longrightarrow> factsOK ad p st"
  by (simp add: factsOK_def)

text \<open>The state that the receipts and decision groups are computed from.\<close>

definition preparedOK :: "adapters \<Rightarrow> Authority \<Rightarrow> Policy \<Rightarrow> Verified list \<Rightarrow> string list \<Rightarrow> reduction \<Rightarrow> bool" where
  "preparedOK ad current p input ids st \<longleftrightarrow> factsOK ad p st \<and> nodesFrom ad (po_Project p) input ids st \<and> (\<forall>i. authorizedNode ad current p st i)"

lemma preparedOK_phase: "preparedOK ad current p input ids st \<Longrightarrow> phaseOK ad p st st' \<Longrightarrow> preparedOK ad current p input ids st'"
  unfolding preparedOK_def phaseOK_def using nodesFrom_shrink authorizedNode_phase by blast

lemma prepare_phases:
  assumes "prepare ad current p input = Inr (ids, st, receipts, groups)"
  obtains st3 st4 where "preparedOK ad current p input ids st3" "collectReceipts ids [] st3 = (receipts, st4)"
    "preparedOK ad current p input ids st4" "collectGroups receipts ids [] st4 = (groups, st)" "preparedOK ad current p input ids st"
proof -
  obtain st0 ids0 intents st1 st2 where r: "readInput ad (po_Project p) input [] (emptyReduction, [], []) = Inr (st0, ids0, intents)"
    and b: "fetchBaseline ad p (elems (po_Baseline p)) (conflictIntents intents st0) = Inr st1"
    and a: "authorizeAll ad current p (sort ids0) st1 = Inr st2"
    and rest: "(case collectReceipts (sort ids0) [] (decisionsValid ad p (sort ids0) st2) of (receipts, st4) \<Rightarrow>
      case collectGroups receipts (sort ids0) [] st4 of (groups, st5) \<Rightarrow> Inr (sort ids0, st5, receipts, groups)) = (Inr (ids, st, receipts, groups) :: _ result)"
  proof -
    from assms obtain x where x: "readInput ad (po_Project p) input [] (emptyReduction, [], []) = Inr x" unfolding prepare_def rbind_eq_Inr by blast
    obtain st0 ids0 intents where x3: "x = (st0, ids0, intents)" by (rule prod_cases3)
    show ?thesis using assms x that unfolding prepare_def x3 Let_def rbind_def by (simp split: sum.splits)
  qed
  obtain st4 where ids: "ids = sort ids0" and cr: "collectReceipts ids [] (decisionsValid ad p ids st2) = (receipts, st4)"
    and cg: "collectGroups receipts ids [] st4 = (groups, st)" using rest by (auto split: prod.splits)
  note a = a [folded ids]
  have "nodesFrom ad (po_Project p) input [] emptyReduction" by (simp add: nodesFrom_def emptyReduction_def)
  from readInput_nodes [OF r this] have n0: "nodesFrom ad (po_Project p) input ids st0" and f0: "factsOK ad p st0"
    by (simp_all add: nodesFrom_def ids emptyReduction_def factsOK_empty)
  have "phaseOK ad p st0 st1" using phaseOK_trans [OF phaseOK_conflictIntents phaseOK_fetchBaseline [OF b]] .
  then have s1: "factsOK ad p st1" "nodesFrom ad (po_Project p) input ids st1" using f0 n0 nodesFrom_shrink by (auto simp: phaseOK_def)
  have s2: "factsOK ad p st2" "recordsKept st1 st2" "\<forall>i \<in> set ids. authorizedNode ad current p st2 i"
    using authorizeAll_authorized [OF a s1(1), of "{}"] by auto
  have n2: "nodesFrom ad (po_Project p) input ids st2" using nodesFrom_records [OF s1(2) s2(2)] .
  have "authorizedNode ad current p st2 i" for i
    using s2(3) n2 by (cases "i \<in> set ids") (auto simp: authorizedNode_def nodesFrom_def)
  then have p2: "preparedOK ad current p input ids st2" using s2(1) n2 by (simp add: preparedOK_def)
  note p3 = preparedOK_phase [OF p2 phaseOK_decisionsValid]
  note p4 = preparedOK_phase [OF p3 phaseOK_collectReceipts [OF cr]]
  show ?thesis by (rule that [OF p3 cr p4 cg preparedOK_phase [OF p4 phaseOK_collectGroups [OF cg]]])
qed


section \<open>Provenance of receipts and decisions\<close>

text \<open>A receipt that counts: in the input, signed under an evaluated authority that still holds, for a submission of the input, within bounds.\<close>

definition receiptCounts :: "adapters \<Rightarrow> Authority \<Rightarrow> Policy \<Rightarrow> Verified list \<Rightarrow> string \<Rightarrow> Verified \<Rightarrow> Receipt \<Rightarrow> Authority \<Rightarrow> bool" where
  "receiptCounts ad current p input sub v x a \<longleftrightarrow> v \<in> set input \<and> re_Receipt (ad_record ad v) = Some x \<and> rc_Submission x = sub \<and>
     signerAuthorized ad current p (vf_id v) (ad_record ad v) a \<and> re_Actor (ad_record ad v) \<notin> set (elems (po_RevokedModerators p)) \<and>
     costWithin (rc_Cost x) (limitsOf a) \<and>
     (\<exists>w \<in> set input. \<exists>s. vf_id w = sub \<and> re_Submission (ad_record ad w) = Some s \<and>
       (rc_Automatic x \<longrightarrow> automaticOK a (contentRequest (ad_record ad w) s)))"

definition decisionCounts :: "adapters \<Rightarrow> Authority \<Rightarrow> Policy \<Rightarrow> Verified list \<Rightarrow> Target \<Rightarrow> Verified \<Rightarrow> Decision \<Rightarrow> Authority \<Rightarrow> bool" where
  "decisionCounts ad current p input t v d a \<longleftrightarrow> v \<in> set input \<and> re_Decision (ad_record ad v) = Some d \<and> dc_Target d = t \<and>
     signerAuthorized ad current p (vf_id v) (ad_record ad v) a \<and> re_Actor (ad_record ad v) \<notin> set (elems (po_RevokedModerators p))"

text \<open>The kinds of verified records are exclusive.\<close>

definition shapesOK :: "adapters \<Rightarrow> Verified list \<Rightarrow> bool" where
  "shapesOK ad input \<longleftrightarrow> (\<forall>v \<in> set input. checkShape (ad_record ad v) = Inr ())"

lemma authorized_signer:
  assumes "preparedOK ad current p input ids st" "shapesOK ad input" "map_of (rd_nodes st) i = Some n" "gr_valid n" "gr_effective n"
    and "re_Receipt (gr_record n) \<noteq> None \<or> re_Decision (gr_record n) \<noteq> None"
  obtains v where "v \<in> set input" "vf_id v = i" "gr_record n = ad_record ad v"
    "signerAuthorized ad current p i (ad_record ad v) (gr_authority n)" "re_Actor (ad_record ad v) \<notin> set (elems (po_RevokedModerators p))"
proof -
  obtain v where v: "v \<in> set input" "vf_id v = i" "gr_record n = ad_record ad v"
    using assms(1,3) unfolding preparedOK_def nodesFrom_def by blast
  have "checkShape (ad_record ad v) = Inr ()" using assms(2) v(1) by (simp add: shapesOK_def)
  then have "re_Submission (gr_record n) = None" using checkShape_kinds [of "ad_record ad v"] assms(6) v(3) by auto
  moreover have "authorizedNode ad current p st i" using assms(1) by (simp add: preparedOK_def)
  ultimately have "signerAuthorized ad current p i (gr_record n) (gr_authority n) \<and> re_Actor (gr_record n) \<notin> set (elems (po_RevokedModerators p))"
    using assms(3-5) by (simp add: authorizedNode_def)
  then show ?thesis using that [OF v] v(3) by simp
qed

lemma receiptProblem_None:
  assumes "receiptProblem st n x = None"
  obtains sn s where "map_of (rd_nodes st) (rc_Submission x) = Some sn" "gr_valid sn" "re_Submission (gr_record sn) = Some s"
    "costWithin (rc_Cost x) (limitsOf (gr_authority n))" "rc_Automatic x \<longrightarrow> automaticOK (gr_authority n) (contentRequest (gr_record sn) s)"
  using assms by (auto simp: receiptProblem_def validSubmission_def split: if_splits option.splits)

definition receiptMember :: "adapters \<Rightarrow> Authority \<Rightarrow> Policy \<Rightarrow> Verified list \<Rightarrow> reduction \<Rightarrow> string \<Rightarrow> string \<Rightarrow> bool" where
  "receiptMember ad current p input st sub i \<longleftrightarrow> (\<exists>n v x a. map_of (rd_nodes st) i = Some n \<and> gr_record n = ad_record ad v \<and>
     receiptCounts ad current p input sub v x a)"

lemma collectReceipts_counts:
  assumes "collectReceipts is receipts st = (receipts', st')" "preparedOK ad current p input ids st" "shapesOK ad input" "nodesShrink st0 st"
    and "\<And>sub i. i \<in> set (lookupList receipts sub) \<Longrightarrow> receiptMember ad current p input st0 sub i"
  shows "i \<in> set (lookupList receipts' sub) \<Longrightarrow> receiptMember ad current p input st0 sub i"
  using assms
proof (induction "is" arbitrary: receipts st)
  case (Cons j xs)
  note goal = Cons.prems(1)
  have step: ?case if rest: "collectReceipts xs receipts1 st1 = (receipts', st')" and ok: "preparedOK ad current p input ids st1"
    and sh: "nodesShrink st0 st1" and cs: "\<And>sub i. i \<in> set (lookupList receipts1 sub) \<Longrightarrow> receiptMember ad current p input st0 sub i" for receipts1 st1
    by (rule Cons.IH [OF goal rest ok assms(3) sh cs])
  consider (same) "collectReceipts xs receipts st = (receipts', st')"
    | (bad) why where "collectReceipts xs receipts (invalidate j why st) = (receipts', st')"
    | (new) n x where "map_of (rd_nodes st) j = Some n" "re_Receipt (gr_record n) = Some x" "gr_valid n" "gr_effective n" "receiptProblem st n x = None"
        "collectReceipts xs (appendTo (rc_Submission x) j receipts) st = (receipts', st')"
    using Cons.prems(2) by (auto split: option.splits if_splits)
  then show ?case
  proof cases
    case same
    show ?thesis by (rule step [OF same Cons.prems(3,5,6)])
  next
    case bad
    show ?thesis by (rule step [OF bad preparedOK_phase [OF Cons.prems(3) phaseOK_invalidate] nodesShrink_trans [OF Cons.prems(5) invalidate_shrinks] Cons.prems(6)])
  next
    case new
    obtain v where v: "v \<in> set input" "vf_id v = j" "gr_record n = ad_record ad v"
      "signerAuthorized ad current p j (ad_record ad v) (gr_authority n)" "re_Actor (ad_record ad v) \<notin> set (elems (po_RevokedModerators p))"
      using authorized_signer [OF Cons.prems(3) assms(3) new(1,3,4)] new(2) by blast
    obtain sn s where s: "map_of (rd_nodes st) (rc_Submission x) = Some sn" "re_Submission (gr_record sn) = Some s"
      "costWithin (rc_Cost x) (limitsOf (gr_authority n))" "rc_Automatic x \<longrightarrow> automaticOK (gr_authority n) (contentRequest (gr_record sn) s)"
      using receiptProblem_None [OF new(5)] by blast
    then obtain w where w: "w \<in> set input" "vf_id w = rc_Submission x" "gr_record sn = ad_record ad w"
      using Cons.prems(3) unfolding preparedOK_def nodesFrom_def by blast
    have "receiptCounts ad current p input (rc_Submission x) v x (gr_authority n)"
      using v w s new(2) by (auto simp: receiptCounts_def)
    moreover obtain n0 where n0: "map_of (rd_nodes st0) j = Some n0" "gr_record n = gr_record n0" using nodesShrinkD [OF Cons.prems(5) new(1)] by blast
    moreover have "gr_record n0 = ad_record ad v" using n0(2) v(3) by simp
    ultimately have "receiptMember ad current p input st0 (rc_Submission x) j" unfolding receiptMember_def by blast
    then have "receiptMember ad current p input st0 sub k" if "k \<in> set (lookupList (appendTo (rc_Submission x) j receipts) sub)" for k sub
      using that Cons.prems(6) [of k sub] by (auto simp: lookupList_appendTo split: if_splits)
    then show ?thesis by (rule step [OF new(6) Cons.prems(3,5)])
  qed
qed simp

text \<open>The members of a decision group: effective decisions on the target, on a submission only after an intake receipt.\<close>

definition groupMember :: "reduction \<Rightarrow> (string, string list) gomap \<Rightarrow> Target \<Rightarrow> string \<Rightarrow> bool" where
  "groupMember st receipts t i \<longleftrightarrow> (\<exists>n d. map_of (rd_nodes st) i = Some n \<and> gr_valid n \<and> gr_effective n \<and> re_Decision (gr_record n) = Some d \<and> dc_Target d = t \<and>
     (tg_Kind t = ''submission'' \<longrightarrow> lookupList receipts (tg_ID t) \<noteq> []))"

lemma groupMember_shrink:
  assumes "nodesShrink st st'" "groupMember st' receipts t i"
  shows "groupMember st receipts t i"
proof -
  obtain n' d where n': "map_of (rd_nodes st') i = Some n'" "gr_valid n'" "gr_effective n'" "re_Decision (gr_record n') = Some d" "dc_Target d = t"
    "tg_Kind t = ''submission'' \<longrightarrow> lookupList receipts (tg_ID t) \<noteq> []" using assms(2) unfolding groupMember_def by blast
  obtain n where "map_of (rd_nodes st) i = Some n" "gr_record n' = gr_record n" "gr_valid n' \<longrightarrow> gr_valid n" "gr_effective n' \<longrightarrow> gr_effective n"
    using nodesShrinkD [OF assms(1) n'(1)] by blast
  then show ?thesis using n' by (auto simp: groupMember_def)
qed

lemma collectGroups_members:
  assumes "collectGroups receipts is groups st = (groups', st')" "nodesShrink st0 st"
    and "\<And>t i. i \<in> set (lookupList groups t) \<Longrightarrow> groupMember st0 receipts t i"
  shows "i \<in> set (lookupList groups' t) \<Longrightarrow> groupMember st0 receipts t i"
  using assms
proof (induction "is" arbitrary: groups st)
  case (Cons j xs)
  note goal = Cons.prems(1)
  consider (same) "collectGroups receipts xs groups st = (groups', st')"
    | (bad) why where "collectGroups receipts xs groups (invalidate j why st) = (groups', st')"
    | (new) n d where "map_of (rd_nodes st) j = Some n" "re_Decision (gr_record n) = Some d" "gr_valid n" "gr_effective n"
        "tg_Kind (dc_Target d) = ''submission'' \<longrightarrow> lookupList receipts (tg_ID (dc_Target d)) \<noteq> []"
        "collectGroups receipts xs (appendTo (dc_Target d) j groups) st = (groups', st')"
    using Cons.prems(2) by (auto split: option.splits if_splits)
  then show ?case
  proof cases
    case same
    show ?thesis by (rule Cons.IH [OF goal same Cons.prems(3,4)])
  next
    case bad
    show ?thesis by (rule Cons.IH [OF goal bad nodesShrink_trans [OF Cons.prems(3) invalidate_shrinks] Cons.prems(4)])
  next
    case new
    have "groupMember st receipts (dc_Target d) j" using new by (auto simp: groupMember_def)
    then have "groupMember st0 receipts (dc_Target d) j" by (rule groupMember_shrink [OF Cons.prems(3)])
    then have "groupMember st0 receipts u k" if "k \<in> set (lookupList (appendTo (dc_Target d) j groups) u)" for k u
      using that Cons.prems(4) [of k u] by (auto simp: lookupList_appendTo split: if_splits)
    then show ?thesis by (rule Cons.IH [OF goal new(6) Cons.prems(3)])
  qed
qed simp

lemma chosen_member:
  assumes "chosen (decisionHeads st groups) t = Some i"
  shows "i \<in> set (lookupList groups t)"
proof -
  have "lookupList (decisionHeads st groups) t = [i]" using assms by (auto simp: chosen_def split: list.splits)
  then have "i \<in> set (headsOf st (lookupList groups t))" by (simp add: decisionHeads_def lookupList_map split: if_splits)
  then show ?thesis by (auto simp: headsOf_def)
qed


section \<open>The view\<close>

lemma Reduce_view:
  assumes "Reduce current input (Some ad) = Inr view"
  obtains p ids st receipts groups where "at_Policy current = Some p" "0 \<le> depthLimit p"
    "prepare ad current p input = Inr (ids, st, receipts, groups)" "view = makeView current p ids st receipts groups"
proof -
  obtain p where p: "at_Policy current = Some p" and va: "validateAuthority current = Inr ()"
    using assms by (auto simp: Reduce_def rbind_eq_Inr split: option.splits)
  obtain ids st receipts groups where q: "prepare ad current p input = Inr (ids, st, receipts, groups)" "view = makeView current p ids st receipts groups"
    using assms p va by (auto simp: Reduce_def rbind_eq_Inr split: option.splits if_splits prod.splits)
  have "0 \<le> depthLimit p" using va p
    by (auto simp: validateAuthority_def rbind_eq_Inr validateProjectPolicy_def validateLimits_def validateCost_def depthLimit_def split: if_splits)
  then show ?thesis using that p q by blast
qed

lemma makeView_admitted [simp]:
  "vw_Admitted (makeView current p ids st receipts groups) =
     admitted p st (decisionHeads st groups) (candidateSet p st receipts (decisionHeads st groups) ids)"
  "vw_BlockedActors (makeView current p ids st receipts groups) = blockedActors st (decisionHeads st groups)"
  by (simp_all add: makeView_def Let_def)

text \<open>How a submission of the input came to be admitted.\<close>

definition admittedBy :: "adapters \<Rightarrow> Authority \<Rightarrow> Policy \<Rightarrow> Verified list \<Rightarrow> string \<Rightarrow> Record \<Rightarrow> Submission \<Rightarrow> bool" where
  "admittedBy ad current p input i r s \<longleftrightarrow>
     (\<exists>v x a. receiptCounts ad current p input i v x a \<and> rc_Automatic x) \<or>
     (\<exists>v x a. receiptCounts ad current p input i v x a) \<and>
     (\<exists>v d a perm. decisionCounts ad current p input (submissionTarget i) v d a \<and> dc_Action d = ''admit'' \<and>
       Evaluate a ((contentRequest r s)\<lparr>rq_Manual := True, rq_Moderator := re_Actor (ad_record ad v)\<rparr>) = Inr perm \<and> pm_Allowed perm)"

lemma submissionAdmitted_by:
  assumes "prepare ad current p input = Inr (ids, st, receipts, groups)" "shapesOK ad input"
    and "submissionAdmitted st receipts (decisionHeads st groups) i r s"
  shows "admittedBy ad current p input i r s"
proof -
  let ?heads = "decisionHeads st groups" and ?t = "submissionTarget i"
  obtain st3 st4 where c: "preparedOK ad current p input ids st3" "collectReceipts ids [] st3 = (receipts, st4)"
    "preparedOK ad current p input ids st4" "collectGroups receipts ids [] st4 = (groups, st)" "preparedOK ad current p input ids st"
    using prepare_phases [OF assms(1)] by blast
  have s3: "nodesShrink st3 st4" and s4: "nodesShrink st4 st"
    using phaseOK_collectReceipts [OF c(2), of ad p] phaseOK_collectGroups [OF c(4), of ad p] c(1,3) by (simp_all add: phaseOK_def preparedOK_def)
  have empty: "k \<notin> set (lookupList [] u)" for k u by (simp add: lookupList_def)
  have rm: "receiptMember ad current p input st3 sub k" if "k \<in> set (lookupList receipts sub)" for k sub
    by (rule collectReceipts_counts [OF c(2,1) assms(2) nodesShrink_refl _ that]) (simp add: empty)
  have gm: "groupMember st4 receipts u k" if "k \<in> set (lookupList groups u)" for k u
    by (rule collectGroups_members [OF c(4) nodesShrink_refl _ that]) (simp add: empty)
  consider d where "chosen ?heads ?t = Some d" "chosenAction st ?heads ?t = Some ''admit''" "manualOK st d r s"
    | "chosen ?heads ?t = None" "list_ex (automaticReceipt st) (lookupList receipts i)"
    using assms(3) by (auto simp: submissionAdmitted_def Let_def split: if_splits option.splits)
  then show ?thesis
  proof cases
    case 2
    then obtain k where k: "k \<in> set (lookupList receipts i)" "automaticReceipt st k" by (auto simp: list_ex_iff)
    then obtain n x where n: "map_of (rd_nodes st) k = Some n" "re_Receipt (gr_record n) = Some x" "rc_Automatic x"
      by (auto simp: automaticReceipt_def split: option.splits)
    obtain n3 v y a where n3: "map_of (rd_nodes st3) k = Some n3" "gr_record n3 = ad_record ad v" "receiptCounts ad current p input i v y a"
      using rm [OF k(1)] unfolding receiptMember_def by blast
    obtain m where "map_of (rd_nodes st3) k = Some m" "gr_record n = gr_record m" using nodesShrinkD [OF nodesShrink_trans [OF s3 s4] n(1)] by blast
    then have "y = x" using n n3 by (simp add: receiptCounts_def)
    then show ?thesis using n3(3) n(3) unfolding admittedBy_def by blast
  next
    case 1
    obtain n4 e where n4: "map_of (rd_nodes st4) d = Some n4" "gr_valid n4" "gr_effective n4" "re_Decision (gr_record n4) = Some e" "dc_Target e = ?t"
      "lookupList receipts i \<noteq> []"
      using gm [OF chosen_member [OF 1(1)]] by (auto simp: groupMember_def submissionTarget_def)
    obtain n perm where n: "map_of (rd_nodes st) d = Some n" "pm_Allowed perm"
      "Evaluate (gr_authority n) ((contentRequest r s)\<lparr>rq_Manual := True, rq_Moderator := re_Actor (gr_record n)\<rparr>) = Inr perm"
      using 1(3) by (auto simp: manualOK_def split: option.splits sum.splits)
    have same: "gr_record n = gr_record n4" "gr_authority n = gr_authority n4" using nodesShrinkD [OF s4 n(1)] n4(1) by auto
    obtain v where v: "v \<in> set input" "vf_id v = d" "gr_record n4 = ad_record ad v"
      "signerAuthorized ad current p d (ad_record ad v) (gr_authority n4)" "re_Actor (ad_record ad v) \<notin> set (elems (po_RevokedModerators p))"
      using authorized_signer [OF c(3) assms(2) n4(1-3)] n4(4) by blast
    have "decisionCounts ad current p input ?t v e (gr_authority n4)" using v n4 by (simp add: decisionCounts_def)
    moreover have "dc_Action e = ''admit''" using 1(1,2) n(1) same n4(4) by (simp add: chosenAction_def nodeDecision_def)
    moreover obtain k where "k \<in> set (lookupList receipts i)" using n4(6) by (cases "lookupList receipts i") auto
    then have "\<exists>v x a. receiptCounts ad current p input i v x a" using rm unfolding receiptMember_def by blast
    ultimately show ?thesis using n(2,3) same v(3) unfolding admittedBy_def by metis
  qed
qed

lemma validSubmissions_node:
  assumes "(i, r, s) \<in> set (validSubmissions st ids)"
  obtains n where "map_of (rd_nodes st) i = Some n" "gr_valid n" "r = gr_record n" "re_Submission r = Some s"
  using assms by (auto simp: validSubmissions_def List.map_filter_def split: option.splits if_splits)

lemma notBlocked: "\<not> actorBlocked st heads a \<Longrightarrow> a \<notin> set (blockedActors st heads)"
  by (auto simp: blockedActors_def)

text \<open>
  C22. The admitted facts of a view are exactly the candidates (the baseline and the admitted
  submissions) from which every fact reachable over parents and references is an authenticated
  candidate whose actor and author are not blocked: the memoised, depth bounded depth-first search
  decides this closure whatever the order of the candidates.
\<close>

theorem Reduce_admits_closure:
  assumes "Reduce current input (Some ad) = Inr view"
  shows "\<exists>p ids st receipts groups. at_Policy current = Some p \<and> prepare ad current p input = Inr (ids, st, receipts, groups) \<and>
    (\<forall>i. i \<in> set (vw_Admitted view) \<longleftrightarrow> admissible (\<lambda>j. contentLinks (fa_Content (factOf st j))) (factAllowed st (decisionHeads st groups))
      (candidateSet p st receipts (decisionHeads st groups) ids) i)"
proof -
  obtain p ids st receipts groups where v: "at_Policy current = Some p" "0 \<le> depthLimit p"
    "prepare ad current p input = Inr (ids, st, receipts, groups)" "view = makeView current p ids st receipts groups"
    using Reduce_view [OF assms] by blast
  have "factsOK ad p st" using prepare_phases [OF v(3)] unfolding preparedOK_def by blast
  then show ?thesis using v(1,3) admitted_iff [OF _ v(2)] unfolding v(4) makeView_admitted by blast
qed

text \<open>
  C21. Every admitted fact is a native fact of the source that passes its checks, neither its actor nor
  its author is blocked in the view, everything it links to is admitted, and it is either in the
  baseline of the policy or bound exactly by a submission of the input for the project.  Such a
  submission was admitted by an automatic intake receipt that its evaluated authority permits, or has a
  completed intake receipt and an \<open>admit\<close> decision that the evaluated authority permits; receipts and
  decisions count only with a signer that the established authority lists and nobody has revoked.
\<close>

theorem Reduce_admitted_safe:
  assumes "Reduce current input (Some ad) = Inr view" "shapesOK ad input" "i \<in> set (vw_Admitted view)"
  shows "\<exists>p f. at_Policy current = Some p \<and> ad_Fact ad i = Inr f \<and> checkFact i f = Inr () \<and>
    fa_Actor f \<notin> set (vw_BlockedActors view) \<and> ct_Author (fa_Content f) \<notin> set (vw_BlockedActors view) \<and>
    set (contentLinks (fa_Content f)) \<subseteq> set (vw_Admitted view) \<and>
    (i \<in> set (elems (po_Baseline p)) \<or>
     (\<exists>w \<in> set input. \<exists>s. re_Project (ad_record ad w) = po_Project p \<and> re_Submission (ad_record ad w) = Some s \<and> ct_Revision (sb_Content s) = i \<and>
       fa_Actor f = re_Actor (ad_record ad w) \<and> fa_Operation f = sb_Operation s \<and> sameContent (fa_Content f) (sb_Content s) \<and>
       admittedBy ad current p input (vf_id w) (ad_record ad w) s))"
proof -
  obtain p ids st receipts groups where v: "at_Policy current = Some p" "0 \<le> depthLimit p"
    "prepare ad current p input = Inr (ids, st, receipts, groups)" "view = makeView current p ids st receipts groups"
    using Reduce_view [OF assms(1)] by blast
  let ?heads = "decisionHeads st groups"
  let ?cands = "candidateSet p st receipts ?heads ids" and ?links = "\<lambda>j. contentLinks (fa_Content (factOf st j))"
  have ok: "preparedOK ad current p input ids st" using prepare_phases [OF v(3)] by blast
  have adm: "j \<in> set (vw_Admitted view) \<longleftrightarrow> admissible ?links (factAllowed st ?heads) ?cands j" for j
    using ok admitted_iff [OF _ v(2)] unfolding v(4) makeView_admitted preparedOK_def by blast
  have unf: "i \<in> set ?cands" "factAllowed st ?heads i" "\<forall>d \<in> set (?links i). d \<in> set (vw_Admitted view)"
    using assms(3) admissible_unfold [of ?links "factAllowed st ?heads" ?cands i] unfolding adm by blast+
  obtain f where f: "map_of (rd_facts st) i = Some f" "\<not> actorBlocked st ?heads (fa_Actor f)" "\<not> actorBlocked st ?heads (ct_Author (fa_Content f))"
    using unf(2) by (auto simp: factAllowed_def split: option.splits)
  have src: "ad_Fact ad i = Inr f" "checkFact i f = Inr ()" using ok f(1) unfolding preparedOK_def factsOK_def by blast+
  have deps: "set (contentLinks (fa_Content f)) \<subseteq> set (vw_Admitted view)" using unf(3) f(1) by (auto simp: factOf_def)
  have blocked: "fa_Actor f \<notin> set (vw_BlockedActors view)" "ct_Author (fa_Content f) \<notin> set (vw_BlockedActors view)"
    using f(2,3) notBlocked unfolding v(4) makeView_admitted by blast+
  have origin: "i \<in> set (elems (po_Baseline p)) \<or>
     (\<exists>w \<in> set input. \<exists>s. re_Project (ad_record ad w) = po_Project p \<and> re_Submission (ad_record ad w) = Some s \<and> ct_Revision (sb_Content s) = i \<and>
       fa_Actor f = re_Actor (ad_record ad w) \<and> fa_Operation f = sb_Operation s \<and> sameContent (fa_Content f) (sb_Content s) \<and>
       admittedBy ad current p input (vf_id w) (ad_record ad w) s)"
  proof (cases "i \<in> set (elems (po_Baseline p))")
    case False
    then obtain k r s where k: "(k, r, s) \<in> set (validSubmissions st ids)" "submissionAdmitted st receipts ?heads k r s" "ct_Revision (sb_Content s) = i"
      using unf(1) by (auto simp: candidateSet_def)
    obtain n where n: "map_of (rd_nodes st) k = Some n" "gr_valid n" "r = gr_record n" "re_Submission r = Some s"
      using validSubmissions_node [OF k(1)] by blast
    obtain w where w: "w \<in> set input" "vf_id w = k" "gr_record n = ad_record ad w" "re_Project (ad_record ad w) = po_Project p"
      using ok n(1) unfolding preparedOK_def nodesFrom_def by blast
    have "authorizedNode ad current p st k" using ok by (simp add: preparedOK_def)
    then have "bindsFact st r s" using n by (simp add: authorizedNode_def)
    then have "fa_Actor f = re_Actor r \<and> fa_Operation f = sb_Operation s \<and> sameContent (fa_Content f) (sb_Content s)"
      using f(1) k(3) by (auto simp: bindsFact_def)
    then show ?thesis using w n k(3) submissionAdmitted_by [OF v(3) assms(2) k(2)] by auto
  qed simp
  show ?thesis using v(1) src blocked deps origin by blast
qed


section \<open>Availability\<close>

lemma recordsKept_refl [simp]: "recordsKept st st"
  by (simp add: recordsKept_def)

lemma recordsKept_dom: "recordsKept st st' \<Longrightarrow> map_of (rd_nodes st') i = None \<longleftrightarrow> map_of (rd_nodes st) i = None"
  unfolding recordsKept_def by (metis option.map_disc_iff)

lemma recordsKept_fold: "(\<And>x st. recordsKept st (f x st)) \<Longrightarrow> recordsKept st (fold f xs st)"
  by (induction xs arbitrary: st) (auto intro: recordsKept_trans)

lemma recordsKept_conflictIntents: "recordsKept st (conflictIntents intents st)"
proof -
  have "recordsKept st (if length grp > 1 then fold (\<lambda>i. invalidate i ''conflicting actor/project intent'') (sort grp)
      (st\<lparr>rd_Conflicts := cs\<rparr>) else st)" for grp cs and st :: reduction
  proof -
    let ?st = "st\<lparr>rd_Conflicts := cs\<rparr>"
    have "recordsKept st ?st" by (simp add: recordsKept_def)
    from recordsKept_trans [OF this recordsKept_fold [of "\<lambda>i. invalidate i ''conflicting actor/project intent''" ?st "sort grp"]]
    show ?thesis by simp
  qed
  then show ?thesis unfolding conflictIntents_def by (intro recordsKept_fold) (auto split: prod.splits)
qed

lemma readInput_ok:
  assumes "\<forall>v \<in> set vs. vf_id v \<noteq> [] \<and> vf_payload v \<noteq> []" "\<forall>i \<in> set ids. map_of (rd_nodes st) i \<noteq> None"
  shows "\<exists>st' ids' intents'. readInput ad project vs seen (st, ids, intents) = Inr (st', ids', intents') \<and> (\<forall>i \<in> set ids'. map_of (rd_nodes st') i \<noteq> None)"
  using assms
proof (induction vs arbitrary: seen st ids intents)
  case (Cons v vs)
  have ok: "vf_id v \<noteq> []" "vf_payload v \<noteq> []" "\<forall>v \<in> set vs. vf_id v \<noteq> [] \<and> vf_payload v \<noteq> []" using Cons.prems(1) by simp_all
  let ?n = "\<lparr>gr_id = vf_id v, gr_record = ad_record ad v, gr_authority = emptyAuthority, gr_effective = True, gr_valid = True\<rparr>"
  have "\<forall>i \<in> set (ids @ [vf_id v]). map_of (rd_nodes (setNode (vf_id v) ?n st)) i \<noteq> None"
    using Cons.prems(2) by (auto simp: setNode_def update_conv')
  note step = Cons.IH [OF ok(3) this]
  have inv: "\<forall>i \<in> set ids. map_of (rd_nodes (st\<lparr>rd_Invalid := x\<rparr>)) i \<noteq> None" for x using Cons.prems(2) by simp
  show ?case using ok(1,2) step Cons.IH [OF ok(3) Cons.prems(2)] Cons.IH [OF ok(3) inv] by (simp add: Let_def)
qed simp

lemma authorizeRecord_ok:
  assumes "nodesFrom ad project input ids st" "shapesOK ad input" "map_of (rd_nodes st) i \<noteq> None"
  shows "\<exists>st'. authorizeRecord ad current p i st = Inr st'"
proof -
  obtain n where n: "map_of (rd_nodes st) i = Some n" using assms(3) by blast
  obtain v where v: "v \<in> set input" "gr_record n = ad_record ad v" using assms(1) n unfolding nodesFrom_def by blast
  have "checkShape (gr_record n) = Inr ()" using assms(2) v by (simp add: shapesOK_def)
  then have "re_Submission (gr_record n) \<noteq> None \<or> re_Decision (gr_record n) \<noteq> None \<or> re_Receipt (gr_record n) \<noteq> None"
    by (auto simp: checkShape_def split: if_splits)
  then show ?thesis using n
    by (cases "re_Submission (gr_record n)"; cases "re_Decision (gr_record n)"; cases "re_Receipt (gr_record n)") (auto simp: authorizeRecord_def Let_def)
qed

lemma authorizeAll_ok:
  assumes "nodesFrom ad project input ids st" "shapesOK ad input" "\<forall>i \<in> set is. map_of (rd_nodes st) i \<noteq> None" "factsOK ad p st"
  shows "\<exists>st'. authorizeAll ad current p is st = Inr st'"
  using assms
proof (induction "is" arbitrary: st)
  case (Cons i xs)
  obtain st1 where st1: "authorizeRecord ad current p i st = Inr st1" using authorizeRecord_ok [OF Cons.prems(1,2), of i current p] Cons.prems(3) by (auto simp del: not_None_eq)
  note s = authorizeRecord_step [OF st1 Cons.prems(4), unfolded authorizedStep_def]
  have k: "recordsKept st st1" and f: "factsOK ad p st1" using s by blast+
  have "\<forall>i \<in> set xs. map_of (rd_nodes st1) i \<noteq> None" using Cons.prems(3) recordsKept_dom [OF k] by simp
  then show ?case using Cons.IH [OF nodesFrom_records [OF Cons.prems(1) k] Cons.prems(2) _ f] st1 by auto
qed simp

text \<open>
  C25. No record can keep the others from being reduced: under a valid authority without a historical
  baseline, every authenticated input within the budget has a view, whatever its records say and
  whatever the native and authority sources answer.
\<close>

theorem Reduce_always_answers:
  assumes "validateAuthority current = Inr ()" "at_Policy current = Some p" "elems (po_Baseline p) = []"
    and "length input \<le> MaxGraphRecords" "int (length input) \<le> sint (us_Events (lm_Retained (po_Limits p)))"
    and "\<forall>v \<in> set input. vf_id v \<noteq> [] \<and> vf_payload v \<noteq> []" "shapesOK ad input"
  shows "\<exists>view. Reduce current input (Some ad) = Inr view"
proof -
  obtain st0 ids0 intents where r: "readInput ad (po_Project p) input [] (emptyReduction, [], []) = Inr (st0, ids0, intents)"
    and d: "\<forall>i \<in> set ids0. map_of (rd_nodes st0) i \<noteq> None" 
    using readInput_ok [OF assms(6), of "[]" emptyReduction ad "po_Project p" "[]" "[]"] by (auto simp del: not_None_eq)
  have "nodesFrom ad (po_Project p) input [] emptyReduction" by (simp add: nodesFrom_def emptyReduction_def)
  from readInput_nodes [OF r this] have n0: "nodesFrom ad (po_Project p) input ids0 st0" and f0: "factsOK ad p st0"
    by (simp_all add: emptyReduction_def factsOK_empty)
  let ?st = "conflictIntents intents st0"
  note k = recordsKept_conflictIntents [of st0 intents]
  have f: "factsOK ad p ?st" using phaseOK_conflictIntents [of ad p st0 intents] f0 by (simp add: phaseOK_def)
  have "\<forall>i \<in> set (sort ids0). map_of (rd_nodes ?st) i \<noteq> None" using d recordsKept_dom [OF k] by simp
  then obtain st2 where a: "authorizeAll ad current p (sort ids0) ?st = Inr st2"
    using authorizeAll_ok [OF nodesFrom_records [OF n0 k] assms(7) _ f] by blast
  have "\<exists>ids st receipts groups. prepare ad current p input = Inr (ids, st, receipts, groups)"
    unfolding prepare_def r rbind_simps prod.case Let_def assms(3)
    by (simp add: checkBaseline_def assms(3) a split: prod.split)
  then show ?thesis using assms(1,2,4,5) by (auto simp: Reduce_def)
qed

end
