(* ===== verification/HN_Visibility.thy ===== *)
theory HN_Visibility
  imports HN_View
begin

text \<open>
  The visible facts of a view (\<open>src/internal/contribution/model.go\<close>): the queue that spreads hiding over references and
  root gates computes the greatest set of admitted facts that depends on nothing hidden; and the heads of
  the view.
\<close>

section \<open>Visibility\<close>

text \<open>One step of the propagation, and what survives all of them.\<close>

lemma markHidden_spec:
  assumes "markHidden ds vis = (vis', new)"
  shows "map_of vis' x = (if x \<in> set ds \<and> map_of vis x = Some True then Some False else map_of vis x)"
    "set new = {d \<in> set ds. map_of vis d = Some True}"
proof -
  have "(\<forall>x. map_of vis' x = (if x \<in> set ds \<and> map_of vis x = Some True then Some False else map_of vis x)) \<and>
    set new = {d \<in> set ds. map_of vis d = Some True}"
    using assms
  proof (induction ds arbitrary: vis new)
    case (Cons d ds)
    show ?case
    proof (cases "map_of vis d = Some True")
      case True
      obtain new1 where new1: "markHidden ds (AList.update d False vis) = (vis', new1)" "new = d # new1"
        using Cons.prems True by (auto split: prod.splits)
      show ?thesis using Cons.IH [OF new1(1)] True new1(2) by (auto simp: update_conv')
    next
      case False
      then show ?thesis using Cons.IH Cons.prems by auto
    qed
  qed simp
  then show "map_of vis' x = (if x \<in> set ds \<and> map_of vis x = Some True then Some False else map_of vis x)"
    "set new = {d \<in> set ds. map_of vis d = Some True}" by blast+
qed

lemma propagate_closed:
  assumes "\<And>x. map_of vis x = Some False \<Longrightarrow> x \<in> set queue \<or> (\<forall>d \<in> set (lookupList deps x). map_of vis d \<noteq> Some True)"
  shows "(map_of (propagate deps queue vis) x = None \<longleftrightarrow> map_of vis x = None) \<and>
    (map_of (propagate deps queue vis) x = Some True \<longrightarrow> map_of vis x = Some True) \<and>
    (map_of (propagate deps queue vis) x = Some False \<longrightarrow> (\<forall>d \<in> set (lookupList deps x). map_of (propagate deps queue vis) d \<noteq> Some True))"
  using assms
proof (induction deps queue vis rule: propagate.induct)
  case (2 deps q queue vis)
  obtain vis1 new where m: "markHidden (lookupList deps q) vis = (vis1, new)" by (rule prod.exhaust)
  note s = markHidden_spec [OF m]
  have "x \<in> set (queue @ new) \<or> (\<forall>d \<in> set (lookupList deps x). map_of vis1 d \<noteq> Some True)" if "map_of vis1 x = Some False" for x
  proof (cases "map_of vis x = Some False")
    case True
    then show ?thesis using "2.prems" [OF True] s by auto
  next
    case False
    then show ?thesis using that s by (auto split: if_splits)
  qed
  from "2.IH" [OF m [symmetric] this] show ?case using s(1) [of x] by (auto simp: m split: if_splits)
qed auto

lemma propagate_keeps:
  assumes "\<forall>x \<in> W. map_of vis x = Some True" "\<forall>x \<in> set queue. x \<notin> W" "\<And>x d. d \<in> W \<Longrightarrow> d \<in> set (lookupList deps x) \<Longrightarrow> x \<in> W"
  shows "\<forall>x \<in> W. map_of (propagate deps queue vis) x = Some True"
  using assms
proof (induction deps queue vis rule: propagate.induct)
  case (2 deps q queue vis)
  obtain vis1 new where m: "markHidden (lookupList deps q) vis = (vis1, new)" by (rule prod.exhaust)
  note s = markHidden_spec [OF m]
  have nd: "d \<notin> W" if "d \<in> set (lookupList deps q)" for d using "2.prems"(2,3) that by auto
  have a: "\<forall>x \<in> W. map_of vis1 x = Some True" using nd s(1) "2.prems"(1) by auto
  have b: "\<forall>x \<in> set (queue @ new). x \<notin> W" using nd s(2) "2.prems"(2) by auto
  show ?case using "2.IH" [OF m [symmetric] a b "2.prems"(3)] by (simp add: m)
qed simp

text \<open>The graph of dependents.\<close>

lemma lookupList_fold:
  "set (lookupList (fold (\<lambda>h m. appendTo h g m) hs m) x) = set (lookupList m x) \<union> (if x \<in> set hs then {g} else {})"
  by (induction hs arbitrary: m) (auto simp: lookupList_appendTo)

lemma addGates_spec:
  assumes "addGates vheads (vis, deps) = (vis', deps')" "\<forall>(r, hs) \<in> set vheads. hs \<noteq> []"
  shows "map_of vis' x = (if x \<in> gate ` fst ` set vheads then Some True else map_of vis x)"
    "set (lookupList deps' x) = set (lookupList deps x) \<union> {gate r |r hs. (r, hs) \<in> set vheads \<and> x \<in> set hs}"
proof -
  have "map_of vis' x = (if x \<in> gate ` fst ` set vheads then Some True else map_of vis x) \<and>
    set (lookupList deps' x) = set (lookupList deps x) \<union> {gate r |r hs. (r, hs) \<in> set vheads \<and> x \<in> set hs}"
    using assms
  proof (induction vheads arbitrary: vis deps)
    case (Cons e es)
    obtain r hs where e: "e = (r, hs)" by fastforce
    have "addGates es (AList.update (gate r) True vis, fold (\<lambda>h m. appendTo h (gate r) m) hs deps) = (vis', deps')"
      using Cons.prems by (simp add: addGates_def e)
    from Cons.IH [OF this] show ?case using Cons.prems(2) by (auto simp: e update_conv' lookupList_fold)
  qed (auto simp: addGates_def)
  then show "map_of vis' x = (if x \<in> gate ` fst ` set vheads then Some True else map_of vis x)"
    "set (lookupList deps' x) = set (lookupList deps x) \<union> {gate r |r hs. (r, hs) \<in> set vheads \<and> x \<in> set hs}" by blast+
qed

definition rootRefs :: "(string \<times> Reference) list \<Rightarrow> (string \<times> string) set" where
  "rootRefs ps = {(i, gate (rf_ID r)) |i r. (i, r) \<in> set ps \<and> rf_Kind r = ''root''}"

definition revisionRefs :: "(string \<times> Reference) list \<Rightarrow> (string \<times> string) set" where
  "revisionRefs ps = {(i, rf_ID r) |i r. (i, r) \<in> set ps \<and> rf_Kind r = ''revision''}"

lemma refs_Nil [simp]: "rootRefs [] = {}" "revisionRefs [] = {}"
  by (simp_all add: rootRefs_def revisionRefs_def)

lemma refs_Cons:
  "rootRefs ((i, r) # ps) = (if rf_Kind r = ''root'' then {(i, gate (rf_ID r))} else {}) \<union> rootRefs ps"
  "revisionRefs ((i, r) # ps) = (if rf_Kind r = ''revision'' then {(i, rf_ID r)} else {}) \<union> revisionRefs ps"
  by (auto simp: rootRefs_def revisionRefs_def)

lemma addReference_fold:
  assumes "fold (\<lambda>(i, r). addReference i r) ps (vis, deps, queue) = (vis', deps', queue')"
  shows "map_of vis' x = (if x \<in> Range (rootRefs ps) \<and> map_of vis x = None then Some False else map_of vis x)"
    "set (lookupList deps' x) = set (lookupList deps x) \<union> {i. (i, x) \<in> revisionRefs ps \<union> rootRefs ps}"
    "set queue' = set queue \<union> {g \<in> Range (rootRefs ps). map_of vis g = None}"
proof -
  have "(\<forall>x. map_of vis' x = (if x \<in> Range (rootRefs ps) \<and> map_of vis x = None then Some False else map_of vis x)) \<and>
    (\<forall>x. set (lookupList deps' x) = set (lookupList deps x) \<union> {i. (i, x) \<in> revisionRefs ps \<union> rootRefs ps}) \<and>
    set queue' = set queue \<union> {g \<in> Range (rootRefs ps). map_of vis g = None}"
    using assms
  proof (induction ps arbitrary: vis deps queue)
    case (Cons e ps)
    obtain i r where e: "e = (i, r)" by fastforce
    consider (rev) "rf_Kind r = ''revision''" | (old) "rf_Kind r = ''root''" "map_of vis (gate (rf_ID r)) \<noteq> None"
      | (new) "rf_Kind r = ''root''" "map_of vis (gate (rf_ID r)) = None" | (other) "rf_Kind r \<noteq> ''revision''" "rf_Kind r \<noteq> ''root''" by blast
    then show ?case
    proof cases
      case rev
      then have "fold (\<lambda>(i, r). addReference i r) ps (vis, appendTo (rf_ID r) i deps, queue) = (vis', deps', queue')"
        using Cons.prems by (simp add: e addReference_def)
      from Cons.IH [OF this] rev show ?thesis by (auto simp: e refs_Cons lookupList_appendTo)
    next
      case old
      then have "fold (\<lambda>(i, r). addReference i r) ps (vis, appendTo (gate (rf_ID r)) i deps, queue) = (vis', deps', queue')"
        using Cons.prems by (auto simp: e addReference_def)
      from Cons.IH [OF this] old show ?thesis by (auto simp: e refs_Cons lookupList_appendTo)
    next
      case new
      then have "fold (\<lambda>(i, r). addReference i r) ps (AList.update (gate (rf_ID r)) False vis, appendTo (gate (rf_ID r)) i deps, queue @ [gate (rf_ID r)]) = (vis', deps', queue')"
        using Cons.prems by (simp add: e addReference_def)
      from Cons.IH [OF this] new show ?thesis by (auto simp: e refs_Cons lookupList_appendTo update_conv')
    next
      case other
      then have "fold (\<lambda>(i, r). addReference i r) ps (vis, deps, queue) = (vis', deps', queue')"
        using Cons.prems by (simp add: e addReference_def)
      from Cons.IH [OF this] other show ?thesis by (auto simp: e refs_Cons)
    qed
  qed auto
  then show "map_of vis' x = (if x \<in> Range (rootRefs ps) \<and> map_of vis x = None then Some False else map_of vis x)"
    "set (lookupList deps' x) = set (lookupList deps x) \<union> {i. (i, x) \<in> revisionRefs ps \<union> rootRefs ps}"
    "set queue' = set queue \<union> {g \<in> Range (rootRefs ps). map_of vis g = None}" by blast+
qed

definition referencePairs :: "reduction \<Rightarrow> string list \<Rightarrow> (string \<times> Reference) list" where
  "referencePairs st as = concat (map (\<lambda>i. map (Pair i) (referencesOf st i)) as)"

lemma addReferences_pairs: "addReferences st as acc = fold (\<lambda>(i, r). addReference i r) (referencePairs st as) acc"
proof -
  have "fold (\<lambda>(i, r). addReference i r) (map (Pair i) rs) acc = fold (addReference i) rs acc" for i rs acc
    by (induction rs arbitrary: acc) simp_all
  then show ?thesis unfolding addReferences_def referencePairs_def by (induction as arbitrary: acc) simp_all
qed


lemma gate_inj [simp]: "gate r = gate s \<longleftrightarrow> r = s"
  by (simp add: gate_def)

lemma viewHeads_iff: "(r, hs) \<in> set (viewHeads st as) \<longleftrightarrow> hs = stateHeads st as r \<and> hs \<noteq> []"
proof -
  have "set (stateHeads st as r) \<noteq> {} \<Longrightarrow> r \<in> rootOf st ` set as" by (auto simp: stateHeads_def)
  then have "r \<in> rootOf st ` set as" if "stateHeads st as r \<noteq> []" using that by simp
  then show ?thesis by (auto simp: viewHeads_def)
qed

lemma viewHeads_lookup: "lookupList (viewHeads st as) r = stateHeads st as r"
proof -
  have "map_of (viewHeads st as) r = (if stateHeads st as r = [] then None else Some (stateHeads st as r))"
  proof (cases "stateHeads st as r = []")
    case True
    then show ?thesis using viewHeads_iff [of r _ st as] by (auto simp: map_of_eq_None_iff)
  next
    case False
    have "distinct (map fst (viewHeads st as))"
      unfolding viewHeads_def by (rule distinct_map_filter) (simp add: comp_def)
    then show ?thesis using False viewHeads_iff by simp
  qed
  then show ?thesis by (simp add: lookupList_def)
qed

lemma stateHeads_subset: "set (stateHeads st as r) \<subseteq> set as"
  by (auto simp: stateHeads_def)

text \<open>
  A set of facts that hides nothing it depends on: nothing in it is hidden or in dispute, every revision it
  refers to is in it, and so is every head of a resource it refers to, of which there is one.
\<close>

definition stableSet :: "reduction \<Rightarrow> (Target, string list) gomap \<Rightarrow> (string \<Rightarrow> string list) \<Rightarrow> string set \<Rightarrow> bool" where
  "stableSet st heads vheads V \<longleftrightarrow> (\<forall>i \<in> V. shown st heads i \<and> (\<forall>r \<in> set (referencesOf st i).
     (rf_Kind r = ''revision'' \<longrightarrow> rf_ID r \<in> V) \<and> (rf_Kind r = ''root'' \<longrightarrow> vheads (rf_ID r) \<noteq> [] \<and> set (vheads (rf_ID r)) \<subseteq> V)))"

text \<open>What the propagation starts from.\<close>

lemma visibility_start:
  assumes "\<forall>i \<in> set as. \<forall>r. i \<noteq> gate r"
  obtains deps queue vis where "visibility st heads as = propagate deps queue vis"
    "\<And>i. i \<in> set as \<Longrightarrow> map_of vis i = Some (shown st heads i)"
    "\<And>r. map_of vis (gate r) = (if stateHeads st as r \<noteq> [] then Some True else if gate r \<in> Range (rootRefs (referencePairs st as)) then Some False else None)"
    "\<And>x. map_of vis x \<noteq> None \<Longrightarrow> x \<in> set as \<or> (\<exists>r. x = gate r)"
    "\<And>x. set (lookupList deps x) = {gate r |r. x \<in> set (stateHeads st as r)} \<union> {i. (i, x) \<in> revisionRefs (referencePairs st as) \<union> rootRefs (referencePairs st as)}"
    "set queue = {i \<in> set as. \<not> shown st heads i} \<union> {gate r |r. stateHeads st as r = [] \<and> gate r \<in> Range (rootRefs (referencePairs st as))}"
proof -
  let ?init = "map (\<lambda>i. (i, shown st heads i)) as"
  obtain vis1 deps1 where g: "addGates (viewHeads st as) (?init, []) = (vis1, deps1)" by (rule prod.exhaust)
  obtain vis2 deps2 queue where r: "addReferences st as (vis1, deps1, filter (\<lambda>i. \<not> shown st heads i) as) = (vis2, deps2, queue)" by (rule prod_cases3)
  have ne: "\<forall>(r, hs) \<in> set (viewHeads st as). hs \<noteq> []" by (auto simp: viewHeads_iff)
  note a = addGates_spec [OF g ne] and b = addReference_fold [OF r [unfolded addReferences_pairs]]
  have init: "map_of ?init x = (if x \<in> set as then Some (shown st heads x) else None)" for x
    by (induction as) auto
  have dom: "gate x \<in> gate ` fst ` set (viewHeads st as) \<longleftrightarrow> stateHeads st as x \<noteq> []" for x
  proof -
    have "gate x \<in> gate ` fst ` set (viewHeads st as) \<longleftrightarrow> (\<exists>hs. (x, hs) \<in> set (viewHeads st as))" by (auto simp: image_iff) force
    then show ?thesis by (simp add: viewHeads_iff)
  qed
  have notAs: "gate x \<notin> set as" for x using assms by blast
  have vis1: "map_of vis1 (gate x) = (if stateHeads st as x \<noteq> [] then Some True else None)" for x
    using a(1) [of "gate x"] notAs by (simp add: dom init)
  have as1: "map_of vis1 i = Some (shown st heads i)" if "i \<in> set as" for i
  proof -
    have "i \<notin> gate ` fst ` set (viewHeads st as)" using assms that by blast
    then show ?thesis using a(1) [of i] that by (simp add: init)
  qed
  show ?thesis
  proof (rule that)
    show "visibility st heads as = propagate deps2 queue vis2" by (simp add: visibility_def g r)
    show "map_of vis2 i = Some (shown st heads i)" if "i \<in> set as" for i using b(1) [of i] as1 [OF that] by simp
    show "map_of vis2 (gate x) = (if stateHeads st as x \<noteq> [] then Some True else if gate x \<in> Range (rootRefs (referencePairs st as)) then Some False else None)" for x
      using b(1) [of "gate x"] vis1 [of x] by auto
    show "x \<in> set as \<or> (\<exists>r. x = gate r)" if "map_of vis2 x \<noteq> None" for x
      using that b(1) [of x] a(1) [of x] by (auto simp: init rootRefs_def split: if_splits)
    show "set (lookupList deps2 x) = {gate r |r. x \<in> set (stateHeads st as r)} \<union> {i. (i, x) \<in> revisionRefs (referencePairs st as) \<union> rootRefs (referencePairs st as)}" for x
    proof -
      have "{gate r |r hs. (r, hs) \<in> set (viewHeads st as) \<and> x \<in> set hs} = {gate r |r. x \<in> set (stateHeads st as r)}"
        by (auto simp: viewHeads_iff)
      then show ?thesis using a(2) [of x] b(2) [of x] by (simp add: lookupList_def [of "[]"])
    qed
    show "set queue = {i \<in> set as. \<not> shown st heads i} \<union> {gate r |r. stateHeads st as r = [] \<and> gate r \<in> Range (rootRefs (referencePairs st as))}"
    proof -
      have "{g \<in> Range (rootRefs (referencePairs st as)). map_of vis1 g = None} = {gate r |r. stateHeads st as r = [] \<and> gate r \<in> Range (rootRefs (referencePairs st as))}"
      proof (rule Collect_cong)
        fix g
        have "g \<in> Range (rootRefs (referencePairs st as)) \<Longrightarrow> \<exists>r. g = gate r" by (auto simp: rootRefs_def)
        then show "(g \<in> Range (rootRefs (referencePairs st as)) \<and> map_of vis1 g = None) =
            (\<exists>r. g = gate r \<and> stateHeads st as r = [] \<and> gate r \<in> Range (rootRefs (referencePairs st as)))"
          using vis1 by (metis option.distinct(1))
      qed
      then show ?thesis using b(3) by simp
    qed
  qed
qed

lemma refs_member:
  "(i, x) \<in> revisionRefs (referencePairs st as) \<longleftrightarrow> i \<in> set as \<and> (\<exists>r \<in> set (referencesOf st i). rf_Kind r = ''revision'' \<and> x = rf_ID r)"
  "(i, x) \<in> rootRefs (referencePairs st as) \<longleftrightarrow> i \<in> set as \<and> (\<exists>r \<in> set (referencesOf st i). rf_Kind r = ''root'' \<and> x = gate (rf_ID r))"
  by (auto simp: revisionRefs_def rootRefs_def referencePairs_def)

lemma visibility_stable:
  assumes "\<forall>i \<in> set as. \<forall>r. i \<noteq> gate r" "\<forall>i \<in> set as. \<forall>r \<in> set (referencesOf st i). rf_ID r \<in> set as"
  shows "stableSet st heads (stateHeads st as) {i \<in> set as. map_of (visibility st heads as) i = Some True}"
proof -
  obtain deps queue vis where v: "visibility st heads as = propagate deps queue vis"
    and vi: "\<And>i. i \<in> set as \<Longrightarrow> map_of vis i = Some (shown st heads i)"
    and vg: "\<And>r. map_of vis (gate r) = (if stateHeads st as r \<noteq> [] then Some True else if gate r \<in> Range (rootRefs (referencePairs st as)) then Some False else None)"
    and vd: "\<And>x. map_of vis x \<noteq> None \<Longrightarrow> x \<in> set as \<or> (\<exists>r. x = gate r)"
    and ds: "\<And>x. set (lookupList deps x) = {gate r |r. x \<in> set (stateHeads st as r)} \<union> {i. (i, x) \<in> revisionRefs (referencePairs st as) \<union> rootRefs (referencePairs st as)}"
    and qs: "set queue = {i \<in> set as. \<not> shown st heads i} \<union> {gate r |r. stateHeads st as r = [] \<and> gate r \<in> Range (rootRefs (referencePairs st as))}"
    by (rule visibility_start [OF assms(1), of st heads]) (rule that)
  let ?vis = "map_of (propagate deps queue vis)"
  have start: "x \<in> set queue \<or> (\<forall>d \<in> set (lookupList deps x). map_of vis d \<noteq> Some True)" if "map_of vis x = Some False" for x
    using vd [of x] vi [of x] vg that unfolding qs by (auto split: if_splits)
  note p = propagate_closed [OF start]
  have true: "?vis x = Some True" if "?vis d = Some True" "d \<in> set (lookupList deps x)" "map_of vis x \<noteq> None" for x d
  proof -
    have "?vis x \<noteq> None" "?vis x \<noteq> Some False" using p [of x] that by blast+
    then show ?thesis by (cases "?vis x") auto
  qed
  have was: "map_of vis x = Some True" if "?vis x = Some True" for x using p [of x] that by blast
  show ?thesis unfolding stableSet_def v
  proof (intro ballI conjI impI)
    fix i assume i: "i \<in> {i \<in> set as. ?vis i = Some True}"
    then show "shown st heads i" using was [of i] vi [of i] by auto
    fix r assume r: "r \<in> set (referencesOf st i)"
    { assume "rf_Kind r = ''revision''"
      then have "i \<in> set (lookupList deps (rf_ID r))" using i r by (auto simp: ds refs_member)
      moreover have "rf_ID r \<in> set as" using assms(2) i r by blast
      ultimately show "rf_ID r \<in> {i \<in> set as. ?vis i = Some True}" using true i vi by auto }
    assume "rf_Kind r = ''root''"
    then have d: "i \<in> set (lookupList deps (gate (rf_ID r)))" and g: "gate (rf_ID r) \<in> Range (rootRefs (referencePairs st as))"
      using i r by (auto simp: ds refs_member intro!: RangeI [of i])
    have "map_of vis (gate (rf_ID r)) \<noteq> None" using g vg [of "rf_ID r"] by (simp del: not_None_eq)
    then have "?vis (gate (rf_ID r)) = Some True" using true [OF _ d] i by blast
    moreover from was [OF this] show "stateHeads st as (rf_ID r) \<noteq> []" using vg by (auto split: if_splits)
    ultimately show "set (stateHeads st as (rf_ID r)) \<subseteq> {i \<in> set as. ?vis i = Some True}"
      using true [of "gate (rf_ID r)"] vi stateHeads_subset [of st as "rf_ID r"] by (fastforce simp: ds)
  qed
qed

lemma visibility_greatest:
  assumes "\<forall>i \<in> set as. \<forall>r. i \<noteq> gate r" "W \<subseteq> set as" "stableSet st heads (stateHeads st as) W"
  shows "\<forall>i \<in> W. map_of (visibility st heads as) i = Some True"
proof -
  obtain deps queue vis where v: "visibility st heads as = propagate deps queue vis"
    and vi: "\<And>i. i \<in> set as \<Longrightarrow> map_of vis i = Some (shown st heads i)"
    and vg: "\<And>r. map_of vis (gate r) = (if stateHeads st as r \<noteq> [] then Some True else if gate r \<in> Range (rootRefs (referencePairs st as)) then Some False else None)"
    and vd: "\<And>x. map_of vis x \<noteq> None \<Longrightarrow> x \<in> set as \<or> (\<exists>r. x = gate r)"
    and ds: "\<And>x. set (lookupList deps x) = {gate r |r. x \<in> set (stateHeads st as r)} \<union> {i. (i, x) \<in> revisionRefs (referencePairs st as) \<union> rootRefs (referencePairs st as)}"
    and qs: "set queue = {i \<in> set as. \<not> shown st heads i} \<union> {gate r |r. stateHeads st as r = [] \<and> gate r \<in> Range (rootRefs (referencePairs st as))}"
    by (rule visibility_start [OF assms(1), of st heads]) (rule that)
  let ?W = "W \<union> {gate r |r. stateHeads st as r \<noteq> [] \<and> set (stateHeads st as r) \<subseteq> W}"
  have notW: "gate r \<notin> W" for r using assms(1,2) by blast
  have "\<forall>x \<in> ?W. map_of (propagate deps queue vis) x = Some True"
  proof (rule propagate_keeps)
    show "\<forall>x \<in> ?W. map_of vis x = Some True" using vi vg assms(2,3) unfolding stableSet_def by auto
    show "\<forall>x \<in> set queue. x \<notin> ?W" unfolding qs using assms(1,3) notW unfolding stableSet_def by auto
    fix x d assume d: "d \<in> ?W" "d \<in> set (lookupList deps x)"
    consider r where "d = gate r" "x \<in> set (stateHeads st as r)" | "(d, x) \<in> revisionRefs (referencePairs st as)" | "(d, x) \<in> rootRefs (referencePairs st as)"
      using d(2) unfolding ds by blast
    then show "x \<in> ?W"
    proof cases
      case 1
      then show ?thesis using d(1) notW by auto
    next
      case 2
      then have "d \<in> W" using d(1) assms(1) by (auto simp: refs_member)
      then show ?thesis using 2 assms(3) unfolding stableSet_def refs_member by blast
    next
      case 3
      then have "d \<in> W" using d(1) assms(1) by (auto simp: refs_member)
      then show ?thesis using 3 assms(3) unfolding stableSet_def refs_member by blast
    qed
  qed
  then show ?thesis unfolding v by blast
qed

section \<open>The view\<close>

text \<open>What the view's facts are, in terms of the state they are computed from.\<close>

lemma view_facts:
  assumes "prepare ad current p input = Inr (ids, st, receipts, groups)" "0 \<le> depthLimit p" "view = makeView current p ids st receipts groups"
  obtains as where "set as = set (vw_Admitted view)" "vw_Heads view = viewHeads st as"
    "set (vw_Visible view) = {i \<in> set as. map_of (visibility st (decisionHeads st groups) as) i = Some True}"
    "\<And>i. i \<in> set as \<Longrightarrow> \<exists>f. map_of (rd_facts st) i = Some f \<and> ad_Fact ad i = Inr f \<and> checkFact i f = Inr () \<and> set (contentLinks (fa_Content f)) \<subseteq> set as"
    "factsOK ad p st"
proof -
  let ?heads = "decisionHeads st groups"
  let ?cands = "candidateSet p st receipts ?heads ids"
  let ?as = "filter (\<lambda>i. i \<in> set (vw_Admitted view)) ?cands"
  have ok: "factsOK ad p st" using prepare_phases [OF assms(1)] unfolding preparedOK_def by blast
  have adm: "j \<in> set (vw_Admitted view) \<longleftrightarrow> admissible (\<lambda>j. contentLinks (fa_Content (factOf st j))) (factAllowed st ?heads) ?cands j" for j
    using admitted_iff [OF ok assms(2)] unfolding assms(3) makeView_admitted by blast
  have unf: "i \<in> set ?cands" "factAllowed st ?heads i" "\<forall>d \<in> set (contentLinks (fa_Content (factOf st i))). d \<in> set (vw_Admitted view)"
    if "i \<in> set (vw_Admitted view)" for i
    using that admissible_unfold [of "\<lambda>j. contentLinks (fa_Content (factOf st j))" "factAllowed st ?heads" ?cands i] unfolding adm by blast+
  have as: "set ?as = set (vw_Admitted view)" using unf(1) by auto
  have "\<exists>f. map_of (rd_facts st) i = Some f \<and> ad_Fact ad i = Inr f \<and> checkFact i f = Inr () \<and> set (contentLinks (fa_Content f)) \<subseteq> set ?as"
    if "i \<in> set ?as" for i
  proof -
    have i: "i \<in> set (vw_Admitted view)" using that as by simp
    obtain f where f: "map_of (rd_facts st) i = Some f" using unf(2) [OF i] by (auto simp: factAllowed_def split: option.splits)
    then have "ad_Fact ad i = Inr f" "checkFact i f = Inr ()" using ok unfolding factsOK_def by blast+
    then show ?thesis using unf(3) [OF i] f unfolding as by (auto simp: factOf_def)
  qed
  moreover have "vw_Heads view = viewHeads st ?as" "set (vw_Visible view) = {i \<in> set ?as. map_of (visibility st ?heads ?as) i = Some True}"
    unfolding assms(3) by (auto simp: makeView_def Let_def)
  ultimately show ?thesis using that [of ?as] as ok by blast
qed

lemma checkFact_id:
  assumes "checkFact i f = Inr ()"
  shows "i \<noteq> gate r" "ct_Revision (fa_Content f) = i"
proof -
  have v: "ct_Revision (fa_Content f) = i" "validateContent (fa_Content f) = Inr ()"
    using assms by (auto simp: checkFact_def rbind_eq_Inr split: if_splits)
  then have "validID i" by (auto simp: validateContent_def split: if_splits)
  then show "i \<noteq> gate r" by (auto simp: validID_def gate_def hasPrefix_def)
  show "ct_Revision (fa_Content f) = i" by (fact v(1))
qed

text \<open>
  C23. The visible facts of a view are the greatest set of admitted facts that shows nothing which depends
  on something hidden: each of its members has no hiding or disputed decision, every revision it refers to
  is in the set, and every resource it refers to has heads, all of them in the set.
\<close>

theorem Reduce_visible_greatest:
  assumes "Reduce current input (Some ad) = Inr view"
  shows "\<exists>p ids st receipts groups. at_Policy current = Some p \<and> prepare ad current p input = Inr (ids, st, receipts, groups) \<and>
    set (vw_Visible view) \<subseteq> set (vw_Admitted view) \<and>
    stableSet st (vw_DecisionHeads view) (lookupList (vw_Heads view)) (set (vw_Visible view)) \<and>
    (\<forall>W. W \<subseteq> set (vw_Admitted view) \<longrightarrow> stableSet st (vw_DecisionHeads view) (lookupList (vw_Heads view)) W \<longrightarrow> W \<subseteq> set (vw_Visible view))"
proof -
  obtain p ids st receipts groups where v: "at_Policy current = Some p" "0 \<le> depthLimit p"
    "prepare ad current p input = Inr (ids, st, receipts, groups)" "view = makeView current p ids st receipts groups"
    using Reduce_view [OF assms] by blast
  obtain as where as: "set as = set (vw_Admitted view)" "vw_Heads view = viewHeads st as"
    "set (vw_Visible view) = {i \<in> set as. map_of (visibility st (decisionHeads st groups) as) i = Some True}"
    and fs: "\<And>i. i \<in> set as \<Longrightarrow> \<exists>f. map_of (rd_facts st) i = Some f \<and> ad_Fact ad i = Inr f \<and> checkFact i f = Inr () \<and> set (contentLinks (fa_Content f)) \<subseteq> set as"
    by (rule view_facts [OF v(3,2,4)]) (rule that)
  have heads: "lookupList (vw_Heads view) = stateHeads st as" "vw_DecisionHeads view = decisionHeads st groups"
  proof -
    show "lookupList (vw_Heads view) = stateHeads st as" unfolding as(2) by (simp add: fun_eq_iff viewHeads_lookup)
    show "vw_DecisionHeads view = decisionHeads st groups" by (simp add: v(4) makeView_def Let_def)
  qed
  have gates: "\<forall>i \<in> set as. \<forall>r. i \<noteq> gate r" using fs checkFact_id(1) by blast
  have refs: "\<forall>i \<in> set as. \<forall>r \<in> set (referencesOf st i). rf_ID r \<in> set as"
  proof (intro ballI)
    fix i r assume i: "i \<in> set as" and r: "r \<in> set (referencesOf st i)"
    obtain f where f: "map_of (rd_facts st) i = Some f" "set (contentLinks (fa_Content f)) \<subseteq> set as" using fs [OF i] by blast
    have "rf_ID r \<in> set (contentLinks (fa_Content f))" using r f(1) by (simp add: referencesOf_def factOf_def contentLinks_def referenceIDs_def)
    then show "rf_ID r \<in> set as" using f(2) by blast
  qed
  have "W \<subseteq> set (vw_Visible view)" if "W \<subseteq> set as" "stableSet st (decisionHeads st groups) (stateHeads st as) W" for W
    using visibility_greatest [OF gates that] that(1) unfolding as(3) by blast
  then show ?thesis using v(1,3) visibility_stable [OF gates refs, of "decisionHeads st groups"]
    unfolding heads as(1) [symmetric] as(3) [symmetric] using as(3) by blast
qed

text \<open>The revision graph of the native source.\<close>

definition parentRel :: "adapters \<Rightarrow> (string \<times> string) set" where
  "parentRel ad = {(j, i). \<exists>g. ad_Fact ad j = Inr g \<and> i \<in> set (elems (ct_Parents (fa_Content g)))}"

lemma parent_props:
  assumes "factsOK ad p st" "map_of (rd_facts st) j \<noteq> None" "i \<in> set (parentsOf st j)"
  shows "rootOf st j = rootOf st i" "depthOf (rd_factDepth st) i < depthOf (rd_factDepth st) j" "int (depthOf (rd_factDepth st) j) \<le> depthLimit p"
proof -
  obtain f where f: "map_of (rd_facts st) j = Some f" using assms(2) by blast
  then have i: "i \<in> set (elems (ct_Parents (fa_Content f)))" using assms(3) by (simp add: parentsOf_def factOf_def)
  then have "(i, checkParentFact f) \<in> set (dependencyChecks j f)" by (simp add: dependencyChecks_def)
  then obtain g where g: "map_of (rd_facts st) i = Some g" "checkParentFact f g = Inr ()" using assms(1) f unfolding factsOK_def by fastforce
  then show "rootOf st j = rootOf st i" using f by (auto simp: rootOf_def factOf_def checkParentFact_def split: if_splits)
  have "i \<in> set (factDeps j f)" using i by (simp add: factDeps_def contentLinks_def)
  then show "depthOf (rd_factDepth st) i < depthOf (rd_factDepth st) j" "int (depthOf (rd_factDepth st) j) \<le> depthLimit p"
    using assms(1) f unfolding factsOK_def by blast+
qed

lemma stateHeads_iff:
  assumes "factsOK ad p st" "\<forall>i \<in> set as. map_of (rd_facts st) i \<noteq> None"
  shows "h \<in> set (stateHeads st as r) \<longleftrightarrow> h \<in> set as \<and> rootOf st h = r \<and> \<not> (\<exists>j \<in> set as. h \<in> set (parentsOf st j))"
proof -
  have "rootOf st j = rootOf st h" if "j \<in> set as" "h \<in> set (parentsOf st j)" for j using parent_props(1) [OF assms(1) _ that(2)] assms(2) that(1) by blast
  then show ?thesis by (auto simp: stateHeads_def list_ex_iff)
qed

lemma heads_above:
  assumes "factsOK ad p st" "\<forall>i \<in> set as. map_of (rd_facts st) i \<noteq> None" "\<And>i j. j \<in> set as \<Longrightarrow> i \<in> set (parentsOf st j) \<Longrightarrow> (j, i) \<in> R"
  shows "i \<in> set as \<Longrightarrow> \<exists>h. h \<in> set (stateHeads st as (rootOf st i)) \<and> (h, i) \<in> R\<^sup>*"
proof (induction "nat (depthLimit p) - depthOf (rd_factDepth st) i" arbitrary: i rule: less_induct)
  case less
  show ?case
  proof (cases "\<exists>j \<in> set as. i \<in> set (parentsOf st j)")
    case True
    then obtain j where j: "j \<in> set as" "i \<in> set (parentsOf st j)" by blast
    have c: "rootOf st j = rootOf st i" "depthOf (rd_factDepth st) i < depthOf (rd_factDepth st) j" "int (depthOf (rd_factDepth st) j) \<le> depthLimit p"
      using parent_props [OF assms(1) _ j(2)] assms(2) j(1) by blast+
    then have "nat (depthLimit p) - depthOf (rd_factDepth st) j < nat (depthLimit p) - depthOf (rd_factDepth st) i" by linarith
    from less.hyps [OF this j(1)] show ?thesis using c(1) assms(3) [OF j] by (auto intro: rtrancl_into_rtrancl)
  next
    case False
    then have "i \<in> set (stateHeads st as (rootOf st i))" using less.prems stateHeads_iff [OF assms(1,2)] by blast
    then show ?thesis by blast
  qed
qed

text \<open>
  C24. The heads of a resource in a view are exactly its admitted revisions that no admitted fact names as
  a parent, and no admitted revision is lost from them: from every admitted fact, a chain of child
  revisions leads to a head of its resource.
\<close>

theorem Reduce_heads_cover:
  assumes "Reduce current input (Some ad) = Inr view"
  shows "(\<forall>r h. h \<in> set (lookupList (vw_Heads view) r) \<longleftrightarrow> h \<in> set (vw_Admitted view) \<and> (\<exists>f. ad_Fact ad h = Inr f \<and> ct_Root (fa_Content f) = r) \<and>
      \<not> (\<exists>j \<in> set (vw_Admitted view). (j, h) \<in> parentRel ad)) \<and>
    (\<forall>i \<in> set (vw_Admitted view). \<exists>f h. ad_Fact ad i = Inr f \<and> h \<in> set (lookupList (vw_Heads view) (ct_Root (fa_Content f))) \<and> (h, i) \<in> (parentRel ad)\<^sup>*)"
proof -
  obtain p ids st receipts groups where v: "at_Policy current = Some p" "0 \<le> depthLimit p"
    "prepare ad current p input = Inr (ids, st, receipts, groups)" "view = makeView current p ids st receipts groups"
    using Reduce_view [OF assms] by blast
  obtain as where as: "set as = set (vw_Admitted view)" "vw_Heads view = viewHeads st as"
    and fs: "\<And>i. i \<in> set as \<Longrightarrow> \<exists>f. map_of (rd_facts st) i = Some f \<and> ad_Fact ad i = Inr f \<and> checkFact i f = Inr () \<and> set (contentLinks (fa_Content f)) \<subseteq> set as"
    and ok: "factsOK ad p st"
    by (rule view_facts [OF v(3,2,4)]) (rule that)
  have fact: "factOf st i = f" if "i \<in> set as" "ad_Fact ad i = Inr f" for i f using fs [OF that(1)] that(2) by (auto simp: factOf_def)
  have par: "(j, i) \<in> parentRel ad \<longleftrightarrow> i \<in> set (parentsOf st j)" if "j \<in> set as" for i j
    using fs [OF that] by (auto simp: parentRel_def parentsOf_def factOf_def)
  have known: "\<forall>i \<in> set as. map_of (rd_facts st) i \<noteq> None" using fs by fastforce
  have heads: "lookupList (vw_Heads view) r = stateHeads st as r" for r by (simp add: as(2) viewHeads_lookup)
  have root: "rootOf st h = r \<longleftrightarrow> (\<exists>f. ad_Fact ad h = Inr f \<and> ct_Root (fa_Content f) = r)" if "h \<in> set as" for h r
    using fs [OF that] fact [OF that] by (auto simp: rootOf_def)
  have iff: "h \<in> set (stateHeads st as r) \<longleftrightarrow> h \<in> set as \<and> rootOf st h = r \<and> \<not> (\<exists>j \<in> set as. (j, h) \<in> parentRel ad)" for h r
    using stateHeads_iff [OF ok known] par by blast
  have up: "\<exists>h. h \<in> set (stateHeads st as (rootOf st i)) \<and> (h, i) \<in> (parentRel ad)\<^sup>*" if "i \<in> set as" for i
    using heads_above [OF ok known _ that] par by blast
  have cover: "\<exists>f h. ad_Fact ad i = Inr f \<and> h \<in> set (stateHeads st as (ct_Root (fa_Content f))) \<and> (h, i) \<in> (parentRel ad)\<^sup>*" if member: "i \<in> set as" for i
  proof -
    obtain h where h: "h \<in> set (stateHeads st as (rootOf st i))" "(h, i) \<in> (parentRel ad)\<^sup>*" using up [OF member] by blast
    obtain f where f: "ad_Fact ad i = Inr f" using fs [OF member] by blast
    then have "rootOf st i = ct_Root (fa_Content f)" using fact [OF member] by (simp add: rootOf_def)
    then show ?thesis using h f by auto
  qed
  have "h \<in> set (stateHeads st as r) \<longleftrightarrow> h \<in> set as \<and> (\<exists>f. ad_Fact ad h = Inr f \<and> ct_Root (fa_Content f) = r) \<and>
      \<not> (\<exists>j \<in> set as. (j, h) \<in> parentRel ad)" for h r
    using iff [of h r] root [of h r] by blast
  then show ?thesis unfolding as(1) [symmetric] heads using cover by blast
qed

section \<open>Evidence for a receipt\<close>

text \<open>The facts whose moderation is evaluated for new content: parents and references, each resource with all its heads.\<close>

definition parentHeads :: "View \<Rightarrow> string \<Rightarrow> string list" where
  "parentHeads view q = q # lookupList (vw_Heads view) (case map_of (vw_Roots view) q of None \<Rightarrow> [] | Some r \<Rightarrow> r)"

definition referenceHeads :: "View \<Rightarrow> Reference \<Rightarrow> string list" where
  "referenceHeads view r = (if rf_Kind r = ''root'' then lookupList (vw_Heads view) (rf_ID r) else [rf_ID r])"

definition evaluatedFacts :: "View \<Rightarrow> Content \<Rightarrow> string set" where
  "evaluatedFacts view c = (\<Union>q \<in> set (elems (ct_Parents c)). set (parentHeads view q)) \<union>
     (\<Union>r \<in> set (elems (ct_References c)). set (referenceHeads view r))"

definition resourcesHeaded :: "View \<Rightarrow> Content \<Rightarrow> bool" where
  "resourcesHeaded view c \<longleftrightarrow>
     (\<forall>q \<in> set (elems (ct_Parents c)). lookupList (vw_Heads view) (case map_of (vw_Roots view) q of None \<Rightarrow> [] | Some r \<Rightarrow> r) \<noteq> []) \<and>
     (\<forall>r \<in> set (elems (ct_References c)). rf_ID r \<in> set (vw_Admitted view) \<and> (rf_Kind r = ''root'' \<longrightarrow> lookupList (vw_Heads view) (rf_ID r) \<noteq> []))"

definition currentFacts :: "View \<Rightarrow> string set" where
  "currentFacts view = set (vw_Admitted view) \<inter> set (vw_Visible view)"

definition headsOn :: "View \<Rightarrow> string set \<Rightarrow> string set" where
  "headsOn view F = (\<Union>i \<in> F. set (lookupList (vw_DecisionHeads view) (revisionTarget i)))"

lemma requireExact_iff: "requireExact view i = Inr xs \<longleftrightarrow> i \<in> currentFacts view \<and> xs = lookupList (vw_DecisionHeads view) (revisionTarget i)"
  by (auto simp: requireExact_def currentFacts_def)

lemma requireEach_iff:
  assumes "\<And>x ys. x \<in> set xs \<Longrightarrow> f x = Inr ys \<longleftrightarrow> ok x \<and> ys = g x"
  shows "requireEach f xs = Inr zs \<longleftrightarrow> (\<forall>x \<in> set xs. ok x) \<and> zs = concat (map g xs)"
  using assms
proof (induction xs arbitrary: zs)
  case (Cons x xs)
  have a: "f x = Inr ys \<longleftrightarrow> ok x \<and> ys = g x" for ys using Cons.prems by simp
  have b: "requireEach f xs = Inr zs \<longleftrightarrow> (\<forall>x \<in> set xs. ok x) \<and> zs = concat (map g xs)" for zs using Cons.IH Cons.prems by simp
  show ?case by (auto simp: rbind_eq_Inr a b)
qed auto

lemma requireRoot_iff: "requireRoot view r = Inr xs \<longleftrightarrow> lookupList (vw_Heads view) r \<noteq> [] \<and> set (lookupList (vw_Heads view) r) \<subseteq> currentFacts view \<and>
    xs = concat (map (\<lambda>i. lookupList (vw_DecisionHeads view) (revisionTarget i)) (lookupList (vw_Heads view) r))"
proof -
  have "requireEach (requireExact view) hs = Inr xs \<longleftrightarrow> (\<forall>i \<in> set hs. i \<in> currentFacts view) \<and>
      xs = concat (map (\<lambda>i. lookupList (vw_DecisionHeads view) (revisionTarget i)) hs)" for hs
    by (rule requireEach_iff) (rule requireExact_iff)
  then show ?thesis by (auto simp: requireRoot_def)
qed

lemma requireParent_iff: "requireParent view q = Inr xs \<longleftrightarrow> (set (parentHeads view q) \<subseteq> currentFacts view \<and> tl (parentHeads view q) \<noteq> []) \<and>
    xs = concat (map (\<lambda>i. lookupList (vw_DecisionHeads view) (revisionTarget i)) (parentHeads view q))"
  unfolding requireParent_def rbind_eq_Inr requireExact_iff requireRoot_iff parentHeads_def by auto

lemma requireReference_iff: "requireReference view r = Inr xs \<longleftrightarrow> (rf_ID r \<in> set (vw_Admitted view) \<and> set (referenceHeads view r) \<subseteq> currentFacts view \<and> referenceHeads view r \<noteq> []) \<and>
    xs = concat (map (\<lambda>i. lookupList (vw_DecisionHeads view) (revisionTarget i)) (referenceHeads view r))"
  by (simp add: requireReference_def referenceHeads_def requireRoot_iff requireExact_iff) blast

text \<open>
  C26. Evidence for intake exists only for a submission of the view's project by actors that are not blocked,
  when every parent and reference, and every head of the resources they belong to, is admitted and
  visible; the evidence is then exactly the set of decision heads on the two actors and on those
  facts, sorted and without repetition, and never more than a receipt can hold.
\<close>

theorem IntakeEvidence_correct:
  assumes "IntakeEvidence recordOf view v = Inr evidence"
  shows "\<exists>s. re_Submission (recordOf v) = Some s \<and> re_Project (recordOf v) = vw_Project view \<and>
    re_Actor (recordOf v) \<notin> set (vw_BlockedActors view) \<and> ct_Author (sb_Content s) \<notin> set (vw_BlockedActors view) \<and>
    evaluatedFacts view (sb_Content s) \<subseteq> set (vw_Admitted view) \<inter> set (vw_Visible view) \<and> resourcesHeaded view (sb_Content s) \<and>
    set evidence = set (lookupList (vw_DecisionHeads view) (actorTarget (re_Actor (recordOf v)))) \<union>
      set (lookupList (vw_DecisionHeads view) (actorTarget (ct_Author (sb_Content s)))) \<union> headsOn view (evaluatedFacts view (sb_Content s)) \<and>
    sorted evidence \<and> distinct evidence \<and> length evidence \<le> MaxLinks"
proof -
  let ?r = "recordOf v"
  obtain s where s: "re_Submission ?r = Some s" using assms by (auto simp: IntakeEvidence_def Let_def split: if_splits option.splits)
  obtain ps rs where p: "requireEach (requireParent view) (elems (ct_Parents (sb_Content s))) = Inr ps"
    and r: "requireEach (requireReference view) (elems (ct_References (sb_Content s))) = Inr rs"
    and g: "re_Project ?r = vw_Project view" "re_Actor ?r \<notin> set (vw_BlockedActors view)" "ct_Author (sb_Content s) \<notin> set (vw_BlockedActors view)"
    and e: "evidence = sort (remdups (lookupList (vw_DecisionHeads view) (actorTarget (re_Actor ?r)) @
              lookupList (vw_DecisionHeads view) (actorTarget (ct_Author (sb_Content s))) @ ps @ rs))" "length evidence \<le> MaxLinks"
    using assms s by (auto simp: IntakeEvidence_def Let_def rbind_eq_Inr split: if_splits)
  note p' = p [unfolded requireEach_iff [OF requireParent_iff]] and r' = r [unfolded requireEach_iff [OF requireReference_iff]]
  have f: "evaluatedFacts view (sb_Content s) \<subseteq> currentFacts view" unfolding evaluatedFacts_def using p' r' by blast
  have h: "resourcesHeaded view (sb_Content s)" using p' r' by (auto simp: resourcesHeaded_def parentHeads_def referenceHeads_def)
  have "set ps \<union> set rs = headsOn view (evaluatedFacts view (sb_Content s))" using p' r' by (auto simp: headsOn_def evaluatedFacts_def)
  then have "set evidence = set (lookupList (vw_DecisionHeads view) (actorTarget (re_Actor ?r))) \<union>
      set (lookupList (vw_DecisionHeads view) (actorTarget (ct_Author (sb_Content s)))) \<union> headsOn view (evaluatedFacts view (sb_Content s))"
    unfolding e(1) by auto
  moreover have "sorted evidence" "distinct evidence" unfolding e(1) by simp_all
  ultimately show ?thesis using s g f h e(2) unfolding currentFacts_def by blast
qed

end
