(* ===== verification/HN_View_Sample.thy ===== *)
theory HN_View_Sample
  imports HN_Visibility
begin

text \<open>
  Concrete reductions (\<open>src/internal/contribution/model.go\<close>), evaluated with the identifiers kept abstract, and the instances
  of the properties of \<open>Reduce\<close> there.
\<close>

section \<open>A baseline\<close>

text \<open>An issue and its edit, the baseline of a policy; later, the issue as a submission with an automatic receipt.\<close>

definition issueFact :: Fact where
  "issueFact = \<lparr>fa_Actor = sampleActor CHR ''e'', fa_Operation = ''issue.create'',
     fa_Content = \<lparr>ct_Root = sampleID CHR ''5'', ct_Revision = sampleID CHR ''5'', ct_Author = sampleActor CHR ''e'', ct_Parents = Some [], ct_References = Some []\<rparr>\<rparr>"

definition editFact :: Fact where
  "editFact = \<lparr>fa_Actor = sampleActor CHR ''e'', fa_Operation = ''issue.edit'',
     fa_Content = \<lparr>ct_Root = sampleID CHR ''5'', ct_Revision = sampleID CHR ''6'', ct_Author = sampleActor CHR ''e'', ct_Parents = Some [sampleID CHR ''5''],
       ct_References = Some []\<rparr>\<rparr>"

definition blankRecord :: "string \<Rightarrow> string \<Rightarrow> string \<Rightarrow> Record" where
  "blankRecord kind actor intent = \<lparr>re_Version = contributionVersion, re_Kind = kind, re_Project = sampleID CHR ''1'', re_Actor = actor,
     re_PublicKey = [], re_Intent = intent, re_Submission = None, re_Decision = None, re_Receipt = None\<rparr>"

definition submissionOf :: "Fact \<Rightarrow> string \<Rightarrow> Record" where
  "submissionOf f intent = (blankRecord ''submission'' (fa_Actor f) intent)\<lparr>re_Submission := Some \<lparr>sb_Operation = fa_Operation f, sb_Content = fa_Content f\<rparr>\<rparr>"

definition receiptOf :: "string \<Rightarrow> bool \<Rightarrow> string \<Rightarrow> Record" where
  "receiptOf sub automatic intent = (blankRecord ''receipt'' (sampleActor CHR ''b'') intent)\<lparr>re_Receipt := Some
     \<lparr>rc_Submission = sub, rc_Authority = at_Ref sampleAuthority, rc_Artifact = sampleID CHR ''2'', rc_Accounting = sampleID CHR ''3'',
      rc_Window = ''w'', rc_Cost = sampleCost, rc_Automatic = automatic, rc_Evaluated = Some []\<rparr>\<rparr>"

definition baselineAuthority :: Authority where
  "baselineAuthority = sampleAuthority\<lparr>at_Policy := Some (samplePolicy\<lparr>po_Baseline := Some [sampleID CHR ''5'', sampleID CHR ''6'']\<rparr>)\<rparr>"

definition submissionID :: string where "submissionID = sampleID CHR ''a''"
definition receiptID :: string where "receiptID = sampleID CHR ''b''"

definition sampleInput :: "Verified list" where
  "sampleInput = [\<lparr>vf_payload = ''x'', vf_signature = [], vf_id = submissionID\<rparr>, \<lparr>vf_payload = ''y'', vf_signature = [], vf_id = receiptID\<rparr>]"

definition sampleAdapters :: adapters where
  "sampleAdapters = \<lparr>ad_record = (\<lambda>v. if vf_id v = submissionID then submissionOf issueFact ''i'' else receiptOf submissionID True ''j''),
     ad_Fact = (\<lambda>i. if i = sampleID CHR ''5'' then Inr issueFact else if i = sampleID CHR ''6'' then Inr editFact else errorf ''unknown fact'' []),
     ad_Historical = (\<lambda>ref. Inr sampleAuthority), ad_Established = (\<lambda>i ref. Inr True)\<rparr>"

definition issueID :: string where "issueID = sampleID CHR ''5''"
definition editID :: string where "editID = sampleID CHR ''6''"

lemma sampleFact_ids: "issueID \<noteq> editID" "editID \<noteq> issueID" "issueID \<le> editID" "\<not> editID \<le> issueID" "issueID < editID"
  by code_simp+

lemma sampleFact_checks: "checkFact issueID issueFact = Inr ()" "checkFact editID editFact = Inr ()"
  by code_simp+

lemma baseline_ok: "validateAuthority baselineAuthority = Inr ()"
  by code_simp

lemma sampleFact_fields: "fa_Content issueFact = \<lparr>ct_Root = issueID, ct_Revision = issueID, ct_Author = sampleActor CHR ''e'', ct_Parents = Some [], ct_References = Some []\<rparr>"
  "fa_Content editFact = \<lparr>ct_Root = issueID, ct_Revision = editID, ct_Author = sampleActor CHR ''e'', ct_Parents = Some [issueID], ct_References = Some []\<rparr>"
  "fa_Operation issueFact = ''issue.create''" "fa_Operation editFact = ''issue.edit''" "fa_Actor issueFact = sampleActor CHR ''e''"
  "fa_Actor editFact = sampleActor CHR ''e''"
  by (simp_all add: issueFact_def editFact_def issueID_def editID_def)

lemma sampleAdapters_facts: "ad_Fact sampleAdapters issueID = Inr issueFact" "ad_Fact sampleAdapters editID = Inr editFact"
  using sampleFact_ids(2) by (simp_all add: sampleAdapters_def issueID_def editID_def)

definition baselinePolicy :: Policy where "baselinePolicy = samplePolicy\<lparr>po_Baseline := Some [issueID, editID]\<rparr>"

lemma baselinePolicy_limits: "depthLimit baselinePolicy = 256" "sint (us_Events (lm_Retained (po_Limits baselinePolicy))) = 65536" "sint (us_Objects (lm_Retained (po_Limits baselinePolicy))) = 131072"
  by code_simp+

definition baselineState :: reduction where
  "baselineState = emptyReduction\<lparr>rd_facts := [(issueID, issueFact), (editID, editFact)], rd_factDepth := [(issueID, 0), (editID, 1)]\<rparr>"

lemma baseline_fetched: "fetchBaseline sampleAdapters baselinePolicy [issueID, editID] emptyReduction = Inr baselineState"
  by (simp add: baselineState_def emptyReduction_def getFact.simps fetchAll.simps sampleAdapters_facts sampleFact_checks overBudget_def baselinePolicy_limits MaxGraphRecords_def sampleFact_ids
      dependencyChecks_def sampleFact_fields finishFact_def structuralDepth_def contentLinks_def referenceIDs_def depthOf_def
      checkRootFact_def checkParentFact_def sameFamily_def)

lemma baselinePolicy_list: "elems (po_Baseline baselinePolicy) = [issueID, editID]"
  by (simp add: baselinePolicy_def)

lemma baseline_prepared: "prepare sampleAdapters baselineAuthority baselinePolicy [] = Inr ([], baselineState, [], [])"
proof -
  have "checkBaseline baselinePolicy baselineState = Inr ()"
    by (simp add: checkBaseline_def baselinePolicy_list baselineState_def factOf_def contentLinks_def referenceIDs_def sampleFact_fields sampleFact_ids)
  then show ?thesis by (simp add: prepare_def baseline_fetched conflictIntents_def decisionsValid_def baselinePolicy_list del: fetchBaseline.simps)
qed

lemma baseline_admitted: "admitted baselinePolicy baselineState [] [issueID, editID] = [editID, issueID]"
  by (simp add: admitted_def admit.simps admitAll.simps baselinePolicy_limits baselineState_def factOf_def factAllowed_def sampleFact_fields contentLinks_def referenceIDs_def sampleFact_ids
     actorBlocked_def conflicted_def chosenAction_def chosen_def lookupList_def)

lemma baseline_reduced: "Reduce baselineAuthority [] (Some sampleAdapters) = Inr (makeView baselineAuthority baselinePolicy [] baselineState [] [])"
proof -
  have "at_Policy baselineAuthority = Some baselinePolicy" by (simp add: baselineAuthority_def baselinePolicy_def issueID_def editID_def)
  then show ?thesis by (simp add: Reduce_def baseline_ok baseline_prepared MaxGraphRecords_def baselinePolicy_limits)
qed

lemma baseline_candidates: "candidateSet baselinePolicy baselineState [] [] [] = [issueID, editID]"
  by (simp add: candidateSet_def baselinePolicy_list validSubmissions_def List.map_filter_def sampleFact_ids)

lemma baseline_view: "vw_Admitted (makeView baselineAuthority baselinePolicy [] baselineState [] []) = [editID, issueID]"
  "vw_Visible (makeView baselineAuthority baselinePolicy [] baselineState [] []) = [issueID, editID]"
  "vw_Heads (makeView baselineAuthority baselinePolicy [] baselineState [] []) = [(issueID, [editID])]"
proof -
  let ?v = "makeView baselineAuthority baselinePolicy [] baselineState [] []"
  have d: "decisionHeads baselineState [] = []" by (simp add: decisionHeads_def)
  have r: "rootOf baselineState issueID = issueID" "rootOf baselineState editID = issueID" "parentsOf baselineState issueID = []" "parentsOf baselineState editID = [issueID]" "referencesOf baselineState issueID = []" "referencesOf baselineState editID = []"
    by (simp_all add: rootOf_def parentsOf_def referencesOf_def factOf_def baselineState_def sampleFact_fields sampleFact_ids)
  have h: "viewHeads baselineState [issueID, editID] = [(issueID, [editID])]" by (simp add: viewHeads_def stateHeads_def r sampleFact_ids)
  have g: "issueID \<noteq> gate issueID" "editID \<noteq> gate issueID" by (simp_all add: issueID_def editID_def gate_def sampleID_def)
  have v: "map_of (visibility baselineState [] [issueID, editID]) issueID = Some True" "map_of (visibility baselineState [] [issueID, editID]) editID = Some True"
    using g sampleFact_ids by (simp_all add: visibility_def h addGates_def addReferences_def r shown_def conflicted_def chosenAction_def chosen_def lookupList_def update_conv')
  show "vw_Admitted ?v = [editID, issueID]" "vw_Visible ?v = [issueID, editID]" "vw_Heads ?v = [(issueID, [editID])]"
    by (simp_all add: makeView_def Let_def d baseline_candidates baseline_admitted h v)
qed


section \<open>A submission with an automatic receipt\<close>

lemma sampleRecord_ids: "submissionID \<noteq> receiptID" "receiptID \<noteq> submissionID" "submissionID \<le> receiptID" "submissionID < receiptID" "submissionID \<noteq> []" "receiptID \<noteq> []"
  by code_simp+

lemma sampleRecord_shapes: "checkShape (submissionOf issueFact ''i'') = Inr ()" "checkShape (receiptOf submissionID True ''j'') = Inr ()"
  by code_simp+

lemma sampleAuthority_ok: "validateAuthority sampleAuthority = Inr ()" "costWithin sampleCost (limitsOf sampleAuthority)"
  "automaticOK sampleAuthority (contentRequest (submissionOf issueFact ''i'') \<lparr>sb_Operation = fa_Operation issueFact, sb_Content = fa_Content issueFact\<rparr>)"
  by code_simp+

lemma samplePolicy_limits: "depthLimit samplePolicy = 256" "sint (us_Events (lm_Retained (po_Limits samplePolicy))) = 65536" "sint (us_Objects (lm_Retained (po_Limits samplePolicy))) = 131072"
  by code_simp+

lemma sampleAuthority_fields: "at_Policy sampleAuthority = Some samplePolicy" "at_Maintainers sampleAuthority = Some [sampleActor CHR ''b'']"
  "po_Project samplePolicy = sampleID CHR ''1''" "po_Moderators samplePolicy = Some [sampleActor CHR ''a'']" "po_RevokedModerators samplePolicy = None"
  "po_Baseline samplePolicy = None"
  by (simp_all add: sampleAuthority_def samplePolicy_def)

lemma sampleAdapters_records: "ad_record sampleAdapters \<lparr>vf_payload = ''x'', vf_signature = [], vf_id = submissionID\<rparr> = submissionOf issueFact ''i''"
  "ad_record sampleAdapters \<lparr>vf_payload = ''y'', vf_signature = [], vf_id = receiptID\<rparr> = receiptOf submissionID True ''j''"
  using sampleRecord_ids by (simp_all add: sampleAdapters_def)

lemma sampleRecord_fields: "re_Submission (submissionOf issueFact x) = Some \<lparr>sb_Operation = fa_Operation issueFact, sb_Content = fa_Content issueFact\<rparr>"
  "re_Decision (submissionOf issueFact x) = None" "re_Receipt (submissionOf issueFact x) = None" "re_Project (submissionOf issueFact x) = sampleID CHR ''1''"
  "re_Actor (submissionOf issueFact x) = sampleActor CHR ''e''" "re_Intent (submissionOf issueFact x) = x"
  "re_Submission (receiptOf submissionID True x) = None" "re_Decision (receiptOf submissionID True x) = None" "re_Project (receiptOf submissionID True x) = sampleID CHR ''1''"
  "re_Actor (receiptOf submissionID True x) = sampleActor CHR ''b''" "re_Intent (receiptOf submissionID True x) = x"
  by (simp_all add: submissionOf_def receiptOf_def blankRecord_def sampleFact_fields)

definition sampleReceipt :: Receipt where
  "sampleReceipt = \<lparr>rc_Submission = submissionID, rc_Authority = at_Ref sampleAuthority, rc_Artifact = sampleID CHR ''2'', rc_Accounting = sampleID CHR ''3'',
      rc_Window = ''w'', rc_Cost = sampleCost, rc_Automatic = True, rc_Evaluated = Some []\<rparr>"

lemma sampleReceipt_body: "re_Receipt (receiptOf submissionID True x) = Some sampleReceipt"
  by (simp add: receiptOf_def sampleReceipt_def)

lemma sampleReceipt_fields: "rc_Submission sampleReceipt = submissionID" "rc_Authority sampleReceipt = at_Ref sampleAuthority" "rc_Cost sampleReceipt = sampleCost" "rc_Automatic sampleReceipt"
  "rc_Evaluated sampleReceipt = Some []"
  by (simp_all add: sampleReceipt_def)

lemma sampleAdapters_authority: "ad_Historical sampleAdapters ref = Inr sampleAuthority" "ad_Established sampleAdapters i ref = Inr True"
  by (simp_all add: sampleAdapters_def)

definition submissionNode :: graphRecord where
  "submissionNode = \<lparr>gr_id = submissionID, gr_record = submissionOf issueFact ''i'', gr_authority = emptyAuthority, gr_effective = True, gr_valid = True\<rparr>"
definition receiptNode :: "Authority \<Rightarrow> graphRecord" where
  "receiptNode a = \<lparr>gr_id = receiptID, gr_record = receiptOf submissionID True ''j'', gr_authority = a, gr_effective = True, gr_valid = True\<rparr>"

lemma sampleNode_fields: "gr_record submissionNode = submissionOf issueFact ''i''" "gr_valid submissionNode" "gr_effective submissionNode" 
  "gr_record (receiptNode a) = receiptOf submissionID True ''j''" "gr_valid (receiptNode a)" "gr_effective (receiptNode a)" "gr_authority (receiptNode a) = a" "(receiptNode a)\<lparr>gr_authority := b\<rparr> = receiptNode b"
  by (simp_all add: submissionNode_def receiptNode_def)

definition readState :: reduction where "readState = emptyReduction\<lparr>rd_nodes := [(submissionID, submissionNode), (receiptID, receiptNode emptyAuthority)]\<rparr>"
definition authorizedState :: reduction where
  "authorizedState = emptyReduction\<lparr>rd_nodes := [(submissionID, submissionNode), (receiptID, receiptNode sampleAuthority)], rd_facts := [(issueID, issueFact)], rd_factDepth := [(issueID, 0)]\<rparr>"

lemma sampleActors_differ: "sampleActor CHR ''e'' \<noteq> sampleActor CHR ''b''" "sampleActor CHR ''b'' \<noteq> sampleActor CHR ''e''" by code_simp+

lemma sampleInput_read: "\<exists>ins. readInput sampleAdapters (po_Project samplePolicy) sampleInput [] (emptyReduction, [], []) = Inr (readState, [submissionID, receiptID], ins) \<and>
    (\<forall>(k, grp) \<in> set ins. length grp = 1)"
  by (simp add: sampleInput_def sampleAdapters_records sampleRecord_fields sampleAuthority_fields readState_def setNode_def emptyReduction_def sampleRecord_ids appendTo_def lookupList_def
      submissionNode_def receiptNode_def sampleActors_differ sampleActor_def)

lemma no_conflicts:
  assumes "\<forall>(k, grp) \<in> set ins. length grp = 1"
  shows "conflictIntents ins st = st"
proof -
  have "fold (\<lambda>(k, grp) st. if length grp > 1 then fold (\<lambda>i. invalidate i ''conflicting actor/project intent'') (sort grp)
         (st\<lparr>rd_Conflicts := rd_Conflicts st @ [\<lparr>cf_Key = ''intent:'' @ k, cf_IDs = sort grp\<rparr>]\<rparr>) else st) ins st = st"
    using assms by (induction ins) auto
  then show ?thesis by (simp add: conflictIntents_def)
qed

lemma sameContent_refl: "sameContent c c"
proof -
  have "equalIDs xs xs" "equalReferences rs rs" for xs rs by (induction xs, simp_all) (induction rs, simp_all)
  then show ?thesis by (simp add: sameContent_def)
qed

lemma sampleInput_authorized: "authorizeAll sampleAdapters sampleAuthority samplePolicy [submissionID, receiptID] readState = Inr authorizedState"
  by (simp add: authorizeRecord_def readState_def authorizedState_def emptyReduction_def sampleNode_fields sampleRecord_fields sampleReceipt_body authorizeSubmission_def sampleFact_fields
      getFact.simps fetchAll.simps sampleAdapters_facts sampleFact_checks overBudget_def samplePolicy_limits MaxGraphRecords_def dependencyChecks_def finishFact_def structuralDepth_def
      contentLinks_def referenceIDs_def sameContent_refl sampleRecord_ids sampleAdapters_authority sampleReceipt_fields sampleAuthority_ok sampleAuthority_fields establishedOK_def authorizeSigner_def setNode_def listed_def
      Let_def)

lemma sampleInput_prepared: "prepare sampleAdapters sampleAuthority samplePolicy sampleInput = Inr ([submissionID, receiptID], authorizedState, [(submissionID, [receiptID])], [])"
proof -
  obtain ins where r: "readInput sampleAdapters (po_Project samplePolicy) sampleInput [] (emptyReduction, [], []) = Inr (readState, [submissionID, receiptID], ins)"
    and i: "\<forall>(k, grp) \<in> set ins. length grp = 1" using sampleInput_read by blast
  have d: "decisionsValid sampleAdapters samplePolicy [submissionID, receiptID] authorizedState = authorizedState"
    by (simp add: decisionsValid_def authorizedState_def sampleNode_fields sampleRecord_fields sampleRecord_ids)
  have p: "receiptProblem authorizedState (receiptNode sampleAuthority) sampleReceipt = None"
    using sampleAuthority_ok(3) by (simp add: receiptProblem_def validSubmission_def sampleReceipt_fields authorizedState_def sampleNode_fields sampleRecord_fields sampleAuthority_ok(2))
  have c: "collectReceipts [submissionID, receiptID] [] authorizedState = ([(submissionID, [receiptID])], authorizedState)"
    using p by (simp add: authorizedState_def sampleNode_fields sampleRecord_fields sampleReceipt_body sampleRecord_ids sampleReceipt_fields appendTo_def lookupList_def)
  have g: "collectGroups [(submissionID, [receiptID])] [submissionID, receiptID] [] authorizedState = ([], authorizedState)"
    by (simp add: authorizedState_def sampleNode_fields sampleRecord_fields sampleRecord_ids)
  have s: "sort [submissionID, receiptID] = [submissionID, receiptID]" by (simp add: sampleRecord_ids)
  show ?thesis unfolding prepare_def r rbind_simps prod.case no_conflicts [OF i] s Let_def
    by (simp add: sampleAuthority_fields checkBaseline_def sampleInput_authorized d c g del: authorizeAll.simps collectReceipts.simps collectGroups.simps)
qed

lemma sampleInput_reduced: "Reduce sampleAuthority sampleInput (Some sampleAdapters) = Inr (makeView sampleAuthority samplePolicy [submissionID, receiptID] authorizedState [(submissionID, [receiptID])] [])"
  by (simp add: Reduce_def sampleAuthority_ok sampleAuthority_fields sampleInput_prepared MaxGraphRecords_def samplePolicy_limits sampleInput_def [THEN arg_cong, of length])

lemma sampleView_admitted: "vw_Admitted (makeView sampleAuthority samplePolicy [submissionID, receiptID] authorizedState [(submissionID, [receiptID])] []) = [issueID]"
proof -
  have d: "decisionHeads authorizedState [] = []" by (simp add: decisionHeads_def)
  have n: "\<not> actorBlocked authorizedState [] x" "\<not> conflicted [] t" "chosen [] t = None" for x t by (simp_all add: actorBlocked_def conflicted_def chosenAction_def chosen_def lookupList_def)
  have v: "validSubmissions authorizedState [submissionID, receiptID] = [(submissionID, submissionOf issueFact ''i'', \<lparr>sb_Operation = fa_Operation issueFact, sb_Content = fa_Content issueFact\<rparr>)]"
    by (simp add: validSubmissions_def List.map_filter_def authorizedState_def sampleNode_fields sampleRecord_fields sampleRecord_ids)
  have a: "automaticReceipt authorizedState receiptID" by (simp add: automaticReceipt_def authorizedState_def sampleNode_fields sampleReceipt_body sampleRecord_ids sampleReceipt_fields)
  have c: "candidateSet samplePolicy authorizedState [(submissionID, [receiptID])] [] [submissionID, receiptID] = [issueID]"
    by (simp add: candidateSet_def sampleAuthority_fields v submissionAdmitted_def n Let_def lookupList_def a sampleFact_fields)
  have f: "factAllowed authorizedState [] issueID" "contentLinks (fa_Content (factOf authorizedState issueID)) = []"
    by (simp_all add: factAllowed_def authorizedState_def n [unfolded authorizedState_def] factOf_def sampleFact_fields contentLinks_def referenceIDs_def)
  have "admitted samplePolicy authorizedState [] [issueID] = [issueID]" by (simp add: admitted_def admit.simps admitAll.simps samplePolicy_limits f)
  then show ?thesis by (simp add: d c)
qed

section \<open>The properties at the concrete reductions\<close>

theorem Reduce_admits_closure_witness:
  "\<exists>p ids st receipts groups. prepare sampleAdapters baselineAuthority p [] = Inr (ids, st, receipts, groups) \<and>
     admissible (\<lambda>j. contentLinks (fa_Content (factOf st j))) (factAllowed st (decisionHeads st groups))
       (candidateSet p st receipts (decisionHeads st groups) ids) editID"
proof -
  have "editID \<in> set (vw_Admitted (makeView baselineAuthority baselinePolicy [] baselineState [] []))" by (simp only: baseline_view) simp
  then show ?thesis using Reduce_admits_closure [OF baseline_reduced] by blast
qed

theorem Reduce_admitted_safe_witness:
  "ad_Fact sampleAdapters issueID = Inr issueFact \<and> (\<exists>w \<in> set sampleInput. \<exists>s. re_Submission (ad_record sampleAdapters w) = Some s \<and>
     ct_Revision (sb_Content s) = issueID \<and> admittedBy sampleAdapters sampleAuthority samplePolicy sampleInput (vf_id w) (ad_record sampleAdapters w) s)"
proof -
  let ?v = "makeView sampleAuthority samplePolicy [submissionID, receiptID] authorizedState [(submissionID, [receiptID])] []"
  have shapes: "shapesOK sampleAdapters sampleInput"
    by (simp add: shapesOK_def sampleInput_def sampleAdapters_records sampleRecord_shapes)
  have "issueID \<in> set (vw_Admitted ?v)" by (simp only: sampleView_admitted) simp
  from Reduce_admitted_safe [OF sampleInput_reduced shapes this] obtain p where p: "at_Policy sampleAuthority = Some p"
    and o: "issueID \<in> set (elems (po_Baseline p)) \<or> (\<exists>w \<in> set sampleInput. \<exists>s. re_Submission (ad_record sampleAdapters w) = Some s \<and>
     ct_Revision (sb_Content s) = issueID \<and> admittedBy sampleAdapters sampleAuthority p sampleInput (vf_id w) (ad_record sampleAdapters w) s)" by blast
  have "p = samplePolicy" using p by (simp add: sampleAuthority_fields)
  then show ?thesis using o by (simp add: sampleAdapters_facts sampleAuthority_fields)
qed

theorem Reduce_visible_greatest_witness:
  "\<exists>p ids st receipts groups. prepare sampleAdapters baselineAuthority p [] = Inr (ids, st, receipts, groups) \<and>
     stableSet st [] (lookupList [(issueID, [editID])]) {issueID, editID}"
proof -
  let ?v = "makeView baselineAuthority baselinePolicy [] baselineState [] []"
  have h: "vw_DecisionHeads ?v = []" by (simp add: makeView_def decisionHeads_def Let_def)
  have "set [issueID, editID] = {issueID, editID}" by simp
  note r = Reduce_visible_greatest [OF baseline_reduced, unfolded h baseline_view this]
  show ?thesis using r by (elim exE conjE) (intro exI conjI, assumption+)
qed

theorem Reduce_heads_cover_witness: "(editID, issueID) \<in> (parentRel sampleAdapters)\<^sup>*"
proof -
  have "issueID \<in> set [editID, issueID]" by simp
  from Reduce_heads_cover [OF baseline_reduced, unfolded baseline_view, THEN conjunct2, rule_format, OF this]
  show ?thesis by (auto simp: sampleAdapters_facts sampleFact_fields lookupList_def)
qed

theorem Reduce_always_answers_witness:
  "\<exists>view. Reduce sampleAuthority sampleInput (Some (sampleAdapters\<lparr>ad_Fact := \<lambda>_. errorf ''offline'' [], ad_Historical := \<lambda>_. errorf ''offline'' []\<rparr>)) = Inr view"
proof (rule Reduce_always_answers)
  show "validateAuthority sampleAuthority = Inr ()" by (fact sampleAuthority_ok(1))
  show "at_Policy sampleAuthority = Some samplePolicy" "elems (po_Baseline samplePolicy) = []" by (simp_all add: sampleAuthority_fields)
  show "length sampleInput \<le> MaxGraphRecords" by (simp add: sampleInput_def MaxGraphRecords_def)
  show "int (length sampleInput) \<le> sint (us_Events (lm_Retained (po_Limits samplePolicy)))" by (simp add: sampleInput_def samplePolicy_limits)
  show "\<forall>v \<in> set sampleInput. vf_id v \<noteq> [] \<and> vf_payload v \<noteq> []" by (simp add: sampleInput_def sampleRecord_ids)
  show "shapesOK (sampleAdapters\<lparr>ad_Fact := \<lambda>_. errorf ''offline'' [], ad_Historical := \<lambda>_. errorf ''offline'' []\<rparr>) sampleInput"
    by (simp add: shapesOK_def sampleInput_def sampleAdapters_records sampleRecord_shapes)
qed

theorem IntakeEvidence_correct_witness:
  "let view = makeView baselineAuthority baselinePolicy [] baselineState [] []
   in IntakeEvidence (\<lambda>_. submissionOf editFact ''e'') view \<lparr>vf_payload = ''x'', vf_signature = [], vf_id = submissionID\<rparr> = Inr [] \<and>
      evaluatedFacts view (fa_Content editFact) \<subseteq> set (vw_Visible view)"
proof -
  let ?view = "makeView baselineAuthority baselinePolicy [] baselineState [] []"
  let ?v = "\<lparr>vf_payload = ''x'', vf_signature = [], vf_id = submissionID\<rparr>"
  have f: "vw_Project ?view = sampleID CHR ''1''" "vw_BlockedActors ?view = []" "vw_DecisionHeads ?view = []"
    "vw_Roots ?view = [(issueID, issueID), (editID, issueID)]"
    by (simp_all add: makeView_def Let_def decisionHeads_def blockedActors_def baselinePolicy_def sampleAuthority_fields baselineState_def sampleFact_fields)
  have r: "re_Submission (submissionOf editFact x) = Some \<lparr>sb_Operation = fa_Operation editFact, sb_Content = fa_Content editFact\<rparr>"
    "re_Project (submissionOf editFact x) = sampleID CHR ''1''" for x by (simp_all add: submissionOf_def blankRecord_def)
  have "IntakeEvidence (\<lambda>_. submissionOf editFact ''e'') ?view ?v = Inr []"
    by (simp add: IntakeEvidence_def f [unfolded Let_def] r sampleRecord_ids sampleFact_fields requireParent_def requireExact_def requireRoot_def
        baseline_view lookupList_def MaxLinks_def del: makeView_admitted)
  then show ?thesis using IntakeEvidence_correct [of "\<lambda>_. submissionOf editFact ''e''" ?view ?v "[]"] by (simp add: r Let_def del: makeView_admitted)
qed

end
