(* ===== verification/HN_Governance.thy ===== *)
theory HN_Governance
  imports HN_Lineage HN_Issue_Catalog HN_Reduce
begin

text \<open>
  Repository policy and what it makes of a proposal (\<open>src/policy.go\<close>, \<open>src/protected_checks.go\<close>, \<open>src/automerge.go\<close>,
  \<open>src/runner_eligibility.go\<close>): the policy document and its validation, the evaluation of a proposal against reviews,
  results and decisions, the validation of decision and merge facts, and the gate of the automatic merge.
  Git and the JSON decoders are arguments (\<open>repository\<close>).
\<close>

section \<open>The policy document\<close>

record ContributionCheckpoint =
  cp_ID :: string
  cp_Authority :: AuthorityRef

record MemoryPolicy =
  mp_TrustedActors :: "string slice"
  mp_TrustedKinds :: "string slice"

record ProposalPolicy =
  pr_RequiredApprovals :: int
  pr_RequiredAccepts :: int
  pr_TrustedReviewers :: "string list"
  pr_AllowAuthorApproval :: bool

record PipelinePolicy =
  pp_RequiredResults :: int
  pp_TrustedRunners :: "string list"
  pp_Requesters :: "string slice"

record ProtectedChecksPolicy =
  pc_Paths :: "string slice"
  pc_TrustedReviewers :: "string list"
  pc_RequiredApprovals :: int

record AutomergeRule =
  am_Name :: string
  am_TargetBranch :: string
  am_Actors :: "string list"
  am_Authors :: "string list"
  am_Paths :: "string slice"

record AutomergePolicy =
  ag_Rules :: "AutomergeRule list"

record AuditPolicy =
  ap_Scope :: string
  ap_RuleOwners :: "string list"
  ap_Requesters :: "string list"
  ap_Executors :: "string list"

record PolicyDocument =
  py_Contributions :: "Policy option"
  py_ContributionCheckpoints :: "ContributionCheckpoint list"
  py_Version :: string
  py_Maintainers :: "string list"
  py_Proposals :: ProposalPolicy
  py_Pipelines :: "(string, PipelinePolicy) gomap"
  py_Memory :: "MemoryPolicy option"
  py_ProtectedChecks :: "ProtectedChecksPolicy option"
  py_Automerge :: "AutomergePolicy option"
  py_Audits :: "AuditPolicy option"

definition policyVersion :: string where "policyVersion = ''hn.policy/0''"
definition maxPolicySize :: nat where "maxPolicySize = 1048576"
definition maxPolicyRules :: nat where "maxPolicyRules = 64"
definition maxPolicyPathBytes :: nat where "maxPolicyPathBytes = 4096"

definition mayRequestRun :: "PolicyDocument \<Rightarrow> string \<Rightarrow> string \<Rightarrow> bool" where
  "mayRequestRun policy pipeline actor \<longleftrightarrow>
     (if actorListed actor (py_Maintainers policy) then True
      else case map_of (py_Pipelines policy) pipeline of None \<Rightarrow> False | Some pp \<Rightarrow> actorListed actor (elems (pp_Requesters pp)))"

section \<open>Validation of the policy\<close>

fun validateActorsFrom :: "string \<Rightarrow> string list \<Rightarrow> string list \<Rightarrow> unit result" where
  "validateActorsFrom name seen [] = Inr ()"
| "validateActorsFrom name seen (actor # actors) =
     (if \<not> validActorID actor then errorf ''%s contains invalid actor %q'' [name, actor]
      else if actor \<in> set seen then errorf ''%s contains duplicate actor %s'' [name, actor]
      else validateActorsFrom name (actor # seen) actors)"

definition validateActorList :: "string \<Rightarrow> string list \<Rightarrow> unit result" where
  "validateActorList name actors = validateActorsFrom name [] actors"

definition validateSortedActorList :: "string \<Rightarrow> string list \<Rightarrow> unit result" where
  "validateSortedActorList name actors = rbind (validateActorList name actors) (\<lambda>_.
     if \<not> sorted actors then errorf ''%s must be sorted'' [name] else Inr ())"

definition validMemoryKind :: "string \<Rightarrow> bool" where
  "validMemoryKind kind \<longleftrightarrow> kind \<in> {''observation'', ''decision'', ''assumption'', ''attempt'', ''verification'', ''handoff''}"

fun validateKindsFrom :: "string list \<Rightarrow> string list \<Rightarrow> unit result" where
  "validateKindsFrom seen [] = Inr ()"
| "validateKindsFrom seen (kind # kinds) =
     (if \<not> validMemoryKind kind then errorf ''memory trustedKinds contains invalid kind %q'' [kind]
      else if kind \<in> set seen then errorf ''memory trustedKinds contains duplicate kind %s'' [kind]
      else validateKindsFrom (kind # seen) kinds)"

definition validateMemoryKindList :: "string list \<Rightarrow> unit result" where
  "validateMemoryKindList kinds = rbind (validateKindsFrom [] kinds) (\<lambda>_.
     if \<not> sorted kinds then errorf ''memory trustedKinds must be sorted'' [] else Inr ())"

definition classifyMemoryTrust :: "MemoryPolicy option \<Rightarrow> string \<Rightarrow> string \<Rightarrow> string" where
  "classifyMemoryTrust policy actor kind = (case policy of None \<Rightarrow> ''policy-missing'' | Some p \<Rightarrow>
     if \<not> actorListed actor (elems (mp_TrustedActors p)) then ''actor-untrusted''
     else if \<not> stringListed kind (elems (mp_TrustedKinds p)) then ''kind-untrusted'' else ''qualified'')"

fun validateCheckpoints :: "string \<Rightarrow> ContributionCheckpoint list \<Rightarrow> unit result" where
  "validateCheckpoints prior [] = Inr ()"
| "validateCheckpoints prior (cp # cps) =
     (if \<not> validEventID (cp_ID cp) \<or> cp_ID cp \<le> prior \<or> \<not> validEventID (ar_Digest (cp_Authority cp)) \<or> \<not> validGitOID (ar_Commit (cp_Authority cp))
      then errorf ''invalid sorted exact contribution checkpoint'' [] else validateCheckpoints (cp_ID cp) cps)"

definition validateAuditRole :: "string \<times> string list \<Rightarrow> unit result" where
  "validateAuditRole role = (case role of (name, actors) \<Rightarrow>
     if length actors = 0 \<or> length actors > 64 then errorf ''audits %s requires 1 to 64 actors'' [name]
     else rbind (validateActorList (''audits '' @ name) actors) (\<lambda>_.
       forEach (\<lambda>actor. if \<not> validActorFingerprint actor then errorf ''audits %s requires full actor fingerprints'' [name] else Inr ()) actors))"

definition validateAuditPolicy :: "AuditPolicy option \<Rightarrow> unit result" where
  "validateAuditPolicy p = (case p of None \<Rightarrow> Inr () | Some p \<Rightarrow>
     if \<not> issueIdentifier (ap_Scope p) 128 then errorf ''audits scope must be a bounded identifier'' []
     else forEach validateAuditRole [(''ruleOwners'', ap_RuleOwners p), (''requesters'', ap_Requesters p), (''executors'', ap_Executors p)])"

definition validatePipelinePolicy :: "string \<times> PipelinePolicy \<Rightarrow> unit result" where
  "validatePipelinePolicy entry = (case entry of (name, pipeline) \<Rightarrow>
     if \<not> validPipelineName name then errorf ''policy has invalid pipeline name %q'' [name]
     else if pp_RequiredResults pipeline < 1 \<or> pp_RequiredResults pipeline > 64
     then errorf ''pipeline %q requiredResults must be between 1 and 64'' [name]
     else rbind (validateActorList (''pipeline '' @ name @ '' trustedRunners'') (pp_TrustedRunners pipeline)) (\<lambda>_.
       if pp_RequiredResults pipeline > int (length (pp_TrustedRunners pipeline))
       then errorf ''pipeline %q requiredResults exceeds its trusted runner count'' [name]
       else case pp_Requesters pipeline of None \<Rightarrow> Inr () | Some requesters \<Rightarrow>
         if length requesters < 1 \<or> length requesters > 64 then errorf ''pipeline %q requesters must list 1 to 64 actors when present'' [name]
         else validateActorList (''pipeline '' @ name @ '' requesters'') requesters))"

definition validateMemoryPolicy :: "MemoryPolicy option \<Rightarrow> unit result" where
  "validateMemoryPolicy m = (case m of None \<Rightarrow> Inr () | Some m \<Rightarrow>
     (case mp_TrustedActors m of None \<Rightarrow> errorf ''memory trustedActors is required'' [] | Some actors \<Rightarrow>
      case mp_TrustedKinds m of None \<Rightarrow> errorf ''memory trustedKinds is required'' [] | Some kinds \<Rightarrow>
      rbind (validateSortedActorList ''memory trustedActors'' actors) (\<lambda>_. validateMemoryKindList kinds)))"

subsection \<open>Paths and branches\<close>

definition badPolicyPath :: "string \<Rightarrow> bool" where
  "badPolicyPath p \<longleftrightarrow> (let q = trimSuffix p ''/'' in
     p = [] \<or> length p > maxPolicyPathBytes \<or> \<not> validUtf8 p \<or> q = [] \<or> q = ''.'' \<or> isAbs q \<or> cleanPath q \<noteq> q \<or>
     containsAny p [CHR 0x5C, CHR ''*'', CHR ''?'', CHR ''['', CHR '']''] \<or> contains q '':'' \<or> containsControl p \<or>
     list_ex (\<lambda>component. component = ''..'' \<or> map toLowerByte component = ''.git'') (splitOn CHR ''/'' q))"

fun validatePathsFrom :: "string \<Rightarrow> string list \<Rightarrow> string list \<Rightarrow> unit result" where
  "validatePathsFrom label seen [] = Inr ()"
| "validatePathsFrom label seen (p # ps) =
     (if badPolicyPath p then errorf ''%s contains invalid literal path %q'' [label, p]
      else if p \<in> set seen then errorf ''%s contains duplicate path %q'' [label, p]
      else validatePathsFrom label (p # seen) ps)"

definition validatePolicyPaths :: "string \<Rightarrow> string slice \<Rightarrow> bool \<Rightarrow> unit result" where
  "validatePolicyPaths label paths nonempty = (case paths of
       None \<Rightarrow> errorf ''%s requires an explicit array of at most %d literal paths'' [label, decimal maxPolicyRules]
     | Some ps \<Rightarrow>
         if length ps > maxPolicyRules \<or> nonempty \<and> length ps = 0
         then errorf ''%s requires an explicit array of at most %d literal paths'' [label, decimal maxPolicyRules]
         else validatePathsFrom label [] ps)"

definition validPolicyBranch :: "string \<Rightarrow> bool" where
  "validPolicyBranch branch \<longleftrightarrow>
     (if branch = [] \<or> length branch > 255 \<or> hasPrefix branch ''-'' \<or> hasPrefix branch ''/'' \<or> hasSuffix branch ''/'' \<or> hasSuffix branch ''.'' \<or>
         containsAny branch ('' ~^:?*['' @ [CHR 0x5C]) \<or> contains branch ''..'' \<or> contains branch [CHR ''@'', CHR 0x7B] \<or>
         contains branch ''//'' \<or> containsControl branch \<or> \<not> validUtf8 branch
      then False
      else if list_ex (\<lambda>part. hasPrefix part ''.'' \<or> hasSuffix part ''.lock'') (splitOn CHR ''/'' branch) then False
      else branch \<noteq> ''@'')"

subsection \<open>The optional sections\<close>

definition validateProtectedChecks :: "ProtectedChecksPolicy option \<Rightarrow> unit result" where
  "validateProtectedChecks p = (case p of None \<Rightarrow> Inr () | Some p \<Rightarrow>
     rbind (validatePolicyPaths ''protectedChecks paths'' (pc_Paths p) False) (\<lambda>_.
     if length (pc_TrustedReviewers p) < 1 \<or> length (pc_TrustedReviewers p) > maxPolicyRules
     then errorf ''protectedChecks requires 1 to %d trustedReviewers'' [decimal maxPolicyRules]
     else rbind (validateActorList ''protectedChecks trustedReviewers'' (pc_TrustedReviewers p)) (\<lambda>_.
       if pc_RequiredApprovals p < 1 \<or> pc_RequiredApprovals p > int (length (pc_TrustedReviewers p))
       then errorf ''protectedChecks requiredApprovals must be between 1 and trusted reviewer count'' [] else Inr ())))"

definition validateRuleActors :: "string \<Rightarrow> string \<times> string list \<Rightarrow> unit result" where
  "validateRuleActors rule entry = (case entry of (label, actors) \<Rightarrow>
     if length actors < 1 \<or> length actors > maxPolicyRules then errorf ''automerge rule %q requires 1 to %d %s'' [rule, decimal maxPolicyRules, label]
     else validateActorList (''automerge '' @ label) actors)"

fun validateRulesFrom :: "PolicyDocument \<Rightarrow> string list \<Rightarrow> AutomergeRule list \<Rightarrow> unit result" where
  "validateRulesFrom policy names [] = Inr ()"
| "validateRulesFrom policy names (r # rs) =
     (if \<not> validPipelineName (am_Name r) \<or> am_Name r \<in> set names then errorf ''automerge has invalid or duplicate rule name %q'' [am_Name r]
      else if \<not> validPolicyBranch (am_TargetBranch r) then errorf ''automerge rule %q has invalid targetBranch %q'' [am_Name r, am_TargetBranch r]
      else rbind (forEach (validateRuleActors (am_Name r)) [(''actors'', am_Actors r), (''authors'', am_Authors r)]) (\<lambda>_.
        rbind (forEach (\<lambda>actor. if \<not> actorListed actor (py_Maintainers policy)
                 then errorf ''automerge rule %q actor %s is not a maintainer'' [am_Name r, actor] else Inr ()) (am_Actors r)) (\<lambda>_.
        rbind (validatePolicyPaths (''automerge rule '' @ am_Name r @ '' paths'') (am_Paths r) True) (\<lambda>_.
        validateRulesFrom policy (am_Name r # names) rs))))"

definition validateOptionalPolicy :: "PolicyDocument \<Rightarrow> unit result" where
  "validateOptionalPolicy policy = rbind (validateProtectedChecks (py_ProtectedChecks policy)) (\<lambda>_.
     case py_Automerge policy of None \<Rightarrow> Inr () | Some p \<Rightarrow>
       if length (ag_Rules p) < 1 \<or> length (ag_Rules p) > maxPolicyRules then errorf ''automerge requires 1 to %d rules'' [decimal maxPolicyRules]
       else validateRulesFrom policy [] (ag_Rules p))"

definition validatePolicy :: "PolicyDocument \<Rightarrow> unit result" where
  "validatePolicy policy =
     rbind (case py_Contributions policy of None \<Rightarrow> Inr () | Some p \<Rightarrow> validateProjectPolicy p) (\<lambda>_.
     if length (py_ContributionCheckpoints policy) > MaxGraphRecords then errorf ''contribution checkpoint limit'' []
     else rbind (validateCheckpoints [] (py_ContributionCheckpoints policy)) (\<lambda>_.
     rbind (validateAuditPolicy (py_Audits policy)) (\<lambda>_.
     if py_Version policy \<noteq> policyVersion then errorf ''unsupported policy version %q'' [py_Version policy]
     else if length (py_Maintainers policy) = 0 then errorf ''policy requires at least one maintainer'' []
     else rbind (validateActorList ''maintainers'' (py_Maintainers policy)) (\<lambda>_.
     let pr = py_Proposals policy in
     if pr_RequiredApprovals pr < 0 \<or> pr_RequiredApprovals pr > 64 then errorf ''requiredApprovals must be between 0 and 64'' []
     else if pr_RequiredAccepts pr < 1 \<or> pr_RequiredAccepts pr > int (length (py_Maintainers policy))
     then errorf ''requiredAccepts must be between 1 and the number of maintainers'' []
     else rbind (validateActorList ''trustedReviewers'' (pr_TrustedReviewers pr)) (\<lambda>_.
     if pr_RequiredApprovals pr > int (length (pr_TrustedReviewers pr)) then errorf ''requiredApprovals exceeds the number of trusted reviewers'' []
     else rbind (forEach validatePipelinePolicy (py_Pipelines policy)) (\<lambda>_.
     rbind (validateMemoryPolicy (py_Memory policy)) (\<lambda>_. validateOptionalPolicy policy)))))))"

section \<open>The repository\<close>

text \<open>
  What is asked of Git and of the JSON decoders: whether the repository and a commit can be used, \<open>git show\<close>, the
  strict decoding of a policy and of a pipeline, the key walk over a policy that has contribution fields
  (\<open>contributionPolicyJSONShape\<close>, which succeeds at once on any other), the code ref of a proposal, the output of \<open>git diff-tree\<close>, and the
  contribution view of a set of facts, if contributions are enabled.
\<close>

record repository =
  rp_Usable :: "string \<Rightarrow> unit result"
  rp_Show :: "string \<Rightarrow> string option"
  rp_DecodePolicy :: "string \<Rightarrow> PolicyDocument result"
  rp_PolicyShape :: "string \<Rightarrow> unit result"
  rp_DecodePipeline :: "string \<Rightarrow> PipelineDefinition result"
  rp_ProposalHead :: "string \<Rightarrow> string option result"
  rp_DiffTree :: "string \<Rightarrow> string \<Rightarrow> string result"
  rp_ContributionView :: "StoredEvent list \<Rightarrow> View option result"

definition shortOID :: "string \<Rightarrow> string" where
  "shortOID oid = (if length oid > 12 then take 12 oid else oid)"

definition parsePolicyBytes :: "host \<Rightarrow> repository \<Rightarrow> string \<Rightarrow> (PolicyDocument \<times> string) result" where
  "parsePolicyBytes h rp encoded =
     (if length encoded > maxPolicySize then errorf ''policy exceeds %d bytes'' [decimal maxPolicySize]
      else rbind (wrapError ''parse policy: '' [] (rp_DecodePolicy rp encoded)) (\<lambda>policy.
        rbind (wrapError ''parse contribution policy: '' [] (rp_PolicyShape rp encoded)) (\<lambda>_.
        rbind (validatePolicy policy) (\<lambda>_. Inr (policy, eventID h encoded)))))"

definition loadPolicy :: "host \<Rightarrow> repository \<Rightarrow> string \<Rightarrow> (PolicyDocument \<times> string) result" where
  "loadPolicy h rp commit = rbind (rp_Usable rp commit) (\<lambda>_.
     case rp_Show rp (commit @ '':.hn/policy.json'') of
       None \<Rightarrow> errorf ''no .hn/policy.json at commit %s'' [commit]
     | Some encoded \<Rightarrow> parsePolicyBytes h rp encoded)"

definition loadPipeline :: "host \<Rightarrow> repository \<Rightarrow> string \<Rightarrow> string \<Rightarrow> (PipelineDefinition \<times> string \<times> string) result" where
  "loadPipeline h rp commit name =
     (if \<not> validPipelineName name then errorf ''invalid pipeline name %q'' [name]
      else rbind (rp_Usable rp commit) (\<lambda>_.
        case rp_Show rp (commit @ '':.hn/pipelines/'' @ name @ ''.json'') of
          None \<Rightarrow> errorf ''pipeline %q does not exist at commit %s'' [name, shortOID commit]
        | Some encoded \<Rightarrow>
            if length encoded > maxPipelineSize then errorf ''pipeline %q exceeds %d bytes'' [name, decimal maxPipelineSize]
            else rbind (wrapError ''parse pipeline %q: '' [name] (rp_DecodePipeline rp encoded)) (\<lambda>pipeline.
              rbind (wrapError ''pipeline %q: '' [name] (validatePipeline pipeline)) (\<lambda>_. Inr (pipeline, encoded, eventID h encoded)))))"

definition changedPathsAt :: "repository \<Rightarrow> string \<Rightarrow> string \<Rightarrow> string list result" where
  "changedPathsAt rp base head = rbind (wrapError ''inspect changed paths: '' [] (rp_DiffTree rp base head)) (\<lambda>raw.
     if length raw = 0 then Inr []
     else if last raw \<noteq> CHR 0x00 then errorf ''changed paths Git output lacks NUL terminator'' []
     else let entries = splitOn CHR 0x00 (butlast raw) in
       if list_ex (\<lambda>entry. length entry = 0) entries then errorf ''changed paths Git output contains empty path'' []
       else Inr (sort entries))"

section \<open>Protected paths\<close>

definition protectedPathMatches :: "string \<Rightarrow> string \<Rightarrow> bool" where
  "protectedPathMatches protected changed \<longleftrightarrow> (let literal = trimSuffix protected ''/'' in
     changed = literal \<or> hasPrefix literal (changed @ ''/'') \<or> hasSuffix protected ''/'' \<and> hasPrefix changed protected)"

definition protectedPaths :: "PolicyDocument \<Rightarrow> string list" where
  "protectedPaths policy = (case py_ProtectedChecks policy of None \<Rightarrow> [] | Some p \<Rightarrow>
     sortedUniqueStrings (elems (pc_Paths p) @ [''.hn/policy.json''] @ map (\<lambda>(name, _). ''.hn/pipelines/'' @ name @ ''.json'') (py_Pipelines policy)))"

definition changedProtectedPaths :: "PolicyDocument \<Rightarrow> string list \<Rightarrow> string list" where
  "changedProtectedPaths policy changed = filter (\<lambda>p. list_ex (\<lambda>protected. protectedPathMatches protected p) (protectedPaths policy)) changed"

record ProtectedChecksEvaluation =
  pe_ChangedPaths :: "string list"
  pe_Required :: int
  pe_Approvals :: "StoredEvent list"

definition protectionReviewQualifies :: "StoredEvent \<Rightarrow> StoredEvent \<Rightarrow> ProtectedChecksPolicy option \<Rightarrow> bool" where
  "protectionReviewQualifies review proposal protection \<longleftrightarrow> (case protection of None \<Rightarrow> False | Some p \<Rightarrow>
     ev_Kind (st_Event review) = ''review.submit'' \<and> ev_Subject (st_Event review) = st_ID proposal \<and> ev_Verdict (st_Event review) = ''approve'' \<and>
     ev_Actor (st_Event review) \<noteq> ev_Actor (st_Event proposal) \<and> actorListed (ev_Actor (st_Event review)) (pc_TrustedReviewers p))"

definition evaluateProtectedChecks :: "PolicyDocument \<Rightarrow> StoredEvent \<Rightarrow> StoredEvent list \<Rightarrow> string list \<Rightarrow> ProtectedChecksEvaluation option" where
  "evaluateProtectedChecks policy proposal events changed = (case py_ProtectedChecks policy of None \<Rightarrow> None | Some p \<Rightarrow>
     Some \<lparr>pe_ChangedPaths = changedProtectedPaths policy changed, pe_Required = pc_RequiredApprovals p,
       pe_Approvals = filter (\<lambda>review. protectionReviewQualifies review proposal (Some p)) (currentReviews events (st_ID proposal))\<rparr>)"

text \<open>The number of distinct actors among facts, the length of the program's set of actors.\<close>

definition actorCount :: "StoredEvent list \<Rightarrow> int" where
  "actorCount es = int (length (remdups (map (\<lambda>s. ev_Actor (st_Event s)) es)))"

definition evidenceOf :: "(string, StoredEvent) gomap \<Rightarrow> StoredEvent \<Rightarrow> StoredEvent list" where
  "evidenceOf byID s = List.map_filter (map_of byID) (elems (ev_Evidence (st_Event s)))"

definition validateProtectedDecisionEvidence :: "PolicyDocument \<Rightarrow> StoredEvent \<Rightarrow> StoredEvent \<Rightarrow> (string, StoredEvent) gomap \<Rightarrow> string list \<Rightarrow> unit result" where
  "validateProtectedDecisionEvidence policy decision proposal byID changed = (case py_ProtectedChecks policy of None \<Rightarrow> Inr () | Some p \<Rightarrow>
     if length (changedProtectedPaths policy changed) = 0 then Inr ()
     else if actorCount (filter (\<lambda>review. protectionReviewQualifies review proposal (Some p)) (evidenceOf byID decision)) < pc_RequiredApprovals p
     then errorf ''decision %s lacks required protected check approval evidence'' [st_ID decision] else Inr ())"

text \<open>\<open>validateProtectedDecisionAt\<close> as \<open>validateDecisionEvent\<close> calls it, in the repository itself.\<close>

definition validateProtectedDecisionAt :: "repository \<Rightarrow> PolicyDocument \<Rightarrow> StoredEvent \<Rightarrow> StoredEvent \<Rightarrow> (string, StoredEvent) gomap \<Rightarrow> unit result" where
  "validateProtectedDecisionAt rp policy decision proposal byID = (case py_ProtectedChecks policy of None \<Rightarrow> Inr () | Some _ \<Rightarrow>
     rbind (wrapError ''protected checks: '' [] (changedPathsAt rp (ev_Base (st_Event proposal)) (ev_Head (st_Event proposal))))
       (validateProtectedDecisionEvidence policy decision proposal byID))"

section \<open>The evaluation of a proposal\<close>

definition contributionAdmitted :: "StoredEvent list \<Rightarrow> View option \<Rightarrow> StoredEvent list" where
  "contributionAdmitted events v = (case v of None \<Rightarrow> events | Some v \<Rightarrow>
     filter (\<lambda>s. (isIssueKind (ev_Kind (st_Event s)) \<or> isResourceKind (ev_Kind (st_Event s)) \<or> isProposalKind (ev_Kind (st_Event s))) \<longrightarrow>
       st_ID s \<in> set (vw_Admitted v)) events)"

definition contributionOperativeEvidence :: "StoredEvent list \<Rightarrow> View option \<Rightarrow> StoredEvent list" where
  "contributionOperativeEvidence events v = (case v of None \<Rightarrow> contributionAdmitted events v | Some w \<Rightarrow>
     filter (\<lambda>s. \<not> (ev_Kind (st_Event s) \<in> {''proposal.merged'', ''proposal.decision'', ''review.submit'', ''run.request''} \<and>
       ev_Subject (st_Event s) \<notin> set (vw_Admitted w))) (contributionAdmitted events v))"

record PipelineEvaluation =
  pv_Name :: string
  pv_Required :: int
  pv_Passed :: "StoredEvent list"
  pv_Failed :: "StoredEvent list"

record ProposalEvaluation =
  pe_Proposal :: StoredEvent
  pe_DisplayTitle :: string
  pe_Lineage :: proposalLineageState
  pe_Policy :: PolicyDocument
  pe_PolicyDigest :: string
  pe_CodeAvailable :: bool
  pe_CodeMatches :: bool
  pe_ReviewApprovals :: "StoredEvent list"
  pe_ChangeRequests :: "StoredEvent list"
  pe_Pipelines :: "PipelineEvaluation list"
  pe_AcceptDecisions :: "StoredEvent list"
  pe_RejectDecisions :: "StoredEvent list"
  pe_MergeEvents :: "StoredEvent list"
  pe_Ready :: bool
  pe_Accepted :: bool
  pe_Rejected :: bool
  pe_Merged :: bool
  pe_Evidence :: "string list"
  pe_ProtectedChecks :: "ProtectedChecksEvaluation option"

definition qualifyingRequest :: "PolicyDocument \<Rightarrow> string \<Rightarrow> string \<Rightarrow> string \<Rightarrow> StoredEvent \<Rightarrow> bool" where
  "qualifyingRequest policy proposalID name expectedDefinition request \<longleftrightarrow> \<not> (ev_Kind (st_Event request) \<noteq> ''run.request'' \<or>
     ev_Subject (st_Event request) \<noteq> proposalID \<or> ev_Pipeline (st_Event request) \<noteq> name \<or>
     ev_Definition (st_Event request) \<noteq> expectedDefinition \<or> \<not> mayRequestRun policy name (ev_Actor (st_Event request)))"

text \<open>The nested loop: the results of every qualifying request by trusted runners, the latest per runner.\<close>

definition runnerResults :: "PolicyDocument \<Rightarrow> PipelinePolicy \<Rightarrow> string \<Rightarrow> string \<Rightarrow> string \<Rightarrow> StoredEvent list \<Rightarrow> StoredEvent list" where
  "runnerResults policy pp proposalID name expectedDefinition events = map snd (latestByActor (concat (map
     (\<lambda>request. filter (\<lambda>result. actorListed (ev_Actor (st_Event result)) (pp_TrustedRunners pp)) (currentRunResults events (st_ID request)))
     (filter (qualifyingRequest policy proposalID name expectedDefinition) events))))"

definition evaluatePipelineResults :: "string \<Rightarrow> string \<Rightarrow> string \<Rightarrow> StoredEvent list \<Rightarrow> PolicyDocument \<Rightarrow> PipelineEvaluation \<times> bool" where
  "evaluatePipelineResults proposalID name expectedDefinition events policy = (case map_of (py_Pipelines policy) name of
       None \<Rightarrow> (\<lparr>pv_Name = name, pv_Required = 0, pv_Passed = [], pv_Failed = []\<rparr>, False)
     | Some pp \<Rightarrow> let results = runnerResults policy pp proposalID name expectedDefinition events in
         (\<lparr>pv_Name = name, pv_Required = pp_RequiredResults pp,
           pv_Passed = sortStoredEvents (filter (\<lambda>r. ev_Outcome (st_Event r) = ''passed'') results),
           pv_Failed = sortStoredEvents (filter (\<lambda>r. ev_Outcome (st_Event r) \<noteq> ''passed'') results)\<rparr>, True))"

definition countingReviews :: "PolicyDocument \<Rightarrow> StoredEvent \<Rightarrow> StoredEvent list \<Rightarrow> StoredEvent list" where
  "countingReviews policy proposal events = filter (\<lambda>review. actorListed (ev_Actor (st_Event review)) (pr_TrustedReviewers (py_Proposals policy)) \<and>
     \<not> (\<not> pr_AllowAuthorApproval (py_Proposals policy) \<and> ev_Actor (st_Event review) = ev_Actor (st_Event proposal))) (currentReviews events (st_ID proposal))"

fun evaluatePipelines :: "host \<Rightarrow> repository \<Rightarrow> StoredEvent \<Rightarrow> bool \<Rightarrow> StoredEvent list \<Rightarrow> PolicyDocument \<Rightarrow> string list \<Rightarrow> PipelineEvaluation list result" where
  "evaluatePipelines h rp proposal codeMatches events policy [] = Inr []"
| "evaluatePipelines h rp proposal codeMatches events policy (name # names) =
     rbind (if codeMatches then rbind (wrapError ''required pipeline %q: '' [name] (loadPipeline h rp (ev_Head (st_Event proposal)) name)) (\<lambda>(_, _, definition). Inr definition)
            else Inr []) (\<lambda>expectedDefinition.
     rbind (evaluatePipelines h rp proposal codeMatches events policy names) (\<lambda>rest.
     Inr (fst (evaluatePipelineResults (st_ID proposal) name expectedDefinition events policy) # rest)))"

definition currentDecisions :: "PolicyDocument \<Rightarrow> string \<Rightarrow> string \<Rightarrow> StoredEvent list \<Rightarrow> StoredEvent list" where
  "currentDecisions policy digest proposalID events = map snd (latestByActor (filter (\<lambda>s. \<not> (ev_Kind (st_Event s) \<noteq> ''proposal.decision'' \<or>
     ev_Subject (st_Event s) \<noteq> proposalID \<or> ev_Policy (st_Event s) \<noteq> digest \<or> \<not> actorListed (ev_Actor (st_Event s)) (py_Maintainers policy))) events))"

text \<open>The part of \<open>evaluateProposal\<close> after everything has been loaded.\<close>

definition evaluation :: "StoredEvent \<Rightarrow> string \<Rightarrow> proposalLineageState \<Rightarrow> PolicyDocument \<Rightarrow> string \<Rightarrow> string option \<Rightarrow> StoredEvent list \<Rightarrow>
    PipelineEvaluation list \<Rightarrow> ProtectedChecksEvaluation option \<Rightarrow> ProposalEvaluation" where
  "evaluation proposal title lineage policy digest head events pipelines protection =
     (let matches = (head = Some (ev_Head (st_Event proposal)));
          reviews = countingReviews policy proposal events;
          approvals = filter (\<lambda>r. ev_Verdict (st_Event r) = ''approve'') reviews;
          decisions = currentDecisions policy digest (st_ID proposal) events;
          accepts = sortStoredEvents (filter (\<lambda>d. ev_Verdict (st_Event d) = ''accept'') decisions);
          rejects = sortStoredEvents (filter (\<lambda>d. ev_Verdict (st_Event d) \<noteq> ''accept'') decisions);
          merges = sortStoredEvents (filter (\<lambda>s. ev_Kind (st_Event s) = ''proposal.merged'' \<and> ev_Subject (st_Event s) = st_ID proposal \<and> ev_Policy (st_Event s) = digest) events);
          guarded = (case protection of None \<Rightarrow> False | Some p \<Rightarrow> length (pe_ChangedPaths p) > 0);
          protectors = (case protection of None \<Rightarrow> [] | Some p \<Rightarrow> if guarded then pe_Approvals p else [])
      in \<lparr>pe_Proposal = proposal, pe_DisplayTitle = title, pe_Lineage = lineage, pe_Policy = policy, pe_PolicyDigest = digest,
          pe_CodeAvailable = (head \<noteq> None), pe_CodeMatches = matches, pe_ReviewApprovals = approvals,
          pe_ChangeRequests = filter (\<lambda>r. ev_Verdict (st_Event r) \<noteq> ''approve'') reviews, pe_Pipelines = pipelines,
          pe_AcceptDecisions = accepts, pe_RejectDecisions = rejects, pe_MergeEvents = merges,
          pe_Ready = (matches \<and> int (length approvals) \<ge> pr_RequiredApprovals (py_Proposals policy) \<and>
            list_all (\<lambda>p. int (length (pv_Passed p)) \<ge> pv_Required p) pipelines \<and>
            (case protection of None \<Rightarrow> True | Some p \<Rightarrow> guarded \<longrightarrow> int (length (pe_Approvals p)) \<ge> pe_Required p)),
          pe_Accepted = (length rejects = 0 \<and> int (length accepts) \<ge> pr_RequiredAccepts (py_Proposals policy)),
          pe_Rejected = (length rejects > 0), pe_Merged = (length merges > 0),
          pe_Evidence = sortedUniqueStrings (map st_ID approvals @ concat (map (\<lambda>p. map st_ID (pv_Passed p)) pipelines) @ map st_ID protectors),
          pe_ProtectedChecks = protection\<rparr>)"

definition evaluateGoverned :: "host \<Rightarrow> repository \<Rightarrow> StoredEvent \<Rightarrow> StoredEvent list \<Rightarrow> ProposalEvaluation result" where
  "evaluateGoverned h rp proposal events =
     (if \<not> isProposalKind (ev_Kind (st_Event proposal)) then errorf ''%s is not a proposal'' [shortID (st_ID proposal)]
      else rbind (buildLineageIndex events) (\<lambda>lineage.
      rbind (lineageState lineage (st_ID proposal)) (\<lambda>state.
      rbind (candidate lineage (ls_RootID state)) (\<lambda>rootProposal.
      rbind (loadPolicy h rp (ev_Base (st_Event proposal))) (\<lambda>(policy, digest).
      rbind (rp_ProposalHead rp (st_ID proposal)) (\<lambda>head.
      rbind (evaluatePipelines h rp proposal (head = Some (ev_Head (st_Event proposal))) events policy (sort (map fst (py_Pipelines policy)))) (\<lambda>pipelines.
      rbind (case py_ProtectedChecks policy of None \<Rightarrow> Inr None | Some _ \<Rightarrow>
               rbind (wrapError ''protected checks: '' [] (changedPathsAt rp (ev_Base (st_Event proposal)) (ev_Head (st_Event proposal)))) (\<lambda>changed.
                 Inr (evaluateProtectedChecks policy proposal events changed))) (\<lambda>protection.
      Inr (evaluation proposal (ev_Title (st_Event rootProposal)) state policy digest head events pipelines protection)))))))))"

definition evaluateProposal :: "host \<Rightarrow> repository \<Rightarrow> StoredEvent \<Rightarrow> StoredEvent list \<Rightarrow> ProposalEvaluation result" where
  "evaluateProposal h rp proposal events = rbind (rp_ContributionView rp events) (\<lambda>view. case view of
       None \<Rightarrow> evaluateGoverned h rp proposal events
     | Some v \<Rightarrow>
         if st_ID proposal \<notin> set (vw_Admitted v) \<or> st_ID proposal \<notin> set (vw_Visible v)
         then errorf ''proposal is not admitted and visible under current contribution authority'' []
         else evaluateGoverned h rp proposal (contributionOperativeEvidence events view))"

section \<open>Decisions and merges\<close>

definition countsApproval :: "PolicyDocument \<Rightarrow> StoredEvent \<Rightarrow> StoredEvent \<Rightarrow> bool" where
  "countsApproval policy proposal e \<longleftrightarrow> ev_Kind (st_Event e) = ''review.submit'' \<and> ev_Subject (st_Event e) = st_ID proposal \<and>
     ev_Verdict (st_Event e) = ''approve'' \<and> actorListed (ev_Actor (st_Event e)) (pr_TrustedReviewers (py_Proposals policy)) \<and>
     (pr_AllowAuthorApproval (py_Proposals policy) \<or> ev_Actor (st_Event e) \<noteq> ev_Actor (st_Event proposal))"

text \<open>The pipeline for which a result of the evidence counts; \<open>definitions\<close> holds the definition of every required pipeline.\<close>

definition countsResult :: "PolicyDocument \<Rightarrow> StoredEvent \<Rightarrow> (string, StoredEvent) gomap \<Rightarrow> (string, string) gomap \<Rightarrow> string \<Rightarrow> StoredEvent \<Rightarrow> bool" where
  "countsResult policy proposal byID definitions name e \<longleftrightarrow> ev_Kind (st_Event e) = ''run.result'' \<and>
     (case map_of byID (ev_Subject (st_Event e)) of None \<Rightarrow> False | Some request \<Rightarrow>
        \<not> (ev_Kind (st_Event request) \<noteq> ''run.request'' \<or> ev_Subject (st_Event request) \<noteq> st_ID proposal \<or>
           \<not> mayRequestRun policy (ev_Pipeline (st_Event request)) (ev_Actor (st_Event request)) \<or> ev_Outcome (st_Event e) \<noteq> ''passed'') \<and>
        ev_Pipeline (st_Event request) = name \<and>
        (case map_of (py_Pipelines policy) name of None \<Rightarrow> False | Some pp \<Rightarrow>
           map_of definitions name = Some (ev_Definition (st_Event request)) \<and> actorListed (ev_Actor (st_Event e)) (pp_TrustedRunners pp)))"

fun pipelineDefinitions :: "host \<Rightarrow> repository \<Rightarrow> StoredEvent \<Rightarrow> StoredEvent \<Rightarrow> string list \<Rightarrow> (string, string) gomap result" where
  "pipelineDefinitions h rp decision proposal [] = Inr []"
| "pipelineDefinitions h rp decision proposal (name # names) =
     rbind (wrapError ''decision %s required pipeline %q: '' [shortID (st_ID decision), name] (loadPipeline h rp (ev_Head (st_Event proposal)) name)) (\<lambda>(_, _, definition).
     rbind (pipelineDefinitions h rp decision proposal names) (\<lambda>rest. Inr ((name, definition) # rest)))"

definition validateDecisionEvent :: "host \<Rightarrow> repository \<Rightarrow> StoredEvent \<Rightarrow> StoredEvent \<Rightarrow> (string, StoredEvent) gomap \<Rightarrow> unit result" where
  "validateDecisionEvent h rp decision proposal byID =
     rbind (wrapError ''decision %s: '' [shortID (st_ID decision)] (loadPolicy h rp (ev_Base (st_Event proposal)))) (\<lambda>(policy, digest).
     if ev_Policy (st_Event decision) \<noteq> digest \<or> \<not> actorListed (ev_Actor (st_Event decision)) (py_Maintainers policy)
     then errorf ''decision %s is not authorized by the proposal policy'' [shortID (st_ID decision)]
     else if ev_Verdict (st_Event decision) = ''reject'' then Inr ()
     else rbind (validateProtectedDecisionAt rp policy decision proposal byID) (\<lambda>_.
     rbind (pipelineDefinitions h rp decision proposal (map fst (py_Pipelines policy))) (\<lambda>definitions.
     rbind (forEach (\<lambda>i. if map_of byID i = None
              then errorf ''decision %s references unavailable evidence %s'' [shortID (st_ID decision), shortID i] else Inr ())
              (elems (ev_Evidence (st_Event decision)))) (\<lambda>_.
     if actorCount (filter (countsApproval policy proposal) (evidenceOf byID decision)) < pr_RequiredApprovals (py_Proposals policy)
     then errorf ''decision %s lacks required approval evidence'' [shortID (st_ID decision)]
     else forEach (\<lambda>(name, pp).
       if actorCount (filter (countsResult policy proposal byID definitions name) (evidenceOf byID decision)) < pp_RequiredResults pp
       then errorf ''decision %s lacks required %s results'' [shortID (st_ID decision), name] else Inr ()) (py_Pipelines policy)))))"

definition countsAcceptance :: "PolicyDocument \<Rightarrow> string \<Rightarrow> StoredEvent \<Rightarrow> StoredEvent \<Rightarrow> bool" where
  "countsAcceptance policy digest proposal d \<longleftrightarrow> \<not> (ev_Kind (st_Event d) \<noteq> ''proposal.decision'' \<or> ev_Subject (st_Event d) \<noteq> st_ID proposal \<or>
     ev_Policy (st_Event d) \<noteq> digest \<or> ev_Verdict (st_Event d) \<noteq> ''accept'' \<or> \<not> actorListed (ev_Actor (st_Event d)) (py_Maintainers policy))"

definition validateMergeEvent :: "host \<Rightarrow> repository \<Rightarrow> StoredEvent \<Rightarrow> StoredEvent \<Rightarrow> (string, StoredEvent) gomap \<Rightarrow> unit result" where
  "validateMergeEvent h rp merge proposal byID =
     rbind (wrapError ''merge %s: '' [shortID (st_ID merge)] (loadPolicy h rp (ev_Base (st_Event proposal)))) (\<lambda>(policy, digest).
     if ev_Policy (st_Event merge) \<noteq> digest \<or> \<not> actorListed (ev_Actor (st_Event merge)) (py_Maintainers policy)
     then errorf ''merge %s is not authorized by the proposal policy'' [shortID (st_ID merge)]
     else if actorCount (filter (countsAcceptance policy digest proposal) (evidenceOf byID merge)) < pr_RequiredAccepts (py_Proposals policy)
     then errorf ''merge %s lacks required acceptance evidence'' [shortID (st_ID merge)] else Inr ())"

definition sortedDecisionIDs :: "StoredEvent list \<Rightarrow> string list" where
  "sortedDecisionIDs decisions = sort (map st_ID decisions)"

text \<open>What \<open>hn decide\<close> and \<open>appendProposalMergeEvent\<close> write into the positioned fact.\<close>

definition acceptFact :: "StoredEvent \<Rightarrow> ProposalEvaluation \<Rightarrow> string \<Rightarrow> Event \<Rightarrow> Event" where
  "acceptFact proposal ev body event = event\<lparr>ev_Subject := st_ID proposal, ev_Policy := pe_PolicyDigest ev, ev_Body := body,
     ev_Verdict := ''accept'', ev_Evidence := (if pe_Evidence ev = [] then None else Some (pe_Evidence ev))\<rparr>"

definition mergeFact :: "StoredEvent \<Rightarrow> ProposalEvaluation \<Rightarrow> string \<Rightarrow> Event \<Rightarrow> Event" where
  "mergeFact proposal ev mergeCommit event = event\<lparr>ev_Subject := st_ID proposal, ev_Policy := pe_PolicyDigest ev,
     ev_Head := ev_Head (st_Event proposal), ev_Commit := mergeCommit, ev_Evidence := Some (sortedDecisionIDs (pe_AcceptDecisions ev))\<rparr>"

definition proposalStatus :: "ProposalEvaluation \<Rightarrow> string" where
  "proposalStatus ev =
     (if ls_MergeConflict (pe_Lineage ev) then ''merge conflict''
      else if pe_Merged ev then ''merged''
      else if ls_LineageClosed (pe_Lineage ev) then ''lineage closed''
      else if ls_Superseded (pe_Lineage ev) then ''superseded''
      else if pe_Rejected ev then ''rejected''
      else if pe_Accepted ev then ''accepted''
      else if pe_Ready ev then ''ready for decision''
      else ''blocked'')"

section \<open>Automatic work\<close>

definition runnerSkipReason :: "host \<Rightarrow> repository \<Rightarrow> StoredEvent list \<Rightarrow> lineageIndex \<Rightarrow> StoredEvent \<Rightarrow> string result" where
  "runnerSkipReason h rp events lineage request =
     rbind (candidate lineage (ev_Subject (st_Event request))) (\<lambda>proposal.
     if ev_Head (st_Event proposal) \<noteq> ev_Commit (st_Event request) then errorf ''run request does not match its signed proposal'' []
     else rbind (lineageState lineage (st_ID proposal)) (\<lambda>state.
     if ls_MergeConflict state then Inr ''lineage merge conflict''
     else if ls_Merged state then Inr ''proposal merged''
     else if ls_LineageClosed state then Inr ''lineage closed''
     else if ls_Superseded state then Inr ''proposal superseded''
     else rbind (loadPolicy h rp (ev_Base (st_Event proposal))) (\<lambda>(policy, _).
     if map_of (py_Pipelines policy) (ev_Pipeline (st_Event request)) = None then Inr []
     else rbind (loadPipeline h rp (ev_Head (st_Event proposal)) (ev_Pipeline (st_Event request))) (\<lambda>(_, _, definition).
     if definition \<noteq> ev_Definition (st_Event request) then errorf ''pipeline definition does not match the signed run request'' []
     else case evaluatePipelineResults (st_ID proposal) (ev_Pipeline (st_Event request)) definition events policy of (ev, required) \<Rightarrow>
       if required \<and> int (length (pv_Passed ev)) \<ge> pv_Required ev
       then Inr (''pipeline satisfied by '' @ decimal (length (pv_Passed ev)) @ '' qualifying trusted results (required '' @ decimal (nat (pv_Required ev)) @ '')'')
       else Inr []))))"

definition automergePathAllowed :: "string list \<Rightarrow> string \<Rightarrow> bool" where
  "automergePathAllowed allowed changed \<longleftrightarrow> list_ex (\<lambda>p. if hasSuffix p ''/'' then hasPrefix changed p else p = changed) allowed"

record automergeInspection =
  ai_Proposal :: StoredEvent
  ai_Evaluation :: ProposalEvaluation
  ai_Rule :: "AutomergeRule option"
  ai_Branch :: string
  ai_Current :: string
  ai_Changed :: "string list"
  ai_Blockers :: "go_error list"

text \<open>A blocker is a message with its arguments.  What the inspection reads of the checkout: the symbolic ref and commit of \<open>HEAD\<close>, ancestry, and the worktree status.\<close>

record checkout =
  ck_Repository :: "unit result"
  ck_SymbolicRef :: "string option"
  ck_Head :: "string result"
  ck_Ancestor :: "string \<Rightarrow> string \<Rightarrow> (bool \<times> string) result"
  ck_Status :: "string result"

definition blockIf :: "bool \<Rightarrow> string \<Rightarrow> string list \<Rightarrow> go_error list" where
  "blockIf b reason args = (if b then [Errorf reason args] else [])"

definition ruleBlockers :: "StoredEvent \<Rightarrow> string \<Rightarrow> string list \<Rightarrow> AutomergeRule option \<Rightarrow> go_error list" where
  "ruleBlockers proposal branch changed rule = (case rule of None \<Rightarrow> [] | Some r \<Rightarrow>
     blockIf (branch \<noteq> am_TargetBranch r) ''checked-out branch does not match rule target %q'' [am_TargetBranch r] @
     blockIf (\<not> actorListed (ev_Actor (st_Event proposal)) (am_Authors r)) ''proposal author is not allowed by the rule'' [] @
     concat (map (\<lambda>p. blockIf (\<not> automergePathAllowed (elems (am_Paths r)) p) ''changed path %q is outside the rule allowlist'' [p]) changed))"

definition evaluationBlockers :: "ProposalEvaluation \<Rightarrow> StoredEvent \<Rightarrow> StoredEvent list \<Rightarrow> go_error list" where
  "evaluationBlockers ev proposal events =
     (case requireLineageTerminalEligibility ''automerge'' (st_ID proposal) (pe_Lineage ev) of Inl e \<Rightarrow> [e] | Inr _ \<Rightarrow> []) @
     blockIf (pe_Merged ev) ''proposal is already recorded as merged'' [] @
     blockIf (\<not> pe_CodeMatches ev) ''proposal code ref does not match its signed head'' [] @
     blockIf (\<not> pe_Ready ev) ''current approval, protected check or CI evidence is not ready'' [] @
     blockIf (\<not> pe_Accepted ev) ''current required maintainer acceptances are missing'' [] @
     blockIf (pe_Rejected ev) ''proposal has a current maintainer rejection'' [] @
     blockIf (list_ex (\<lambda>r. ev_Verdict (st_Event r) = ''request-changes'' \<and> actorListed (ev_Actor (st_Event r)) (pr_TrustedReviewers (py_Proposals (pe_Policy ev))))
       (currentReviews events (st_ID proposal))) ''proposal has a current trusted change request'' [] @
     concat (map (\<lambda>p. blockIf (length (pv_Failed p) > 0) ''pipeline %q has a current trusted failure'' [pv_Name p]) (pe_Pipelines ev))"

definition pathBlockers :: "PolicyDocument \<Rightarrow> string list \<Rightarrow> go_error list" where
  "pathBlockers policy changed =
     blockIf (length changed = 0) ''proposal has no changed paths'' [] @
     blockIf (list_ex (protectedPathMatches ''.hn/policy.json'') changed) ''policy amendments require manual merge'' [] @
     blockIf (length (changedProtectedPaths policy changed) > 0) ''protected check changes require manual merge'' []"

definition chosenRule :: "PolicyDocument \<Rightarrow> string \<Rightarrow> AutomergeRule option" where
  "chosenRule policy ruleName = (case py_Automerge policy of None \<Rightarrow> None | Some p \<Rightarrow> find (\<lambda>r. am_Name r = ruleName) (ag_Rules p))"

definition inspectAutomerge :: "host \<Rightarrow> repository \<Rightarrow> checkout \<Rightarrow> StoredEvent list \<Rightarrow> string \<Rightarrow> string \<Rightarrow> automergeInspection result" where
  "inspectAutomerge h rp ck events query ruleName =
     rbind (ck_Repository ck) (\<lambda>_.
     rbind (resolveFullEvent events query) (\<lambda>proposal.
     if \<not> isProposalKind (ev_Kind (st_Event proposal)) then errorf ''%s is not a proposal'' [query]
     else rbind (evaluateProposal h rp proposal events) (\<lambda>ev.
     let full = (case ck_SymbolicRef ck of None \<Rightarrow> [] | Some b \<Rightarrow> trimSpace b);
         branch = (if hasPrefix full ''refs/heads/'' then trimPrefix full ''refs/heads/'' else []);
         branchBlockers = (if ck_SymbolicRef ck = None then [Errorf ''requires a checked-out target branch'' []]
           else blockIf (\<not> hasPrefix full ''refs/heads/'') ''HEAD must name a local target branch'' [])
     in
     rbind (ck_Head ck) (\<lambda>current.
     rbind (changedPathsAt rp (ev_Base (st_Event proposal)) (ev_Head (st_Event proposal))) (\<lambda>changed.
     let rule = chosenRule (pe_Policy ev) ruleName;
         noRule = (if py_Automerge (pe_Policy ev) = None then [Errorf ''automerge is disabled in the signed base policy'' []]
           else blockIf (rule = None) ''automerge rule %q does not exist in the signed base policy'' [ruleName])
     in
     rbind (ck_Ancestor ck (ev_Base (st_Event proposal)) (ev_Head (st_Event proposal))) (\<lambda>(ancestor, missing).
     rbind (wrapError ''inspect current target policy: '' [] (loadPolicy h rp current)) (\<lambda>(_, targetDigest).
     rbind (ck_Status ck) (\<lambda>status.
     Inr \<lparr>ai_Proposal = proposal, ai_Evaluation = ev, ai_Rule = rule, ai_Branch = branch, ai_Current = current, ai_Changed = changed,
       ai_Blockers = branchBlockers @ noRule @ evaluationBlockers ev proposal events @
         blockIf (current \<noteq> ev_Base (st_Event proposal)) ''target no longer equals the signed base; revise the candidate (use hn merge for a missing merge-event repair)'' [] @
         pathBlockers (pe_Policy ev) changed @ ruleBlockers proposal branch changed rule @
         blockIf (\<not> ancestor \<or> missing \<noteq> []) ''signed head is not a locally verifiable descendant of the signed base'' [] @
         blockIf (targetDigest \<noteq> pe_PolicyDigest ev) ''current target policy differs from the signed base policy'' [] @
         blockIf (length status > 0) ''worktree and index must be clean before automerge'' []\<rparr>))))))))"

fun semicolonJoin :: "string list \<Rightarrow> string" where
  "semicolonJoin [] = []"
| "semicolonJoin [s] = s"
| "semicolonJoin (s # t # ts) = s @ ''; '' @ semicolonJoin (t # ts)"

definition eligible :: "automergeInspection \<Rightarrow> unit result" where
  "eligible i = (if length (ai_Blockers i) > 0
     then errorf (''automerge blocked: '' @ semicolonJoin (map errorFormat (ai_Blockers i)))
       (concat (map errorArgs (ai_Blockers i)))
     else Inr ())"

end
