(* ===== verification/HN_Merge.thy ===== *)
theory HN_Merge
  imports HN_Governance "HOL-Library.Sublist"
begin

text \<open>
  What the evaluation of a proposal (\<open>src/policy.go\<close>) promises to the rest of the program: its quorums count distinct
  trusted actors, the evidence it collects satisfies the validators of the facts that are signed on it, and
  an automatic merge (\<open>src/automerge.go\<close>) passes only under all of its conditions.
\<close>

section \<open>Counting actors\<close>

abbreviation actorOf :: "StoredEvent \<Rightarrow> string" where
  "actorOf s \<equiv> ev_Actor (st_Event s)"

lemma actorCount_card: "actorCount es = int (card (actorOf ` set es))"
  by (simp add: actorCount_def length_remdups_card_conv)

lemma actorCount_ge:
  assumes "distinct (map actorOf xs)" "set xs \<subseteq> set ys"
  shows "int (length xs) \<le> actorCount ys"
proof -
  have "length xs = card (actorOf ` set xs)" using distinct_card [OF assms(1)] by simp
  also have "\<dots> \<le> card (actorOf ` set ys)" using assms(2) by (intro card_mono) auto
  finally show ?thesis by (simp add: actorCount_card)
qed

lemma distinct_actors_filter: "distinct (map actorOf xs) \<Longrightarrow> distinct (map actorOf (filter P xs))"
  by (rule distinct_map_filter)

lemma distinct_actors_sort: "distinct (map actorOf (sortStoredEvents xs)) = distinct (map actorOf xs)"
proof -
  have "mset (map actorOf (sortStoredEvents xs)) = mset (map actorOf xs)" by (simp add: sortStoredEvents_def)
  then show ?thesis by (rule mset_eq_imp_distinct_iff)
qed

section \<open>What the selections select\<close>

lemma evidenceOf_iff: "e \<in> set (evidenceOf byID s) \<longleftrightarrow> (\<exists>i \<in> set (elems (ev_Evidence (st_Event s))). map_of byID i = Some e)"
  by (force simp: evidenceOf_def List.map_filter_def)

lemma countingReviews_props:
  "distinct (map actorOf (countingReviews policy proposal es))"
  "r \<in> set (countingReviews policy proposal es) \<Longrightarrow> r \<in> set es \<and> (ev_Verdict (st_Event r) = ''approve'' \<longrightarrow> countsApproval policy proposal r)"
  using currentReviews_actors [of es "st_ID proposal"] currentReviews_mem [of r es "st_ID proposal"]
  by (auto simp: countingReviews_def countsApproval_def intro: distinct_actors_filter)

lemma currentRunResults_mem: "r \<in> set (currentRunResults es q) \<Longrightarrow>
    r \<in> set es \<and> ev_Kind (st_Event r) = ''run.result'' \<and> ev_Subject (st_Event r) = q"
  using latestByActor_subset [of "filter (\<lambda>s. \<not> (ev_Kind (st_Event s) \<noteq> ''run.result'' \<or> ev_Subject (st_Event s) \<noteq> q)) es"]
  by (fastforce simp: currentRunResults_def)

lemma runnerResults_props:
  "distinct (map actorOf (runnerResults policy pp i name defn es))"
  "r \<in> set (runnerResults policy pp i name defn es) \<Longrightarrow> r \<in> set es \<and> ev_Kind (st_Event r) = ''run.result'' \<and> actorOf r \<in> set (pp_TrustedRunners pp) \<and>
     (\<exists>request \<in> set es. qualifyingRequest policy i name defn request \<and> ev_Subject (st_Event r) = st_ID request)"
proof -
  show "distinct (map actorOf (runnerResults policy pp i name defn es))" unfolding runnerResults_def by (rule latestByActor_actors)
  let ?all = "concat (map (\<lambda>request. filter (\<lambda>result. actorListed (actorOf result) (pp_TrustedRunners pp)) (currentRunResults es (st_ID request)))
     (filter (qualifyingRequest policy i name defn) es))"
  assume "r \<in> set (runnerResults policy pp i name defn es)"
  then have "r \<in> set ?all" using latestByActor_subset [of ?all] unfolding runnerResults_def by auto
  then obtain request where q: "request \<in> set es" "qualifyingRequest policy i name defn request" "actorOf r \<in> set (pp_TrustedRunners pp)"
    "r \<in> set (currentRunResults es (st_ID request))" by auto
  then show "r \<in> set es \<and> ev_Kind (st_Event r) = ''run.result'' \<and> actorOf r \<in> set (pp_TrustedRunners pp) \<and>
     (\<exists>request \<in> set es. qualifyingRequest policy i name defn request \<and> ev_Subject (st_Event r) = st_ID request)"
    using currentRunResults_mem [OF q(4)] by blast
qed

lemma currentDecisions_props:
  "distinct (map actorOf (currentDecisions policy digest i es))"
  "d \<in> set (currentDecisions policy digest i es) \<Longrightarrow> d \<in> set es \<and> ev_Kind (st_Event d) = ''proposal.decision'' \<and> ev_Subject (st_Event d) = i \<and>
     ev_Policy (st_Event d) = digest \<and> actorOf d \<in> set (py_Maintainers policy)"
proof -
  show "distinct (map actorOf (currentDecisions policy digest i es))" unfolding currentDecisions_def by (rule latestByActor_actors)
  assume "d \<in> set (currentDecisions policy digest i es)"
  then show "d \<in> set es \<and> ev_Kind (st_Event d) = ''proposal.decision'' \<and> ev_Subject (st_Event d) = i \<and>
     ev_Policy (st_Event d) = digest \<and> actorOf d \<in> set (py_Maintainers policy)"
    using latestByActor_subset [of "filter (\<lambda>s. \<not> (ev_Kind (st_Event s) \<noteq> ''proposal.decision'' \<or> ev_Subject (st_Event s) \<noteq> i \<or>
      ev_Policy (st_Event s) \<noteq> digest \<or> \<not> actorListed (actorOf s) (py_Maintainers policy))) es"] unfolding currentDecisions_def by fastforce
qed

section \<open>Inside the evaluation\<close>

lemma operativeEvidence_subset: "set (contributionOperativeEvidence es v) \<subseteq> set es"
  by (auto simp: contributionOperativeEvidence_def contributionAdmitted_def split: option.splits)

definition protectionOf :: "repository \<Rightarrow> PolicyDocument \<Rightarrow> StoredEvent \<Rightarrow> StoredEvent list \<Rightarrow> ProtectedChecksEvaluation option \<Rightarrow> bool" where
  "protectionOf rp policy proposal es protection \<longleftrightarrow> (case py_ProtectedChecks policy of None \<Rightarrow> protection = None | Some p \<Rightarrow>
     (\<exists>changed. changedPathsAt rp (ev_Base (st_Event proposal)) (ev_Head (st_Event proposal)) = Inr changed \<and>
       protection = evaluateProtectedChecks policy proposal es changed))"

lemma evaluateProposal_parts:
  assumes "evaluateProposal h rp proposal events = Inr ev"
  obtains es title state policy digest head pipelines protection where "set es \<subseteq> set events" "loadPolicy h rp (ev_Base (st_Event proposal)) = Inr (policy, digest)"
    "evaluatePipelines h rp proposal (head = Some (ev_Head (st_Event proposal))) es policy (sort (map fst (py_Pipelines policy))) = Inr pipelines"
    "protectionOf rp policy proposal es protection"
    "ev = evaluation proposal title state policy digest head es pipelines protection"
proof -
  obtain es where es: "set es \<subseteq> set events" "evaluateGoverned h rp proposal es = Inr ev"
  proof -
    obtain view where v: "rp_ContributionView rp events = Inr view" using assms by (auto simp: evaluateProposal_def rbind_eq_Inr)
    show ?thesis
    proof (cases view)
      case None
      then show ?thesis using assms v that [of events] by (simp add: evaluateProposal_def)
    next
      case (Some w)
      then have "evaluateGoverned h rp proposal (contributionOperativeEvidence events view) = Inr ev"
        using assms v by (simp add: evaluateProposal_def split: if_splits)
      then show ?thesis using that operativeEvidence_subset by blast
    qed
  qed
  let ?load = "\<lambda>policy. case py_ProtectedChecks policy of None \<Rightarrow> Inr None | Some _ \<Rightarrow>
    rbind (wrapError ''protected checks: '' [] (changedPathsAt rp (ev_Base (st_Event proposal)) (ev_Head (st_Event proposal)))) (\<lambda>changed.
      Inr (evaluateProtectedChecks policy proposal es changed))"
  obtain title state policy digest head pipelines protection where p: "loadPolicy h rp (ev_Base (st_Event proposal)) = Inr (policy, digest)"
    "evaluatePipelines h rp proposal (head = Some (ev_Head (st_Event proposal))) es policy (sort (map fst (py_Pipelines policy))) = Inr pipelines"
    "?load policy = Inr protection" "ev = evaluation proposal title state policy digest head es pipelines protection"
    using es(2) by (auto simp: evaluateGoverned_def rbind_eq_Inr simp del: not_None_eq split: if_splits)
  have "protectionOf rp policy proposal es protection"
    using p(3) by (cases "py_ProtectedChecks policy") (auto simp: rbind_eq_Inr protectionOf_def)
  then show ?thesis using that [OF es(1) p(1,2) _ p(4)] by blast
qed

lemma evaluatePipelines_props:
  assumes "evaluatePipelines h rp proposal matches es policy names = Inr ps" "name \<in> set names"
  shows "\<exists>defn. (matches \<longrightarrow> (\<exists>a b. loadPipeline h rp (ev_Head (st_Event proposal)) name = Inr (a, b, defn))) \<and>
    fst (evaluatePipelineResults (st_ID proposal) name defn es policy) \<in> set ps"
  using assms
proof (induction names arbitrary: ps)
  case (Cons n ns)
  obtain defn rest where r: "evaluatePipelines h rp proposal matches es policy ns = Inr rest"
    "ps = fst (evaluatePipelineResults (st_ID proposal) n defn es policy) # rest"
    "matches \<longrightarrow> (\<exists>a b. loadPipeline h rp (ev_Head (st_Event proposal)) n = Inr (a, b, defn))"
    using Cons.prems(1) by (auto simp: rbind_eq_Inr split: if_splits)
  show ?case
  proof (cases "name = n")
    case True
    then show ?thesis using r by auto
  next
    case False
    then show ?thesis using Cons.IH [OF r(1)] Cons.prems(2) r(2) by auto
  qed
qed simp

lemma pipelineDefinitions_ok:
  assumes "\<And>name. name \<in> set names \<Longrightarrow> \<exists>a b. loadPipeline h rp (ev_Head (st_Event proposal)) name = Inr (a, b, d name)"
  shows "pipelineDefinitions h rp decision proposal names = Inr (map (\<lambda>n. (n, d n)) names)"
  using assms
proof (induction names)
  case (Cons n ns)
  obtain a b where "loadPipeline h rp (ev_Head (st_Event proposal)) n = Inr (a, b, d n)" using Cons.prems by fastforce
  then show ?case using Cons by (simp add: wrapError_def)
qed simp

lemma map_of_definitions: "n \<in> set ns \<Longrightarrow> map_of (map (\<lambda>n. (n, d n)) ns) n = Some (d n)"
  by (induction ns) auto

section \<open>Evidence and validators\<close>

lemma wrapError_Inr [simp]: "wrapError f as (Inr x) = Inr x"
  by (simp add: wrapError_def)

text \<open>The facts are indexed by their identifiers, none of which is empty.\<close>

definition indexed :: "StoredEvent list \<Rightarrow> (string, StoredEvent) gomap \<Rightarrow> bool" where
  "indexed events byID \<longleftrightarrow> (\<forall>s \<in> set events. st_ID s \<noteq> [] \<and> map_of byID (st_ID s) = Some s)"

lemma evaluatePipelineResults_Some:
  assumes "map_of (py_Pipelines policy) name = Some pp"
  shows "fst (evaluatePipelineResults i name defn es policy) = \<lparr>pv_Name = name, pv_Required = pp_RequiredResults pp,
    pv_Passed = sortStoredEvents (filter (\<lambda>r. ev_Outcome (st_Event r) = ''passed'') (runnerResults policy pp i name defn es)),
    pv_Failed = sortStoredEvents (filter (\<lambda>r. ev_Outcome (st_Event r) \<noteq> ''passed'') (runnerResults policy pp i name defn es))\<rparr>"
  using assms by (simp add: evaluatePipelineResults_def Let_def)

lemma passed_counts:
  assumes "indexed events byID" "set es \<subseteq> set events" "map_of (py_Pipelines policy) name = Some pp" "map_of definitions name = Some defn"
    and "r \<in> set (runnerResults policy pp (st_ID proposal) name defn es)" "ev_Outcome (st_Event r) = ''passed''"
  shows "countsResult policy proposal byID definitions name r"
proof -
  obtain request where q: "request \<in> set es" "qualifyingRequest policy (st_ID proposal) name defn request" "ev_Subject (st_Event r) = st_ID request"
    and r: "ev_Kind (st_Event r) = ''run.result''" "actorOf r \<in> set (pp_TrustedRunners pp)"
    using runnerResults_props(2) [OF assms(5)] by blast
  have "map_of byID (ev_Subject (st_Event r)) = Some request" using assms(1,2) q by (auto simp: indexed_def)
  then show ?thesis using q(2) r assms(3,4,6) by (simp add: countsResult_def qualifyingRequest_def)
qed

lemma evaluatePipelines_subset:
  assumes "evaluatePipelines h rp proposal matches es policy names = Inr ps" "p \<in> set ps" "r \<in> set (pv_Passed p)"
  shows "r \<in> set es"
  using assms
proof (induction names arbitrary: ps)
  case (Cons n ns)
  obtain defn rest where r: "evaluatePipelines h rp proposal matches es policy ns = Inr rest"
    "ps = fst (evaluatePipelineResults (st_ID proposal) n defn es policy) # rest"
    using Cons.prems(1) by (auto simp: rbind_eq_Inr split: if_splits)
  show ?case
  proof (cases "p \<in> set rest")
    case False
    then have "p = fst (evaluatePipelineResults (st_ID proposal) n defn es policy)" using Cons.prems(2) r(2) by auto
    then show ?thesis using Cons.prems(3) runnerResults_props(2)
      by (cases "map_of (py_Pipelines policy) n") (auto simp: evaluatePipelineResults_def Let_def)
  qed (use Cons.IH [OF r(1)] Cons.prems(3) in blast)
qed simp

text \<open>The evidence of an evaluation: the approvals, the passed results and, when a protected path changes, the protectors.\<close>

definition evidenceFacts :: "StoredEvent \<Rightarrow> PolicyDocument \<Rightarrow> StoredEvent list \<Rightarrow> PipelineEvaluation list \<Rightarrow> ProtectedChecksEvaluation option \<Rightarrow> StoredEvent list" where
  "evidenceFacts proposal policy es pipelines protection =
     filter (\<lambda>r. ev_Verdict (st_Event r) = ''approve'') (countingReviews policy proposal es) @ concat (map pv_Passed pipelines) @
     (case protection of None \<Rightarrow> [] | Some p \<Rightarrow> if length (pe_ChangedPaths p) > 0 then pe_Approvals p else [])"

lemma evaluation_Evidence: "set (pe_Evidence (evaluation proposal title state policy digest head es pipelines protection)) =
    st_ID ` set (evidenceFacts proposal policy es pipelines protection) - {[]}"
proof -
  have "pe_Evidence (evaluation proposal title state policy digest head es pipelines protection) =
      sortedUniqueStrings (map st_ID (evidenceFacts proposal policy es pipelines protection))"
    by (cases protection) (simp_all add: evaluation_def evidenceFacts_def Let_def map_concat comp_def)
  then show ?thesis by (simp add: sortedUniqueStrings_props(3))
qed

lemma evidenceFacts_subset:
  assumes "evaluatePipelines h rp proposal matches es policy names = Inr pipelines" "protectionOf rp policy proposal es protection"
  shows "set (evidenceFacts proposal policy es pipelines protection) \<subseteq> set es"
proof
  fix r assume "r \<in> set (evidenceFacts proposal policy es pipelines protection)"
  then consider "r \<in> set (countingReviews policy proposal es)" | p where "p \<in> set pipelines" "r \<in> set (pv_Passed p)"
    | p where "protection = Some p" "r \<in> set (pe_Approvals p)"
    by (cases protection) (auto simp: evidenceFacts_def split: if_splits)
  then show "r \<in> set es"
  proof cases
    case 1
    then show ?thesis using countingReviews_props(2) by blast
  next
    case 2
    then show ?thesis using evaluatePipelines_subset [OF assms(1)] by blast
  next
    case 3
    then show ?thesis using assms(2) currentReviews_mem [of r es "st_ID proposal"]
      by (cases "py_ProtectedChecks policy") (auto simp: protectionOf_def evaluateProtectedChecks_def)
  qed
qed

lemma evidence_found:
  assumes "indexed events byID" "set facts \<subseteq> set events" "set (elems (ev_Evidence (st_Event d))) = st_ID ` set facts - {[]}"
  shows "set facts \<subseteq> set (evidenceOf byID d)" "\<And>i. i \<in> set (elems (ev_Evidence (st_Event d))) \<Longrightarrow> map_of byID i \<noteq> None"
proof -
  have stored: "st_ID s \<noteq> [] \<and> map_of byID (st_ID s) = Some s" if "s \<in> set facts" for s
    using that assms(1,2) unfolding indexed_def by blast
  then show "set facts \<subseteq> set (evidenceOf byID d)" unfolding subset_iff evidenceOf_iff using assms(3) by blast
  show "map_of byID i \<noteq> None" if "i \<in> set (elems (ev_Evidence (st_Event d)))" for i
    using that stored assms(3) by force
qed

lemma approvals_counted:
  assumes "set (evidenceFacts proposal policy es pipelines protection) \<subseteq> set found"
    and "n \<le> int (length (filter (\<lambda>r. ev_Verdict (st_Event r) = ''approve'') (countingReviews policy proposal es)))"
  shows "n \<le> actorCount (filter (countsApproval policy proposal) found)"
proof -
  let ?as = "filter (\<lambda>r. ev_Verdict (st_Event r) = ''approve'') (countingReviews policy proposal es)"
  have "set ?as \<subseteq> set (filter (countsApproval policy proposal) found)"
    using assms(1) countingReviews_props(2) by (auto simp: evidenceFacts_def)
  from actorCount_ge [OF distinct_actors_filter [OF countingReviews_props(1)] this] show ?thesis using assms(2) by linarith
qed

lemma results_counted:
  assumes "indexed events byID" "set es \<subseteq> set events" "map_of (py_Pipelines policy) name = Some pp" "map_of definitions name = Some defn"
    and "set (evidenceFacts proposal policy es pipelines protection) \<subseteq> set found"
    and "fst (evaluatePipelineResults (st_ID proposal) name defn es policy) \<in> set pipelines"
    and "\<And>p. p \<in> set pipelines \<Longrightarrow> pv_Required p \<le> int (length (pv_Passed p))"
  shows "pp_RequiredResults pp \<le> actorCount (filter (countsResult policy proposal byID definitions name) found)"
proof -
  let ?p = "fst (evaluatePipelineResults (st_ID proposal) name defn es policy)"
  have p: "pv_Required ?p = pp_RequiredResults pp"
    "pv_Passed ?p = sortStoredEvents (filter (\<lambda>r. ev_Outcome (st_Event r) = ''passed'') (runnerResults policy pp (st_ID proposal) name defn es))"
    by (simp_all add: evaluatePipelineResults_Some [OF assms(3)])
  have "set (pv_Passed ?p) \<subseteq> set (filter (countsResult policy proposal byID definitions name) found)"
  proof
    fix r assume r: "r \<in> set (pv_Passed ?p)"
    have "r \<in> set found" using r assms(5,6) by (auto simp: evidenceFacts_def)
    moreover have "countsResult policy proposal byID definitions name r" by (rule passed_counts [OF assms(1-4)]) (use r p(2) in simp_all)
    ultimately show "r \<in> set (filter (countsResult policy proposal byID definitions name) found)" by simp
  qed
  moreover have "distinct (map actorOf (pv_Passed ?p))"
    unfolding p(2) distinct_actors_sort by (rule distinct_actors_filter [OF runnerResults_props(1)])
  ultimately have "int (length (pv_Passed ?p)) \<le> actorCount (filter (countsResult policy proposal byID definitions name) found)"
    by (rule actorCount_ge [rotated])
  then show ?thesis using assms(7) [OF assms(6)] p(1) by linarith
qed

lemma protectors_counted:
  assumes "protectionOf rp policy proposal es protection" "set (evidenceFacts proposal policy es pipelines protection) \<subseteq> set (evidenceOf byID d)"
    and "case protection of None \<Rightarrow> True | Some p \<Rightarrow> pe_ChangedPaths p \<noteq> [] \<longrightarrow> pe_Required p \<le> int (length (pe_Approvals p))"
  shows "validateProtectedDecisionAt rp policy d proposal byID = Inr ()"
proof (cases "py_ProtectedChecks policy")
  case (Some p)
  let ?Q = "\<lambda>review. protectionReviewQualifies review proposal (Some p)"
  obtain changed where c: "changedPathsAt rp (ev_Base (st_Event proposal)) (ev_Head (st_Event proposal)) = Inr changed"
    and pr: "protection = evaluateProtectedChecks policy proposal es changed" using assms(1) Some by (auto simp: protectionOf_def)
  have "pc_RequiredApprovals p \<le> actorCount (filter ?Q (evidenceOf byID d))" if "changedProtectedPaths policy changed \<noteq> []"
  proof -
    let ?as = "filter ?Q (currentReviews es (st_ID proposal))"
    have "set ?as \<subseteq> set (filter ?Q (evidenceOf byID d))"
      using assms(2) that by (auto simp: evidenceFacts_def pr evaluateProtectedChecks_def Some)
    from actorCount_ge [OF distinct_actors_filter [OF currentReviews_actors] this] show ?thesis
      using assms(3) that by (simp add: pr evaluateProtectedChecks_def Some)
  qed
  then have "validateProtectedDecisionEvidence policy d proposal byID changed = Inr ()"
    by (cases "changedProtectedPaths policy changed = []") (simp_all add: validateProtectedDecisionEvidence_def Some)
  then show ?thesis by (simp add: validateProtectedDecisionAt_def Some c)
qed (simp add: validateProtectedDecisionAt_def)

lemma pipelines_defined:
  assumes "evaluatePipelines h rp proposal True es policy (sort names) = Inr ps"
  obtains d where "pipelineDefinitions h rp decision proposal names = Inr (map (\<lambda>n. (n, d n)) names)"
    "\<And>name. name \<in> set names \<Longrightarrow> fst (evaluatePipelineResults (st_ID proposal) name (d name) es policy) \<in> set ps"
proof -
  have "\<forall>name. \<exists>defn. name \<in> set names \<longrightarrow> (\<exists>a b. loadPipeline h rp (ev_Head (st_Event proposal)) name = Inr (a, b, defn)) \<and>
      fst (evaluatePipelineResults (st_ID proposal) name defn es policy) \<in> set ps"
    using evaluatePipelines_props [OF assms] by (metis set_sort)
  then obtain d where d: "\<And>name. name \<in> set names \<Longrightarrow> (\<exists>a b. loadPipeline h rp (ev_Head (st_Event proposal)) name = Inr (a, b, d name)) \<and>
      fst (evaluatePipelineResults (st_ID proposal) name (d name) es policy) \<in> set ps" by metis
  have "pipelineDefinitions h rp decision proposal names = Inr (map (\<lambda>n. (n, d n)) names)"
    by (rule pipelineDefinitions_ok) (use d in blast)
  then show ?thesis using that [of d] d by blast
qed

text \<open>What \<open>validateDecisionEvent\<close> asks of a decision to accept, condition by condition.\<close>

lemma validateDecisionEvent_accept:
  assumes "loadPolicy h rp (ev_Base (st_Event proposal)) = Inr (policy, digest)" "ev_Verdict (st_Event decision) \<noteq> ''reject''"
  shows "validateDecisionEvent h rp decision proposal byID = Inr () \<longleftrightarrow>
     ev_Policy (st_Event decision) = digest \<and> actorOf decision \<in> set (py_Maintainers policy) \<and>
     validateProtectedDecisionAt rp policy decision proposal byID = Inr () \<and>
     (\<exists>definitions. pipelineDefinitions h rp decision proposal (map fst (py_Pipelines policy)) = Inr definitions \<and>
       (\<forall>i \<in> set (elems (ev_Evidence (st_Event decision))). map_of byID i \<noteq> None) \<and>
       pr_RequiredApprovals (py_Proposals policy) \<le> actorCount (filter (countsApproval policy proposal) (evidenceOf byID decision)) \<and>
       (\<forall>(name, pp) \<in> set (py_Pipelines policy). pp_RequiredResults pp \<le> actorCount (filter (countsResult policy proposal byID definitions name) (evidenceOf byID decision))))"
proof -
  have if_ok: "((if b then errorf f as else x) = Inr ()) = (\<not> b \<and> x = Inr ())" for b f as and x :: "unit result" by simp
  show ?thesis
    by (simp add: validateDecisionEvent_def assms rbind_unit_ok rbind_eq_Inr forEach_ok_iff if_ok case_prod_beta not_less del: not_None_eq cong: conj_cong)
qed

text \<open>
  C29. A decision to accept that a maintainer signs on the evidence of a ready evaluation is valid: what
  \<open>evaluateProposal\<close> counts, \<open>validateDecisionEvent\<close> counts again from the identifiers alone.  (The pipelines of a
  policy are a Go map, so their names are distinct.)
\<close>

theorem ready_decision_valid:
  assumes "evaluateProposal h rp proposal events = Inr ev" "pe_Ready ev" "indexed events byID"
    and "st_Event decision = acceptFact proposal ev body event" "ev_Actor event \<in> set (py_Maintainers (pe_Policy ev))"
    and "distinct (map fst (py_Pipelines (pe_Policy ev)))"
  shows "validateDecisionEvent h rp decision proposal byID = Inr ()"
proof -
  obtain es title state policy digest head pipelines protection where es: "set es \<subseteq> set events"
    and lp: "loadPolicy h rp (ev_Base (st_Event proposal)) = Inr (policy, digest)"
    and pl: "evaluatePipelines h rp proposal (head = Some (ev_Head (st_Event proposal))) es policy (sort (map fst (py_Pipelines policy))) = Inr pipelines"
    and pc: "protectionOf rp policy proposal es protection"
    and ev: "ev = evaluation proposal title state policy digest head es pipelines protection"
    by (rule evaluateProposal_parts [OF assms(1)])
  have ready: "head = Some (ev_Head (st_Event proposal))"
    "pr_RequiredApprovals (py_Proposals policy) \<le> int (length (filter (\<lambda>r. ev_Verdict (st_Event r) = ''approve'') (countingReviews policy proposal es)))"
    "\<And>p. p \<in> set pipelines \<Longrightarrow> pv_Required p \<le> int (length (pv_Passed p))"
    "case protection of None \<Rightarrow> True | Some p \<Rightarrow> pe_ChangedPaths p \<noteq> [] \<longrightarrow> pe_Required p \<le> int (length (pe_Approvals p))"
    using assms(2) by (auto simp: ev evaluation_def Let_def list_all_iff split: option.splits)
  have dec: "ev_Policy (st_Event decision) = digest" "actorOf decision \<in> set (py_Maintainers policy)" "ev_Verdict (st_Event decision) \<noteq> ''reject''"
    "elems (ev_Evidence (st_Event decision)) = pe_Evidence ev" "distinct (map fst (py_Pipelines policy))"
    using assms(4-6) by (simp_all add: acceptFact_def ev evaluation_def Let_def)
  note facts = evidenceFacts_subset [OF pl pc]
  note found = evidence_found [OF assms(3) order_trans [OF facts es] dec(4) [unfolded ev, THEN arg_cong [where f = set], unfolded evaluation_Evidence]]
  obtain d where d: "pipelineDefinitions h rp decision proposal (map fst (py_Pipelines policy)) = Inr (map (\<lambda>n. (n, d n)) (map fst (py_Pipelines policy)))"
    "\<And>name. name \<in> set (map fst (py_Pipelines policy)) \<Longrightarrow> fst (evaluatePipelineResults (st_ID proposal) name (d name) es policy) \<in> set pipelines"
    using pipelines_defined [of h rp proposal es policy "map fst (py_Pipelines policy)" pipelines decision] pl ready(1) by auto
  have runs: "pp_RequiredResults pp \<le> actorCount (filter (countsResult policy proposal byID (map (\<lambda>n. (n, d n)) (map fst (py_Pipelines policy))) name) (evidenceOf byID decision))"
    if entry: "(name, pp) \<in> set (py_Pipelines policy)" for name pp
  proof -
    have name: "name \<in> set (map fst (py_Pipelines policy))" using entry by force
    show ?thesis
      by (rule results_counted [OF assms(3) es map_of_is_SomeI [OF dec(5) entry] map_of_definitions [OF name, of d] found(1) d(2) [OF name]]) (rule ready(3))
  qed
  show ?thesis
    unfolding validateDecisionEvent_accept [OF lp dec(3)]
    using dec(1,2) protectors_counted [OF pc found(1) ready(4)] d(1) found(2) approvals_counted [OF found(1) ready(2)] runs by blast
qed

section \<open>Merges\<close>

text \<open>
  C31. A merge fact is valid exactly when it names the policy of the proposal's base, is signed by a maintainer, and its
  evidence holds acceptances of this proposal under this policy by enough distinct maintainers.
\<close>

theorem validateMergeEvent_correct:
  assumes "loadPolicy h rp (ev_Base (st_Event proposal)) = Inr (policy, digest)"
  shows "validateMergeEvent h rp merge proposal byID = Inr () \<longleftrightarrow>
     ev_Policy (st_Event merge) = digest \<and> actorOf merge \<in> set (py_Maintainers policy) \<and>
     (\<exists>acceptors. acceptors \<subseteq> set (py_Maintainers policy) \<and> pr_RequiredAccepts (py_Proposals policy) \<le> int (card acceptors) \<and>
       (\<forall>a \<in> acceptors. \<exists>i \<in> set (elems (ev_Evidence (st_Event merge))). \<exists>d. map_of byID i = Some d \<and> actorOf d = a \<and>
          ev_Kind (st_Event d) = ''proposal.decision'' \<and> ev_Subject (st_Event d) = st_ID proposal \<and> ev_Policy (st_Event d) = digest \<and>
          ev_Verdict (st_Event d) = ''accept''))" (is "_ \<longleftrightarrow> _ \<and> _ \<and> (\<exists>acceptors. ?quorum acceptors)")
proof -
  let ?ds = "filter (countsAcceptance policy digest proposal) (evidenceOf byID merge)"
  have "pr_RequiredAccepts (py_Proposals policy) \<le> actorCount ?ds \<longleftrightarrow> (\<exists>acceptors. ?quorum acceptors)"
  proof
    assume "pr_RequiredAccepts (py_Proposals policy) \<le> actorCount ?ds"
    then have "?quorum (actorOf ` set ?ds)" by (auto simp: actorCount_card evidenceOf_iff countsAcceptance_def)
    then show "\<exists>acceptors. ?quorum acceptors" by (rule exI [of _ "actorOf ` set ?ds"])
  next
    assume "\<exists>acceptors. ?quorum acceptors"
    then obtain acceptors where q: "?quorum acceptors" by (elim exE)
    then have "acceptors \<subseteq> actorOf ` set ?ds" by (force simp: evidenceOf_iff countsAcceptance_def)
    then have "card acceptors \<le> card (actorOf ` set ?ds)" by (intro card_mono) simp_all
    then show "pr_RequiredAccepts (py_Proposals policy) \<le> actorCount ?ds" using q by (simp add: actorCount_card)
  qed
  then show ?thesis by (simp add: validateMergeEvent_def assms not_less)
qed

text \<open>The merge fact that a maintainer signs for an accepted proposal is valid.\<close>

lemma accepted_merge_valid:
  assumes "evaluateProposal h rp proposal events = Inr ev" "pe_Accepted ev" "indexed events byID"
    and "st_Event merge = mergeFact proposal ev commit event" "ev_Actor event \<in> set (py_Maintainers (pe_Policy ev))"
  shows "validateMergeEvent h rp merge proposal byID = Inr ()"
proof -
  obtain es title state policy digest head pipelines protection where es: "set es \<subseteq> set events"
    and lp: "loadPolicy h rp (ev_Base (st_Event proposal)) = Inr (policy, digest)"
    and ev: "ev = evaluation proposal title state policy digest head es pipelines protection"
    by (rule evaluateProposal_parts [OF assms(1)])
  let ?as = "sortStoredEvents (filter (\<lambda>d. ev_Verdict (st_Event d) = ''accept'') (currentDecisions policy digest (st_ID proposal) es))"
  have enough: "pr_RequiredAccepts (py_Proposals policy) \<le> int (length ?as)" using assms(2) by (simp add: ev evaluation_def Let_def)
  have merge: "ev_Policy (st_Event merge) = digest" "actorOf merge \<in> set (py_Maintainers policy)"
    "set (elems (ev_Evidence (st_Event merge))) = st_ID ` set ?as"
    using assms(4,5) by (simp_all add: mergeFact_def ev evaluation_def Let_def sortedDecisionIDs_def)
  have mem: "d \<in> set events \<and> countsAcceptance policy digest proposal d" if "d \<in> set ?as" for d
    using that es currentDecisions_props(2) [of d policy digest "st_ID proposal" es] by (auto simp: countsAcceptance_def)
  have ids: "st_ID ` set ?as - {[]} = st_ID ` set ?as" using mem assms(3) by (auto simp: indexed_def)
  have "set ?as \<subseteq> set (evidenceOf byID merge)"
    by (rule evidence_found(1) [OF assms(3)]) (use mem ids merge(3) in \<open>simp_all add: subset_iff\<close>)
  then have "set ?as \<subseteq> set (filter (countsAcceptance policy digest proposal) (evidenceOf byID merge))" using mem by auto
  moreover have "distinct (map actorOf ?as)"
    unfolding distinct_actors_sort by (rule distinct_actors_filter [OF currentDecisions_props(1)])
  ultimately have "int (length ?as) \<le> actorCount (filter (countsAcceptance policy digest proposal) (evidenceOf byID merge))"
    by (rule actorCount_ge [rotated])
  then show ?thesis using enough merge(1,2) by (simp add: validateMergeEvent_def lp)
qed

section \<open>Valid policies\<close>

lemma validateActorsFrom_ok: "validateActorsFrom name seen actors = Inr () \<longleftrightarrow>
    (\<forall>a \<in> set actors. validActorID a) \<and> distinct actors \<and> set actors \<inter> set seen = {}"
  by (induction name seen actors rule: validateActorsFrom.induct) auto

lemma validateActorList_ok [simp]: "validateActorList name actors = Inr () \<longleftrightarrow> (\<forall>a \<in> set actors. validActorID a) \<and> distinct actors"
  by (simp add: validateActorList_def validateActorsFrom_ok)

text \<open>A quorum of \<open>n\<close> among listed actors is attainable: the list has \<open>n\<close> distinct members, and \<open>n\<close> is not zero.\<close>

definition attainable :: "int \<Rightarrow> string list \<Rightarrow> bool" where
  "attainable n actors \<longleftrightarrow> 1 \<le> n \<and> n \<le> int (card (set actors))"

lemma attainable_list: "distinct actors \<Longrightarrow> attainable n actors \<longleftrightarrow> 1 \<le> n \<and> n \<le> int (length actors)"
  by (simp add: attainable_def distinct_card)

lemma validatePipelinePolicy_ok: "validatePipelinePolicy (name, pp) = Inr () \<Longrightarrow> validPipelineName name \<and> attainable (pp_RequiredResults pp) (pp_TrustedRunners pp)"
  by (auto simp: validatePipelinePolicy_def rbind_unit_ok attainable_list split: if_splits)

lemma validateRulesFrom_ok:
  assumes "validateRulesFrom policy names rules = Inr ()"
  shows "distinct (map am_Name rules) \<and> set (map am_Name rules) \<inter> set names = {} \<and>
    (\<forall>r \<in> set rules. set (am_Actors r) \<subseteq> set (py_Maintainers policy) \<and> am_Actors r \<noteq> [] \<and> validPolicyBranch (am_TargetBranch r))"
  using assms
proof (induction rules arbitrary: names)
  case (Cons r rs)
  have "am_Name r \<notin> set names" "validPolicyBranch (am_TargetBranch r)" "validateRulesFrom policy (am_Name r # names) rs = Inr ()"
    "am_Actors r \<noteq> []" "set (am_Actors r) \<subseteq> set (py_Maintainers policy)"
    using Cons.prems by (auto simp: rbind_unit_ok forEach_ok_iff validateRuleActors_def simp del: forEach.simps split: if_splits)
  then show ?case using Cons.IH [of "am_Name r # names"] by auto
qed simp

lemma loadPolicy_valid: "loadPolicy h rp commit = Inr (policy, digest) \<Longrightarrow> validatePolicy policy = Inr ()"
  by (auto simp: loadPolicy_def parsePolicyBytes_def rbind_eq_Inr split: option.splits if_splits)

lemma validatePolicy_rules:
  assumes "validatePolicy policy = Inr ()" "py_Automerge policy = Some ag"
  shows "validateRulesFrom policy [] (ag_Rules ag) = Inr ()"
proof -
  have "validateOptionalPolicy policy = Inr ()" using assms(1) by (simp add: validatePolicy_def rbind_unit_ok Let_def split: if_splits)
  then show ?thesis using assms(2) by (auto simp: validateOptionalPolicy_def rbind_unit_ok split: if_splits)
qed

text \<open>
  C32. A valid policy never asks for a quorum that its lists cannot supply with distinct actors, and never for an empty one
  where code runs or is merged; every automerge actor is a maintainer, and rule names select one rule.
\<close>

theorem validatePolicy_attainable:
  assumes "validatePolicy policy = Inr ()"
  shows "attainable (pr_RequiredAccepts (py_Proposals policy)) (py_Maintainers policy) \<and>
    0 \<le> pr_RequiredApprovals (py_Proposals policy) \<and> pr_RequiredApprovals (py_Proposals policy) \<le> int (card (set (pr_TrustedReviewers (py_Proposals policy)))) \<and>
    (\<forall>(name, pp) \<in> set (py_Pipelines policy). validPipelineName name \<and> attainable (pp_RequiredResults pp) (pp_TrustedRunners pp)) \<and>
    (case py_ProtectedChecks policy of None \<Rightarrow> True | Some p \<Rightarrow> attainable (pc_RequiredApprovals p) (pc_TrustedReviewers p)) \<and>
    (case py_Automerge policy of None \<Rightarrow> True | Some p \<Rightarrow> ag_Rules p \<noteq> [] \<and> distinct (map am_Name (ag_Rules p)) \<and>
       (\<forall>r \<in> set (ag_Rules p). am_Actors r \<noteq> [] \<and> set (am_Actors r) \<subseteq> set (py_Maintainers policy)))"
proof -
  have top: "distinct (py_Maintainers policy)" "1 \<le> pr_RequiredAccepts (py_Proposals policy)" "pr_RequiredAccepts (py_Proposals policy) \<le> int (length (py_Maintainers policy))"
    "0 \<le> pr_RequiredApprovals (py_Proposals policy)" "distinct (pr_TrustedReviewers (py_Proposals policy))"
    "pr_RequiredApprovals (py_Proposals policy) \<le> int (length (pr_TrustedReviewers (py_Proposals policy)))"
    "forEach validatePipelinePolicy (py_Pipelines policy) = Inr ()" "validateOptionalPolicy policy = Inr ()"
    using assms by (simp_all add: validatePolicy_def rbind_unit_ok Let_def split: if_splits)
  have "validPipelineName name \<and> attainable (pp_RequiredResults pp) (pp_TrustedRunners pp)" if "(name, pp) \<in> set (py_Pipelines policy)" for name pp
    using top(7) that validatePipelinePolicy_ok unfolding forEach_ok_iff by blast
  moreover have "case py_ProtectedChecks policy of None \<Rightarrow> True | Some p \<Rightarrow> attainable (pc_RequiredApprovals p) (pc_TrustedReviewers p)"
    using top(8) by (auto simp: validateOptionalPolicy_def validateProtectedChecks_def rbind_unit_ok attainable_list split: option.splits if_splits)
  moreover have "case py_Automerge policy of None \<Rightarrow> True | Some p \<Rightarrow> ag_Rules p \<noteq> [] \<and> distinct (map am_Name (ag_Rules p)) \<and>
       (\<forall>r \<in> set (ag_Rules p). am_Actors r \<noteq> [] \<and> set (am_Actors r) \<subseteq> set (py_Maintainers policy))"
  proof (cases "py_Automerge policy")
    case (Some p)
    then have "ag_Rules p \<noteq> []" using top(8) by (auto simp: validateOptionalPolicy_def rbind_unit_ok split: if_splits)
    then show ?thesis using validateRulesFrom_ok [OF validatePolicy_rules [OF assms Some]] Some by simp
  qed simp
  ultimately show ?thesis using top by (auto simp: attainable_list distinct_card)
qed

section \<open>Protected paths by components\<close>

lemma prefix_splitOn: "prefix (splitOn CHR ''/'' a) (splitOn CHR ''/'' b) \<longleftrightarrow> b = a \<or> hasPrefix b (a @ ''/'')"
proof
  assume "prefix (splitOn CHR ''/'' a) (splitOn CHR ''/'' b)"
  then obtain zs where zs: "splitOn CHR ''/'' b = splitOn CHR ''/'' a @ zs" by (auto simp: prefix_def)
  have "b = (if zs = [] then a else a @ CHR ''/'' # joinSlash zs)"
    using arg_cong [OF zs, of joinSlash] by (simp add: joinSlash_append joinSlash_splitOn split: if_splits)
  then show "b = a \<or> hasPrefix b (a @ ''/'')" by (auto simp: hasPrefix_iff split: if_splits)
next
  assume "b = a \<or> hasPrefix b (a @ ''/'')"
  then show "prefix (splitOn CHR ''/'' a) (splitOn CHR ''/'' b)" by (auto simp: hasPrefix_iff splitOn_append)
qed

lemma trimSlash: "protected = trimSuffix protected ''/'' @ (if hasSuffix protected ''/'' then ''/'' else [])"
  by (simp add: trimSuffix_def hasSuffix_def) (metis append_take_drop_id)

text \<open>
  A changed path is protected exactly when it is a protected path, a directory above one, or lies below a protected
  directory, component by component; a name that merely continues the text of a protected one is not.
\<close>

theorem protectedPathMatches_components:
  "protectedPathMatches protected changed \<longleftrightarrow>
     (let literal = splitOn CHR ''/'' (trimSuffix protected ''/''); path = splitOn CHR ''/'' changed in
      prefix path literal \<or> hasSuffix protected ''/'' \<and> prefix literal path)"
proof (cases "hasSuffix protected ''/''")
  case True
  then have "protected = trimSuffix protected ''/'' @ ''/''" using trimSlash [of protected] by simp
  then have "hasPrefix changed protected = hasPrefix changed (trimSuffix protected ''/'' @ ''/'')" by (rule arg_cong)
  then show ?thesis using True by (auto simp: protectedPathMatches_def Let_def prefix_splitOn)
qed (auto simp: protectedPathMatches_def Let_def prefix_splitOn)

section \<open>The automatic merge\<close>

lemma blockIf_empty [simp]: "blockIf b r as = [] \<longleftrightarrow> \<not> b"
  by (simp add: blockIf_def)

lemma eligible_iff: "eligible i = Inr () \<longleftrightarrow> ai_Blockers i = []"
  by (simp add: eligible_def)

lemma automergePathAllowed_iff: "automergePathAllowed allowed p \<longleftrightarrow> (\<exists>q \<in> set allowed. if hasSuffix q ''/'' then hasPrefix p q else q = p)"
  by (simp add: automergePathAllowed_def list_ex_iff)

lemma chosenRule_Some: "chosenRule policy name = Some r \<Longrightarrow> \<exists>p. py_Automerge policy = Some p \<and> r \<in> set (ag_Rules p) \<and> am_Name r = name"
  by (auto simp: chosenRule_def find_Some_iff split: option.splits)

lemma pathBlockers_empty: "pathBlockers policy changed = [] \<longleftrightarrow> changed \<noteq> [] \<and>
    (\<forall>p \<in> set changed. \<not> protectedPathMatches ''.hn/policy.json'' p \<and> p \<notin> set (changedProtectedPaths policy changed))"
  by (auto simp: pathBlockers_def list_ex_iff changedProtectedPaths_def filter_empty_conv)

lemma ruleBlockers_empty: "ruleBlockers proposal branch changed (Some r) = [] \<longleftrightarrow> branch = am_TargetBranch r \<and> actorOf proposal \<in> set (am_Authors r) \<and>
    (\<forall>p \<in> set changed. automergePathAllowed (elems (am_Paths r)) p)"
  by (auto simp: ruleBlockers_def)

lemma evaluationBlockers_empty: "evaluationBlockers ev proposal events = [] \<longleftrightarrow>
    requireLineageTerminalEligibility ''automerge'' (st_ID proposal) (pe_Lineage ev) = Inr () \<and> \<not> pe_Merged ev \<and> pe_CodeMatches ev \<and> pe_Ready ev \<and>
    pe_Accepted ev \<and> \<not> pe_Rejected ev \<and>
    (\<forall>r \<in> set (currentReviews events (st_ID proposal)). \<not> (ev_Verdict (st_Event r) = ''request-changes'' \<and> actorOf r \<in> set (pr_TrustedReviewers (py_Proposals (pe_Policy ev))))) \<and>
    (\<forall>p \<in> set (pe_Pipelines ev). pv_Failed p = [])"
  by (auto simp: evaluationBlockers_def list_ex_iff split: sum.splits)

text \<open>What the inspection has read when it returns.\<close>

lemma inspectAutomerge_parts:
  assumes "inspectAutomerge h rp ck events query ruleName = Inr i"
  obtains proposal ev current changed ancestor missing target targetDigest status full branch where
    "resolveFullEvent events query = Inr proposal" "evaluateProposal h rp proposal events = Inr ev" "ck_Head ck = Inr current"
    "changedPathsAt rp (ev_Base (st_Event proposal)) (ev_Head (st_Event proposal)) = Inr changed"
    "ck_Ancestor ck (ev_Base (st_Event proposal)) (ev_Head (st_Event proposal)) = Inr (ancestor, missing)"
    "loadPolicy h rp current = Inr (target, targetDigest)" "ck_Status ck = Inr status"
    "full = (case ck_SymbolicRef ck of None \<Rightarrow> [] | Some b \<Rightarrow> trimSpace b)"
    "branch = (if hasPrefix full ''refs/heads/'' then trimPrefix full ''refs/heads/'' else [])"
    "i = \<lparr>ai_Proposal = proposal, ai_Evaluation = ev, ai_Rule = chosenRule (pe_Policy ev) ruleName, ai_Branch = branch, ai_Current = current, ai_Changed = changed,
     ai_Blockers = (if ck_SymbolicRef ck = None then [Errorf ''requires a checked-out target branch'' []]
         else blockIf (\<not> hasPrefix full ''refs/heads/'') ''HEAD must name a local target branch'' []) @
       (if py_Automerge (pe_Policy ev) = None then [Errorf ''automerge is disabled in the signed base policy'' []]
         else blockIf (chosenRule (pe_Policy ev) ruleName = None) ''automerge rule %q does not exist in the signed base policy'' [ruleName]) @
       evaluationBlockers ev proposal events @
       blockIf (current \<noteq> ev_Base (st_Event proposal)) ''target no longer equals the signed base; revise the candidate (use hn merge for a missing merge-event repair)'' [] @
       pathBlockers (pe_Policy ev) changed @ ruleBlockers proposal branch changed (chosenRule (pe_Policy ev) ruleName) @
       blockIf (\<not> ancestor \<or> missing \<noteq> []) ''signed head is not a locally verifiable descendant of the signed base'' [] @
       blockIf (targetDigest \<noteq> pe_PolicyDigest ev) ''current target policy differs from the signed base policy'' [] @
       blockIf (length status > 0) ''worktree and index must be clean before automerge'' []\<rparr>"
proof -
  obtain proposal where p: "resolveFullEvent events query = Inr proposal" using assms by (auto simp: inspectAutomerge_def rbind_eq_Inr)
  obtain ev where ev: "evaluateProposal h rp proposal events = Inr ev" using assms by (auto simp: inspectAutomerge_def rbind_eq_Inr p split: if_splits)
  obtain current where c: "ck_Head ck = Inr current" using assms by (auto simp: inspectAutomerge_def Let_def rbind_eq_Inr p ev split: if_splits)
  obtain changed where ch: "changedPathsAt rp (ev_Base (st_Event proposal)) (ev_Head (st_Event proposal)) = Inr changed"
    using assms by (auto simp: inspectAutomerge_def Let_def rbind_eq_Inr p ev c split: if_splits)
  obtain ancestor missing where an: "ck_Ancestor ck (ev_Base (st_Event proposal)) (ev_Head (st_Event proposal)) = Inr (ancestor, missing)"
    using assms by (auto simp: inspectAutomerge_def Let_def rbind_eq_Inr p ev c ch split: if_splits)
  obtain target targetDigest where t: "loadPolicy h rp current = Inr (target, targetDigest)"
    using assms by (auto simp: inspectAutomerge_def Let_def rbind_eq_Inr p ev c ch an split: if_splits)
  obtain status where s: "ck_Status ck = Inr status"
    using assms by (auto simp: inspectAutomerge_def Let_def rbind_eq_Inr p ev c ch an t split: if_splits)
  show ?thesis
    by (rule that [OF p ev c ch an t s refl refl])
       (use assms in \<open>cases "ck_Repository ck"; cases "isProposalKind (ev_Kind (st_Event proposal))";
         simp_all only: inspectAutomerge_def Let_def rbind_simps if_True if_False not_True_eq_False not_False_eq_True sum.inject errorf_def sum.distinct
           simp_thms wrapError_Inr prod.case p ev c ch an t s\<close>)
qed

text \<open>
  C28. An inspected proposal is eligible for the automatic merge exactly when a named rule of the signed policy allows its author, the
  checked-out branch and every changed path, no changed path is protected, the evaluation is ready and accepted with no
  rejection, change request or failed run, and the clean checkout stands at the signed base, under the same policy, with
  the head descending from it.
\<close>

theorem automerge_eligible_iff:
  assumes "inspectAutomerge h rp ck events query ruleName = Inr i"
  shows "eligible i = Inr () \<longleftrightarrow> (let ev = ai_Evaluation i; proposal = ai_Proposal i; base = ev_Base (st_Event proposal) in
    (\<exists>r ref target. ai_Rule i = Some r \<and> (\<exists>ag. py_Automerge (pe_Policy ev) = Some ag \<and> r \<in> set (ag_Rules ag) \<and> am_Name r = ruleName) \<and>
       actorOf proposal \<in> set (am_Authors r) \<and>
       ck_SymbolicRef ck = Some ref \<and> trimSpace ref = ''refs/heads/'' @ am_TargetBranch r \<and>
       ai_Changed i \<noteq> [] \<and>
       (\<forall>p \<in> set (ai_Changed i). (\<exists>q \<in> set (elems (am_Paths r)). if hasSuffix q ''/'' then hasPrefix p q else q = p) \<and>
          \<not> protectedPathMatches ''.hn/policy.json'' p \<and> p \<notin> set (changedProtectedPaths (pe_Policy ev) (ai_Changed i))) \<and>
       requireLineageTerminalEligibility ''automerge'' (st_ID proposal) (pe_Lineage ev) = Inr () \<and>
       pe_Ready ev \<and> pe_Accepted ev \<and> \<not> pe_Rejected ev \<and> \<not> pe_Merged ev \<and> pe_CodeMatches ev \<and>
       (\<forall>p \<in> set (pe_Pipelines ev). pv_Failed p = []) \<and>
       (\<forall>review \<in> set (currentReviews events (st_ID proposal)). \<not> (ev_Verdict (st_Event review) = ''request-changes'' \<and>
          actorOf review \<in> set (pr_TrustedReviewers (py_Proposals (pe_Policy ev))))) \<and>
       ck_Head ck = Inr base \<and> ck_Status ck = Inr [] \<and> ck_Ancestor ck base (ev_Head (st_Event proposal)) = Inr (True, []) \<and>
       loadPolicy h rp base = Inr (target, pe_PolicyDigest ev)))"
proof -
  obtain proposal ev current changed ancestor missing target targetDigest status full branch where
    io: "ck_Head ck = Inr current" "ck_Ancestor ck (ev_Base (st_Event proposal)) (ev_Head (st_Event proposal)) = Inr (ancestor, missing)"
      "loadPolicy h rp current = Inr (target, targetDigest)" "ck_Status ck = Inr status"
    and full: "full = (case ck_SymbolicRef ck of None \<Rightarrow> [] | Some b \<Rightarrow> trimSpace b)"
    and branch: "branch = (if hasPrefix full ''refs/heads/'' then trimPrefix full ''refs/heads/'' else [])"
    and i: "i = \<lparr>ai_Proposal = proposal, ai_Evaluation = ev, ai_Rule = chosenRule (pe_Policy ev) ruleName, ai_Branch = branch, ai_Current = current, ai_Changed = changed,
     ai_Blockers = (if ck_SymbolicRef ck = None then [Errorf ''requires a checked-out target branch'' []]
         else blockIf (\<not> hasPrefix full ''refs/heads/'') ''HEAD must name a local target branch'' []) @
       (if py_Automerge (pe_Policy ev) = None then [Errorf ''automerge is disabled in the signed base policy'' []]
         else blockIf (chosenRule (pe_Policy ev) ruleName = None) ''automerge rule %q does not exist in the signed base policy'' [ruleName]) @
       evaluationBlockers ev proposal events @
       blockIf (current \<noteq> ev_Base (st_Event proposal)) ''target no longer equals the signed base; revise the candidate (use hn merge for a missing merge-event repair)'' [] @
       pathBlockers (pe_Policy ev) changed @ ruleBlockers proposal branch changed (chosenRule (pe_Policy ev) ruleName) @
       blockIf (\<not> ancestor \<or> missing \<noteq> []) ''signed head is not a locally verifiable descendant of the signed base'' [] @
       blockIf (targetDigest \<noteq> pe_PolicyDigest ev) ''current target policy differs from the signed base policy'' [] @
       blockIf (length status > 0) ''worktree and index must be clean before automerge'' []\<rparr>"
    by (rule inspectAutomerge_parts [OF assms])
  show ?thesis
  proof (cases "ai_Rule i")
    case None
    then show ?thesis by (simp add: eligible_iff i)
  next
    case (Some r)
    have rule: "chosenRule (pe_Policy ev) ruleName = Some r" using Some by (simp add: i)
    obtain ag where ag: "py_Automerge (pe_Policy ev) = Some ag" "r \<in> set (ag_Rules ag)" "am_Name r = ruleName" using chosenRule_Some [OF rule] by blast
    have ref: "ck_SymbolicRef ck \<noteq> None \<and> hasPrefix full ''refs/heads/'' \<and> branch = am_TargetBranch r \<longleftrightarrow>
        (\<exists>s. ck_SymbolicRef ck = Some s \<and> trimSpace s = ''refs/heads/'' @ am_TargetBranch r)"
      by (cases "ck_SymbolicRef ck") (auto simp: full branch trimPrefix_def hasPrefix_iff)
    have "eligible i = Inr () \<longleftrightarrow> (ck_SymbolicRef ck \<noteq> None \<and> hasPrefix full ''refs/heads/'' \<and> branch = am_TargetBranch r) \<and>
        evaluationBlockers ev proposal events = [] \<and> current = ev_Base (st_Event proposal) \<and> pathBlockers (pe_Policy ev) changed = [] \<and>
        actorOf proposal \<in> set (am_Authors r) \<and> (\<forall>p \<in> set changed. automergePathAllowed (elems (am_Paths r)) p) \<and>
        ancestor \<and> missing = [] \<and> targetDigest = pe_PolicyDigest ev \<and> status = []"
      by (auto simp: eligible_iff i rule ag(1) ruleBlockers_empty split: if_splits)
    then show ?thesis
      unfolding ref evaluationBlockers_empty pathBlockers_empty
      using ag io by (auto simp: i Let_def rule automergePathAllowed_iff)
  qed
qed

text \<open>
  C30. What the automatic merge lets through, every reader accepts: the merge fact that an actor of the rule signs on an eligible
  inspection is valid under the policy of the proposal's base.
\<close>

theorem automerge_merge_valid:
  assumes "inspectAutomerge h rp ck events query ruleName = Inr i" "eligible i = Inr ()" "indexed events byID"
    and "ai_Rule i = Some r" "ev_Actor event \<in> set (am_Actors r)"
    and "st_Event merge = mergeFact (ai_Proposal i) (ai_Evaluation i) commit event"
  shows "validateMergeEvent h rp merge (ai_Proposal i) byID = Inr ()"
proof -
  have ev: "evaluateProposal h rp (ai_Proposal i) events = Inr (ai_Evaluation i)" "ai_Rule i = chosenRule (pe_Policy (ai_Evaluation i)) ruleName"
    by (rule inspectAutomerge_parts [OF assms(1)]; simp)+
  have "evaluationBlockers (ai_Evaluation i) (ai_Proposal i) events = []"
    by (rule inspectAutomerge_parts [OF assms(1)]) (use assms(2) in \<open>simp add: eligible_iff\<close>)
  then have accepted: "pe_Accepted (ai_Evaluation i)" by (simp add: evaluationBlockers_empty)
  obtain ag where ag: "py_Automerge (pe_Policy (ai_Evaluation i)) = Some ag" "r \<in> set (ag_Rules ag)"
    using chosenRule_Some assms(4) ev(2) by metis
  have "\<exists>digest. loadPolicy h rp (ev_Base (st_Event (ai_Proposal i))) = Inr (pe_Policy (ai_Evaluation i), digest)"
    by (rule evaluateProposal_parts [OF ev(1)]) (simp add: evaluation_def Let_def)
  then have "validatePolicy (pe_Policy (ai_Evaluation i)) = Inr ()" using loadPolicy_valid by blast
  from validateRulesFrom_ok [OF validatePolicy_rules [OF this ag(1)]]
  have "ev_Actor event \<in> set (py_Maintainers (pe_Policy (ai_Evaluation i)))" using ag(2) assms(5) by blast
  then show ?thesis by (rule accepted_merge_valid [OF ev(1) accepted assms(3,6)])
qed

end
