(* ===== verification/HN_Merge_Sample.thy ===== *)
theory HN_Merge_Sample
  imports HN_Merge
begin

text \<open>
  A repository with one maintainer, one reviewer and one runner, in which a proposal has been reviewed, run and accepted, and the
  instances of the properties of policy and merge there.
\<close>

section \<open>The repository\<close>

definition maintainer :: string where "maintainer = replicate 64 CHR ''a''"
definition author :: string where "author = replicate 64 CHR ''b''"
definition reviewer :: string where "reviewer = replicate 64 CHR ''c''"
definition runner :: string where "runner = replicate 64 CHR ''d''"

definition sampleRule :: AutomergeRule where
  "sampleRule = \<lparr>am_Name = ''docs'', am_TargetBranch = ''main'', am_Actors = [maintainer], am_Authors = [author], am_Paths = Some [''docs/'']\<rparr>"

definition governedPolicy :: PolicyDocument where
  "governedPolicy = \<lparr>py_Contributions = None, py_ContributionCheckpoints = [], py_Version = policyVersion, py_Maintainers = [maintainer],
     py_Proposals = \<lparr>pr_RequiredApprovals = 1, pr_RequiredAccepts = 1, pr_TrustedReviewers = [reviewer], pr_AllowAuthorApproval = False\<rparr>,
     py_Pipelines = [(''build'', \<lparr>pp_RequiredResults = 1, pp_TrustedRunners = [runner], pp_Requesters = None\<rparr>)], py_Memory = None,
     py_ProtectedChecks = Some \<lparr>pc_Paths = Some [''ci/''], pc_TrustedReviewers = [reviewer], pc_RequiredApprovals = 1\<rparr>,
     py_Automerge = Some \<lparr>ag_Rules = [sampleRule]\<rparr>, py_Audits = None\<rparr>"

definition buildPipeline :: PipelineDefinition where
  "buildPipeline = \<lparr>pd_Version = ''hn.pipeline/0'', pd_Steps = Some [\<lparr>ps_Name = ''make'', ps_Command = ''make'', ps_Args = None, ps_WorkingDirectory = [], ps_TimeoutSeconds = 0\<rparr>]\<rparr>"

text \<open>The repository shows \<open>P\<close> as the policy and \<open>D\<close> as the pipeline of every commit, and one changed path between any two.\<close>

definition governedRepository :: repository where
  "governedRepository = \<lparr>rp_Usable = (\<lambda>_. Inr ()), rp_Show = (\<lambda>name. Some (if contains name ''policy'' then ''P'' else ''D'')),
     rp_DecodePolicy = (\<lambda>_. Inr governedPolicy), rp_PolicyShape = (\<lambda>_. Inr ()), rp_DecodePipeline = (\<lambda>_. Inr buildPipeline),
     rp_ProposalHead = (\<lambda>_. Inr (Some ''h'')), rp_DiffTree = (\<lambda>_ _. Inr (''docs/a'' @ [CHR 0x00])), rp_ContributionView = (\<lambda>_. Inr None)\<rparr>"

definition cleanCheckout :: checkout where
  "cleanCheckout = \<lparr>ck_Repository = Inr (), ck_SymbolicRef = Some ''refs/heads/main'', ck_Head = Inr ''b'', ck_Ancestor = (\<lambda>_ _. Inr (True, [])), ck_Status = Inr []\<rparr>"

definition governedDigest :: string where "governedDigest = eventID sampleHost ''P''"

definition withEvent :: "StoredEvent \<Rightarrow> (Event \<Rightarrow> Event) \<Rightarrow> StoredEvent" where
  "withEvent s f = s\<lparr>st_Event := f (st_Event s)\<rparr>"

definition openFact :: StoredEvent where
  "openFact = withEvent (sampleFact (sampleID CHR ''1'') ''proposal.open'' author 1 [] []) (\<lambda>e. e\<lparr>ev_Base := ''b'', ev_Head := ''h''\<rparr>)"

definition reviewFact :: StoredEvent where
  "reviewFact = withEvent (sampleFact ''v'' ''review.submit'' reviewer 1 [] (sampleID CHR ''1'')) (\<lambda>e. e\<lparr>ev_Verdict := ''approve''\<rparr>)"

definition requestFact :: StoredEvent where
  "requestFact = withEvent (sampleFact ''q'' ''run.request'' maintainer 1 [] (sampleID CHR ''1'')) (\<lambda>e. e\<lparr>ev_Pipeline := ''build'', ev_Definition := eventID sampleHost ''D''\<rparr>)"

definition resultFact :: StoredEvent where
  "resultFact = withEvent (sampleFact ''r'' ''run.result'' runner 1 [] ''q'') (\<lambda>e. e\<lparr>ev_Outcome := ''passed''\<rparr>)"

definition decisionFact :: StoredEvent where
  "decisionFact = withEvent (sampleFact ''d'' ''proposal.decision'' maintainer 2 ''q'' (sampleID CHR ''1''))
     (\<lambda>e. e\<lparr>ev_Policy := governedDigest, ev_Verdict := ''accept'', ev_Evidence := Some [''r'', ''v'']\<rparr>)"

definition governedFacts :: "StoredEvent list" where
  "governedFacts = [openFact, reviewFact, requestFact, resultFact, decisionFact]"

lemma governedPolicy_valid: "validatePolicy governedPolicy = Inr ()"
  by code_simp

definition inspected :: "automergeInspection result" where
  "inspected = inspectAutomerge sampleHost governedRepository cleanCheckout governedFacts (sampleID CHR ''1'') ''docs''"

lemma inspected_eligible: "case inspected of Inl _ \<Rightarrow> False | Inr i \<Rightarrow> eligible i = Inr () \<and> pe_Ready (ai_Evaluation i) \<and> ai_Rule i = Some sampleRule \<and>
    pe_Policy (ai_Evaluation i) = governedPolicy \<and> ai_Proposal i = openFact"
  by code_simp

lemma inspected_parts:
  obtains i where "inspectAutomerge sampleHost governedRepository cleanCheckout governedFacts (sampleID CHR ''1'') ''docs'' = Inr i"
    "eligible i = Inr ()" "pe_Ready (ai_Evaluation i)" "ai_Rule i = Some sampleRule" "pe_Policy (ai_Evaluation i) = governedPolicy" "ai_Proposal i = openFact"
    "evaluateProposal sampleHost governedRepository openFact governedFacts = Inr (ai_Evaluation i)"
proof -
  obtain i where i: "inspectAutomerge sampleHost governedRepository cleanCheckout governedFacts (sampleID CHR ''1'') ''docs'' = Inr i"
    and p: "eligible i = Inr ()" "pe_Ready (ai_Evaluation i)" "ai_Rule i = Some sampleRule" "pe_Policy (ai_Evaluation i) = governedPolicy" "ai_Proposal i = openFact"
    using inspected_eligible unfolding inspected_def by (auto split: sum.splits)
  have "evaluateProposal sampleHost governedRepository (ai_Proposal i) governedFacts = Inr (ai_Evaluation i)"
    by (rule inspectAutomerge_parts [OF i]) simp
  then show ?thesis using that i p by simp
qed

definition governedIndex :: "(string, StoredEvent) gomap" where
  "governedIndex = map (\<lambda>s. (st_ID s, s)) governedFacts"

lemma governed_indexed: "indexed governedFacts governedIndex"
  by code_simp

lemma governed_loaded: "loadPolicy sampleHost governedRepository ''b'' = Inr (governedPolicy, governedDigest)"
  by (simp add: loadPolicy_def parsePolicyBytes_def governedRepository_def governedPolicy_valid governedDigest_def maxPolicySize_def hasPrefix_def)

definition mergedFact :: StoredEvent where
  "mergedFact = withEvent (sampleFact ''m'' ''proposal.merged'' maintainer 3 ''d'' (sampleID CHR ''1'')) (\<lambda>e. e\<lparr>ev_Policy := governedDigest, ev_Evidence := Some [''d'']\<rparr>)"

section \<open>Witnesses\<close>

theorem ready_decision_valid_witness:
  "\<exists>ev. evaluateProposal sampleHost governedRepository openFact governedFacts = Inr ev \<and> pe_Ready ev \<and>
     validateDecisionEvent sampleHost governedRepository (withEvent decisionFact (acceptFact openFact ev ''fine'')) openFact governedIndex = Inr ()"
proof (rule inspected_parts)
  fix i assume i: "pe_Ready (ai_Evaluation i)" "pe_Policy (ai_Evaluation i) = governedPolicy"
    "evaluateProposal sampleHost governedRepository openFact governedFacts = Inr (ai_Evaluation i)"
  have "validateDecisionEvent sampleHost governedRepository (withEvent decisionFact (acceptFact openFact (ai_Evaluation i) ''fine'')) openFact governedIndex = Inr ()"
    by (rule ready_decision_valid [OF i(3,1) governed_indexed, where body = "''fine''" and event = "st_Event decisionFact"])
       (simp_all add: i(2) withEvent_def decisionFact_def sampleFact_def governedPolicy_def)
  then show ?thesis using i by blast
qed

theorem validateMergeEvent_correct_witness:
  "validateMergeEvent sampleHost governedRepository mergedFact openFact governedIndex = Inr () \<and>
   (\<exists>acceptors \<subseteq> {maintainer}. 1 \<le> int (card acceptors))"
proof -
  have m: "validateMergeEvent sampleHost governedRepository mergedFact openFact governedIndex = Inr ()" by code_simp
  have "ev_Base (st_Event openFact) = ''b''" by (simp add: openFact_def withEvent_def sampleFact_def)
  from validateMergeEvent_correct [of sampleHost governedRepository openFact governedPolicy governedDigest mergedFact governedIndex, unfolded this, OF governed_loaded] m
  have "\<exists>acceptors. acceptors \<subseteq> set (py_Maintainers governedPolicy) \<and> pr_RequiredAccepts (py_Proposals governedPolicy) \<le> int (card acceptors)" by blast
  then show ?thesis using m by (simp add: governedPolicy_def)
qed

theorem validatePolicy_attainable_witness:
  "attainable (pr_RequiredAccepts (py_Proposals governedPolicy)) (py_Maintainers governedPolicy) \<and> set (am_Actors sampleRule) \<subseteq> set (py_Maintainers governedPolicy)"
proof -
  have "py_Automerge governedPolicy = Some \<lparr>ag_Rules = [sampleRule]\<rparr>" by (simp add: governedPolicy_def)
  then show ?thesis using validatePolicy_attainable [OF governedPolicy_valid] by simp
qed

theorem automerge_eligible_iff_witness:
  "\<exists>i. inspectAutomerge sampleHost governedRepository cleanCheckout governedFacts (sampleID CHR ''1'') ''docs'' = Inr i \<and>
     pe_Accepted (ai_Evaluation i) \<and> ck_Head cleanCheckout = Inr (ev_Base (st_Event (ai_Proposal i)))"
proof (rule inspected_parts)
  fix i assume i: "inspectAutomerge sampleHost governedRepository cleanCheckout governedFacts (sampleID CHR ''1'') ''docs'' = Inr i" "eligible i = Inr ()"
  then show ?thesis using automerge_eligible_iff [OF i(1)] by (auto simp: Let_def)
qed

theorem automerge_merge_valid_witness:
  "\<exists>i. inspectAutomerge sampleHost governedRepository cleanCheckout governedFacts (sampleID CHR ''1'') ''docs'' = Inr i \<and>
     validateMergeEvent sampleHost governedRepository (withEvent mergedFact (mergeFact openFact (ai_Evaluation i) ''c'')) openFact governedIndex = Inr ()"
proof (rule inspected_parts)
  fix i assume i: "inspectAutomerge sampleHost governedRepository cleanCheckout governedFacts (sampleID CHR ''1'') ''docs'' = Inr i" "eligible i = Inr ()"
    "ai_Rule i = Some sampleRule" "ai_Proposal i = openFact"
  have "validateMergeEvent sampleHost governedRepository (withEvent mergedFact (mergeFact openFact (ai_Evaluation i) ''c'')) (ai_Proposal i) governedIndex = Inr ()"
    by (rule automerge_merge_valid [OF i(1,2) governed_indexed i(3), where commit = "''c''" and event = "st_Event mergedFact"])
       (simp_all add: i(4) withEvent_def mergedFact_def sampleFact_def sampleRule_def)
  then show ?thesis using i by auto
qed

end
