(* ===== verification/HN_Memory.thy ===== *)
theory HN_Memory
  imports HN_Governance
begin

text \<open>
  Signed memories (\<open>src/memory_event.go\<close>) and their projection (\<open>src/memory_projection.go\<close>): the envelope and
  its validation, signing and verification, the classification of a record against the repository, and the lifecycle
  that later memories give it.  The memory decoder, the clock format and Unicode lower case are arguments (\<open>memoryCodec\<close>), and so are
  the answers of Git (\<open>memoryResolver\<close>).
\<close>

section \<open>Envelopes\<close>

record PathAnchor =
  pa_Path :: string
  pa_Blob :: string

record MemoryAnchor =
  an_Commit :: string
  an_Paths :: "PathAnchor slice"
  an_Subject :: string

record Applicability =
  ac_Mode :: string
  ac_Subject :: string

record HandoffFields =
  hf_Completed :: "string slice"
  hf_Assumptions :: "string slice"
  hf_Blockers :: "string slice"
  hf_NextActions :: "string slice"

record MemoryRecord =
  me_Kind :: string
  me_Content :: string
  me_Anchor :: MemoryAnchor
  me_Applicability :: Applicability
  me_Topics :: "string slice"
  me_Evidence :: "string slice"
  me_AttemptOutcome :: string
  me_Handoff :: "HandoffFields option"

record MemoryEnvelope =
  mv_Protocol :: string
  mv_Operation :: string
  mv_Actor :: string
  mv_ActorName :: string
  mv_PublicKey :: string
  mv_Stream :: string
  mv_Sequence :: "64 word"
  mv_Timestamp :: string
  mv_Previous :: string
  mv_Record :: "MemoryRecord option"
  mv_Target :: string
  mv_Reason :: string
  mv_Evidence :: "string slice"

record StoredMemory =
  sm_ID :: string
  sm_Commit :: string
  sm_Envelope :: MemoryEnvelope
  sm_Payload :: string
  sm_Signature :: string

text \<open>
  \<open>mc_Decode\<close> decodes the first JSON value strictly, \<open>mc_Trailing\<close> says that another follows, \<open>mc_Timestamp\<close> that a text is the
  RFC 3339 form of a time, \<open>mc_ToLower\<close> is \<open>strings.ToLower\<close>.
\<close>

record memoryCodec =
  mc_Decode :: "string \<Rightarrow> MemoryEnvelope option"
  mc_Trailing :: "string \<Rightarrow> bool"
  mc_Timestamp :: "string \<Rightarrow> bool"
  mc_ToLower :: "string \<Rightarrow> string"

definition memoryProtocolVersion :: string where "memoryProtocolVersion = ''hn-memory/0''"

section \<open>Validation\<close>

definition memoryID :: "host \<Rightarrow> string \<Rightarrow> string" where
  "memoryID h payload = ''sha256:'' @ hexEncodeToString (sha256 h payload)"

definition defaultMemoryStream :: "host \<Rightarrow> string \<Rightarrow> string" where
  "defaultMemoryStream h actor = memoryID h (''hn-memory-stream-v0'' @ [CHR 0x00] @ actor @ [CHR 0x00] @ ''default'')"

text \<open>Lower case is needed on ASCII only here: a text with other bytes fails the decoding that follows.\<close>

definition validMemoryDigestID :: "string \<Rightarrow> bool" where
  "validMemoryDigestID i \<longleftrightarrow>
     (if length i \<noteq> 71 \<or> \<not> hasPrefix i ''sha256:'' then False
      else let encoded = trimPrefix i ''sha256:'' in
        if encoded \<noteq> map toLowerByte encoded then False
        else case hexDecodeString encoded of None \<Rightarrow> False | Some d \<Rightarrow> length d = 32)"

definition validMemoryID :: "string \<Rightarrow> bool" where
  "validMemoryID i = validMemoryDigestID i"

definition validMemoryStreamID :: "string \<Rightarrow> bool" where
  "validMemoryStreamID i = validMemoryDigestID i"

definition validBoundedDisplayName :: "string \<Rightarrow> bool" where
  "validBoundedDisplayName value \<longleftrightarrow> \<not> (\<not> validUtf8 value \<or> trimSpace value = [] \<or> length value > 256) \<and> \<not> containsControl value"

definition tokenByte :: "nat \<Rightarrow> char \<Rightarrow> bool" where
  "tokenByte index r \<longleftrightarrow> 97 \<le> byte r \<and> byte r \<le> 122 \<or> 48 \<le> byte r \<and> byte r \<le> 57 \<or> r = CHR ''-'' \<and> index > 0"

definition validMemoryToken :: "string \<Rightarrow> nat \<Rightarrow> bool" where
  "validMemoryToken value maximum \<longleftrightarrow> \<not> (value = [] \<or> length value > maximum \<or> value \<noteq> map toLowerByte value) \<and>
     list_all (\<lambda>(index, r). tokenByte index r) (enumerate 0 value) \<and> \<not> hasSuffix value ''-''"

definition validNormalizedMemoryTopic :: "memoryCodec \<Rightarrow> string \<Rightarrow> bool" where
  "validNormalizedMemoryTopic mc topic \<longleftrightarrow> \<not> (\<not> validUtf8 topic \<or> topic = [] \<or> length topic > 128 \<or> topic \<noteq> mc_ToLower mc (trimSpace topic)) \<and>
     \<not> containsControl topic"

definition validMemoryPath :: "string \<Rightarrow> bool" where
  "validMemoryPath value \<longleftrightarrow>
     \<not> (\<not> validUtf8 value \<or> value = [] \<or> length value > 4096 \<or> hasPrefix value ''/'' \<or> contains value [CHR 0x5C] \<or> cleanPath value \<noteq> value \<or> value = ''.'') \<and>
     \<not> list_ex (\<lambda>segment. segment = ''..'') (splitOn CHR ''/'' value) \<and> \<not> containsControl value"

definition validMemoryGitOID :: "string \<Rightarrow> bool" where
  "validMemoryGitOID i \<longleftrightarrow>
     (if i \<noteq> map toLowerByte i \<or> length i \<noteq> 40 \<and> length i \<noteq> 64 then False
      else case hexDecodeString i of None \<Rightarrow> False | Some d \<Rightarrow> length d = 20 \<or> length d = 32)"

definition validMemorySubject :: "string \<Rightarrow> bool" where
  "validMemorySubject subject \<longleftrightarrow> (case find (hasPrefix subject) [''issue:'', ''proposal:'', ''event:'', ''policy:'', ''pipeline:'', ''run:''] of
     None \<Rightarrow> False | Some p \<Rightarrow> validMemoryID (trimPrefix subject p))"

definition validTypedMemoryEvidence :: "string \<Rightarrow> bool" where
  "validTypedMemoryEvidence i \<longleftrightarrow>
     (if hasPrefix i ''git:'' then validMemoryGitOID (trimPrefix i ''git:'')
      else if hasPrefix i ''event:'' then validMemoryID (trimPrefix i ''event:'')
      else if hasPrefix i ''memory:'' then validMemoryID (trimPrefix i ''memory:'') else False)"

text \<open>The loops over sorted paths and topics keep the last element; the set of paths seen so far adds nothing to the order but is kept.\<close>

fun checkAnchorPaths :: "string list \<Rightarrow> string option \<Rightarrow> PathAnchor list \<Rightarrow> unit result" where
  "checkAnchorPaths seen prior [] = Inr ()"
| "checkAnchorPaths seen prior (item # items) =
     (if \<not> validMemoryPath (pa_Path item) then errorf ''memory anchor path is invalid'' []
      else if pa_Path item \<in> set seen \<or> (case prior of None \<Rightarrow> False | Some l \<Rightarrow> pa_Path item \<le> l)
      then errorf ''memory anchor paths are duplicate or unsorted'' []
      else if pa_Blob item \<noteq> ''absent'' \<and> \<not> validMemoryGitOID (pa_Blob item) then errorf ''memory anchor blob is invalid'' []
      else checkAnchorPaths (pa_Path item # seen) (Some (pa_Path item)) items)"

definition validateMemoryAnchor :: "MemoryAnchor \<Rightarrow> unit result" where
  "validateMemoryAnchor anchor =
     (if \<not> validMemoryGitOID (an_Commit anchor) then errorf ''memory anchor commit is invalid'' []
      else if an_Subject anchor \<noteq> [] \<and> \<not> validMemorySubject (an_Subject anchor) then errorf ''memory anchor subject is invalid'' []
      else if length (elems (an_Paths anchor)) > 128 then errorf ''memory anchor paths exceed limit'' []
      else rbind (checkAnchorPaths [] None (elems (an_Paths anchor))) (\<lambda>_.
        if sum_list (map (\<lambda>item. length (pa_Path item)) (elems (an_Paths anchor))) > 65536
        then errorf ''memory anchor path bytes exceed limit'' [] else Inr ()))"

definition validateMemoryApplicability :: "Applicability \<Rightarrow> string \<Rightarrow> unit result" where
  "validateMemoryApplicability applicability anchorSubject =
     (if ac_Mode applicability \<in> {''exact'', ''descendants''}
      then if ac_Subject applicability \<noteq> [] then errorf ''memory applicability subject is prohibited'' [] else Inr ()
      else if ac_Mode applicability = ''subject''
      then if \<not> validMemorySubject (ac_Subject applicability) \<or> ac_Subject applicability \<noteq> anchorSubject
        then errorf ''memory applicability subject must match anchor'' [] else Inr ()
      else errorf ''memory applicability mode is unsupported'' [])"

fun checkTopics :: "memoryCodec \<Rightarrow> string option \<Rightarrow> string list \<Rightarrow> unit result" where
  "checkTopics mc prior [] = Inr ()"
| "checkTopics mc prior (topic # topics) =
     (if \<not> validNormalizedMemoryTopic mc topic \<or> (case prior of None \<Rightarrow> False | Some l \<Rightarrow> topic \<le> l)
      then errorf ''memory record topics are invalid, duplicate, or unsorted'' []
      else checkTopics mc (Some topic) topics)"

definition validateMemoryTopics :: "memoryCodec \<Rightarrow> string list \<Rightarrow> unit result" where
  "validateMemoryTopics mc topics = (if length topics > 32 then errorf ''memory record topics exceed limit'' [] else checkTopics mc None topics)"

fun checkEvidence :: "string list \<Rightarrow> string list \<Rightarrow> unit result" where
  "checkEvidence seen [] = Inr ()"
| "checkEvidence seen (i # ids) =
     (if \<not> validTypedMemoryEvidence i then errorf ''memory evidence ID is invalid'' []
      else if i \<in> set seen then errorf ''memory evidence contains a duplicate'' []
      else checkEvidence (i # seen) ids)"

definition validateMemoryEvidence :: "string list \<Rightarrow> bool \<Rightarrow> unit result" where
  "validateMemoryEvidence evidence allowEmpty =
     (if \<not> allowEmpty \<and> length evidence = 0 \<or> length evidence > 64 then errorf ''memory evidence count is invalid'' []
      else checkEvidence [] evidence)"

definition checkHandoffList :: "string slice \<Rightarrow> unit result" where
  "checkHandoffList l = (case l of None \<Rightarrow> errorf ''memory handoff list is missing or exceeds limit'' [] | Some entries \<Rightarrow>
     if length entries > 64 then errorf ''memory handoff list is missing or exceeds limit'' []
     else forEach (\<lambda>entry. if \<not> validUtf8 entry \<or> trimSpace entry = [] \<or> length entry > 4096 then errorf ''memory handoff entry is invalid'' [] else Inr ()) entries)"

definition validateMemoryHandoff :: "HandoffFields \<Rightarrow> unit result" where
  "validateMemoryHandoff handoff = (let lists = [hf_Completed handoff, hf_Assumptions handoff, hf_Blockers handoff, hf_NextActions handoff] in
     rbind (forEach checkHandoffList lists) (\<lambda>_.
     if sum_list (map length (concat (map elems lists))) > 65536 then errorf ''memory handoff bytes exceed limit'' [] else Inr ()))"

definition checkRecordKind :: "MemoryRecord \<Rightarrow> unit result" where
  "checkRecordKind r =
     (if me_Kind r \<in> {''observation'', ''decision'', ''assumption''}
      then if me_AttemptOutcome r \<noteq> [] \<or> me_Handoff r \<noteq> None then errorf ''memory record kind has invalid fields'' [] else Inr ()
      else if me_Kind r = ''attempt''
      then if \<not> validMemoryToken (me_AttemptOutcome r) 64 \<or> me_Handoff r \<noteq> None then errorf ''memory attempt fields are invalid'' [] else Inr ()
      else if me_Kind r = ''verification''
      then if length (elems (me_Evidence r)) = 0 \<or> me_AttemptOutcome r \<noteq> [] \<or> me_Handoff r \<noteq> None
        then errorf ''memory verification fields are invalid'' [] else Inr ()
      else if me_Kind r = ''handoff''
      then if me_AttemptOutcome r \<noteq> [] then errorf ''memory handoff fields are invalid'' []
        else case me_Handoff r of None \<Rightarrow> errorf ''memory handoff fields are invalid'' [] | Some hf \<Rightarrow> validateMemoryHandoff hf
      else errorf ''memory record kind is unsupported'' [])"

definition validateMemoryRecord :: "memoryCodec \<Rightarrow> MemoryRecord \<Rightarrow> unit result" where
  "validateMemoryRecord mc r =
     (if \<not> validUtf8 (me_Content r) \<or> trimSpace (me_Content r) = [] \<or> length (me_Content r) > 65536 then errorf ''memory record content is invalid'' []
      else if me_Topics r = None then errorf ''memory record topics are required'' []
      else if me_Evidence r = None then errorf ''memory record evidence is required'' []
      else rbind (validateMemoryAnchor (me_Anchor r)) (\<lambda>_.
        rbind (validateMemoryApplicability (me_Applicability r) (an_Subject (me_Anchor r))) (\<lambda>_.
        rbind (validateMemoryTopics mc (elems (me_Topics r))) (\<lambda>_.
        if \<not> is_ok (validateMemoryEvidence (elems (me_Evidence r)) True) then errorf ''memory record evidence is invalid'' []
        else checkRecordKind r))))"

definition checkMemoryOperation :: "MemoryEnvelope \<Rightarrow> unit result" where
  "checkMemoryOperation e =
     (if mv_Operation e = ''record''
      then if mv_Record e = None \<or> mv_Target e \<noteq> [] \<or> mv_Reason e \<noteq> [] \<or> length (elems (mv_Evidence e)) \<noteq> 0
        then errorf ''memory record operation has invalid fields'' [] else Inr ()
      else if mv_Operation e = ''supersede''
      then if mv_Record e = None \<or> \<not> validMemoryID (mv_Target e) \<or> mv_Reason e \<noteq> [] \<or> length (elems (mv_Evidence e)) \<noteq> 0
        then errorf ''memory supersede operation has invalid fields'' [] else Inr ()
      else if mv_Operation e = ''retract''
      then if mv_Record e \<noteq> None \<or> \<not> validMemoryID (mv_Target e) \<or> \<not> validMemoryToken (mv_Reason e) 128 \<or> length (elems (mv_Evidence e)) \<noteq> 0
        then errorf ''memory retract operation has invalid fields'' [] else Inr ()
      else if mv_Operation e = ''challenge''
      then if mv_Record e \<noteq> None \<or> \<not> validMemoryID (mv_Target e) \<or> \<not> validMemoryToken (mv_Reason e) 128
        then errorf ''memory challenge operation has invalid fields'' []
        else if \<not> is_ok (validateMemoryEvidence (elems (mv_Evidence e)) True) then errorf ''memory challenge evidence is invalid'' [] else Inr ()
      else errorf ''memory operation is unsupported'' [])"

definition validateMemoryEnvelope :: "host \<Rightarrow> memoryCodec \<Rightarrow> MemoryEnvelope \<Rightarrow> unit result" where
  "validateMemoryEnvelope h mc e =
     (if mv_Protocol e \<noteq> memoryProtocolVersion then errorf ''memory protocol is unsupported'' []
      else if \<not> validActorFingerprint (mv_Actor e) then errorf ''memory actor is invalid'' []
      else if \<not> validBoundedDisplayName (mv_ActorName e) then errorf ''memory actorName is invalid'' []
      else case decodesToKey (mv_PublicKey e) 32 of None \<Rightarrow> errorf ''memory publicKey is invalid'' [] | Some publicBytes \<Rightarrow>
        if base64Encode publicBytes \<noteq> mv_PublicKey e then errorf ''memory publicKey is not canonical'' []
        else if actorForPublicKey h publicBytes \<noteq> mv_Actor e then errorf ''memory actor does not match publicKey'' []
        else if \<not> validMemoryStreamID (mv_Stream e) then errorf ''memory stream is invalid'' []
        else if mv_Sequence e = 0 then errorf ''memory sequence must be positive'' []
        else if mv_Sequence e = 1 \<and> mv_Previous e \<noteq> [] then errorf ''memory previous must be absent at sequence 1'' []
        else if mv_Sequence e > 1 \<and> \<not> validMemoryID (mv_Previous e) then errorf ''memory previous is required after sequence 1'' []
        else if \<not> mc_Timestamp mc (mv_Timestamp e) then errorf ''memory timestamp is invalid'' []
        else rbind (checkMemoryOperation e) (\<lambda>_.
          case mv_Record e of None \<Rightarrow> Inr () | Some r \<Rightarrow> validateMemoryRecord mc r))"

section \<open>Signing\<close>

definition jsonPathAnchor :: "PathAnchor \<Rightarrow> json" where
  "jsonPathAnchor p = JObj [(''path'', JStr (pa_Path p)), (''blob'', JStr (pa_Blob p))]"

definition jsonAnchor :: "MemoryAnchor \<Rightarrow> json" where
  "jsonAnchor a = JObj ([(''commit'', JStr (an_Commit a))] @
     (if elems (an_Paths a) = [] then [] else [(''paths'', JArr (map jsonPathAnchor (elems (an_Paths a))))]) @ omitStr ''subject'' (an_Subject a))"

definition jsonHandoff :: "HandoffFields \<Rightarrow> json" where
  "jsonHandoff hf = JObj [(''completed'', jsonSlice JStr (hf_Completed hf)), (''assumptions'', jsonSlice JStr (hf_Assumptions hf)),
     (''blockers'', jsonSlice JStr (hf_Blockers hf)), (''nextActions'', jsonSlice JStr (hf_NextActions hf))]"

definition jsonMemoryRecord :: "MemoryRecord \<Rightarrow> json" where
  "jsonMemoryRecord r = JObj ([(''kind'', JStr (me_Kind r)), (''content'', JStr (me_Content r)), (''anchor'', jsonAnchor (me_Anchor r)),
     (''applicability'', JObj ([(''mode'', JStr (ac_Mode (me_Applicability r)))] @ omitStr ''subject'' (ac_Subject (me_Applicability r)))),
     (''topics'', jsonSlice JStr (me_Topics r)), (''evidence'', jsonSlice JStr (me_Evidence r))] @
     omitStr ''attemptOutcome'' (me_AttemptOutcome r) @ omitPtr ''handoff'' jsonHandoff (me_Handoff r))"

definition jsonEnvelope :: "MemoryEnvelope \<Rightarrow> json" where
  "jsonEnvelope e = JObj ([(''protocol'', JStr (mv_Protocol e)), (''operation'', JStr (mv_Operation e)), (''actor'', JStr (mv_Actor e)),
     (''actorName'', JStr (mv_ActorName e)), (''publicKey'', JStr (mv_PublicKey e)), (''stream'', JStr (mv_Stream e)),
     (''sequence'', JInt (uint (mv_Sequence e))), (''timestamp'', JStr (mv_Timestamp e))] @ omitStr ''previous'' (mv_Previous e) @
     omitPtr ''record'' jsonMemoryRecord (mv_Record e) @ omitStr ''target'' (mv_Target e) @ omitStr ''reason'' (mv_Reason e) @
     omitStrs ''evidence'' (elems (mv_Evidence e)))"

text \<open>\<open>newMemoryEnvelope\<close>, with the clock reading as an argument.\<close>

definition newMemoryEnvelope :: "Identity \<Rightarrow> string \<Rightarrow> string \<Rightarrow> string \<Rightarrow> 64 word \<Rightarrow> string \<Rightarrow> MemoryEnvelope" where
  "newMemoryEnvelope identity now operation stream sequence previous = \<lparr>mv_Protocol = memoryProtocolVersion, mv_Operation = operation,
     mv_Actor = id_Actor identity, mv_ActorName = id_Name identity, mv_PublicKey = id_PublicKey identity, mv_Stream = stream, mv_Sequence = sequence,
     mv_Timestamp = now, mv_Previous = previous, mv_Record = None, mv_Target = [], mv_Reason = [], mv_Evidence = None\<rparr>"

definition encodeMemoryEnvelope :: "host \<Rightarrow> memoryCodec \<Rightarrow> MemoryEnvelope \<Rightarrow> string result" where
  "encodeMemoryEnvelope h mc e = rbind (validateMemoryEnvelope h mc e) (\<lambda>_. Inr (marshal (jsonEnvelope e)))"

definition validateIdentity :: "host \<Rightarrow> Identity \<Rightarrow> unit result" where
  "validateIdentity h identity = (case decodesToKey (id_PublicKey identity) 32 of
       None \<Rightarrow> errorf ''identity has an invalid public key'' []
     | Some publicKey \<Rightarrow> (case decodesToKey (id_PrivateKey identity) 64 of
         None \<Rightarrow> errorf ''identity has an invalid private key'' []
       | Some key \<Rightarrow>
           if actorForPublicKey h publicKey \<noteq> id_Actor identity then errorf ''identity actor does not match its public key'' []
           else if drop 32 key \<noteq> publicKey then errorf ''identity key pair does not match'' [] else Inr ()))"

definition encodeAndSignMemory :: "host \<Rightarrow> memoryCodec \<Rightarrow> MemoryEnvelope \<Rightarrow> Identity option \<Rightarrow> (string \<times> string) result" where
  "encodeAndSignMemory h mc e identity = (case identity of None \<Rightarrow> errorf ''memory identity does not match its signer'' [] | Some identity \<Rightarrow>
     if mv_Actor e \<noteq> id_Actor identity \<or> mv_PublicKey e \<noteq> id_PublicKey identity then errorf ''memory identity does not match its signer'' []
     else if \<not> is_ok (validateIdentity h identity) then errorf ''invalid memory signer'' []
     else rbind (encodeMemoryEnvelope h mc e) (\<lambda>payload. case privateKey identity of
         Inl _ \<Rightarrow> errorf ''invalid memory signer'' []
       | Inr key \<Rightarrow> Inr (payload, ed25519Sign h key payload)))"

definition decodeMemoryEnvelope :: "host \<Rightarrow> memoryCodec \<Rightarrow> string \<Rightarrow> MemoryEnvelope result" where
  "decodeMemoryEnvelope h mc payload =
     (if \<not> validUtf8 payload then errorf ''invalid memory JSON encoding'' []
      else case mc_Decode mc payload of None \<Rightarrow> errorf ''invalid memory JSON'' [] | Some e \<Rightarrow>
        if mc_Trailing mc payload then errorf ''invalid memory JSON trailing data'' []
        else rbind (validateMemoryEnvelope h mc e) (\<lambda>_.
          if marshal (jsonEnvelope e) \<noteq> payload then errorf ''memory JSON is not canonical'' [] else Inr e))"

definition verifyMemory :: "host \<Rightarrow> memoryCodec \<Rightarrow> string \<Rightarrow> string \<Rightarrow> (MemoryEnvelope \<times> string) result" where
  "verifyMemory h mc payload signature = rbind (decodeMemoryEnvelope h mc payload) (\<lambda>e.
     case decodesToKey (mv_PublicKey e) 32 of None \<Rightarrow> errorf ''invalid memory public key'' [] | Some publicKey \<Rightarrow>
       if actorForPublicKey h publicKey \<noteq> mv_Actor e then errorf ''memory actor does not match public key'' []
       else if length signature \<noteq> 64 \<or> \<not> ed25519Verify h publicKey payload signature then errorf ''invalid memory signature'' []
       else Inr (e, memoryID h payload))"

section \<open>The projection\<close>

text \<open>The read-only questions to Git: whether an object exists and its type, ancestry with a commit that is missing, an entry of a tree.\<close>

record memoryResolver =
  mr_Probe :: "string \<Rightarrow> (bool \<times> string) result"
  mr_IsAncestor :: "string \<Rightarrow> string \<Rightarrow> (bool \<times> string) result"
  mr_TreeEntry :: "string \<Rightarrow> string \<Rightarrow> (string \<times> bool) result"

record MemoryProjectionContext =
  cx_AtCommit :: string
  cx_Subject :: string
  cx_Path :: string
  cx_Events :: "StoredEvent list"
  cx_MemoryPolicy :: "MemoryPolicy option"
  cx_PolicyCommit :: string
  cx_PolicyDigest :: string
  cx_Resolver :: memoryResolver

definition LoadMemoryProjectionPolicy :: "host \<Rightarrow> repository \<Rightarrow> string \<Rightarrow> MemoryProjectionContext \<Rightarrow> MemoryProjectionContext result" where
  "LoadMemoryProjectionPolicy h rp commit cx = rbind (loadPolicy h rp commit) (\<lambda>(policy, digest).
     Inr (cx\<lparr>cx_PolicyCommit := commit, cx_PolicyDigest := digest, cx_MemoryPolicy := py_Memory policy\<rparr>))"

record MemoryRelationship =
  ml_MemoryID :: string
  ml_Stream :: string
  ml_Actor :: string
  ml_Operation :: string
  ml_TargetID :: string

record MemoryDependency =
  md_Kind :: string
  md_OwnerID :: string
  md_Stream :: string
  md_Operation :: string
  md_MissingID :: string
  md_Reason :: string

record MemoryProjectionDiagnostic =
  mg_MemoryID :: string
  mg_Stream :: string
  mg_Operation :: string
  mg_TargetID :: string
  mg_Code :: string

record MemoryEvidenceDetail =
  mt_Type :: string
  mt_Requested :: string
  mt_OwnerID :: string
  mt_Status :: string
  mt_Reason :: string

record MemoryProjectionRow =
  mw_ID :: string
  mw_Stream :: string
  mw_Actor :: string
  mw_Kind :: string
  mw_ContentDigest :: string
  mw_Anchor :: MemoryAnchor
  mw_Signature :: string
  mw_Lifecycle :: string
  mw_Challengers :: "string list"
  mw_Successors :: "string list"
  mw_Retractions :: "string list"
  mw_Applicability :: string
  mw_Evidence :: string
  mw_EvidenceDetails :: "MemoryEvidenceDetail list"
  mw_Trust :: string
  mw_Data :: MemoryRecord

record MemoryProjection =
  mj_PolicyCommit :: string
  mj_PolicyDigest :: string
  mj_Rows :: "MemoryProjectionRow list"
  mj_Relationships :: "MemoryRelationship list"
  mj_MissingDependencies :: "MemoryDependency list"
  mj_Diagnostics :: "MemoryProjectionDiagnostic list"

subsection \<open>Applicability\<close>

definition anchorHolds :: "memoryResolver \<Rightarrow> string \<Rightarrow> PathAnchor \<Rightarrow> bool" where
  "anchorHolds rs commit anchored = (case mr_TreeEntry rs commit (pa_Path anchored) of Inl _ \<Rightarrow> False | Inr (object, exist) \<Rightarrow>
     if pa_Blob anchored = ''absent'' then \<not> exist else \<not> (\<not> exist \<or> object \<noteq> pa_Blob anchored))"

definition recordAnchorsPath :: "MemoryRecord \<Rightarrow> string \<Rightarrow> bool" where
  "recordAnchorsPath r query \<longleftrightarrow> validMemoryPath query \<and> list_ex (\<lambda>anchored. pa_Path anchored = query) (elems (an_Paths (me_Anchor r)))"

definition anchorGap :: "string \<Rightarrow> string \<Rightarrow> string \<Rightarrow> string \<Rightarrow> string \<Rightarrow> string \<times> MemoryDependency list" where
  "anchorGap owner stream kind missing reason = (''anchor-missing'', [\<lparr>md_Kind = kind, md_OwnerID = owner, md_Stream = stream, md_Operation = [],
     md_MissingID = missing, md_Reason = reason\<rparr>])"

text \<open>The switch on the mode: whether the record applies at the requested commit, or the answer with which the function returns.\<close>

definition modeApplies :: "string \<Rightarrow> string \<Rightarrow> MemoryRecord \<Rightarrow> MemoryProjectionContext \<Rightarrow> string \<Rightarrow> (string \<times> MemoryDependency list) + bool" where
  "modeApplies owner stream r cx requested =
     (if ac_Mode (me_Applicability r) = ''exact'' then Inr (requested = an_Commit (me_Anchor r))
      else if ac_Mode (me_Applicability r) = ''descendants'' then
        (case mr_IsAncestor (cx_Resolver cx) (an_Commit (me_Anchor r)) requested of Inl _ \<Rightarrow> Inl (''anchor-invalid'', [])
         | Inr (ancestor, missing) \<Rightarrow> if missing \<noteq> [] then Inl (anchorGap owner stream ''anchor-ancestry'' missing ''ancestry-commit-unavailable'') else Inr ancestor)
      else if ac_Mode (me_Applicability r) = ''subject'' then
        Inr (cx_Subject cx \<noteq> [] \<and> cx_Subject cx = ac_Subject (me_Applicability r) \<and> cx_Subject cx = an_Subject (me_Anchor r))
      else Inl (''anchor-invalid'', []))"

text \<open>A commit that must be present: the answer when it is not.\<close>

definition commitProblem :: "memoryResolver \<Rightarrow> string \<Rightarrow> string \<times> MemoryDependency list \<Rightarrow> (string \<times> MemoryDependency list) option" where
  "commitProblem rs commit gap = (case mr_Probe rs commit of Inl _ \<Rightarrow> Some (''anchor-invalid'', []) | Inr (exist, typ) \<Rightarrow>
     if exist \<and> typ \<noteq> ''commit'' then Some (''anchor-invalid'', []) else if \<not> exist then Some gap else None)"

definition classifyMemoryApplicability :: "string \<Rightarrow> string \<Rightarrow> MemoryRecord \<Rightarrow> MemoryProjectionContext \<Rightarrow> string \<times> MemoryDependency list" where
  "classifyMemoryApplicability owner stream r cx = (let rs = cx_Resolver cx; anchor = an_Commit (me_Anchor r) in
     case commitProblem rs anchor (anchorGap owner stream ''anchor-commit'' anchor ''anchor-commit-unavailable'') of Some answer \<Rightarrow> answer | None \<Rightarrow>
     if \<not> list_all (anchorHolds rs anchor) (elems (an_Paths (me_Anchor r))) then (''anchor-invalid'', [])
     else let requested = (if cx_AtCommit cx = [] then anchor else cx_AtCommit cx) in
     case (if requested \<noteq> anchor then commitProblem rs requested (anchorGap owner stream ''query-commit'' requested ''query-commit-unavailable'') else None) of
       Some answer \<Rightarrow> answer
     | None \<Rightarrow> (case modeApplies owner stream r cx requested of Inl answer \<Rightarrow> answer | Inr applicable \<Rightarrow>
         let a1 = (if applicable \<and> cx_Subject cx \<noteq> [] \<and> ac_Mode (me_Applicability r) \<noteq> ''subject'' \<and> cx_Subject cx \<noteq> an_Subject (me_Anchor r) then False else applicable);
             a2 = (if a1 \<and> cx_Path cx \<noteq> [] \<and> \<not> recordAnchorsPath r (cx_Path cx) then False else a1)
         in (if a2 then (''applicable'', []) else (''inapplicable'', []))))"

subsection \<open>Evidence\<close>

definition evidenceDetail :: "string \<Rightarrow> string list \<Rightarrow> StoredEvent list \<Rightarrow> memoryResolver \<Rightarrow> string \<Rightarrow> MemoryEvidenceDetail" where
  "evidenceDetail owner memories events rs typed = (case cut typed CHR '':'' of (kind, requested, found) \<Rightarrow>
     let answer = (\<lambda>status reason. \<lparr>mt_Type = kind, mt_Requested = requested, mt_OwnerID = owner, mt_Status = status, mt_Reason = reason\<rparr>) in
     if \<not> found \<or> \<not> validTypedMemoryEvidence typed then answer ''invalid'' ''malformed-id''
     else if kind = ''git'' then
       (case mr_Probe rs requested of Inl _ \<Rightarrow> answer ''invalid'' ''object-inspection-failed''
        | Inr (exist, _) \<Rightarrow> if \<not> exist then answer ''missing'' ''object-unavailable'' else answer ''resolved'' ''exact-object'')
     else if kind = ''event'' then
       (if list_ex (\<lambda>s. st_ID s = requested) events then answer ''resolved'' ''accepted-event'' else answer ''missing'' ''event-unavailable'')
     else if kind = ''memory'' then
       (if requested \<in> set memories then answer ''resolved'' ''accepted-memory'' else answer ''missing'' ''memory-unavailable'')
     else answer ''invalid'' ''unsupported-type'')"

definition worseStatus :: "MemoryEvidenceDetail \<Rightarrow> string \<Rightarrow> string" where
  "worseStatus detail overall = (if mt_Status detail = ''invalid'' then ''invalid''
     else if mt_Status detail = ''missing'' \<and> overall \<noteq> ''invalid'' then ''missing'' else overall)"

definition classifyMemoryEvidence :: "string \<Rightarrow> string list \<Rightarrow> string list \<Rightarrow> StoredEvent list \<Rightarrow> memoryResolver \<Rightarrow> string \<times> MemoryEvidenceDetail list" where
  "classifyMemoryEvidence owner evidence memories events rs = (let details = map (evidenceDetail owner memories events rs) evidence in
     (fold worseStatus details ''resolved'', sort_key (\<lambda>d. (mt_Type d, mt_Requested d)) details))"

subsection \<open>Rows and lifecycles\<close>

fun uniqueMemories :: "string list \<Rightarrow> StoredMemory list \<Rightarrow> StoredMemory list" where
  "uniqueMemories seen [] = []"
| "uniqueMemories seen (s # ss) = (if sm_ID s \<in> set seen then uniqueMemories seen ss else s # uniqueMemories (sm_ID s # seen) ss)"

definition orderedMemories :: "StoredMemory list \<Rightarrow> StoredMemory list" where
  "orderedMemories memories = uniqueMemories [] (sort_key sm_ID memories)"

definition memoryEnvelopeProducesRecord :: "host \<Rightarrow> memoryCodec \<Rightarrow> MemoryEnvelope \<Rightarrow> bool" where
  "memoryEnvelopeProducesRecord h mc e \<longleftrightarrow>
     (if mv_Record e = None \<or> mv_Operation e \<noteq> ''record'' \<and> mv_Operation e \<noteq> ''supersede'' then False else is_ok (validateMemoryEnvelope h mc e))"

definition relationshipDiagnostic :: "StoredMemory \<Rightarrow> string \<Rightarrow> MemoryProjectionDiagnostic" where
  "relationshipDiagnostic s code = \<lparr>mg_MemoryID = sm_ID s, mg_Stream = mv_Stream (sm_Envelope s), mg_Operation = mv_Operation (sm_Envelope s),
     mg_TargetID = mv_Target (sm_Envelope s), mg_Code = code\<rparr>"

text \<open>The row of a record before its lifecycle is known, and the dependencies that are missing for it.\<close>

definition memoryRow :: "host \<Rightarrow> MemoryProjectionContext \<Rightarrow> string list \<Rightarrow> StoredMemory \<Rightarrow> MemoryRecord \<Rightarrow> MemoryProjectionRow" where
  "memoryRow h cx accepted s r = (case classifyMemoryEvidence (sm_ID s) (elems (me_Evidence r)) accepted (cx_Events cx) (cx_Resolver cx) of (evidence, details) \<Rightarrow>
     \<lparr>mw_ID = sm_ID s, mw_Stream = mv_Stream (sm_Envelope s), mw_Actor = mv_Actor (sm_Envelope s), mw_Kind = me_Kind r,
      mw_ContentDigest = memoryID h (me_Content r), mw_Anchor = me_Anchor r, mw_Signature = ''valid'', mw_Lifecycle = ''active'',
      mw_Challengers = [], mw_Successors = [], mw_Retractions = [],
      mw_Applicability = fst (classifyMemoryApplicability (sm_ID s) (mv_Stream (sm_Envelope s)) r cx), mw_Evidence = evidence, mw_EvidenceDetails = details,
      mw_Trust = classifyMemoryTrust (cx_MemoryPolicy cx) (mv_Actor (sm_Envelope s)) (me_Kind r), mw_Data = r\<rparr>)"

definition rowDependencies :: "MemoryProjectionContext \<Rightarrow> string list \<Rightarrow> StoredMemory \<Rightarrow> MemoryRecord \<Rightarrow> MemoryDependency list" where
  "rowDependencies cx accepted s r =
     snd (classifyMemoryApplicability (sm_ID s) (mv_Stream (sm_Envelope s)) r cx) @
     map (\<lambda>d. \<lparr>md_Kind = ''evidence-'' @ mt_Type d, md_OwnerID = sm_ID s, md_Stream = mv_Stream (sm_Envelope s), md_Operation = [],
        md_MissingID = mt_Requested d, md_Reason = mt_Reason d\<rparr>)
      (filter (\<lambda>d. mt_Status d = ''missing'') (snd (classifyMemoryEvidence (sm_ID s) (elems (me_Evidence r)) accepted (cx_Events cx) (cx_Resolver cx))))"

text \<open>What the second loop makes of a memory: nothing, a diagnostic with its code, a missing target, or a relationship.\<close>

datatype relation = NoRelation | Diagnosed string | Unavailable | Related

definition classifyRelation :: "host \<Rightarrow> memoryCodec \<Rightarrow> (string, StoredMemory) gomap \<Rightarrow> StoredMemory \<Rightarrow> relation" where
  "classifyRelation h mc allByID source = (let e = sm_Envelope source in
     if mv_Operation e = ''record'' then NoRelation
     else if \<not> is_ok (validateMemoryEnvelope h mc e) \<or> \<not> validMemoryID (sm_ID source) then Diagnosed ''malformed-relationship''
     else if sm_ID source = mv_Target e then Diagnosed ''self-target''
     else case map_of allByID (mv_Target e) of None \<Rightarrow> Unavailable | Some target \<Rightarrow>
       if \<not> memoryEnvelopeProducesRecord h mc (sm_Envelope target) then Diagnosed ''wrong-target-kind''
       else if (mv_Operation e = ''supersede'' \<or> mv_Operation e = ''retract'') \<and> mv_Actor e \<noteq> mv_Actor (sm_Envelope target) then Diagnosed ''actor-mismatch''
       else if mv_Operation e = ''challenge'' \<and> mv_Actor e = mv_Actor (sm_Envelope target) then Diagnosed ''challenge-actor-rule''
       else Related)"

definition relationOf :: "StoredMemory \<Rightarrow> MemoryRelationship" where
  "relationOf s = \<lparr>ml_MemoryID = sm_ID s, ml_Stream = mv_Stream (sm_Envelope s), ml_Actor = mv_Actor (sm_Envelope s),
     ml_Operation = mv_Operation (sm_Envelope s), ml_TargetID = mv_Target (sm_Envelope s)\<rparr>"

definition targetDependency :: "StoredMemory \<Rightarrow> MemoryDependency" where
  "targetDependency s = \<lparr>md_Kind = ''lifecycle-target'', md_OwnerID = sm_ID s, md_Stream = mv_Stream (sm_Envelope s), md_Operation = mv_Operation (sm_Envelope s),
     md_MissingID = mv_Target (sm_Envelope s), md_Reason = ''target-unavailable''\<rparr>"

definition edgesTo :: "MemoryRelationship list \<Rightarrow> string \<Rightarrow> string \<Rightarrow> string list" where
  "edgesTo edges operation i = sort (map ml_MemoryID (filter (\<lambda>edge. ml_Operation edge = operation \<and> ml_TargetID edge = i) edges))"

definition finishRow :: "MemoryRelationship list \<Rightarrow> string list \<Rightarrow> MemoryProjectionRow \<Rightarrow> MemoryProjectionRow" where
  "finishRow edges missingByOwner row = (let successors = edgesTo edges ''supersede'' (mw_ID row); retractions = edgesTo edges ''retract'' (mw_ID row) in
     row\<lparr>mw_Challengers := edgesTo edges ''challenge'' (mw_ID row), mw_Successors := successors, mw_Retractions := retractions,
       mw_Lifecycle := (if mw_ID row \<in> set missingByOwner then ''dependency-missing''
         else if length retractions > 0 then ''retracted''
         else if length successors > 1 then ''branching''
         else if length successors = 1 then ''superseded'' else ''active'')\<rparr>)"

definition recordProducers :: "host \<Rightarrow> memoryCodec \<Rightarrow> StoredMemory list \<Rightarrow> (StoredMemory \<times> MemoryRecord) list" where
  "recordProducers h mc ordered = concat (map (\<lambda>s. if memoryEnvelopeProducesRecord h mc (sm_Envelope s)
     then (case mv_Record (sm_Envelope s) of None \<Rightarrow> [] | Some r \<Rightarrow> [(s, r)]) else []) ordered)"

definition ProjectMemories :: "host \<Rightarrow> memoryCodec \<Rightarrow> StoredMemory list \<Rightarrow> MemoryProjectionContext \<Rightarrow> MemoryProjection" where
  "ProjectMemories h mc memories cx = (let
     ordered = orderedMemories memories;
     allByID = map (\<lambda>s. (sm_ID s, s)) ordered;
     accepted = map sm_ID ordered;
     producers = recordProducers h mc ordered;
     relation = classifyRelation h mc allByID;
     unavailable = filter (\<lambda>s. relation s = Unavailable) ordered;
     relationships = map relationOf (filter (\<lambda>s. relation s = Related) ordered)
   in \<lparr>mj_PolicyCommit = cx_PolicyCommit cx, mj_PolicyDigest = cx_PolicyDigest cx,
     mj_Rows = sort_key mw_ID (map (\<lambda>(s, r). finishRow relationships (map sm_ID unavailable) (memoryRow h cx accepted s r)) producers),
     mj_Relationships = sort_key (\<lambda>e. (ml_TargetID e, ml_Operation e, ml_MemoryID e)) relationships,
     mj_MissingDependencies = sort_key (\<lambda>d. (md_MissingID d, md_OwnerID d, md_Kind d, md_Operation d))
       (concat (map (\<lambda>(s, r). rowDependencies cx accepted s r) producers) @ map targetDependency unavailable),
     mj_Diagnostics = sort_key (\<lambda>d. (mg_MemoryID d, mg_Code d))
       (concat (map (\<lambda>s. case relation s of Diagnosed code \<Rightarrow> [relationshipDiagnostic s code] | _ \<Rightarrow> []) ordered))\<rparr>)"

section \<open>Lemmas\<close>

lemma uniqueMemories_props:
  "distinct (map sm_ID (uniqueMemories seen ss))" "set (uniqueMemories seen ss) \<subseteq> set ss"
  "sm_ID ` set (uniqueMemories seen ss) = sm_ID ` set ss - set seen"
  "sorted (map sm_ID ss) \<Longrightarrow> sorted (map sm_ID (uniqueMemories seen ss))"
proof (induction seen ss rule: uniqueMemories.induct)
  case (2 seen s ss)
  { case 1 then show ?case using 2 by (auto simp: image_iff) }
  { case 2 then show ?case using "2.IH" by auto }
  { case 3 then show ?case using 2 by auto }
  { case 4 then show ?case using 2 by (auto simp: image_iff) }
qed simp_all

text \<open>Identifiers are digests: two memories with one identifier are the same memory.\<close>

definition consistent :: "StoredMemory list \<Rightarrow> bool" where
  "consistent memories \<longleftrightarrow> inj_on sm_ID (set memories)"

lemma orderedMemories_props:
  "sorted (map sm_ID (orderedMemories ms))" "distinct (map sm_ID (orderedMemories ms))"
  "consistent ms \<Longrightarrow> set (orderedMemories ms) = set ms"
proof -
  show "sorted (map sm_ID (orderedMemories ms))" "distinct (map sm_ID (orderedMemories ms))"
    using uniqueMemories_props(1,4) [where seen = "[]" and ss = "sort_key sm_ID ms"] by (simp_all add: orderedMemories_def)
  have sub: "set (orderedMemories ms) \<subseteq> set ms" and ids: "sm_ID ` set (orderedMemories ms) = sm_ID ` set ms"
    using uniqueMemories_props(2,3) [where seen = "[]" and ss = "sort_key sm_ID ms"] by (simp_all add: orderedMemories_def)
  show "set (orderedMemories ms) = set ms" if "consistent ms"
    using inj_on_image_eq_iff [OF that [unfolded consistent_def] sub subset_refl] ids by simp
qed

lemma orderedMemories_set:
  assumes "consistent ms" "set ms = set ms'"
  shows "orderedMemories ms = orderedMemories ms'"
proof -
  have c: "consistent ms'" using assms by (simp add: consistent_def)
  note s = orderedMemories_props(3) [OF assms(1)] orderedMemories_props(3) [OF c]
  have "map sm_ID (orderedMemories ms) = map sm_ID (orderedMemories ms')"
    by (rule sorted_distinct_set_unique) (simp_all add: orderedMemories_props(1,2) s assms(2))
  moreover have "inj_on sm_ID (set (orderedMemories ms) \<union> set (orderedMemories ms'))"
    using assms(1) by (simp add: s assms(2) [symmetric] consistent_def)
  ultimately show ?thesis by (simp add: inj_on_map_eq_map)
qed

text \<open>
  C35. The projection of a set of memories does not depend on the order or the number of times in which they were read.
\<close>

theorem ProjectMemories_order_independent:
  assumes "consistent memories" "set memories = set memories'"
  shows "ProjectMemories h mc memories cx = ProjectMemories h mc memories' cx"
  unfolding ProjectMemories_def orderedMemories_set [OF assms] ..

subsection \<open>Signing\<close>

lemma validateMemoryEnvelope_key:
  assumes "validateMemoryEnvelope h mc e = Inr ()"
  obtains pk where "decodesToKey (mv_PublicKey e) 32 = Some pk" "actorForPublicKey h pk = mv_Actor e"
  using assms by (auto simp: validateMemoryEnvelope_def split: option.splits if_splits)

text \<open>
  What \<open>encodeAndSignMemory\<close> signs, \<open>verifyMemory\<close> reads back as the same envelope under the digest of its payload, given that the
  decoder reads what the encoder wrote and that signatures have their size and verify under the public half of the key.
\<close>

theorem memory_sign_verify_roundtrip:
  assumes "encodeAndSignMemory h mc e (Some identity) = Inr (payload, sig)"
    and "mc_Decode mc (marshal (jsonEnvelope e)) = Some e" "\<not> mc_Trailing mc (marshal (jsonEnvelope e))" "validUtf8 (marshal (jsonEnvelope e))"
    and "\<And>key m. length (ed25519Sign h key m) = 64 \<and> ed25519Verify h (drop 32 key) m (ed25519Sign h key m)"
  shows "verifyMemory h mc payload sig = Inr (e, memoryID h payload)"
proof -
  have id: "mv_PublicKey e = id_PublicKey identity" "is_ok (validateIdentity h identity)" "validateMemoryEnvelope h mc e = Inr ()" "payload = marshal (jsonEnvelope e)"
    and "\<exists>key. privateKey identity = Inr key \<and> sig = ed25519Sign h key payload"
    using assms(1) by (auto simp: encodeAndSignMemory_def encodeMemoryEnvelope_def rbind_eq_Inr split: if_splits sum.splits)
  then obtain key where key: "decodesToKey (id_PrivateKey identity) 64 = Some key" "sig = ed25519Sign h key payload"
    by (auto simp: privateKey_def split: option.splits)
  obtain pk where pk: "decodesToKey (mv_PublicKey e) 32 = Some pk" "actorForPublicKey h pk = mv_Actor e" by (rule validateMemoryEnvelope_key [OF id(3)])
  have "drop 32 key = pk" using id(1,2) key(1) pk(1) by (simp add: validateIdentity_def split: if_splits)
  then have "length sig = 64" "ed25519Verify h pk payload sig" using assms(5) [of key payload] key(2) by auto
  then show ?thesis using pk id(3,4) assms(2-4) by (simp add: verifyMemory_def decodeMemoryEnvelope_def)
qed

subsection \<open>Applicability\<close>

lemma commitProblem_None: "commitProblem rs commit gap = None \<longleftrightarrow> mr_Probe rs commit = Inr (True, ''commit'')"
  by (auto simp: commitProblem_def split: sum.splits if_splits)

lemma commitProblem_Some: "fst gap = ''anchor-missing'' \<Longrightarrow> commitProblem rs commit gap = Some answer \<Longrightarrow> fst answer \<noteq> ''applicable''"
  by (auto simp: commitProblem_def split: sum.splits if_splits)

lemma modeApplies_Inl: "modeApplies owner stream r cx requested = Inl answer \<Longrightarrow> fst answer \<noteq> ''applicable''"
  by (auto simp: modeApplies_def anchorGap_def split: sum.splits if_splits)

lemma anchorGap_fst [simp]: "fst (anchorGap owner stream kind missing reason) = ''anchor-missing''"
  by (simp add: anchorGap_def)

text \<open>
  A record is applicable exactly when its anchor commit and the commit of the query are present, every anchored path is at the anchor as
  recorded, its mode covers the query, and it covers the subject and the path of the query, if there are any.
\<close>

theorem classifyMemoryApplicability_correct:
  "fst (classifyMemoryApplicability owner stream r cx) = ''applicable'' \<longleftrightarrow>
   (let rs = cx_Resolver cx; anchor = an_Commit (me_Anchor r); requested = (if cx_AtCommit cx = [] then anchor else cx_AtCommit cx); mode = ac_Mode (me_Applicability r) in
     mr_Probe rs anchor = Inr (True, ''commit'') \<and> mr_Probe rs requested = Inr (True, ''commit'') \<and>
     list_all (anchorHolds rs anchor) (elems (an_Paths (me_Anchor r))) \<and>
     (mode = ''exact'' \<and> requested = anchor \<or> mode = ''descendants'' \<and> mr_IsAncestor rs anchor requested = Inr (True, []) \<or>
      mode = ''subject'' \<and> cx_Subject cx \<noteq> [] \<and> cx_Subject cx = ac_Subject (me_Applicability r) \<and> cx_Subject cx = an_Subject (me_Anchor r)) \<and>
     cx_Subject cx \<in> {[], an_Subject (me_Anchor r)} \<and>
     (cx_Path cx = [] \<or> recordAnchorsPath r (cx_Path cx)))"
proof -
  define rs anchor mode where "rs = cx_Resolver cx" and "anchor = an_Commit (me_Anchor r)" and "mode = ac_Mode (me_Applicability r)"
  define requested where "requested = (if cx_AtCommit cx = [] then anchor else cx_AtCommit cx)"
  define p1 where "p1 = commitProblem rs anchor (anchorGap owner stream ''anchor-commit'' anchor ''anchor-commit-unavailable'')"
  define p2 where "p2 = (if requested \<noteq> anchor then commitProblem rs requested (anchorGap owner stream ''query-commit'' requested ''query-commit-unavailable'') else None)"
  define m where "m = modeApplies owner stream r cx requested"
  have p1: "p1 = None \<longleftrightarrow> mr_Probe rs anchor = Inr (True, ''commit'')" unfolding p1_def by (rule commitProblem_None)
  have p2: "p1 = None \<Longrightarrow> p2 = None \<longleftrightarrow> mr_Probe rs requested = Inr (True, ''commit'')" using p1 by (simp add: p2_def commitProblem_None)
  have none: "p1 = Some answer \<Longrightarrow> fst answer \<noteq> ''applicable''" "p2 = Some answer \<Longrightarrow> fst answer \<noteq> ''applicable''" "m = Inl answer \<Longrightarrow> fst answer \<noteq> ''applicable''" for answer
    by (auto simp: p1_def p2_def m_def dest: commitProblem_Some [rotated] modeApplies_Inl split: if_splits)
  have m: "m = Inr True \<longleftrightarrow> mode = ''exact'' \<and> requested = anchor \<or> mode = ''descendants'' \<and> mr_IsAncestor rs anchor requested = Inr (True, []) \<or>
      mode = ''subject'' \<and> cx_Subject cx \<noteq> [] \<and> cx_Subject cx = ac_Subject (me_Applicability r) \<and> cx_Subject cx = an_Subject (me_Anchor r)"
    unfolding m_def modeApplies_def mode_def [symmetric] anchor_def [symmetric] rs_def [symmetric] by (auto split: sum.splits prod.splits if_splits)
  have "fst (classifyMemoryApplicability owner stream r cx) = ''applicable'' \<longleftrightarrow> p1 = None \<and> list_all (anchorHolds rs anchor) (elems (an_Paths (me_Anchor r))) \<and>
      p2 = None \<and> m = Inr True \<and> \<not> (cx_Subject cx \<noteq> [] \<and> mode \<noteq> ''subject'' \<and> cx_Subject cx \<noteq> an_Subject (me_Anchor r)) \<and>
      (cx_Path cx = [] \<or> recordAnchorsPath r (cx_Path cx))"
    unfolding classifyMemoryApplicability_def Let_def rs_def [symmetric] anchor_def [symmetric] mode_def [symmetric] requested_def [symmetric]
      p1_def [symmetric] p2_def [symmetric] m_def [symmetric]
    using none by (cases p1; cases p2; cases m) auto
  then show ?thesis
    unfolding Let_def rs_def [symmetric] anchor_def [symmetric] mode_def [symmetric] requested_def [symmetric] m using p1 p2 by auto
qed

subsection \<open>Lifecycles\<close>

abbreviation memoryIndex :: "StoredMemory list \<Rightarrow> (string, StoredMemory) gomap" where
  "memoryIndex ms \<equiv> map (\<lambda>s. (sm_ID s, s)) (orderedMemories ms)"

abbreviation memoryActor :: "StoredMemory \<Rightarrow> string" where
  "memoryActor s \<equiv> mv_Actor (sm_Envelope s)"

definition memoryRelationships :: "host \<Rightarrow> memoryCodec \<Rightarrow> StoredMemory list \<Rightarrow> MemoryRelationship list" where
  "memoryRelationships h mc ms = map relationOf (filter (\<lambda>s. classifyRelation h mc (memoryIndex ms) s = Related) (orderedMemories ms))"

text \<open>The memories of the author of \<open>s\<close> that act on it.\<close>

definition authorMemories :: "host \<Rightarrow> memoryCodec \<Rightarrow> StoredMemory list \<Rightarrow> string \<Rightarrow> StoredMemory \<Rightarrow> StoredMemory set" where
  "authorMemories h mc ms operation s = {t \<in> set ms. mv_Operation (sm_Envelope t) = operation \<and> is_ok (validateMemoryEnvelope h mc (sm_Envelope t)) \<and>
     validMemoryID (sm_ID t) \<and> mv_Target (sm_Envelope t) = sm_ID s \<and> memoryActor t = memoryActor s \<and> t \<noteq> s}"

text \<open>A memory that acts on another which is not there.\<close>

definition targetMissing :: "host \<Rightarrow> memoryCodec \<Rightarrow> StoredMemory list \<Rightarrow> StoredMemory \<Rightarrow> bool" where
  "targetMissing h mc ms s \<longleftrightarrow> mv_Operation (sm_Envelope s) \<noteq> ''record'' \<and> is_ok (validateMemoryEnvelope h mc (sm_Envelope s)) \<and> validMemoryID (sm_ID s) \<and>
     mv_Target (sm_Envelope s) \<notin> sm_ID ` set ms"

lemma memoryIndex_lookup:
  assumes "consistent ms"
  shows "map_of (memoryIndex ms) i = Some s \<longleftrightarrow> s \<in> set ms \<and> sm_ID s = i" "map_of (memoryIndex ms) i = None \<longleftrightarrow> i \<notin> sm_ID ` set ms"
proof -
  have d: "distinct (map fst (memoryIndex ms))" using orderedMemories_props(2) [of ms] by (simp add: comp_def)
  show "map_of (memoryIndex ms) i = Some s \<longleftrightarrow> s \<in> set ms \<and> sm_ID s = i"
    using map_of_eq_Some_iff [OF d, of i s] orderedMemories_props(3) [OF assms] by auto
  show "map_of (memoryIndex ms) i = None \<longleftrightarrow> i \<notin> sm_ID ` set ms"
    using orderedMemories_props(3) [OF assms] by (simp add: map_of_eq_None_iff image_image)
qed

lemma related_author:
  assumes "consistent ms" "s \<in> set ms" "memoryEnvelopeProducesRecord h mc (sm_Envelope s)" "operation \<in> {''supersede'', ''retract''}"
  shows "t \<in> set ms \<and> classifyRelation h mc (memoryIndex ms) t = Related \<and> mv_Operation (sm_Envelope t) = operation \<and> mv_Target (sm_Envelope t) = sm_ID s \<longleftrightarrow>
    t \<in> authorMemories h mc ms operation s"
proof (cases "t \<in> set ms \<and> mv_Operation (sm_Envelope t) = operation \<and> mv_Target (sm_Envelope t) = sm_ID s")
  case True
  have "map_of (memoryIndex ms) (sm_ID s) = Some s" using memoryIndex_lookup(1) [OF assms(1)] assms(2) by blast
  moreover have "sm_ID t = sm_ID s \<longleftrightarrow> t = s" using assms(1,2) True by (auto simp: consistent_def dest: inj_onD)
  ultimately show ?thesis using True assms(3,4) by (auto simp: classifyRelation_def Let_def authorMemories_def)
qed (auto simp: authorMemories_def)

lemma edges_author:
  assumes "consistent ms" "s \<in> set ms" "memoryEnvelopeProducesRecord h mc (sm_Envelope s)" "operation \<in> {''supersede'', ''retract''}"
  shows "edgesTo (memoryRelationships h mc ms) operation (sm_ID s) = sorted_list_of_set (sm_ID ` authorMemories h mc ms operation s)"
    "length (edgesTo (memoryRelationships h mc ms) operation (sm_ID s)) = card (authorMemories h mc ms operation s)"
proof -
  let ?P = "\<lambda>t. classifyRelation h mc (memoryIndex ms) t = Related \<and> mv_Operation (sm_Envelope t) = operation \<and> mv_Target (sm_Envelope t) = sm_ID s"
  let ?ts = "filter ?P (orderedMemories ms)"
  have e: "edgesTo (memoryRelationships h mc ms) operation (sm_ID s) = sort (map sm_ID ?ts)"
    by (simp add: edgesTo_def memoryRelationships_def relationOf_def filter_map comp_def conj_commute)
  have ts: "set ?ts = authorMemories h mc ms operation s"
    using related_author [OF assms] orderedMemories_props(3) [OF assms(1)] by auto
  have "distinct ?ts" using orderedMemories_props(2) [of ms] by (simp add: distinct_map)
  from distinct_card [OF this] show "length (edgesTo (memoryRelationships h mc ms) operation (sm_ID s)) = card (authorMemories h mc ms operation s)"
    unfolding e ts [symmetric] by (simp only: length_sort length_map)
  have "distinct (map sm_ID ?ts)" using orderedMemories_props(2) [of ms] by (rule distinct_map_filter)
  from sort_distinct_set [OF this] show "edgesTo (memoryRelationships h mc ms) operation (sm_ID s) = sorted_list_of_set (sm_ID ` authorMemories h mc ms operation s)"
    unfolding e ts [symmetric] by (simp only: list.set_map)
qed

lemma unavailable_iff:
  assumes "consistent ms" "s \<in> set ms"
  shows "sm_ID s \<in> set (map sm_ID (filter (\<lambda>t. classifyRelation h mc (memoryIndex ms) t = Unavailable) (orderedMemories ms))) \<longleftrightarrow> targetMissing h mc ms s"
proof -
  have "classifyRelation h mc (memoryIndex ms) s = Unavailable \<longleftrightarrow> targetMissing h mc ms s"
    using memoryIndex_lookup(2) [OF assms(1), of "mv_Target (sm_Envelope s)"] imageI [OF assms(2), of sm_ID]
    by (cases "map_of (memoryIndex ms) (mv_Target (sm_Envelope s))") (auto simp: classifyRelation_def Let_def targetMissing_def)
  moreover have "sm_ID s \<in> sm_ID ` {t \<in> set ms. P t} \<longleftrightarrow> P s" for P
    using inj_on_image_mem_iff [OF assms(1) [unfolded consistent_def] assms(2), of "{t \<in> set ms. P t}"] assms(2) by simp
  ultimately show ?thesis by (simp add: orderedMemories_props(3) [OF assms(1)])
qed

lemma recordProducers_iff: "(s, r) \<in> set (recordProducers h mc ordered) \<longleftrightarrow> s \<in> set ordered \<and> memoryEnvelopeProducesRecord h mc (sm_Envelope s) \<and> mv_Record (sm_Envelope s) = Some r"
  by (auto simp: recordProducers_def split: option.splits if_splits)

definition finishedRow :: "host \<Rightarrow> memoryCodec \<Rightarrow> StoredMemory list \<Rightarrow> MemoryProjectionContext \<Rightarrow> StoredMemory \<Rightarrow> MemoryRecord \<Rightarrow> MemoryProjectionRow" where
  "finishedRow h mc ms cx s r = finishRow (memoryRelationships h mc ms)
     (map sm_ID (filter (\<lambda>t. classifyRelation h mc (memoryIndex ms) t = Unavailable) (orderedMemories ms))) (memoryRow h cx (map sm_ID (orderedMemories ms)) s r)"

lemma ProjectMemories_rows:
  assumes "consistent ms"
  shows "set (mj_Rows (ProjectMemories h mc ms cx)) =
    {finishedRow h mc ms cx s r | s r. s \<in> set ms \<and> memoryEnvelopeProducesRecord h mc (sm_Envelope s) \<and> mv_Record (sm_Envelope s) = Some r}"
proof -
  have "set (mj_Rows (ProjectMemories h mc ms cx)) = (\<lambda>(s, r). finishedRow h mc ms cx s r) ` set (recordProducers h mc (orderedMemories ms))"
    by (simp add: ProjectMemories_def Let_def finishedRow_def memoryRelationships_def)
  also have "set (recordProducers h mc (orderedMemories ms)) = {(s, r). s \<in> set ms \<and> memoryEnvelopeProducesRecord h mc (sm_Envelope s) \<and> mv_Record (sm_Envelope s) = Some r}"
    using recordProducers_iff [of _ _ h mc "orderedMemories ms"] orderedMemories_props(3) [OF assms] by auto
  finally show ?thesis by auto
qed

definition lifecycleOf :: "host \<Rightarrow> memoryCodec \<Rightarrow> StoredMemory list \<Rightarrow> StoredMemory \<Rightarrow> string" where
  "lifecycleOf h mc ms s = (let successors = authorMemories h mc ms ''supersede'' s in
     if targetMissing h mc ms s then ''dependency-missing''
     else if authorMemories h mc ms ''retract'' s \<noteq> {} then ''retracted''
     else if card successors > 1 then ''branching''
     else if card successors = 1 then ''superseded'' else ''active'')"

lemma finishedRow_simps:
  "mw_ID (finishedRow h mc ms cx s r) = sm_ID s" "mw_Actor (finishedRow h mc ms cx s r) = memoryActor s" "mw_Data (finishedRow h mc ms cx s r) = r"
  by (simp_all add: finishedRow_def finishRow_def memoryRow_def Let_def split: prod.splits)

lemma finishedRow_lifecycle:
  assumes "consistent ms" "s \<in> set ms" "memoryEnvelopeProducesRecord h mc (sm_Envelope s)"
  shows "mw_Lifecycle (finishedRow h mc ms cx s r) = lifecycleOf h mc ms s"
proof -
  have fin: "finite (authorMemories h mc ms ''retract'' s)" by (simp add: authorMemories_def)
  have i: "mw_ID (memoryRow h cx acc s r) = sm_ID s" for acc by (simp add: memoryRow_def split: prod.splits)
  show ?thesis
    unfolding finishedRow_def finishRow_def Let_def lifecycleOf_def i unavailable_iff [OF assms(1,2)]
    using fin by (simp add: edges_author(2) [OF assms] card_gt_0_iff)
qed

text \<open>
  C34. The rows of a projection are the valid records among the memories, each with its lifecycle: \<open>dependency-missing\<close> while the memory it
  succeeds is not among the memories at all, whoever that memory is from; otherwise retracted when its own author retracts it, branching when
  its author supersedes it more than once, superseded when once, and active when its author does neither.
\<close>

theorem ProjectMemories_lifecycle:
  assumes "consistent memories"
  shows "(\<lambda>row. (mw_ID row, mw_Actor row, mw_Data row, mw_Lifecycle row)) ` set (mj_Rows (ProjectMemories h mc memories cx)) =
    {(sm_ID s, memoryActor s, r, lifecycleOf h mc memories s) | s r. s \<in> set memories \<and> memoryEnvelopeProducesRecord h mc (sm_Envelope s) \<and> mv_Record (sm_Envelope s) = Some r}"
proof -
  have image: "F ` {g s r | s r. P s r} = {k s r | s r. P s r}" if "\<And>s r. P s r \<Longrightarrow> F (g s r) = k s r" for F g k P
    using that by (auto simp: image_iff) metis
  show ?thesis
    unfolding ProjectMemories_rows [OF assms] by (rule image) (simp add: finishedRow_simps finishedRow_lifecycle [OF assms])
qed

text \<open>
  C33. Memories of other actors cannot suppress a record: whatever they are, a record that is not waiting for a missing memory keeps its
  lifecycle, its successors and its retractions.
\<close>

theorem foreign_memories_harmless:
  assumes "consistent (memories @ others)" "row \<in> set (mj_Rows (ProjectMemories h mc memories cx))" "mw_Lifecycle row \<noteq> ''dependency-missing''"
    and "\<And>t. t \<in> set others \<Longrightarrow> memoryActor t \<noteq> mw_Actor row"
  shows "\<exists>row' \<in> set (mj_Rows (ProjectMemories h mc (memories @ others) cx)). mw_ID row' = mw_ID row \<and> mw_Data row' = mw_Data row \<and>
    mw_Lifecycle row' = mw_Lifecycle row \<and> mw_Successors row' = mw_Successors row \<and> mw_Retractions row' = mw_Retractions row"
proof -
  have c: "consistent memories" using assms(1) by (simp add: consistent_def inj_on_Un)
  obtain s r where s: "s \<in> set memories" "memoryEnvelopeProducesRecord h mc (sm_Envelope s)" "mv_Record (sm_Envelope s) = Some r" "row = finishedRow h mc memories cx s r"
    using assms(2) unfolding ProjectMemories_rows [OF c] by blast
  have s': "s \<in> set (memories @ others)" using s(1) by simp
  have same: "authorMemories h mc (memories @ others) operation s = authorMemories h mc memories operation s" for operation
    using assms(4) by (auto simp: authorMemories_def s(4) finishedRow_simps)
  have "\<not> targetMissing h mc memories s"
    using assms(3) by (auto simp: s(4) finishedRow_lifecycle [OF c s(1,2)] lifecycleOf_def Let_def)
  then have "targetMissing h mc (memories @ others) s = targetMissing h mc memories s" by (auto simp: targetMissing_def)
  then have life: "lifecycleOf h mc (memories @ others) s = lifecycleOf h mc memories s" by (simp add: lifecycleOf_def Let_def same)
  have edges: "mw_Successors (finishedRow h mc ms cx s r) = edgesTo (memoryRelationships h mc ms) ''supersede'' (sm_ID s)"
    "mw_Retractions (finishedRow h mc ms cx s r) = edgesTo (memoryRelationships h mc ms) ''retract'' (sm_ID s)" for ms
    by (simp_all add: finishedRow_def finishRow_def memoryRow_def Let_def split: prod.splits)
  have "finishedRow h mc (memories @ others) cx s r \<in> set (mj_Rows (ProjectMemories h mc (memories @ others) cx))"
    unfolding ProjectMemories_rows [OF assms(1)] using s' s(2,3) by blast
  then show ?thesis
    by (rule rev_bexI) (simp add: s(4) finishedRow_simps edges edges_author(1) [OF assms(1) s' s(2)] edges_author(1) [OF c s(1,2)] same
      finishedRow_lifecycle [OF assms(1) s' s(2)] finishedRow_lifecycle [OF c s(1,2)] life)
qed

section \<open>Sample memories\<close>

definition memoryHost :: host where
  "memoryHost = \<lparr>sha256 = (\<lambda>s. replicate 32 (hd (s @ [CHR 0x00]))), ed25519Verify = (\<lambda>k m s. True), ed25519Sign = (\<lambda>k m. replicate 64 CHR 0x00)\<rparr>"

definition memoryIdentity :: "char \<Rightarrow> Identity" where
  "memoryIdentity c = \<lparr>id_Actor = hexEncodeToString (replicate 32 c), id_Name = ''Ann'', id_PublicKey = base64Encode (replicate 32 c),
     id_PrivateKey = base64Encode (replicate 64 c)\<rparr>"

definition sampleObservation :: MemoryRecord where
  "sampleObservation = \<lparr>me_Kind = ''observation'', me_Content = ''x'', me_Anchor = \<lparr>an_Commit = replicate 40 CHR ''a'', an_Paths = None, an_Subject = []\<rparr>,
     me_Applicability = \<lparr>ac_Mode = ''exact'', ac_Subject = []\<rparr>, me_Topics = Some [], me_Evidence = Some [], me_AttemptOutcome = [], me_Handoff = None\<rparr>"

definition observation :: MemoryEnvelope where
  "observation = (newMemoryEnvelope (memoryIdentity CHR 0x11) ''t'' ''record'' (sampleID CHR ''9'') 1 [])\<lparr>mv_Record := Some sampleObservation\<rparr>"

definition retraction :: "char \<Rightarrow> MemoryEnvelope" where
  "retraction c = (newMemoryEnvelope (memoryIdentity c) ''t'' ''retract'' (sampleID CHR ''9'') 2 (sampleID CHR ''1''))\<lparr>mv_Target := sampleID CHR ''1'', mv_Reason := ''wrong''\<rparr>"

definition sampleMemory :: "char \<Rightarrow> MemoryEnvelope \<Rightarrow> StoredMemory" where
  "sampleMemory c e = \<lparr>sm_ID = sampleID c, sm_Commit = [], sm_Envelope = e, sm_Payload = [], sm_Signature = []\<rparr>"

definition recorded :: StoredMemory where "recorded = sampleMemory CHR ''1'' observation"
definition retracted :: StoredMemory where "retracted = sampleMemory CHR ''2'' (retraction CHR 0x11)"
definition foreign :: StoredMemory where "foreign = sampleMemory CHR ''3'' (retraction CHR 0x22)"

definition sampleMemoryCodec :: memoryCodec where
  "sampleMemoryCodec = \<lparr>mc_Decode = (\<lambda>_. Some observation), mc_Trailing = (\<lambda>_. False), mc_Timestamp = (\<lambda>_. True), mc_ToLower = (\<lambda>s. s)\<rparr>"

definition sampleContext :: MemoryProjectionContext where
  "sampleContext = \<lparr>cx_AtCommit = [], cx_Subject = [], cx_Path = [], cx_Events = [], cx_MemoryPolicy = None, cx_PolicyCommit = [], cx_PolicyDigest = [],
     cx_Resolver = \<lparr>mr_Probe = (\<lambda>_. Inr (True, ''commit'')), mr_IsAncestor = (\<lambda>_ _. Inr (True, [])), mr_TreeEntry = (\<lambda>_ _. Inr ([], False))\<rparr>\<rparr>"

lemma sampleMemories_valid:
  "is_ok (validateMemoryEnvelope memoryHost sampleMemoryCodec (sm_Envelope recorded))" "is_ok (validateMemoryEnvelope memoryHost sampleMemoryCodec (sm_Envelope retracted))"
  "is_ok (validateMemoryEnvelope memoryHost sampleMemoryCodec (sm_Envelope foreign))" "validMemoryID (sm_ID retracted)"
  by code_simp+

lemma sampleMemories_ids: "sm_ID recorded \<noteq> sm_ID retracted" "sm_ID recorded \<noteq> sm_ID foreign" "memoryActor foreign \<noteq> memoryActor recorded"
  by code_simp+

lemma sampleMemories_consistent: "consistent [recorded, retracted]" "consistent ([recorded] @ [foreign])"
  using sampleMemories_ids by (auto simp: consistent_def)

lemma recorded_produces: "memoryEnvelopeProducesRecord memoryHost sampleMemoryCodec (sm_Envelope recorded)" "mv_Record (sm_Envelope recorded) = Some sampleObservation"
  "mv_Operation (sm_Envelope recorded) = ''record''"
  by (code_simp, simp_all add: recorded_def sampleMemory_def observation_def newMemoryEnvelope_def)

section \<open>Witnesses\<close>

theorem ProjectMemories_order_independent_witness:
  "ProjectMemories memoryHost sampleMemoryCodec [recorded, retracted] sampleContext = ProjectMemories memoryHost sampleMemoryCodec [retracted, recorded, retracted] sampleContext"
  by (rule ProjectMemories_order_independent [OF sampleMemories_consistent(1)]) auto

theorem memory_sign_verify_roundtrip_witness:
  "\<exists>payload sig. encodeAndSignMemory memoryHost sampleMemoryCodec observation (Some (memoryIdentity CHR 0x11)) = Inr (payload, sig) \<and>
     verifyMemory memoryHost sampleMemoryCodec payload sig = Inr (observation, memoryID memoryHost payload)"
proof -
  have "is_ok (encodeAndSignMemory memoryHost sampleMemoryCodec observation (Some (memoryIdentity CHR 0x11)))" by code_simp
  then obtain payload sig where s: "encodeAndSignMemory memoryHost sampleMemoryCodec observation (Some (memoryIdentity CHR 0x11)) = Inr (payload, sig)"
    by (auto elim: is_okE)
  have "validUtf8 (marshal (jsonEnvelope observation))" by code_simp
  then show ?thesis using s memory_sign_verify_roundtrip [OF s] by (simp add: sampleMemoryCodec_def memoryHost_def)
qed

theorem classifyMemoryApplicability_correct_witness:
  "fst (classifyMemoryApplicability [] [] sampleObservation sampleContext) = ''applicable''"
  unfolding classifyMemoryApplicability_correct by (simp add: Let_def sampleContext_def sampleObservation_def)

theorem ProjectMemories_lifecycle_witness:
  "\<exists>row \<in> set (mj_Rows (ProjectMemories memoryHost sampleMemoryCodec [recorded, retracted] sampleContext)). mw_ID row = sm_ID recorded \<and> mw_Lifecycle row = ''retracted''"
proof -
  have "retracted \<in> authorMemories memoryHost sampleMemoryCodec [recorded, retracted] ''retract'' recorded"
    using sampleMemories_valid sampleMemories_ids(1)
    by (auto simp: authorMemories_def recorded_def retracted_def sampleMemory_def retraction_def observation_def newMemoryEnvelope_def)
  moreover have "\<not> targetMissing memoryHost sampleMemoryCodec [recorded, retracted] recorded"
    by (simp add: targetMissing_def recorded_produces(3))
  ultimately have "lifecycleOf memoryHost sampleMemoryCodec [recorded, retracted] recorded = ''retracted''" by (auto simp: lifecycleOf_def Let_def)
  then have "(sm_ID recorded, memoryActor recorded, sampleObservation, ''retracted'') \<in>
      (\<lambda>row. (mw_ID row, mw_Actor row, mw_Data row, mw_Lifecycle row)) ` set (mj_Rows (ProjectMemories memoryHost sampleMemoryCodec [recorded, retracted] sampleContext))"
    unfolding ProjectMemories_lifecycle [OF sampleMemories_consistent(1)] using recorded_produces by (auto intro!: exI [of _ recorded])
  then show ?thesis by auto
qed

theorem foreign_memories_harmless_witness:
  "\<exists>row \<in> set (mj_Rows (ProjectMemories memoryHost sampleMemoryCodec ([recorded] @ [foreign]) sampleContext)). mw_ID row = sm_ID recorded \<and> mw_Lifecycle row = ''active''"
proof -
  have c: "consistent [recorded]" by (simp add: consistent_def)
  let ?row = "finishedRow memoryHost sampleMemoryCodec [recorded] sampleContext recorded sampleObservation"
  have r: "?row \<in> set (mj_Rows (ProjectMemories memoryHost sampleMemoryCodec [recorded] sampleContext))"
    unfolding ProjectMemories_rows [OF c] using recorded_produces by auto
  have "authorMemories memoryHost sampleMemoryCodec [recorded] operation recorded = {}" for operation by (auto simp: authorMemories_def)
  then have life: "mw_Lifecycle ?row = ''active''"
    by (simp add: finishedRow_lifecycle [OF c _ recorded_produces(1)] lifecycleOf_def Let_def targetMissing_def recorded_produces(3))
  have "\<exists>row' \<in> set (mj_Rows (ProjectMemories memoryHost sampleMemoryCodec ([recorded] @ [foreign]) sampleContext)). mw_ID row' = mw_ID ?row \<and> mw_Data row' = mw_Data ?row \<and>
    mw_Lifecycle row' = mw_Lifecycle ?row \<and> mw_Successors row' = mw_Successors ?row \<and> mw_Retractions row' = mw_Retractions ?row"
    by (rule foreign_memories_harmless [OF sampleMemories_consistent(2) r]) (use life sampleMemories_ids(3) in \<open>simp_all add: finishedRow_simps\<close>)
  then show ?thesis using life by (auto simp: finishedRow_simps)
qed

end
