(* ===== verification/HN_Utf8.thy ===== *)
theory HN_Utf8
  imports HN_Json
begin

text \<open>
  UTF-8 as the readers of the program use it: the encoding of a rune and its agreement with the decoder
  of the prelude, and how validity of a text passes to its parts and to texts built from them.
\<close>

section \<open>Encoding\<close>

text \<open>The UTF-8 encoding of a rune; a surrogate or a value out of range is encoded as U+FFFD.\<close>

definition encodeRune :: "nat \<Rightarrow> string" where
  "encodeRune r =
     (if r < 128 then [char_of r]
      else if r < 2048 then [char_of (192 + r div 64), char_of (128 + r mod 64)]
      else if (55296 \<le> r \<and> r \<le> 57343) \<or> 1114111 < r then [CHR 0xEF, CHR 0xBF, CHR 0xBD]
      else if r < 65536 then [char_of (224 + r div 4096), char_of (128 + r div 64 mod 64), char_of (128 + r mod 64)]
      else [char_of (240 + r div 262144), char_of (128 + r div 4096 mod 64), char_of (128 + r div 64 mod 64), char_of (128 + r mod 64)])"

section \<open>Runes\<close>

text \<open>A rune that decoded without an error decodes in the same way before any text, and its bytes are its encoding.\<close>

definition goodRune :: "nat \<times> string \<Rightarrow> bool" where
  "goodRune p \<longleftrightarrow> (case p of (r, bs) \<Rightarrow> bs \<noteq> [] \<and> bs = encodeRune r \<and> \<not> (r = runeError \<and> length bs = 1)
     \<and> (r < 128 \<or> list_all (\<lambda>c. 128 \<le> byte c) bs))"

lemma digits_div_mod: "(m :: nat) < k \<Longrightarrow> (x * k + m) div k = x" "m < k \<Longrightarrow> (x * k + m) mod k = m"
  by simp_all

lemma diff_obtain: "(k :: nat) \<le> n \<Longrightarrow> (\<And>x. n = k + x \<Longrightarrow> n - k = x \<Longrightarrow> P) \<Longrightarrow> P"
  by (metis le_add_diff_inverse)

lemma encodeRune_2:
  assumes "194 \<le> byte a" "byte a \<le> 223" "isCont b"
  shows "[a, b] = encodeRune ((byte a - 192) * 64 + (byte b - 128)) \<and> 128 \<le> (byte a - 192) * 64 + (byte b - 128)"
proof -
  obtain x where x: "byte a = 192 + x" "byte a - 192 = x" by (rule diff_obtain [of 192 "byte a"]) (use assms in auto)
  obtain y where y: "byte b = 128 + y" "byte b - 128 = y" by (rule diff_obtain [of 128 "byte b"]) (use assms in \<open>auto simp: isCont_def\<close>)
  have bnd: "2 \<le> x" "x < 32" "y < 64" using assms x y by (auto simp: isCont_def)
  have "char_of (192 + x) = a" "char_of (128 + y) = b" by (simp_all flip: x(1) y(1))
  then show ?thesis
    using bnd digits_div_mod [of y 64 x] unfolding x(2) y(2) by (simp add: encodeRune_def)
qed

lemma encodeRune_3:
  assumes "224 \<le> byte a" "byte a \<le> 239" "isCont b" "isCont c"
    and "byte a = 224 \<longrightarrow> 160 \<le> byte b" "byte a = 237 \<longrightarrow> byte b \<le> 159"
    and r: "r = (byte a - 224) * 4096 + (byte b - 128) * 64 + (byte c - 128)"
  shows "[a, b, c] = encodeRune r \<and> 128 \<le> r"
proof -
  obtain x where x: "byte a = 224 + x" "byte a - 224 = x" by (rule diff_obtain [of 224 "byte a"]) (use assms in auto)
  obtain y where y: "byte b = 128 + y" "byte b - 128 = y" by (rule diff_obtain [of 128 "byte b"]) (use assms in \<open>auto simp: isCont_def\<close>)
  obtain z where z: "byte c = 128 + z" "byte c - 128 = z" by (rule diff_obtain [of 128 "byte c"]) (use assms in \<open>auto simp: isCont_def\<close>)
  have bnd: "x < 16" "y < 64" "z < 64" "x = 0 \<longrightarrow> 32 \<le> y" "x = 13 \<longrightarrow> y < 32"
    using assms x y z by (auto simp: isCont_def)
  have r': "r = (x * 64 + y) * 64 + z" using r x y z by simp
  have low: "r div 64 = x * 64 + y" "r mod 64 = z" unfolding r' using digits_div_mod [of z 64 "x * 64 + y"] bnd by simp_all
  then have mid: "r div 64 mod 64 = y" "r div 4096 = x"
    using digits_div_mod [of y 64 x] bnd by (simp_all add: div_mult2_eq [of r 64 64, simplified])
  have range: "2048 \<le> r" "r < 65536" using bnd unfolding r' by (cases "x = 0"; simp)+
  have "\<not> (55296 \<le> r \<and> r \<le> 57343)"
  proof
    assume s: "55296 \<le> r \<and> r \<le> 57343"
    then have "55296 \<le> x * 4096 + y * 64 + z" "x * 4096 + y * 64 + z \<le> 57343" unfolding r' by simp_all
    then have "x = 13" using bnd(1-3) by linarith
    with bnd s show False unfolding r' by simp
  qed
  moreover have "char_of (224 + x) = a" "char_of (128 + y) = b" "char_of (128 + z) = c" by (simp_all flip: x(1) y(1) z(1))
  ultimately show ?thesis using range low(2) mid by (auto simp: encodeRune_def)
qed

lemma encodeRune_4:
  assumes "240 \<le> byte a" "byte a \<le> 244" "isCont b" "isCont c" "isCont d"
    and "byte a = 240 \<longrightarrow> 144 \<le> byte b" "byte a = 244 \<longrightarrow> byte b \<le> 143"
    and r: "r = (byte a - 240) * 262144 + (byte b - 128) * 4096 + (byte c - 128) * 64 + (byte d - 128)"
  shows "[a, b, c, d] = encodeRune r \<and> 128 \<le> r"
proof -
  obtain x where x: "byte a = 240 + x" "byte a - 240 = x" by (rule diff_obtain [of 240 "byte a"]) (use assms in auto)
  obtain y where y: "byte b = 128 + y" "byte b - 128 = y" by (rule diff_obtain [of 128 "byte b"]) (use assms in \<open>auto simp: isCont_def\<close>)
  obtain z where z: "byte c = 128 + z" "byte c - 128 = z" by (rule diff_obtain [of 128 "byte c"]) (use assms in \<open>auto simp: isCont_def\<close>)
  obtain u where u: "byte d = 128 + u" "byte d - 128 = u" by (rule diff_obtain [of 128 "byte d"]) (use assms in \<open>auto simp: isCont_def\<close>)
  have bnd: "x < 5" "y < 64" "z < 64" "u < 64" "x = 0 \<longrightarrow> 16 \<le> y" "x = 4 \<longrightarrow> y < 16"
    using assms x y z u by (auto simp: isCont_def)
  have r': "r = ((x * 64 + y) * 64 + z) * 64 + u" using r x y z u by simp
  have low: "r div 64 = (x * 64 + y) * 64 + z" "r mod 64 = u"
    unfolding r' using digits_div_mod [of u 64 "(x * 64 + y) * 64 + z"] bnd by simp_all
  then have mid: "r div 64 mod 64 = z" "r div 4096 = x * 64 + y"
    using digits_div_mod [of z 64 "x * 64 + y"] bnd by (simp_all add: div_mult2_eq [of r 64 64, simplified])
  then have top: "r div 4096 mod 64 = y" "r div 262144 = x"
    using digits_div_mod [of y 64 x] bnd by (simp_all add: div_mult2_eq [of r 4096 64, simplified])
  have "65536 \<le> r" using bnd unfolding r' by (cases "x = 0") simp_all
  moreover have "r \<le> 1114111" using bnd unfolding r' by (cases "x = 4") simp_all
  moreover have "char_of (240 + x) = a" "char_of (128 + y) = b" "char_of (128 + z) = c" "char_of (128 + u) = d"
    by (simp_all flip: x(1) y(1) z(1) u(1))
  ultimately show ?thesis using low(2) mid(1) top by (simp add: encodeRune_def)
qed

lemma decodeRune_cases:
  assumes "decodeRune s = (r, w)" and "s \<noteq> []" and ok: "\<not> (r = runeError \<and> w = 1)"
  obtains (one) a t where "s = a # t" "byte a < 128" "r = byte a" "w = 1"
  | (two) a b t where "s = a # b # t" "194 \<le> byte a" "byte a \<le> 223" "isCont b"
      "r = (byte a - 192) * 64 + (byte b - 128)" "w = 2"
  | (three) a b c t where "s = a # b # c # t" "224 \<le> byte a" "byte a \<le> 239" "isCont b" "isCont c"
      "byte a = 224 \<longrightarrow> 160 \<le> byte b" "byte a = 237 \<longrightarrow> byte b \<le> 159"
      "r = (byte a - 224) * 4096 + (byte b - 128) * 64 + (byte c - 128)" "w = 3"
  | (four) a b c d t where "s = a # b # c # d # t" "240 \<le> byte a" "byte a \<le> 244" "isCont b" "isCont c" "isCont d"
      "byte a = 240 \<longrightarrow> 144 \<le> byte b" "byte a = 244 \<longrightarrow> byte b \<le> 143"
      "r = (byte a - 240) * 262144 + (byte b - 128) * 4096 + (byte c - 128) * 64 + (byte d - 128)" "w = 4"
proof -
  obtain a t where s: "s = a # t" using assms(2) by (cases s) auto
  consider "byte a < 128" | "194 \<le> byte a \<and> byte a \<le> 223" | "224 \<le> byte a \<and> byte a \<le> 239"
    | "240 \<le> byte a \<and> byte a \<le> 244" | "128 \<le> byte a \<and> byte a < 194 \<or> 244 < byte a" by linarith
  then show ?thesis
  proof cases
    case 1
    with assms(1) s show ?thesis by (intro one [of a t]) (auto simp: decodeRune_def Let_def)
  next
    case 2
    with assms(1) s ok obtain b t' where "t = b # t'" "isCont b"
      by (auto simp: decodeRune_def Let_def split: list.splits if_split_asm)
    with 2 assms(1) s show ?thesis by (intro two [of a b t']) (auto simp: decodeRune_def Let_def)
  next
    case 3
    with assms(1) s ok obtain b c t' where "t = b # c # t'" "isCont b" "isCont c"
      "byte a = 224 \<longrightarrow> 160 \<le> byte b" "byte a = 237 \<longrightarrow> byte b \<le> 159"
      by (auto simp: decodeRune_def Let_def split: list.splits if_split_asm)
    with 3 assms(1) s show ?thesis by (intro three [of a b c t']) (auto simp: decodeRune_def Let_def)
  next
    case 4
    with assms(1) s ok obtain b c d t' where "t = b # c # d # t'" "isCont b" "isCont c" "isCont d"
      "byte a = 240 \<longrightarrow> 144 \<le> byte b" "byte a = 244 \<longrightarrow> byte b \<le> 143"
      by (auto simp: decodeRune_def Let_def split: list.splits if_split_asm)
    with 4 assms(1) s show ?thesis by (intro four [of a b c d t']) (auto simp: decodeRune_def Let_def)
  next
    case 5
    with assms(1) s ok show ?thesis by (auto simp: decodeRune_def Let_def split: if_split_asm)
  qed
qed

lemma decodeRune_good:
  assumes "decodeRune s = (r, w)" and "s \<noteq> []" and ok: "\<not> (r = runeError \<and> w = 1)"
  shows "goodRune (r, take w s)"
  using assms
proof (cases rule: decodeRune_cases)
  case (one a t)
  then show ?thesis using ok by (simp add: goodRune_def encodeRune_def)
next
  case (two a b t)
  then have "take w s = encodeRune r \<and> 128 \<le> r" using encodeRune_2 [of a b] by simp
  moreover have "list_all (\<lambda>c. 128 \<le> byte c) (take w s)" "length (take w s) = w" "take w s \<noteq> []" "w \<noteq> 1"
    using two by (simp_all add: isCont_def)
  ultimately show ?thesis unfolding goodRune_def by auto
next
  case (three a b c t)
  then have "take w s = encodeRune r \<and> 128 \<le> r" using encodeRune_3 [of a b c r] by simp
  moreover have "list_all (\<lambda>c. 128 \<le> byte c) (take w s)" "length (take w s) = w" "take w s \<noteq> []" "w \<noteq> 1"
    using three by (simp_all add: isCont_def)
  ultimately show ?thesis unfolding goodRune_def by auto
next
  case (four a b c d t)
  then have "take w s = encodeRune r \<and> 128 \<le> r" using encodeRune_4 [of a b c d r] by simp
  moreover have "list_all (\<lambda>c. 128 \<le> byte c) (take w s)" "length (take w s) = w" "take w s \<noteq> []" "w \<noteq> 1"
    using four by (simp_all add: isCont_def)
  ultimately show ?thesis unfolding goodRune_def by auto
qed

lemma decodeRune_append:
  assumes "decodeRune s = (r, w)" and "s \<noteq> []" and ok: "\<not> (r = runeError \<and> w = 1)"
  shows "decodeRune (take w s @ t) = (r, w)"
  using assms by (cases rule: decodeRune_cases) (simp_all add: decodeRune_def Let_def)

lemma runes_Cons: "s \<noteq> [] \<Longrightarrow> decodeRune s = (r, w) \<Longrightarrow> runes s = (r, take w s) # runes (drop w s)"
  by (subst runes.simps) simp

lemma validUtf8_induct [consumes 1, case_names Nil Rune]:
  assumes "validUtf8 s" and "P []"
    and step: "\<And>s r w. s \<noteq> [] \<Longrightarrow> decodeRune s = (r, w) \<Longrightarrow> \<not> (r = runeError \<and> w = 1) \<Longrightarrow> 0 < w \<Longrightarrow> w \<le> length s
      \<Longrightarrow> validUtf8 (drop w s) \<Longrightarrow> P (drop w s) \<Longrightarrow> P s"
  shows "P s"
  using assms(1)
proof (induction s rule: runes.induct)
  case (1 s)
  show ?case
  proof (cases "s = []")
    case False
    obtain r w where dec: "decodeRune s = (r, w)" by fastforce
    have w: "0 < w" "w \<le> length s" using decodeRune_width [OF False] dec by simp_all
    have "\<not> (r = runeError \<and> w = 1)" and tl: "validUtf8 (drop w s)"
      using 1(2) w unfolding validUtf8_def runes_Cons [OF False dec] by (auto split: if_split_asm)
    then show ?thesis using step [OF False dec _ w tl] 1(1) [OF False dec [symmetric] refl tl] by blast
  qed (simp add: assms(2))
qed

lemma validUtf8_good: "validUtf8 s \<Longrightarrow> p \<in> set (runes s) \<Longrightarrow> goodRune p"
  by (induction s rule: validUtf8_induct) (auto simp: runes.simps [of "[]"] runes_Cons decodeRune_good)

lemma runes_append: "validUtf8 s \<Longrightarrow> runes (s @ t) = runes s @ runes t"
proof (induction s rule: validUtf8_induct)
  case (Rune s r w)
  have "decodeRune (s @ t) = (r, w)"
    using decodeRune_append [OF Rune(2,1,3), of "drop w s @ t"] by (simp flip: append_assoc)
  then have "runes (s @ t) = (r, take w s) # runes (drop w s @ t)"
    using runes_Cons [of "s @ t" r w] Rune by simp
  then show ?case using Rune runes_Cons by simp
qed (simp add: runes.simps)

lemma validUtf8_append: "validUtf8 s \<Longrightarrow> validUtf8 t \<Longrightarrow> validUtf8 (s @ t)"
  by (simp add: validUtf8_def runes_append)

lemma validUtf8_ascii: "list_all (\<lambda>c. \<not> digit7 c) s \<Longrightarrow> validUtf8 s"
  by (simp add: validUtf8_code)

lemma validUtf8_concat: "(\<And>s. s \<in> set xs \<Longrightarrow> validUtf8 s) \<Longrightarrow> validUtf8 (concat xs)"
  by (induction xs) (auto intro: validUtf8_append validUtf8_ascii)

lemma validUtf8_rune: "validUtf8 s \<Longrightarrow> (r, bs) \<in> set (runes s) \<Longrightarrow> validUtf8 bs"
proof (induction s rule: validUtf8_induct)
  case (Rune s r' w)
  have "decodeRune (take w s) = (r', w)" using decodeRune_append [OF Rune(2,1,3), of "[]"] by simp
  then have "validUtf8 (take w s)"
    using runes_Cons [of "take w s" r' w] Rune by (auto simp: validUtf8_def runes.simps [of "[]"] min_def)
  then show ?case using Rune runes_Cons by auto
qed (simp add: runes.simps)

section \<open>Valid texts\<close>

lemma validUtf8_Nil [simp]: "validUtf8 []"
  by (simp add: validUtf8_ascii)

lemma validUtf8_Cons_ascii: "\<not> digit7 c \<Longrightarrow> validUtf8 (c # s) \<longleftrightarrow> validUtf8 s"
proof -
  assume c: "\<not> digit7 c"
  then have "byte c < 128" by (simp add: byte_ascii)
  then have "byte c \<noteq> runeError" by (auto simp: runeError_def)
  with c show ?thesis by (simp add: validUtf8_def runes_code [of "c # s"])
qed

lemma byte_char_of: "n < 256 \<Longrightarrow> byte (char_of n) = n"
  by (simp add: byte_def)

lemma decodeRune_encodeRune:
  assumes n: "n \<le> 1114111" "\<not> (55296 \<le> n \<and> n \<le> 57343)"
  shows "decodeRune (encodeRune n) = (n, length (encodeRune n)) \<and> (n = runeError \<longrightarrow> length (encodeRune n) \<noteq> 1)"
proof -
  consider "n < 128" | "128 \<le> n" "n < 2048" | "2048 \<le> n" "n < 65536" | "65536 \<le> n" by linarith
  then show ?thesis
  proof cases
    case 1
    then show ?thesis by (simp add: encodeRune_def decodeRune_def byte_char_of runeError_def Let_def)
  next
    case 2
    have b: "2 \<le> n div 64" "n div 64 < 32" "n mod 64 < 64" using 2 by auto
    then have cont: "isCont (char_of (128 + n mod 64))" by (simp add: isCont_def byte_char_of)
    have e: "encodeRune n = [char_of (192 + n div 64), char_of (128 + n mod 64)]" using 2 by (simp add: encodeRune_def)
    show ?thesis unfolding e using b cont by (simp add: decodeRune_def byte_char_of runeError_def Let_def)
  next
    case 3
    have b: "n div 4096 < 16" "n div 64 mod 64 < 64" "n mod 64 < 64" using 3 by auto
    then have cont: "isCont (char_of (128 + n div 64 mod 64))" "isCont (char_of (128 + n mod 64))"
      by (simp_all add: isCont_def byte_char_of)
    have e: "encodeRune n = [char_of (224 + n div 4096), char_of (128 + n div 64 mod 64), char_of (128 + n mod 64)]"
      using 3 n by (auto simp: encodeRune_def)
    have d: "n div 4096 = n div 64 div 64" by (simp add: div_mult2_eq)
    note split = mult_div_mod_eq [of 64 n] mult_div_mod_eq [of 64 "n div 64"]
    have sum: "(n div 4096) * 4096 + (n div 64 mod 64) * 64 + n mod 64 = n" using split unfolding d by linarith
    moreover have "n div 4096 = 0 \<longrightarrow> 32 \<le> n div 64 mod 64" using sum b 3 by linarith
    moreover have "n div 4096 = 13 \<longrightarrow> n div 64 mod 64 \<le> 31" using sum b n(2) by linarith
    ultimately show ?thesis unfolding e using b cont by (simp add: decodeRune_def byte_char_of runeError_def Let_def)
  next
    case 4
    have b: "n div 262144 < 5" "n div 4096 mod 64 < 64" "n div 64 mod 64 < 64" "n mod 64 < 64" using 4 n by auto
    then have cont: "isCont (char_of (128 + n div 4096 mod 64))" "isCont (char_of (128 + n div 64 mod 64))" "isCont (char_of (128 + n mod 64))"
      by (simp_all add: isCont_def byte_char_of)
    have e: "encodeRune n = [char_of (240 + n div 262144), char_of (128 + n div 4096 mod 64), char_of (128 + n div 64 mod 64), char_of (128 + n mod 64)]"
      using 4 n by (simp add: encodeRune_def)
    have d: "n div 4096 = n div 64 div 64" "n div 262144 = n div 64 div 64 div 64" by (simp_all add: div_mult2_eq)
    note split = mult_div_mod_eq [of 64 n] mult_div_mod_eq [of 64 "n div 64"] mult_div_mod_eq [of 64 "n div 64 div 64"]
    have sum: "(n div 262144) * 262144 + (n div 4096 mod 64) * 4096 + (n div 64 mod 64) * 64 + n mod 64 = n"
      using split unfolding d by linarith
    moreover have "n div 262144 = 0 \<longrightarrow> 16 \<le> n div 4096 mod 64" using sum b 4 by linarith
    moreover have "n div 262144 = 4 \<longrightarrow> n div 4096 mod 64 \<le> 15" using sum b n(1) by linarith
    moreover define p where "p = n div 4096 mod 64"
    ultimately have p: "n div 262144 = 0 \<longrightarrow> 16 \<le> p" "n div 262144 = 4 \<longrightarrow> p \<le> 15" "p < 64"
      and sum: "(n div 262144) * 262144 + p * 4096 + (n div 64 mod 64) * 64 + n mod 64 = n"
      using b by simp_all
    have "byte (char_of (128 + p)) = 128 + p" using p by (simp add: byte_char_of)
    then show ?thesis unfolding e p_def [symmetric] using b(1) p cont sum
      by (simp add: decodeRune_def byte_char_of runeError_def Let_def flip: p_def)
  qed
qed

lemma encodeRune_nonempty [simp]: "encodeRune n \<noteq> []"
  by (simp add: encodeRune_def)

lemma encodeRune_error: "n > 1114111 \<or> (55296 \<le> n \<and> n \<le> 57343) \<Longrightarrow> encodeRune n = encodeRune runeError"
proof -
  have "char_of (239 :: nat) = CHR 0xEF" "char_of (191 :: nat) = CHR 0xBF" "char_of (189 :: nat) = CHR 0xBD" by code_simp+
  then show "n > 1114111 \<or> (55296 \<le> n \<and> n \<le> 57343) \<Longrightarrow> encodeRune n = encodeRune runeError"
    by (auto simp: encodeRune_def runeError_def)
qed

lemma validUtf8_encodeRune: "validUtf8 (encodeRune n)"
proof -
  have *: "validUtf8 (encodeRune m)" if "m \<le> 1114111" "\<not> (55296 \<le> m \<and> m \<le> 57343)" for m
    using decodeRune_encodeRune [OF that] runes_Cons [of "encodeRune m" m "length (encodeRune m)"]
    by (auto simp: validUtf8_def runes.simps [of "[]"])
  then have "validUtf8 (encodeRune runeError)" by (simp add: runeError_def)
  with * encodeRune_error show ?thesis by (metis not_le)
qed

lemma validUtf8_split:
  assumes "validUtf8 s" "s \<noteq> []"
  obtains (low) c t where "s = c # t" "\<not> digit7 c" "validUtf8 t"
  | (high) bs t where "s = bs @ t" "bs \<noteq> []" "list_all (\<lambda>c. 128 \<le> byte c) bs" "validUtf8 bs" "validUtf8 t"
proof -
  obtain r w where dec: "decodeRune s = (r, w)" by fastforce
  note rs = runes_Cons [OF assms(2) dec]
  have tl: "validUtf8 (drop w s)" using assms(1) unfolding validUtf8_def rs by simp
  have p: "(r, take w s) \<in> set (runes s)" using rs by simp
  then have good: "goodRune (r, take w s)" and bs: "validUtf8 (take w s)"
    using validUtf8_good validUtf8_rune assms(1) by blast+
  show ?thesis
  proof (cases "r < 128")
    case True
    then have t: "take w s = [char_of r]" using good by (simp add: goodRune_def encodeRune_def)
    have "\<not> digit7 (char_of r :: char)" unfolding byte_ascii [symmetric] using True by (simp add: byte_char_of)
    then show ?thesis using low [of "char_of r" "drop w s"] t tl append_take_drop_id [of w s] by simp
  next
    case False
    have "take w s \<noteq> []" "list_all (\<lambda>c. 128 \<le> byte c) (take w s)" using False good unfolding goodRune_def prod.case by blast+
    then show ?thesis using high [OF append_take_drop_id [symmetric]] bs tl by blast
  qed
qed

end
