(* ===== verification/HN_Strict_Json.thy ===== *)
theory HN_Strict_Json
  imports HN_Utf8
begin

text \<open>
  The strict JSON reader of the extension host (\<open>src/internal/extension/manifest.go\<close>): a size limit,
  valid UTF-8 and Unicode escapes, no duplicate member names, integers of at most 53 bits, at most 32
  levels of nesting and nothing after the value.

  The reader works on the tokens of \<open>json.Decoder\<close>.  \<open>tokens\<close> is the stream of those tokens with the
  commas and colons that \<open>Decoder.Token\<close> passes over; it ends with \<open>TErr\<close> where \<open>Token\<close> would return
  a syntax error.  Every value the program marshals is read back (\<open>strictJSON_marshal\<close>); the theory
  \<open>HN_Strict_Exact\<close> says which texts are read as which values.
\<close>

section \<open>The tokens of a text\<close>

datatype token = TDelim char | TComma | TColon | TStr string | TNum string | TBool bool | TNull | TErr

definition isSpace :: "char \<Rightarrow> bool" where
  "isSpace c \<longleftrightarrow> c = CHR 0x20 \<or> c = CHR 0x09 \<or> c = CHR 0x0D \<or> c = CHR 0x0A"

definition decimalDigit :: "char \<Rightarrow> bool" where
  "decimalDigit c \<longleftrightarrow> 48 \<le> byte c \<and> byte c \<le> 57"

text \<open>\<open>strconv.ParseUint\<close> of four hexadecimal digits.\<close>

definition hexValue4 :: "char \<Rightarrow> char \<Rightarrow> char \<Rightarrow> char \<Rightarrow> nat option" where
  "hexValue4 a b c d = (case (fromHexChar a, fromHexChar b, fromHexChar c, fromHexChar d) of
     (Some w, Some x, Some y, Some z) \<Rightarrow> Some (4096 * w + 256 * x + 16 * y + z) | _ \<Rightarrow> None)"

definition escapedByte :: "char \<Rightarrow> char option" where
  "escapedByte e =
     (if e = CHR 0x22 \<or> e = CHR 0x5C \<or> e = CHR ''/'' then Some e
      else if e = CHR ''b'' then Some CHR 0x08
      else if e = CHR ''f'' then Some CHR 0x0C
      else if e = CHR ''n'' then Some CHR 0x0A
      else if e = CHR ''r'' then Some CHR 0x0D
      else if e = CHR ''t'' then Some CHR 0x09
      else None)"

definition prepend :: "string \<Rightarrow> (string \<times> string) option \<Rightarrow> (string \<times> string) option" where
  "prepend s r = map_option (\<lambda>(x, rest). (s @ x, rest)) r"

text \<open>
  One escape sequence after its backslash: the bytes it stands for and the text after it.  A high
  surrogate takes the low surrogate after it; a lone surrogate stands for U+FFFD.
\<close>

definition unicodeEscape :: "string \<Rightarrow> (string \<times> string) option" where
  "unicodeEscape s = (case s of x0 # x1 # x2 # x3 # r1 \<Rightarrow>
       (case hexValue4 x0 x1 x2 x3 of None \<Rightarrow> None
        | Some n \<Rightarrow>
          if 55296 \<le> n \<and> n \<le> 57343 then
            (case r1 of y0 # y1 # y2 # y3 # y4 # y5 # r2 \<Rightarrow>
               (case hexValue4 y2 y3 y4 y5 of
                  Some m \<Rightarrow>
                    if y0 = CHR 0x5C \<and> y1 = CHR ''u'' \<and> n < 56320 \<and> 56320 \<le> m \<and> m \<le> 57343
                    then Some (encodeRune (65536 + (n - 55296) * 1024 + (m - 56320)), r2)
                    else Some (encodeRune runeError, r1)
                | None \<Rightarrow> Some (encodeRune runeError, r1))
             | _ \<Rightarrow> Some (encodeRune runeError, r1))
          else Some (encodeRune n, r1))
     | _ \<Rightarrow> None)"

definition unescape :: "string \<Rightarrow> (string \<times> string) option" where
  "unescape s = (case s of [] \<Rightarrow> None
     | e # r \<Rightarrow> if e = CHR ''u'' then unicodeEscape r else map_option (\<lambda>b. ([b], r)) (escapedByte e))"

lemma unicodeEscape_length: "unicodeEscape s = Some (x, r) \<Longrightarrow> length r < length s"
  by (auto simp: unicodeEscape_def split: list.splits option.splits if_split_asm)

lemma unescape_length: "unescape s = Some (x, r) \<Longrightarrow> length r < length s"
  using unicodeEscape_length by (fastforce simp: unescape_def split: list.splits if_split_asm)

text \<open>
  The string that starts after an opening quote, and the text after its closing quote.  The text is
  valid UTF-8, so the bytes above 127 are copied.
\<close>

function unquote :: "string \<Rightarrow> (string \<times> string) option" where
  "unquote s = (case s of [] \<Rightarrow> None
     | c # cs \<Rightarrow>
       if c = CHR 0x22 then Some ([], cs)
       else if c = CHR 0x5C then
         (case unescape cs of None \<Rightarrow> None | Some (x, r) \<Rightarrow> prepend x (unquote r))
       else if byte c < 32 then None
       else prepend [c] (unquote cs))"
  by pat_completeness auto
termination
proof (relation "measure length")
  fix c :: char and cs :: string and p x r
  assume "unescape cs = Some p" and "(x, r) = p"
  then have "unescape cs = Some (x, r)" by simp
  then show "(r, s) \<in> measure length" if "s = c # cs" for s
    using that unescape_length by fastforce
qed simp_all

declare unquote.simps [simp del]

text \<open>A number literal and the text after it: sign, integer part, fraction, exponent.\<close>

definition scanInteger :: "string \<Rightarrow> (string \<times> string) option" where
  "scanInteger s = (case s of [] \<Rightarrow> None
     | c # r \<Rightarrow> if c = CHR ''0'' then Some ([c], r)
         else if decimalDigit c then Some (takeWhile decimalDigit s, dropWhile decimalDigit s) else None)"

definition scanDigits :: "string \<Rightarrow> string \<Rightarrow> (string \<times> string) option" where
  "scanDigits before s = (let ds = takeWhile decimalDigit s in
     if ds = [] then None else Some (before @ ds, dropWhile decimalDigit s))"

definition scanFraction :: "string \<Rightarrow> string \<Rightarrow> (string \<times> string) option" where
  "scanFraction before s = (case s of
       c # r \<Rightarrow> if c = CHR ''.'' then scanDigits (before @ [c]) r else Some (before, s)
     | [] \<Rightarrow> Some (before, s))"

definition scanExponent :: "string \<Rightarrow> string \<Rightarrow> (string \<times> string) option" where
  "scanExponent before s = (case s of
       c # r \<Rightarrow> if c = CHR ''e'' \<or> c = CHR ''E'' then
           (case r of x # r1 \<Rightarrow> if x = CHR ''+'' \<or> x = CHR ''-'' then scanDigits (before @ [c, x]) r1
                                else scanDigits (before @ [c]) r
            | [] \<Rightarrow> None)
         else Some (before, s)
     | [] \<Rightarrow> Some (before, s))"

definition scanNumber :: "string \<Rightarrow> (string \<times> string) option" where
  "scanNumber s =
     (let sign = (case s of c # _ \<Rightarrow> if c = CHR ''-'' then [c] else [] | [] \<Rightarrow> []) in
      Option.bind (scanInteger (drop (length sign) s)) (\<lambda>(ds, r1).
        Option.bind (scanFraction (sign @ ds) r1) (\<lambda>(fr, r2). scanExponent fr r2)))"

lemma unquote_length: "unquote s = Some (x, r) \<Longrightarrow> length r < length s"
proof (induction s arbitrary: x rule: unquote.induct)
  case (1 s)
  show ?case
  proof (cases s)
    case Nil
    with 1(3) show ?thesis by (simp add: unquote.simps)
  next
    case (Cons c cs)
    show ?thesis
    proof (cases "c = CHR 0x22")
      case True
      with 1(3) Cons show ?thesis by (simp add: unquote.simps)
    next
      case quote: False
      show ?thesis
      proof (cases "c = CHR 0x5C")
        case True
        with 1(3) Cons quote obtain b r' y where u: "unescape cs = Some (b, r')" "unquote r' = Some (y, r)"
          by (subst (asm) (2) unquote.simps) (auto simp: prepend_def split: option.splits prod.splits)
        with 1(1) [OF Cons quote True u(1) refl u(2)] unescape_length Cons show ?thesis by fastforce
      next
        case False
        with 1(3) Cons quote obtain y where "\<not> byte c < 32" "unquote cs = Some (y, r)"
          by (subst (asm) (2) unquote.simps) (auto simp: prepend_def split: option.splits prod.splits if_split_asm)
        with 1(2) [OF Cons quote False] Cons show ?thesis by fastforce
      qed
    qed
  qed
qed

lemma scanDigits_length: "scanDigits b s = Some (l, r) \<Longrightarrow> length r \<le> length s"
  by (auto simp: scanDigits_def Let_def length_dropWhile_le split: if_splits)

lemma scanNumber_length: "scanNumber s = Some (l, r) \<Longrightarrow> length r < length s"
proof -
  assume scan: "scanNumber s = Some (l, r)"
  define sign where "sign = (case s of c # _ \<Rightarrow> if c = CHR ''-'' then [c] else [] | [] \<Rightarrow> [])"
  obtain ds r1 fr r2 where int: "scanInteger (drop (length sign) s) = Some (ds, r1)"
    and frac: "scanFraction (sign @ ds) r1 = Some (fr, r2)" and expo: "scanExponent fr r2 = Some (l, r)"
    using scan by (auto simp: scanNumber_def sign_def [symmetric] Let_def bind_eq_Some_conv)
  have "length r1 < length (drop (length sign) s)"
    using int unfolding scanInteger_def
    by (cases "drop (length sign) s")
      (auto simp del: length_drop simp: le_imp_less_Suc length_dropWhile_le split: if_split_asm)
  moreover have "length r2 \<le> length r1"
    using frac by (auto simp: scanFraction_def dest: scanDigits_length split: list.splits if_splits)
  moreover have "length r \<le> length r2"
    using expo by (auto simp: scanExponent_def dest!: scanDigits_length split: list.splits if_splits)
  ultimately show ?thesis by simp
qed

function tokens :: "string \<Rightarrow> token list" where
  "tokens s = (case s of [] \<Rightarrow> []
     | c # cs \<Rightarrow>
       if isSpace c then tokens cs
       else if c = CHR ''['' \<or> c = CHR '']'' \<or> c = CHR ''{'' \<or> c = CHR ''}'' then TDelim c # tokens cs
       else if c = CHR '','' then TComma # tokens cs
       else if c = CHR '':'' then TColon # tokens cs
       else if c = CHR 0x22 then
         (case unquote cs of None \<Rightarrow> [TErr] | Some (x, r) \<Rightarrow> TStr x # tokens r)
       else if c = CHR ''-'' \<or> decimalDigit c then
         (case scanNumber s of None \<Rightarrow> [TErr] | Some (l, r) \<Rightarrow> TNum l # tokens r)
       else if hasPrefix s ''true'' then TBool True # tokens (drop 4 s)
       else if hasPrefix s ''false'' then TBool False # tokens (drop 5 s)
       else if hasPrefix s ''null'' then TNull # tokens (drop 4 s)
       else [TErr])"
  by pat_completeness auto
termination
proof (relation "measure length")
  fix s cs x r :: string and c :: char and p
  assume s: "s = c # cs" and p: "(x, r) = p"
  show "unquote cs = Some p \<Longrightarrow> (r, s) \<in> measure length"
    unfolding s p [symmetric] by (drule unquote_length) simp
  show "scanNumber s = Some p \<Longrightarrow> (r, s) \<in> measure length"
    unfolding p [symmetric] by (drule scanNumber_length) simp
qed simp_all

declare tokens.simps [simp del]


section \<open>Reading a value\<close>

text \<open>
  A number token as the reader accepts it: an integer literal other than \<open>-0\<close> whose value a double
  represents exactly.
\<close>

definition literalValue :: "string \<Rightarrow> int" where
  "literalValue ds = foldl (\<lambda>n c. 10 * n + (int (byte c) - 48)) 0 ds"

definition parseInt :: "string \<Rightarrow> int" where
  "parseInt s = (case s of c # ds \<Rightarrow> if c = CHR ''-'' then - literalValue ds else literalValue s | [] \<Rightarrow> 0)"

definition numberValue :: "string \<Rightarrow> json option" where
  "numberValue s = (if containsAny s ''.eE+'' \<or> s = ''-0'' then None
     else let n = parseInt s in
       if n < - 9007199254740991 \<or> 9007199254740991 < n then None else Some (JInt n))"

text \<open>
  \<open>jsonValue\<close> at a depth, with its two loops.  \<open>first\<close> says that no member was read yet: the decoder
  then expects no comma.  The tests on lengths, which make the recursion well-founded, always succeed
  (\<open>readJsonValue_sound\<close>).
\<close>

definition more :: "token list \<Rightarrow> bool" where
  "more ts = (case ts of [] \<Rightarrow> False | t # _ \<Rightarrow> t \<noteq> TDelim CHR '']'' \<and> t \<noteq> TDelim CHR ''}'')"

definition afterComma :: "bool \<Rightarrow> token list \<Rightarrow> token list option" where
  "afterComma first ts = (if first then Some ts else (case ts of TComma # r \<Rightarrow> Some r | _ \<Rightarrow> None))"

lemma afterComma_length: "afterComma first ts = Some r \<Longrightarrow> length r \<le> length ts"
  by (auto simp: afterComma_def split: if_split_asm list.splits token.splits)

function readJsonValue :: "nat \<Rightarrow> token list \<Rightarrow> (json \<times> token list) option"
  and jsonMembers :: "nat \<Rightarrow> bool \<Rightarrow> (string \<times> json) list \<Rightarrow> token list \<Rightarrow> (json \<times> token list) option"
  and jsonElements :: "nat \<Rightarrow> bool \<Rightarrow> json list \<Rightarrow> token list \<Rightarrow> (json \<times> token list) option" where
  "readJsonValue depth ts = (if 32 < depth then None else (case ts of
       [] \<Rightarrow> None
     | TDelim c # r \<Rightarrow>
         if c = CHR ''{'' then jsonMembers depth True [] r
         else if c = CHR ''['' then jsonElements depth True [] r
         else None
     | TNum s # r \<Rightarrow> map_option (\<lambda>v. (v, r)) (numberValue s)
     | TStr s # r \<Rightarrow> Some (JStr s, r)
     | TBool b # r \<Rightarrow> Some (JBool b, r)
     | TNull # r \<Rightarrow> Some (JNull, r)
     | _ \<Rightarrow> None))"
| "jsonMembers depth first object ts =
     (if more ts then
        (case afterComma first ts of
           Some (TStr name # TColon # r) \<Rightarrow>
             if name \<in> set (map fst object) then None
             else (case readJsonValue (Suc depth) r of
                 None \<Rightarrow> None
               | Some (v, r') \<Rightarrow> if length r' < length ts then jsonMembers depth False (object @ [(name, v)]) r' else None)
         | _ \<Rightarrow> None)
      else (case ts of TDelim c # r \<Rightarrow> if c = CHR ''}'' then Some (JObj object, r) else None | _ \<Rightarrow> None))"
| "jsonElements depth first array ts =
     (if more ts then
        (case afterComma first ts of
           None \<Rightarrow> None
         | Some r \<Rightarrow> (case readJsonValue (Suc depth) r of
                 None \<Rightarrow> None
               | Some (v, r') \<Rightarrow> if length r' < length ts then jsonElements depth False (array @ [v]) r' else None))
      else (case ts of TDelim c # r \<Rightarrow> if c = CHR '']'' then Some (JArr array, r) else None | _ \<Rightarrow> None))"
  by pat_completeness auto
termination
proof (relation "measure (\<lambda>x. case x of Inl (d, ts) \<Rightarrow> 2 * length ts
    | Inr (Inl (d, f, ms, ts)) \<Rightarrow> 2 * length ts + 1 | Inr (Inr (d, f, xs, ts)) \<Rightarrow> 2 * length ts + 1)")
qed (auto dest!: afterComma_length)

declare readJsonValue.simps [simp del] jsonMembers.simps [simp del] jsonElements.simps [simp del]

text \<open>\<open>validEscapes\<close>: outside a string its loop looks for a quote, inside it checks the escapes.\<close>

fun escapesOutside :: "string \<Rightarrow> bool" and escapesInside :: "string \<Rightarrow> bool" where
  "escapesOutside [] = True"
| "escapesOutside (c # cs) = (if c \<noteq> CHR 0x22 then escapesOutside cs else escapesInside cs)"
| "escapesInside [] = True"
| "escapesInside (c # cs) =
     (if c = CHR 0x22 then escapesOutside cs
      else if c \<noteq> CHR 0x5C then escapesInside cs
      else (case cs of [] \<Rightarrow> False
        | e # r \<Rightarrow> if e \<noteq> CHR ''u'' then escapesInside r
            else (case r of x0 # x1 # x2 # x3 # r1 \<Rightarrow>
                (case hexValue4 x0 x1 x2 x3 of None \<Rightarrow> False
                 | Some n \<Rightarrow>
                   if 56320 \<le> n \<and> n \<le> 57343 then False
                   else if 55296 \<le> n \<and> n \<le> 56319 then
                     (case r1 of y0 # y1 # y2 # y3 # y4 # y5 # r2 \<Rightarrow>
                        if y0 \<noteq> CHR 0x5C \<or> y1 \<noteq> CHR ''u'' then False
                        else (case hexValue4 y2 y3 y4 y5 of None \<Rightarrow> False
                           | Some low \<Rightarrow> if low < 56320 \<or> 57343 < low then False else escapesInside r2)
                      | _ \<Rightarrow> False)
                   else escapesInside r1)
              | _ \<Rightarrow> False)))"

definition validEscapes :: "string \<Rightarrow> bool" where
  "validEscapes data = escapesOutside data"

text \<open>An extension error: its code is kept as the format, its message as the argument.\<close>

definition failure :: "string \<Rightarrow> string \<Rightarrow> 'a result" where
  "failure errorCode message = errorf errorCode [message]"

definition strictJSON :: "string \<Rightarrow> nat \<Rightarrow> json result" where
  "strictJSON data limit =
     (if limit < length data then failure ''resource_limit'' ''JSON input exceeds its byte limit''
      else if \<not> validUtf8 data \<or> \<not> validEscapes data then failure ''invalid_input'' ''JSON must contain valid Unicode scalars''
      else (case readJsonValue 0 (tokens data) of
          None \<Rightarrow> failure ''invalid_input'' ''malformed or duplicate-key JSON''
        | Some (value, rest) \<Rightarrow>
            if rest \<noteq> [] then failure ''invalid_input'' ''JSON has trailing data'' else Inr value))"

lemma failure_simps [simp]: "failure c m \<noteq> Inr x" "Inr x \<noteq> failure c m" "\<not> is_ok (failure c m)" "rbind (failure c m) f = failure c m"
  by (simp_all add: failure_def)

section \<open>Reading an encoded string\<close>

lemma quote_bytes: "byte CHR 0x22 = 34" "byte CHR 0x5C = 92"
  by (simp_all add: byte_def)

lemma high_byte: "128 \<le> byte c \<Longrightarrow> c \<noteq> CHR 0x22 \<and> c \<noteq> CHR 0x5C"
  by (auto simp: quote_bytes)

lemma plain_char:
  assumes "r < 128" "r \<noteq> 34" "r \<noteq> 92"
  shows "byte (char_of r) = r" "char_of r \<noteq> CHR 0x22" "char_of r \<noteq> CHR 0x5C"
proof -
  show r: "byte (char_of r) = r" using assms by (simp add: byte_def)
  show "char_of r \<noteq> CHR 0x22" "char_of r \<noteq> CHR 0x5C"
    using assms r quote_bytes by metis+
qed

lemma unquote_Cons: "c \<noteq> CHR 0x22 \<Longrightarrow> c \<noteq> CHR 0x5C \<Longrightarrow> 32 \<le> byte c \<Longrightarrow> unquote (c # cs) = prepend [c] (unquote cs)"
  by (subst unquote.simps) simp

lemma unquote_quote: "unquote (CHR 0x22 # cs) = Some ([], cs)"
  by (subst unquote.simps) simp

lemma unquote_escape: "unescape cs = Some (x, r) \<Longrightarrow> unquote (CHR 0x5C # cs) = prepend x (unquote r)"
  by (subst unquote.simps) simp

lemma prepend_append: "prepend a (prepend b x) = prepend (a @ b) x"
  by (cases x) (auto simp: prepend_def)

lemma unquote_high: "list_all (\<lambda>c. 128 \<le> byte c) bs \<Longrightarrow> unquote (bs @ t) = prepend bs (unquote t)"
proof (induction bs)
  case Nil
  then show ?case by (cases "unquote t") (auto simp: prepend_def)
next
  case (Cons c bs)
  with high_byte [of c] show ?case by (simp add: unquote_Cons prepend_append)
qed

lemma hexValue4_hex4: "n < 65536 \<Longrightarrow> hex4 n = [a, b, c, d] \<Longrightarrow> hexValue4 a b c d = Some n"
proof -
  assume n: "n < 65536" and "hex4 n = [a, b, c, d]"
  then have "hexValue4 a b c d = Some (4096 * (n div 4096 mod 16) + 256 * (n div 256 mod 16) + 16 * (n div 16 mod 16) + n mod 16)"
    by (auto simp: hexValue4_def hex4_def fromHexChar_hexDigit)
  also have "4096 * (n div 4096 mod 16) + 256 * (n div 256 mod 16) + 16 * (n div 16 mod 16) + n mod 16 = n"
  proof -
    have d: "n div 256 = n div 16 div 16" "n div 4096 = n div 16 div 16 div 16" by (simp_all add: div_mult2_eq)
    have "n div 16 div 16 div 16 mod 16 = n div 16 div 16 div 16" using n by simp
    moreover note mult_div_mod_eq [of 16 n] mult_div_mod_eq [of 16 "n div 16"] mult_div_mod_eq [of 16 "n div 16 div 16"]
    ultimately show ?thesis unfolding d by linarith
  qed
  finally show ?thesis .
qed

lemma unescape_uEscape: "n < 55296 \<Longrightarrow> unescape (CHR ''u'' # hex4 n @ t) = Some (encodeRune n, t)"
  using hexValue4_hex4 [of n] by (simp add: unescape_def unicodeEscape_def hex4_def)

lemma unquote_uEscape: "n < 55296 \<Longrightarrow> unquote (uEscape n @ t) = prepend (encodeRune n) (unquote t)"
  by (simp add: uEscape_def unquote_escape unescape_uEscape)

lemma rune_escape_cases:
  assumes "goodRune (r, bs)"
  obtains (quoted) "bs = [char_of r]" "r = 34 \<or> r = 92" "escapeRune (r, bs) = [CHR 0x5C, char_of r]"
  | (short) e where "bs = [char_of r]" "escapeRune (r, bs) = [CHR 0x5C, e]" "e \<noteq> CHR ''u''" "escapedByte e = Some (char_of r)"
  | (unicode) "bs = encodeRune r" "escapeRune (r, bs) = uEscape r" "r < 55296"
  | (plain) "bs = [char_of r]" "32 \<le> r" "r < 128" "r \<noteq> 34" "r \<noteq> 92" "escapeRune (r, bs) = bs"
  | (high) "list_all (\<lambda>c. 128 \<le> byte c) bs" "escapeRune (r, bs) = bs"
proof -
  have bs: "bs = encodeRune r" "\<not> (r = runeError \<and> length bs = 1)" "r < 128 \<or> list_all (\<lambda>c. 128 \<le> byte c) bs"
    using assms by (auto simp: goodRune_def)
  have one: "r < 128 \<Longrightarrow> bs = [char_of r]" using bs(1) by (simp add: encodeRune_def)
  consider "r = 34 \<or> r = 92" | "r = 8 \<or> r = 12 \<or> r = 10 \<or> r = 13 \<or> r = 9"
    | "r \<notin> {34, 92, 8, 12, 10, 13, 9}" "r < 32 \<or> r = 60 \<or> r = 62 \<or> r = 38 \<or> r = 8232 \<or> r = 8233"
    | "32 \<le> r" "r < 128" "r \<notin> {34, 92, 60, 62, 38}" | "128 \<le> r" "r \<notin> {8232, 8233}"
    by auto linarith
  then show ?thesis
  proof cases
    case 1
    then show ?thesis using one by (intro quoted) (auto simp: escapeRune_def)
  next
    case 2
    have ch: "char_of (8 :: nat) = CHR 0x08" "char_of (12 :: nat) = CHR 0x0C" "char_of (10 :: nat) = CHR 0x0A"
      "char_of (13 :: nat) = CHR 0x0D" "char_of (9 :: nat) = CHR 0x09" by code_simp+
    from 2 have bs: "bs = [char_of r]" using one by auto
    from 2 consider "r = 8" | "r = 12" | "r = 10" | "r = 13" | "r = 9" by blast
    then show ?thesis
    proof cases
      case 1
      then show ?thesis by (intro short [of "CHR ''b''", OF bs]) (simp_all add: escapeRune_def escapedByte_def ch)
    next
      case 2
      then show ?thesis by (intro short [of "CHR ''f''", OF bs]) (simp_all add: escapeRune_def escapedByte_def ch)
    next
      case 3
      then show ?thesis by (intro short [of "CHR ''n''", OF bs]) (simp_all add: escapeRune_def escapedByte_def ch)
    next
      case 4
      then show ?thesis by (intro short [of "CHR ''r''", OF bs]) (simp_all add: escapeRune_def escapedByte_def ch)
    next
      case 5
      then show ?thesis by (intro short [of "CHR ''t''", OF bs]) (simp_all add: escapeRune_def escapedByte_def ch)
    qed
  next
    case 3
    then show ?thesis using bs(1) by (intro unicode) (auto simp: escapeRune_def)
  next
    case 4
    then show ?thesis using one by (intro plain) (auto simp: escapeRune_def runeError_def)
  next
    case 5
    then show ?thesis using bs by (intro high) (auto simp: escapeRune_def)
  qed
qed

lemma unquote_escapeRune:
  assumes "goodRune (r, bs)"
  shows "unquote (escapeRune (r, bs) @ t) = prepend bs (unquote t)"
  using assms
proof (cases rule: rune_escape_cases)
  case quoted
  then have "escapedByte (char_of r) = Some (char_of r)" "char_of r \<noteq> CHR ''u''"
    by (auto simp: escapedByte_def escaped_chars)
  with quoted show ?thesis by (simp add: unquote_escape unescape_def)
next
  case (short e)
  then show ?thesis by (simp add: unquote_escape unescape_def)
next
  case unicode
  then show ?thesis by (simp add: unquote_uEscape)
next
  case plain
  then show ?thesis using plain_char [of r] by (simp add: unquote_Cons)
next
  case high
  then show ?thesis by (simp add: unquote_high)
qed

lemma unquote_encoded: "validUtf8 s \<Longrightarrow> unquote (concat (map escapeRune (runes s)) @ CHR 0x22 # t) = Some (s, t)"
proof -
  assume s: "validUtf8 s"
  have "(\<And>p. p \<in> set rs \<Longrightarrow> goodRune p) \<Longrightarrow>
      unquote (concat (map escapeRune rs) @ CHR 0x22 # t) = Some (concat (map snd rs), t)" for rs
  proof (induction rs)
    case (Cons p rs)
    obtain r bs where p: "p = (r, bs)" by fastforce
    have "unquote (concat (map escapeRune rs) @ CHR 0x22 # t) = Some (concat (map snd rs), t)"
      using Cons by simp
    with Cons.prems [of p] show ?case by (simp add: p unquote_escapeRune prepend_def)
  qed (simp add: unquote_quote)
  from this [of "runes s"] show ?thesis using validUtf8_good [OF s] by (simp add: concat_runes)
qed

lemma escapesInside_Cons: "c \<noteq> CHR 0x22 \<Longrightarrow> c \<noteq> CHR 0x5C \<Longrightarrow> escapesInside (c # cs) = escapesInside cs"
  by simp

lemma escapesInside_high: "list_all (\<lambda>c. 128 \<le> byte c) bs \<Longrightarrow> escapesInside (bs @ t) = escapesInside t"
proof (induction bs)
  case (Cons c bs)
  with high_byte [of c] show ?case by simp
qed simp

lemma escapesInside_uEscape: "n < 55296 \<Longrightarrow> escapesInside (uEscape n @ t) = escapesInside t"
  using hexValue4_hex4 [of n] by (simp add: uEscape_def hex4_def)

lemma escapesInside_escapeRune:
  assumes "goodRune (r, bs)"
  shows "escapesInside (escapeRune (r, bs) @ t) = escapesInside t"
  using assms
proof (cases rule: rune_escape_cases)
  case quoted
  then have "char_of r \<noteq> CHR ''u''" by (auto simp: escaped_chars)
  with quoted show ?thesis by simp
next
  case (short e)
  then show ?thesis by simp
next
  case unicode
  then show ?thesis by (simp add: escapesInside_uEscape)
next
  case plain
  then show ?thesis using plain_char [of r] by simp
next
  case high
  then show ?thesis by (simp add: escapesInside_high)
qed

lemma escapes_encodeString: "validUtf8 s \<Longrightarrow> escapesOutside (encodeString s @ t) = escapesOutside t"
proof -
  assume s: "validUtf8 s"
  have "(\<And>p. p \<in> set rs \<Longrightarrow> goodRune p) \<Longrightarrow>
      escapesInside (concat (map escapeRune rs) @ CHR 0x22 # t) = escapesOutside t" for rs
  proof (induction rs)
    case (Cons p rs)
    obtain r bs where p: "p = (r, bs)" by fastforce
    with Cons.prems [of p] Cons.IH Cons.prems show ?case by (simp add: escapesInside_escapeRune del: escapesInside.simps)
  qed simp
  from this [of "runes s"] show ?thesis using validUtf8_good [OF s] by (simp add: encodeString_def del: escapesInside.simps)
qed

lemma validUtf8_encodeString: "validUtf8 s \<Longrightarrow> validUtf8 (encodeString s)"
proof -
  assume s: "validUtf8 s"
  have "validUtf8 (escapeRune (r, bs))" if p: "(r, bs) \<in> set (runes s)" for r bs
    using validUtf8_good [OF s p]
  proof (cases rule: rune_escape_cases)
    case quoted
    then show ?thesis by (auto simp: escaped_chars intro!: validUtf8_ascii)
  next
    case (short e)
    then have "\<not> digit7 e" by (auto simp: escapedByte_def split: if_split_asm)
    with short show ?thesis by (auto intro!: validUtf8_ascii)
  next
    case unicode
    have "\<not> digit7 (hexDigit m)" if "m < 16" for m
      unfolding byte_ascii [symmetric] using that by (simp add: hexDigit_def byte_def)
    then show ?thesis using unicode by (auto simp: uEscape_def hex4_def intro!: validUtf8_ascii)
  qed (use validUtf8_rune [OF s p] in simp_all)
  then have "validUtf8 (concat (map escapeRune (runes s)))" by (intro validUtf8_concat) auto
  then show ?thesis unfolding encodeString_def
    using validUtf8_append [of "[CHR 0x22]"] validUtf8_append [of _ "[CHR 0x22]"] by (simp add: validUtf8_ascii)
qed

section \<open>Reading an encoded number\<close>

lemma decimal_digits: "list_all decimalDigit (decimal n) \<and> decimal n \<noteq> []"
proof (induction n rule: decimal.induct)
  case (1 n)
  have "decimalDigit (char_of (48 + m))" if "m < 10" for m :: nat using that by (simp add: decimalDigit_def byte_def)
  with 1 show ?case by (subst (1 2) decimal.simps) simp
qed

lemma decimal_hd: "0 < n \<Longrightarrow> hd (decimal n) \<noteq> CHR ''0''"
proof (induction n rule: decimal.induct)
  case (1 n)
  have "char_of (48 + n) \<noteq> CHR ''0''" if "n < 10"
  proof
    assume "char_of (48 + n) = CHR ''0''"
    then have "byte (char_of (48 + n)) = byte CHR ''0''" by simp
    then show False using that 1(2) by (simp add: byte_def)
  qed
  with 1 decimal_digits [of "n div 10"] show ?case by (subst decimal.simps) (simp add: hd_append)
qed

lemma literalValue_snoc: "literalValue (ds @ [c]) = 10 * literalValue ds + (int (byte c) - 48)"
  by (simp add: literalValue_def)

lemma literalValue_decimal: "literalValue (decimal n) = int n"
proof (induction n rule: decimal.induct)
  case (1 n)
  show ?case
  proof (cases "n < 10")
    case True
    then show ?thesis by (subst decimal.simps) (simp add: literalValue_def byte_def)
  next
    case False
    then have "literalValue (decimal n) = 10 * int (n div 10) + int (n mod 10)"
      using 1 by (subst decimal.simps) (simp add: literalValue_snoc byte_def)
    then show ?thesis by presburger
  qed
qed

text \<open>The text after a value inside a larger text: nothing, a comma or a closing bracket.\<close>

definition delimited :: "string \<Rightarrow> bool" where
  "delimited t = (case t of [] \<Rightarrow> True | c # _ \<Rightarrow> c = CHR '','' \<or> c = CHR '']'' \<or> c = CHR ''}'')"

lemma digit_bytes: "decimalDigit c \<Longrightarrow> c \<noteq> CHR ''-'' \<and> c \<noteq> CHR ''.'' \<and> c \<noteq> CHR ''e'' \<and> c \<noteq> CHR ''E'' \<and> c \<noteq> CHR ''+''"
  by (auto simp: decimalDigit_def byte_def)

lemma delimited_end:
  assumes "delimited t"
  shows "takeWhile decimalDigit t = []" "dropWhile decimalDigit t = t" "scanFraction b t = Some (b, t)" "scanExponent b t = Some (b, t)"
  using assms by (auto simp: delimited_def decimalDigit_def byte_def scanFraction_def scanExponent_def split: list.splits)

lemma scanInteger_decimal: "delimited t \<Longrightarrow> scanInteger (decimal n @ t) = Some (decimal n, t)"
proof (cases "n = 0")
  case True
  have "decimal 0 = ''0''" by code_simp
  then show ?thesis using True by (simp add: scanInteger_def)
next
  case False
  assume t: "delimited t"
  have ds: "list_all decimalDigit (decimal n)" "decimal n \<noteq> []" using decimal_digits by auto
  have tw: "takeWhile decimalDigit (decimal n @ t) = decimal n" "dropWhile decimalDigit (decimal n @ t) = t"
    using ds t delimited_end(1,2) [of t] by (simp_all add: takeWhile_append2 dropWhile_append2 list_all_iff)
  obtain c cs where c: "decimal n = c # cs" using ds by (cases "decimal n") auto
  have "c \<noteq> CHR ''0''" "decimalDigit c" using decimal_hd [of n] False ds c by auto
  then show ?thesis using tw unfolding c by (simp add: scanInteger_def)
qed

lemma decimal_not_minus: "\<exists>c cs. decimal n = c # cs \<and> decimalDigit c \<and> c \<noteq> CHR ''-''"
  using decimal_digits [of n] digit_bytes by (cases "decimal n") auto

lemma scanNumber_encodeInt: "delimited t \<Longrightarrow> scanNumber (encodeInt i @ t) = Some (encodeInt i, t)"
proof -
  assume t: "delimited t"
  show ?thesis
  proof (cases "i < 0")
    case True
    then show ?thesis using scanInteger_decimal [OF t] delimited_end(3,4) [OF t] by (simp add: scanNumber_def encodeInt_def)
  next
    case False
    obtain c cs where "decimal (nat i) = c # cs" "c \<noteq> CHR ''-''" using decimal_not_minus by blast
    then show ?thesis using False scanInteger_decimal [OF t, of "nat i"] delimited_end(3,4) [OF t]
      by (simp add: scanNumber_def encodeInt_def)
  qed
qed

lemma numberValue_encodeInt: "numberValue (encodeInt i) = (if \<bar>i\<bar> \<le> 9007199254740991 then Some (JInt i) else None)"
proof -
  obtain c cs where c: "decimal (nat i) = c # cs" "c \<noteq> CHR ''-''" using decimal_not_minus by blast
  have plain: "\<not> containsAny (decimal n) ''.eE+''" for n
    using decimal_digits [of n] digit_bytes unfolding containsAny_def list_all_iff by (auto dest: bspec)
  have parse: "parseInt (encodeInt i) = i"
    using c literalValue_decimal [of "nat i"] literalValue_decimal [of "nat (- i)"] by (simp add: parseInt_def encodeInt_def)
  have any: "\<not> containsAny (encodeInt i) ''.eE+''"
    using plain [of "nat i"] plain [of "nat (- i)"] by (auto simp: encodeInt_def containsAny_def)
  have "encodeInt i \<noteq> ''-0''"
  proof
    assume z: "encodeInt i = ''-0''"
    then have "i = 0" using parse by (simp add: parseInt_def literalValue_def byte_def)
    with z c show False by (simp add: encodeInt_def)
  qed
  with parse any show ?thesis by (auto simp: numberValue_def Let_def)
qed

section \<open>Reading a marshalled value\<close>

text \<open>What the reader accepts at a depth, and the values whose strings are valid UTF-8.\<close>

fun withinLimits :: "nat \<Rightarrow> json \<Rightarrow> bool" where
  "withinLimits depth (JInt i) \<longleftrightarrow> depth \<le> 32 \<and> \<bar>i\<bar> \<le> 9007199254740991"
| "withinLimits depth (JArr xs) \<longleftrightarrow> depth \<le> 32 \<and> list_all (withinLimits (Suc depth)) xs"
| "withinLimits depth (JObj ms) \<longleftrightarrow> depth \<le> 32 \<and> distinct (map fst ms) \<and> list_all (\<lambda>m. withinLimits (Suc depth) (snd m)) ms"
| "withinLimits depth v \<longleftrightarrow> depth \<le> 32"

fun textual :: "json \<Rightarrow> bool" where
  "textual (JStr s) \<longleftrightarrow> validUtf8 s"
| "textual (JArr xs) \<longleftrightarrow> list_all textual xs"
| "textual (JObj ms) \<longleftrightarrow> list_all (\<lambda>m. validUtf8 (fst m) \<and> textual (snd m)) ms"
| "textual v \<longleftrightarrow> True"

text \<open>The tokens of a value, and lists of them with commas between.\<close>

definition commaTokens :: "token list list \<Rightarrow> token list" where
  "commaTokens xs = (case xs of [] \<Rightarrow> [] | y # ys \<Rightarrow> y @ concat (map (Cons TComma) ys))"

fun valueTokens :: "json \<Rightarrow> token list" where
  "valueTokens JNull = [TNull]"
| "valueTokens (JBool b) = [TBool b]"
| "valueTokens (JInt i) = [TNum (encodeInt i)]"
| "valueTokens (JStr s) = [TStr s]"
| "valueTokens (JArr xs) = TDelim CHR ''['' # commaTokens (map valueTokens xs) @ [TDelim CHR '']'']"
| "valueTokens (JObj ms) = TDelim CHR ''{'' # commaTokens (map (\<lambda>m. TStr (fst m) # TColon # valueTokens (snd m)) ms) @ [TDelim CHR ''}'']"

lemma tokens_delim: "c = CHR ''['' \<or> c = CHR '']'' \<or> c = CHR ''{'' \<or> c = CHR ''}'' \<Longrightarrow> tokens (c # t) = TDelim c # tokens t"
  by (subst tokens.simps) (auto simp: isSpace_def)

lemma tokens_comma: "tokens (CHR '','' # t) = TComma # tokens t"
  by (subst tokens.simps) (auto simp: isSpace_def)

lemma tokens_colon: "tokens (CHR '':'' # t) = TColon # tokens t"
  by (subst tokens.simps) (auto simp: isSpace_def)

lemma tokens_string: "validUtf8 s \<Longrightarrow> tokens (encodeString s @ t) = TStr s # tokens t"
  by (subst tokens.simps) (simp add: encodeString_def unquote_encoded isSpace_def)

lemma tokens_literal: "tokens (''null'' @ t) = TNull # tokens t" "tokens (''true'' @ t) = TBool True # tokens t"
  "tokens (''false'' @ t) = TBool False # tokens t"
  by (subst tokens.simps, simp add: isSpace_def decimalDigit_def byte_def hasPrefix_def numeral_eq_Suc)+

lemma digit_class: "c = CHR ''-'' \<or> decimalDigit c \<Longrightarrow> \<not> isSpace c \<and> c \<noteq> CHR ''['' \<and> c \<noteq> CHR '']'' \<and> c \<noteq> CHR ''{'' \<and> c \<noteq> CHR ''}''
    \<and> c \<noteq> CHR '','' \<and> c \<noteq> CHR '':'' \<and> c \<noteq> CHR 0x22"
  by (auto simp: decimalDigit_def isSpace_def byte_def)

lemma tokens_int: "delimited t \<Longrightarrow> tokens (encodeInt i @ t) = TNum (encodeInt i) # tokens t"
proof -
  assume t: "delimited t"
  obtain c cs where c: "encodeInt i = c # cs" "c = CHR ''-'' \<or> decimalDigit c"
    using decimal_not_minus [of "nat i"] by (cases "i < 0") (auto simp: encodeInt_def)
  have scan: "scanNumber (c # cs @ t) = Some (c # cs, t)"
    using scanNumber_encodeInt [OF t, of i] c(1) by simp
  show ?thesis unfolding c(1) by (subst tokens.simps) (simp add: digit_class [OF c(2)] c(2) scan)
qed

text \<open>Items with commas between, from their parts.\<close>

lemma tokens_commaSep:
  assumes item: "\<And>x t. x \<in> set xs \<Longrightarrow> delimited t \<Longrightarrow> tokens (f x @ t) = g x @ tokens t"
    and c: "c = CHR '']'' \<or> c = CHR ''}''"
  shows "tokens (commaSep (map f xs) @ c # t) = commaTokens (map g xs) @ TDelim c # tokens t"
proof -
  have delim: "tokens (c # t) = TDelim c # tokens t" using c by (intro tokens_delim) auto
  have rest: "delimited (concat (map (Cons CHR '','') (map f ys)) @ c # t)" for ys
    using c by (cases ys) (auto simp: delimited_def)
  have tail: "tokens (concat (map (Cons CHR '','') (map f ys)) @ c # t) = concat (map (Cons TComma) (map g ys)) @ TDelim c # tokens t"
    if "set ys \<subseteq> set xs" for ys
    using that
  proof (induction ys)
    case (Cons y ys)
    then show ?case using item [of y, OF _ rest [of ys]] by (simp add: tokens_comma)
  qed (simp add: delim)
  show ?thesis
  proof (cases xs)
    case (Cons y ys)
    then show ?thesis using item [of y, OF _ rest [of ys]] tail [of ys] by (auto simp: commaSep_def commaTokens_def)
  qed (simp add: commaSep_def commaTokens_def delim)
qed

lemma tokens_marshal: "textual v \<Longrightarrow> delimited t \<Longrightarrow> tokens (marshal v @ t) = valueTokens v @ tokens t"
proof (induction v arbitrary: t)
  case (JArr xs)
  then have "tokens (commaSep (map marshal xs) @ CHR '']'' # t) = commaTokens (map valueTokens xs) @ TDelim CHR '']'' # tokens t"
    by (intro tokens_commaSep) (auto simp: list_all_iff)
  then show ?case by (simp add: tokens_delim)
next
  case (JObj ms)
  have "tokens ((encodeString (fst m) @ CHR '':'' # marshal (snd m)) @ t') = (TStr (fst m) # TColon # valueTokens (snd m)) @ tokens t'"
    if "m \<in> set ms" "delimited t'" for m t'
    using JObj(1) [OF that(1), of "snd m" t'] JObj(2) that by (cases m) (auto simp: tokens_string tokens_colon list_all_iff)
  then have "tokens (commaSep (map (\<lambda>m. encodeString (fst m) @ CHR '':'' # marshal (snd m)) ms) @ CHR ''}'' # t)
      = commaTokens (map (\<lambda>m. TStr (fst m) # TColon # valueTokens (snd m)) ms) @ TDelim CHR ''}'' # tokens t"
    by (intro tokens_commaSep) auto
  then show ?case by (simp add: tokens_delim)
qed (simp_all add: tokens_literal [simplified] tokens_int tokens_string)

lemma more_value: "more (valueTokens v @ ts)"
  by (cases v) (simp_all add: more_def)

lemma jsonElements_end: "jsonElements d f acc (TDelim CHR '']'' # ts) = Some (JArr acc, ts)"
  by (subst jsonElements.simps) (simp add: more_def)

lemma jsonMembers_end: "jsonMembers d f acc (TDelim CHR ''}'' # ts) = Some (JObj acc, ts)"
  by (subst jsonMembers.simps) (simp add: more_def)

abbreviation reads :: "nat \<Rightarrow> json \<Rightarrow> token list \<Rightarrow> bool" where
  "reads d x ts \<equiv> readJsonValue d (valueTokens x @ ts) = (if withinLimits d x then Some (x, ts) else None)"

lemma jsonElements_step: "reads (Suc d) x ts \<Longrightarrow>
    jsonElements d False acc (TComma # valueTokens x @ ts) = (if withinLimits (Suc d) x then jsonElements d False (acc @ [x]) ts else None)"
  by (subst jsonElements.simps) (simp add: more_def afterComma_def)

lemma jsonElements_rest:
  assumes "\<And>x ts. x \<in> set xs \<Longrightarrow> reads (Suc d) x ts"
  shows "jsonElements d False acc (concat (map (Cons TComma) (map valueTokens xs)) @ TDelim CHR '']'' # ts)
    = (if list_all (withinLimits (Suc d)) xs then Some (JArr (acc @ xs), ts) else None)"
  using assms by (induction xs arbitrary: acc) (simp_all add: jsonElements_end jsonElements_step)

lemma jsonElements_value:
  assumes "\<And>x ts. x \<in> set xs \<Longrightarrow> reads (Suc d) x ts"
  shows "jsonElements d True [] (commaTokens (map valueTokens xs) @ TDelim CHR '']'' # ts)
    = (if list_all (withinLimits (Suc d)) xs then Some (JArr xs, ts) else None)"
proof (cases xs)
  case (Cons y ys)
  let ?rest = "concat (map (Cons TComma) (map valueTokens ys)) @ TDelim CHR '']'' # ts"
  have "valueTokens y \<noteq> []" by (cases y) simp_all
  then have "jsonElements d True [] (valueTokens y @ ?rest) = (if withinLimits (Suc d) y then jsonElements d False [y] ?rest else None)"
    using assms [of y ?rest] Cons by (subst jsonElements.simps) (simp add: more_value afterComma_def)
  then show ?thesis using assms Cons jsonElements_rest [of ys d "[y]" ts] by (simp add: commaTokens_def)
qed (simp add: commaTokens_def jsonElements_end)

abbreviation memberTokens :: "string \<times> json \<Rightarrow> token list" where
  "memberTokens m \<equiv> TStr (fst m) # TColon # valueTokens (snd m)"

lemma jsonMembers_rest:
  assumes "\<And>m ts. m \<in> set ms \<Longrightarrow> reads (Suc d) (snd m) ts" and "distinct (map fst acc)"
  shows "jsonMembers d False acc (concat (map (Cons TComma) (map memberTokens ms)) @ TDelim CHR ''}'' # ts)
    = (if distinct (map fst (acc @ ms)) \<and> list_all (\<lambda>m. withinLimits (Suc d) (snd m)) ms then Some (JObj (acc @ ms), ts) else None)"
  using assms
proof (induction ms arbitrary: acc)
  case (Cons m ms)
  let ?rest = "concat (map (Cons TComma) (map memberTokens ms)) @ TDelim CHR ''}'' # ts"
  have step: "jsonMembers d False acc (TComma # memberTokens m @ ?rest) = (if fst m \<in> fst ` set acc then None
      else if withinLimits (Suc d) (snd m) then jsonMembers d False (acc @ [m]) ?rest else None)"
    by (subst jsonMembers.simps) (simp add: more_def afterComma_def Cons.prems(1))
  show ?case
  proof (cases "fst m \<in> fst ` set acc")
    case True
    then show ?thesis using step by auto
  next
    case False
    then show ?thesis using step Cons.IH [of "acc @ [m]"] Cons.prems by auto
  qed
qed (simp add: jsonMembers_end)

lemma jsonMembers_value:
  assumes "\<And>m ts. m \<in> set ms \<Longrightarrow> reads (Suc d) (snd m) ts"
  shows "jsonMembers d True [] (commaTokens (map memberTokens ms) @ TDelim CHR ''}'' # ts)
    = (if distinct (map fst ms) \<and> list_all (\<lambda>m. withinLimits (Suc d) (snd m)) ms then Some (JObj ms, ts) else None)"
proof (cases ms)
  case (Cons m ms')
  let ?rest = "concat (map (Cons TComma) (map memberTokens ms')) @ TDelim CHR ''}'' # ts"
  have step: "jsonMembers d True [] (memberTokens m @ ?rest) =
      (if withinLimits (Suc d) (snd m) then jsonMembers d False [m] ?rest else None)"
    using assms [of m] Cons by (subst jsonMembers.simps) (simp add: more_def afterComma_def)
  have "jsonMembers d False [m] ?rest = (if distinct (map fst ms) \<and> list_all (\<lambda>m. withinLimits (Suc d) (snd m)) ms' then Some (JObj ms, ts) else None)"
    using jsonMembers_rest [of ms' d "[m]" ts] assms Cons by simp
  with step Cons show ?thesis by (simp add: commaTokens_def)
qed (simp add: commaTokens_def jsonMembers_end)

lemma readJsonValue_value: "reads d v ts"
proof (induction v arbitrary: d ts)
  case (JArr xs)
  then show ?case using jsonElements_value [of xs d ts] by (subst readJsonValue.simps) simp
next
  case (JObj ms)
  then have "reads (Suc d) (snd m) ts'" if "m \<in> set ms" for m ts'
    using that by (cases m) auto
  then show ?case using jsonMembers_value [of ms d ts] by (subst readJsonValue.simps) simp
next
  case (JInt i)
  show ?case by (subst readJsonValue.simps) (simp add: numberValue_encodeInt)
qed (subst readJsonValue.simps; simp)+

section \<open>The round trip\<close>

lemma commaSep_valid: "(\<And>s. s \<in> set xs \<Longrightarrow> validUtf8 s) \<Longrightarrow> validUtf8 (commaSep xs)"
proof (cases xs)
  case (Cons y ys)
  assume "\<And>s. s \<in> set xs \<Longrightarrow> validUtf8 s"
  then have "validUtf8 ([CHR '',''] @ s)" if "s \<in> set ys" for s
    using that Cons validUtf8_append [of "[CHR '','']" s] by (simp add: validUtf8_ascii)
  then have "validUtf8 (concat (map (Cons CHR '','') ys))" by (intro validUtf8_concat) auto
  moreover have "validUtf8 y" using \<open>\<And>s. s \<in> set xs \<Longrightarrow> validUtf8 s\<close> Cons by simp
  ultimately show ?thesis using Cons by (simp add: commaSep_def validUtf8_append)
qed (simp add: commaSep_def validUtf8_ascii)

lemma validUtf8_surround: "validUtf8 s \<Longrightarrow> \<not> digit7 a \<Longrightarrow> \<not> digit7 b \<Longrightarrow> validUtf8 (a # s @ [b])"
  using validUtf8_append [of "[a]" "s @ [b]"] validUtf8_append [of s "[b]"] by (simp add: validUtf8_ascii)

lemma ascii_digits: "list_all decimalDigit s \<Longrightarrow> list_all (\<lambda>c. \<not> digit7 c) s"
  by (auto simp: list_all_iff decimalDigit_def simp flip: byte_ascii)

lemma validUtf8_marshal: "textual v \<Longrightarrow> validUtf8 (marshal v)"
proof (induction v)
  case (JInt i)
  then show ?case
    using decimal_digits ascii_digits by (auto simp: encodeInt_def intro!: validUtf8_ascii)
next
  case (JArr xs)
  then have "validUtf8 (commaSep (map marshal xs))" by (intro commaSep_valid) (auto simp: list_all_iff)
  then show ?case by (simp add: validUtf8_surround)
next
  case (JObj ms)
  have "validUtf8 (encodeString (fst m) @ [CHR '':''] @ marshal (snd m))" if "m \<in> set ms" for m
    using JObj that by (cases m; intro validUtf8_append validUtf8_encodeString) (auto simp: list_all_iff intro: validUtf8_ascii)
  then have "validUtf8 (commaSep (map (\<lambda>m. encodeString (fst m) @ CHR '':'' # marshal (snd m)) ms))"
    by (intro commaSep_valid) auto
  then show ?case by (simp add: validUtf8_surround)
qed (auto intro: validUtf8_ascii validUtf8_encodeString)

lemma escapesOutside_commaSep:
  assumes "\<And>s t. s \<in> set xs \<Longrightarrow> escapesOutside (s @ t) = escapesOutside t"
  shows "escapesOutside (commaSep xs @ t) = escapesOutside t"
proof -
  have tail: "escapesOutside (concat (map (Cons CHR '','') ys) @ t) = escapesOutside t" if "set ys \<subseteq> set xs" for ys
    using that assms by (induction ys) simp_all
  show ?thesis using assms tail by (cases xs) (auto simp: commaSep_def)
qed

lemma escapesOutside_skip: "CHR 0x22 \<notin> set s \<Longrightarrow> escapesOutside (s @ t) = escapesOutside t"
  by (induction s) auto

lemma escapes_marshal: "textual v \<Longrightarrow> escapesOutside (marshal v @ t) = escapesOutside t"
proof (induction v arbitrary: t)
  case (JInt i)
  have "CHR 0x22 \<notin> set (decimal n)" for n using decimal_digits [of n] by (auto simp: list_all_iff decimalDigit_def byte_def)
  then show ?case by (simp add: encodeInt_def escapesOutside_skip)
next
  case (JArr xs)
  then have "escapesOutside (commaSep (map marshal xs) @ t') = escapesOutside t'" for t'
    by (intro escapesOutside_commaSep) (auto simp: list_all_iff)
  then show ?case by simp
next
  case (JObj ms)
  have "escapesOutside ((encodeString (fst m) @ CHR '':'' # marshal (snd m)) @ t') = escapesOutside t'" if "m \<in> set ms" for m t'
    using JObj that by (cases m) (auto simp: list_all_iff escapes_encodeString)
  then have "escapesOutside (commaSep (map (\<lambda>m. encodeString (fst m) @ CHR '':'' # marshal (snd m)) ms) @ t') = escapesOutside t'" for t'
    by (intro escapesOutside_commaSep) auto
  then show ?case by simp
qed (simp_all add: escapes_encodeString)

text \<open>What the reader returns keeps its promises, and it always consumes a token: its recursion is never cut.\<close>

lemma numberValue_withinLimits: "numberValue s = Some v \<Longrightarrow> d \<le> 32 \<Longrightarrow> withinLimits d v"
  by (auto simp: numberValue_def Let_def split: if_split_asm)

lemma readJsonValue_sound:
  "readJsonValue d ts = Some (v, r) \<Longrightarrow> length r < length ts \<and> withinLimits d v"
  "jsonMembers d f ms ts = Some (v, r) \<Longrightarrow> d \<le> 32 \<Longrightarrow> distinct (map fst ms) \<Longrightarrow> list_all (\<lambda>m. withinLimits (Suc d) (snd m)) ms
     \<Longrightarrow> length r < length ts \<and> withinLimits d v"
  "jsonElements d f xs ts = Some (v, r) \<Longrightarrow> d \<le> 32 \<Longrightarrow> list_all (withinLimits (Suc d)) xs
     \<Longrightarrow> length r < length ts \<and> withinLimits d v"
proof (induction d ts and d f ms ts and d f xs ts arbitrary: v r and v r and v r
    rule: readJsonValue_jsonMembers_jsonElements.induct)
  case (1 d ts)
  then have d: "d \<le> 32" by (subst (asm) (1) readJsonValue.simps) (auto split: if_split_asm)
  with 1(3) obtain t ts' where ts: "ts = t # ts'" by (subst (asm) readJsonValue.simps) (auto split: list.splits)
  show ?case
  proof (cases t)
    case (TDelim c)
    consider "c = CHR ''{''" "jsonMembers d True [] ts' = Some (v, r)"
      | "c = CHR ''[''" "jsonElements d True [] ts' = Some (v, r)"
      using 1(3) ts TDelim by (subst (asm) readJsonValue.simps) (auto split: if_split_asm)
    then show ?thesis
      using 1(1) [OF _ ts TDelim] 1(2) [OF _ ts TDelim] d ts by cases auto
  qed (use 1(3) ts d in \<open>subst (asm) readJsonValue.simps; auto dest: numberValue_withinLimits\<close>)+
next
  case (2 d f ms ts)
  show ?case
  proof (cases "more ts")
    case True
    with 2(3) obtain name r1 v1 r2 where s: "afterComma f ts = Some (TStr name # TColon # r1)" "name \<notin> set (map fst ms)"
      "readJsonValue (Suc d) r1 = Some (v1, r2)" "length r2 < length ts" "jsonMembers d False (ms @ [(name, v1)]) r2 = Some (v, r)"
      by (subst (asm) jsonMembers.simps) (auto split: option.splits list.splits token.splits if_split_asm)
    have "withinLimits (Suc d) v1" using 2(1) [OF True s(1) refl refl refl refl s(2,3)] by simp
    then show ?thesis using 2(2) [OF True s(1) refl refl refl refl s(2,3) refl s(4,5)] s(2,4) 2(4-6) by auto
  next
    case False
    with 2(3) obtain c where "ts = TDelim c # r" "v = JObj ms"
      by (subst (asm) jsonMembers.simps) (auto split: list.splits token.splits if_split_asm)
    then show ?thesis using 2(4-6) by simp
  qed
next
  case (3 d f xs ts)
  show ?case
  proof (cases "more ts")
    case True
    with 3(3) obtain r1 v1 r2 where s: "afterComma f ts = Some r1"
      "readJsonValue (Suc d) r1 = Some (v1, r2)" "length r2 < length ts" "jsonElements d False (xs @ [v1]) r2 = Some (v, r)"
      by (subst (asm) jsonElements.simps) (auto split: option.splits if_split_asm)
    have "withinLimits (Suc d) v1" using 3(1) [OF True s(1,2)] by simp
    then show ?thesis using 3(2) [OF True s(1,2) refl s(3,4)] s(3) 3(4-5) by auto
  next
    case False
    with 3(3) obtain c where "ts = TDelim c # r" "v = JArr xs"
      by (subst (asm) jsonElements.simps) (auto split: list.splits token.splits if_split_asm)
    then show ?thesis using 3(4-5) by simp
  qed
qed

lemma strictJSON_withinLimits: "strictJSON data limit = Inr v \<Longrightarrow> length data \<le> limit \<and> withinLimits 0 v"
  using readJsonValue_sound(1) by (fastforce simp: strictJSON_def split: if_split_asm option.splits)

lemma marshal_read:
  assumes "textual v"
  shows "strictJSON (marshal v) limit =
    (if limit < length (marshal v) then failure ''resource_limit'' ''JSON input exceeds its byte limit''
     else if withinLimits 0 v then Inr v
     else failure ''invalid_input'' ''malformed or duplicate-key JSON'')"
proof -
  have "tokens (marshal v) = valueTokens v"
    using tokens_marshal [OF assms, of "[]"] by (simp add: delimited_def tokens.simps [of "[]"])
  moreover have "validEscapes (marshal v)"
    using escapes_marshal [OF assms, of "[]"] by (simp add: validEscapes_def)
  ultimately show ?thesis
    using validUtf8_marshal [OF assms] readJsonValue_value [of 0 v "[]"] by (simp add: strictJSON_def)
qed

section \<open>The strings that are read\<close>

lemma hex_ascii: "fromHexChar c = Some n \<Longrightarrow> \<not> digit7 c"
  by (auto simp: fromHexChar_def simp flip: byte_ascii split: if_split_asm)

lemma hexValue4_ascii: "hexValue4 a b c d = Some n \<Longrightarrow> \<not> digit7 a \<and> \<not> digit7 b \<and> \<not> digit7 c \<and> \<not> digit7 d"
  by (auto simp: hexValue4_def dest: hex_ascii split: option.splits)

lemma unicodeEscape_valid:
  assumes "validUtf8 s" and "unicodeEscape s = Some (x, r)"
  shows "validUtf8 x \<and> validUtf8 r"
proof -
  obtain x0 x1 x2 x3 r1 n where s: "s = x0 # x1 # x2 # x3 # r1" and n: "hexValue4 x0 x1 x2 x3 = Some n"
    using assms(2) by (auto simp: unicodeEscape_def split: list.splits option.splits)
  have r1: "validUtf8 r1" using assms(1) hexValue4_ascii [OF n] by (simp add: s validUtf8_Cons_ascii)
  show ?thesis
  proof (cases "r = r1")
    case True
    have "\<exists>m. x = encodeRune m"
      using assms(2) by (auto simp: unicodeEscape_def split: list.splits option.splits if_split_asm)
    then show ?thesis using True r1 validUtf8_encodeRune by auto
  next
    case False
    then obtain y2 y3 y4 y5 m where y: "r1 = CHR 0x5C # CHR ''u'' # y2 # y3 # y4 # y5 # r" "hexValue4 y2 y3 y4 y5 = Some m"
      and x: "\<exists>k. x = encodeRune k"
      using assms(2) n unfolding s by (auto simp: unicodeEscape_def split: list.splits option.splits if_split_asm)
    show ?thesis using r1 hexValue4_ascii [OF y(2)] x validUtf8_encodeRune by (auto simp: y(1) validUtf8_Cons_ascii)
  qed
qed

lemma escapedByte_ascii: "escapedByte e = Some b \<Longrightarrow> \<not> digit7 e \<and> \<not> digit7 b"
  by (auto simp: escapedByte_def split: if_split_asm)

lemma unescape_valid:
  assumes "validUtf8 s" and "unescape s = Some (x, r)"
  shows "validUtf8 x \<and> validUtf8 r"
proof -
  obtain e t where s: "s = e # t" using assms(2) by (cases s) (auto simp: unescape_def)
  show ?thesis
  proof (cases "e = CHR ''u''")
    case True
    then have "validUtf8 t" "unicodeEscape t = Some (x, r)" using assms s by (simp_all add: unescape_def validUtf8_Cons_ascii)
    then show ?thesis using unicodeEscape_valid by blast
  next
    case False
    then obtain b where b: "escapedByte e = Some b" "x = [b]" "r = t" using assms(2) s by (auto simp: unescape_def)
    show ?thesis using assms(1) escapedByte_ascii [OF b(1)] by (simp add: s b validUtf8_Cons_ascii)
  qed
qed

lemma prepend_SomeD: "prepend a p = Some (x, r) \<Longrightarrow> \<exists>y. p = Some (y, r) \<and> x = a @ y"
  by (auto simp: prepend_def)

lemma unquote_valid: "validUtf8 s \<Longrightarrow> unquote s = Some (x, r) \<Longrightarrow> validUtf8 x \<and> validUtf8 r"
proof (induction "length s" arbitrary: s x rule: less_induct)
  case less
  have "s \<noteq> []" using less.prems(2) by (auto simp: unquote.simps)
  with less.prems(1) show ?case
  proof (cases rule: validUtf8_split)
    case (low c t)
    show ?thesis
    proof (cases "c = CHR 0x22")
      case True
      then show ?thesis using less.prems low by (simp add: unquote_quote)
    next
      case quote: False
      show ?thesis
      proof (cases "c = CHR 0x5C")
        case True
        then obtain b t' where u: "unescape t = Some (b, t')" "prepend b (unquote t') = Some (x, r)"
          using less.prems(2) low quote by (subst (asm) unquote.simps) (auto split: option.splits)
        then obtain y where y: "unquote t' = Some (y, r)" "x = b @ y" using prepend_SomeD by blast
        have "validUtf8 b" "validUtf8 t'" using unescape_valid [OF low(3) u(1)] by auto
        moreover have "length t' < length s" using unescape_length [OF u(1)] low by simp
        ultimately show ?thesis using less.hyps y by (auto intro: validUtf8_append)
      next
        case False
        then obtain y where y: "unquote t = Some (y, r)" "x = c # y"
          using less.prems(2) low quote prepend_SomeD by (subst (asm) unquote.simps) (auto split: if_split_asm dest!: prepend_SomeD)
        then show ?thesis using less.hyps [of t] low by (simp add: validUtf8_Cons_ascii)
      qed
    qed
  next
    case (high bs t)
    then obtain y where y: "unquote t = Some (y, r)" "x = bs @ y"
      using less.prems(2) unquote_high [of bs t] prepend_SomeD by fastforce
    then show ?thesis using less.hyps [of t] high by (auto intro: validUtf8_append)
  qed
qed


fun tokenText :: "token \<Rightarrow> bool" where
  "tokenText (TStr s) = validUtf8 s"
| "tokenText t = True"

lemma validUtf8_dropWhile: "(\<And>c. P c \<Longrightarrow> \<not> digit7 c) \<Longrightarrow> validUtf8 s \<Longrightarrow> validUtf8 (dropWhile P s)"
  by (induction s) (auto simp: validUtf8_Cons_ascii)

lemma digit_ascii: "decimalDigit c \<Longrightarrow> \<not> digit7 c"
  by (auto simp: decimalDigit_def simp flip: byte_ascii)

lemma scanDigits_valid: "validUtf8 s \<Longrightarrow> scanDigits b s = Some (l, r) \<Longrightarrow> validUtf8 r"
  by (auto simp: scanDigits_def Let_def validUtf8_dropWhile digit_ascii split: if_split_asm)

lemma scanInteger_valid: "validUtf8 s \<Longrightarrow> scanInteger s = Some (l, r) \<Longrightarrow> validUtf8 r"
  by (auto simp: scanInteger_def validUtf8_Cons_ascii digit_ascii validUtf8_dropWhile split: list.splits if_split_asm)

lemma scanFraction_valid: "validUtf8 s \<Longrightarrow> scanFraction b s = Some (l, r) \<Longrightarrow> validUtf8 r"
  using scanDigits_valid by (auto simp: scanFraction_def validUtf8_Cons_ascii split: list.splits if_split_asm)

lemma scanExponent_valid: "validUtf8 s \<Longrightarrow> scanExponent b s = Some (l, r) \<Longrightarrow> validUtf8 r"
  using scanDigits_valid [of _ _ l r]
  by (auto simp: scanExponent_def validUtf8_Cons_ascii split: list.splits if_split_asm)

lemma scanNumber_valid:
  assumes "validUtf8 s" and scan: "scanNumber s = Some (l, r)"
  shows "validUtf8 r"
proof -
  define sign where "sign = (case s of c # _ \<Rightarrow> if c = CHR ''-'' then [c] else [] | [] \<Rightarrow> [])"
  obtain ds r1 fr r2 where int: "scanInteger (drop (length sign) s) = Some (ds, r1)"
    and frac: "scanFraction (sign @ ds) r1 = Some (fr, r2)" and expo: "scanExponent fr r2 = Some (l, r)"
    using scan by (auto simp: scanNumber_def sign_def [symmetric] Let_def bind_eq_Some_conv)
  have "validUtf8 (drop (length sign) s)"
    using assms(1) by (cases s) (auto simp: sign_def validUtf8_Cons_ascii)
  then show ?thesis using scanInteger_valid scanFraction_valid scanExponent_valid int frac expo by blast
qed

lemma validUtf8_literal: "hasPrefix s p \<Longrightarrow> list_all (\<lambda>c. \<not> digit7 c) p \<Longrightarrow> validUtf8 s \<Longrightarrow> validUtf8 (drop (length p) s)"
proof -
  assume "hasPrefix s p" and p: "list_all (\<lambda>c. \<not> digit7 c) p" and s: "validUtf8 s"
  then obtain t where "s = p @ t" by (auto simp: hasPrefix_iff)
  moreover have "validUtf8 (p @ t) = validUtf8 t" using p by (induction p) (auto simp: validUtf8_Cons_ascii)
  ultimately show ?thesis using s by simp
qed

lemma tokens_text: "validUtf8 s \<Longrightarrow> list_all tokenText (tokens s)"
proof (induction "length s" arbitrary: s rule: less_induct)
  case less
  show ?case
  proof (cases s)
    case (Cons c cs)
    have low: "validUtf8 cs" if "\<not> digit7 c" using that less.prems Cons by (simp add: validUtf8_Cons_ascii)
    then have skip: "list_all tokenText (tokens cs)" if "\<not> digit7 c" using that less.hyps [of cs] Cons by simp
    have str: "validUtf8 x \<and> list_all tokenText (tokens r)" if "c = CHR 0x22" "unquote cs = Some (x, r)" for x r
      using that low unquote_valid [of cs x r] unquote_length [of cs x r] less.hyps [of r] Cons by simp
    have num: "list_all tokenText (tokens r)" if "scanNumber s = Some (l, r)" for l r
      using that scanNumber_valid [OF less.prems] scanNumber_length less.hyps by blast
    have lit: "list_all tokenText (tokens (drop (length p) s))" if "hasPrefix s p" "list_all (\<lambda>c. \<not> digit7 c) p" "p \<noteq> []" for p
      using validUtf8_literal [OF that(1,2) less.prems] that(3) less.hyps Cons by simp
    from lit [of "''true''"] lit [of "''false''"] lit [of "''null''"]
    have lits: "hasPrefix s ''true'' \<Longrightarrow> list_all tokenText (tokens (drop 4 s))"
      "hasPrefix s ''false'' \<Longrightarrow> list_all tokenText (tokens (drop 5 s))"
      "hasPrefix s ''null'' \<Longrightarrow> list_all tokenText (tokens (drop 4 s))" by (simp_all add: numeral_eq_Suc)
    have sp: "isSpace c \<Longrightarrow> \<not> digit7 c" by (auto simp: isSpace_def)
    have "tokens s = (if isSpace c then tokens cs
       else if c = CHR ''['' \<or> c = CHR '']'' \<or> c = CHR ''{'' \<or> c = CHR ''}'' then TDelim c # tokens cs
       else if c = CHR '','' then TComma # tokens cs
       else if c = CHR '':'' then TColon # tokens cs
       else if c = CHR 0x22 then
         (case unquote cs of None \<Rightarrow> [TErr] | Some (x, r) \<Rightarrow> TStr x # tokens r)
       else if c = CHR ''-'' \<or> decimalDigit c then
         (case scanNumber s of None \<Rightarrow> [TErr] | Some (l, r) \<Rightarrow> TNum l # tokens r)
       else if hasPrefix s ''true'' then TBool True # tokens (drop 4 s)
       else if hasPrefix s ''false'' then TBool False # tokens (drop 5 s)
       else if hasPrefix s ''null'' then TNull # tokens (drop 4 s)
       else [TErr])" (is "_ = ?rhs")
      by (subst tokens.simps) (simp only: Cons list.case)
    also have "list_all tokenText ?rhs"
    proof (cases "isSpace c \<or> c = CHR ''['' \<or> c = CHR '']'' \<or> c = CHR ''{'' \<or> c = CHR ''}'' \<or> c = CHR '','' \<or> c = CHR '':''")
      case True
      with sp have "\<not> digit7 c" by auto
      with skip have "list_all tokenText (tokens cs)" by simp
      then show ?thesis using True by auto
    next
      case False
      then show ?thesis using str num lits by (simp split: option.split prod.split)
    qed
    finally show ?thesis .
  qed (simp add: tokens.simps)
qed

lemma afterComma_text: "list_all P ts \<Longrightarrow> afterComma f ts = Some r \<Longrightarrow> list_all P r"
  by (auto simp: afterComma_def split: if_split_asm list.splits token.splits)

lemma readJsonValue_text:
  "readJsonValue d ts = Some (v, r) \<Longrightarrow> list_all tokenText ts \<Longrightarrow> textual v \<and> list_all tokenText r"
  "jsonMembers d f ms ts = Some (v, r) \<Longrightarrow> list_all tokenText ts \<Longrightarrow> textual (JObj ms) \<Longrightarrow> textual v \<and> list_all tokenText r"
  "jsonElements d f xs ts = Some (v, r) \<Longrightarrow> list_all tokenText ts \<Longrightarrow> textual (JArr xs) \<Longrightarrow> textual v \<and> list_all tokenText r"
proof (induction d ts and d f ms ts and d f xs ts arbitrary: v r and v r and v r
    rule: readJsonValue_jsonMembers_jsonElements.induct)
  case (1 d ts)
  then have d: "\<not> 32 < d" by (subst (asm) (1) readJsonValue.simps) (auto split: if_split_asm)
  with 1(3) obtain t ts' where ts: "ts = t # ts'" by (subst (asm) readJsonValue.simps) (auto split: list.splits)
  show ?case
  proof (cases t)
    case (TDelim c)
    consider "c = CHR ''{''" "jsonMembers d True [] ts' = Some (v, r)"
      | "c = CHR ''[''" "jsonElements d True [] ts' = Some (v, r)"
      using 1(3) ts TDelim by (subst (asm) readJsonValue.simps) (auto split: if_split_asm)
    then show ?thesis
      using 1(1) [OF d ts TDelim] 1(2) [OF d ts TDelim] 1(4) ts by cases auto
  next
    case (TNum s)
    then obtain i where "v = JInt i" "r = ts'"
      using 1(3) ts d by (subst (asm) readJsonValue.simps) (auto simp: numberValue_def Let_def split: if_split_asm)
    then show ?thesis using 1(4) ts by simp
  qed (use 1(3,4) ts d in \<open>subst (asm) readJsonValue.simps; auto\<close>)+
next
  case (2 d f ms ts)
  show ?case
  proof (cases "more ts")
    case True
    with 2(3) obtain name r1 v1 r2 where s: "afterComma f ts = Some (TStr name # TColon # r1)" "name \<notin> set (map fst ms)"
      "readJsonValue (Suc d) r1 = Some (v1, r2)" "length r2 < length ts" "jsonMembers d False (ms @ [(name, v1)]) r2 = Some (v, r)"
      by (subst (asm) jsonMembers.simps) (auto split: option.splits list.splits token.splits if_split_asm)
    have name: "validUtf8 name" "list_all tokenText r1" using afterComma_text [OF 2(4) s(1)] by simp_all
    have "textual v1 \<and> list_all tokenText r2" using 2(1) [OF True s(1) refl refl refl refl s(2,3)] name by simp
    then show ?thesis using 2(2) [OF True s(1) refl refl refl refl s(2,3) refl s(4,5)] name 2(5) by simp
  next
    case False
    with 2(3) obtain c where "ts = TDelim c # r" "v = JObj ms"
      by (subst (asm) jsonMembers.simps) (auto split: list.splits token.splits if_split_asm)
    then show ?thesis using 2(4,5) by simp
  qed
next
  case (3 d f xs ts)
  show ?case
  proof (cases "more ts")
    case True
    with 3(3) obtain r1 v1 r2 where s: "afterComma f ts = Some r1"
      "readJsonValue (Suc d) r1 = Some (v1, r2)" "length r2 < length ts" "jsonElements d False (xs @ [v1]) r2 = Some (v, r)"
      by (subst (asm) jsonElements.simps) (auto split: option.splits if_split_asm)
    have "textual v1 \<and> list_all tokenText r2" using 3(1) [OF True s(1,2)] afterComma_text [OF 3(4) s(1)] by simp
    then show ?thesis using 3(2) [OF True s(1,2) refl s(3,4)] 3(5) by simp
  next
    case False
    with 3(3) obtain c where "ts = TDelim c # r" "v = JArr xs"
      by (subst (asm) jsonElements.simps) (auto split: list.splits token.splits if_split_asm)
    then show ?thesis using 3(4-5) by simp
  qed
qed

lemma strictJSON_text: "strictJSON data limit = Inr v \<Longrightarrow> textual v"
proof -
  assume read: "strictJSON data limit = Inr v"
  then have data: "validUtf8 data" by (auto simp: strictJSON_def split: if_split_asm)
  obtain r where "readJsonValue 0 (tokens data) = Some (v, r)"
    using read by (auto simp: strictJSON_def split: if_split_asm option.splits)
  then show ?thesis using readJsonValue_text(1) tokens_text [OF data] by blast
qed

text \<open>
  Whatever text the reader accepts, within its limit, its value has valid strings and respects the
  limits on nesting, integers and names; and the value, marshalled again, is read back as the same
  value: two texts that are read as the same value have one normal form.
\<close>

theorem strictJSON_sound:
  assumes "strictJSON data limit = Inr v"
  shows "length data \<le> limit \<and> textual v \<and> withinLimits 0 v \<and> strictJSON (marshal v) (length (marshal v)) = Inr v"
  using assms strictJSON_withinLimits [OF assms] strictJSON_text [OF assms] marshal_read [OF strictJSON_text [OF assms]]
  by simp

theorem strictJSON_sound_witness:
  "\<exists>v. strictJSON (CHR ''{'' # CHR 0x22 # ''a'' @ [CHR 0x22] @ '': [true, -7] }'') 40 = Inr v \<and> textual v \<and> withinLimits 0 v
     \<and> strictJSON (marshal v) (length (marshal v)) = Inr v"
proof -
  let ?v = "JObj [(''a'', JArr [JBool True, JInt (- 7)])]"
  have "strictJSON (CHR ''{'' # CHR 0x22 # ''a'' @ [CHR 0x22] @ '': [true, -7] }'') 40 = Inr ?v" by code_simp
  then show ?thesis using strictJSON_sound [of "CHR ''{'' # CHR 0x22 # ''a'' @ [CHR 0x22] @ '': [true, -7] }''" 40 ?v] by blast
qed

text \<open>
  A marshalled value whose strings are valid UTF-8 is read back as it is when it is within the
  size limit, its nesting is at most 32 levels, its integers have at most 53 bits and no object repeats
  a name; every other such value is refused with the error of the first limit it breaks.
\<close>

theorem strictJSON_marshal:
  assumes "textual v"
  shows "strictJSON (marshal v) limit =
    (if limit < length (marshal v) then failure ''resource_limit'' ''JSON input exceeds its byte limit''
     else if withinLimits 0 v then Inr v
     else failure ''invalid_input'' ''malformed or duplicate-key JSON'')"
  using assms by (rule marshal_read)

theorem strictJSON_marshal_witness:
  "strictJSON (marshal (JObj [(''a'', JArr [JInt (- 3), JStr [CHR 0x22, CHR 0xC3, CHR 0xA9]])])) 100 =
     Inr (JObj [(''a'', JArr [JInt (- 3), JStr [CHR 0x22, CHR 0xC3, CHR 0xA9]])])"
proof -
  let ?v = "JObj [(''a'', JArr [JInt (- 3), JStr [CHR 0x22, CHR 0xC3, CHR 0xA9]])]"
  have "textual ?v" by code_simp
  moreover have "length (marshal ?v) \<le> 100" by code_simp
  ultimately show ?thesis using strictJSON_marshal [of ?v 100] by simp
qed

end
