(* ===== verification/HN_Extension.thy ===== *)
theory HN_Extension
  imports HN_Strict_Json HN_Path HN_Event
begin

text \<open>
  Extension modules (\<open>src/internal/extension\<close>: \<open>manifest.go\<close>, \<open>registration.go\<close>, \<open>grants.go\<close>): the manifest
  a module declares, the private registry of installed modules, the grants an operator gives a module
  in one repository, and the authorization of a request.

  The registry and the enablements are private JSON files; a file is its content, \<^const>\<open>None\<close> when it
  does not exist.  The operating system enters as \<open>fileOps\<close>, the outcomes of the checks and writes on
  the file and its directory, and as \<open>fileSystem\<close>, the executables of modules.  An operation that fails
  returns its error and leaves the file as it was: the only write is the final rename.
\<close>

section \<open>Manifests\<close>

abbreviation (input) ManifestLimit :: nat where "ManifestLimit \<equiv> 131072"

abbreviation (input) HostProtocol :: string where "HostProtocol \<equiv> ''hn.extension/1''"

record Manifest =
  mf_Protocol :: string
  mf_ModuleID :: string
  mf_ModuleVersion :: string
  mf_HostProtocol :: string
  mf_Capabilities :: "string slice"

text \<open>The two parts of \<open>modulePattern\<close>: a lower case letter and at most 63 more bytes.\<close>

definition lowerByte :: "char \<Rightarrow> bool" where
  "lowerByte c \<longleftrightarrow> 97 \<le> byte c \<and> byte c \<le> 122"

definition modulePart :: "string \<Rightarrow> bool" where
  "modulePart s = (case s of [] \<Rightarrow> False
     | c # cs \<Rightarrow> lowerByte c \<and> length cs \<le> 63 \<and>
         list_all (\<lambda>x. lowerByte x \<or> decimalDigit x \<or> x = CHR ''.'' \<or> x = CHR ''-'') cs)"

definition ValidModuleID :: "string \<Rightarrow> bool" where
  "ValidModuleID i \<longleftrightarrow>
     (case splitOn CHR ''/'' i of [a, b] \<Rightarrow> modulePart a \<and> modulePart b | _ \<Rightarrow> False)
     \<and> \<not> hasPrefix i ''hn/'' \<and> \<not> hasPrefix i ''hubnot/''"

definition methodVocabulary :: "string list" where
  "methodVocabulary = [''capabilities.list'', ''identity.public'', ''resource.read'', ''resource.mutate'',
     ''resource.operation'', ''artifact.read'', ''artifact.mutate'', ''artifact.operation'', ''artifact.search'',
     ''artifact.type.read'', ''artifact.type.publish'', ''changes.capture'', ''changes.page'', ''changes.since'']"

definition validMethod :: "string \<Rightarrow> bool" where
  "validMethod value \<longleftrightarrow> value \<in> set methodVocabulary"

definition printable :: "string \<Rightarrow> bool" where
  "printable s \<longleftrightarrow> list_all (\<lambda>b. 33 \<le> byte b \<and> byte b \<le> 126) s"

text \<open>The loop over the capabilities with the set of those seen.\<close>

fun checkCapabilities :: "string list \<Rightarrow> string list \<Rightarrow> unit result" where
  "checkCapabilities seen [] = Inr ()"
| "checkCapabilities seen (m # ms) =
     (if \<not> validMethod m \<or> m \<in> set seen then failure ''invalid_input'' ''unknown or duplicate capability''
      else checkCapabilities (m # seen) ms)"

definition validateStructure :: "Manifest \<Rightarrow> unit result" where
  "validateStructure m =
     (if mf_Protocol m \<noteq> ''hn.extension-manifest/1'' then failure ''incompatible_version'' ''unsupported manifest protocol''
      else if \<not> ValidModuleID (mf_ModuleID m) then failure ''invalid_input'' ''invalid or reserved module ID''
      else if length (mf_ModuleVersion m) < 1 \<or> 64 < length (mf_ModuleVersion m) \<or> \<not> printable (mf_ModuleVersion m)
        then failure ''invalid_input'' ''module version must have 1..64 printable ASCII bytes''
      else if length (mf_HostProtocol m) < 1 \<or> 64 < length (mf_HostProtocol m) \<or> \<not> printable (mf_HostProtocol m)
        then failure ''invalid_input'' ''invalid host protocol declaration''
      else (case mf_Capabilities m of
          None \<Rightarrow> failure ''invalid_input'' ''capabilities must be an array''
        | Some ms \<Rightarrow> checkCapabilities [] ms))"

definition validateManifest :: "Manifest \<Rightarrow> unit result" where
  "validateManifest m = rbind (validateStructure m) (\<lambda>_.
     if mf_HostProtocol m \<noteq> HostProtocol then failure ''incompatible_version'' ''unsupported host protocol'' else Inr ())"

text \<open>
  \<open>canonical\<close> marshals a value, decodes the text and marshals the result: names are sorted, and a byte
  that is not part of valid UTF-8 has become U+FFFD.
\<close>

definition scalarText :: "string \<Rightarrow> string" where
  "scalarText s = concat (map (\<lambda>(r, bs). if r = runeError \<and> length bs = 1 then encodeRune runeError else bs) (runes s))"

fun canonicalValue :: "json \<Rightarrow> json" where
  "canonicalValue (JStr s) = JStr (scalarText s)"
| "canonicalValue (JArr xs) = JArr (map canonicalValue xs)"
| "canonicalValue (JObj ms) = JObj (sort_key fst (map (\<lambda>m. (scalarText (fst m), canonicalValue (snd m))) ms))"
| "canonicalValue v = v"

definition canonical :: "json \<Rightarrow> string" where
  "canonical v = marshal (canonicalValue v)"

definition digest :: "host \<Rightarrow> string \<Rightarrow> string" where
  "digest h payload = ''sha256:'' @ hexEncodeToString (sha256 h payload)"

definition manifestJSON :: "Manifest \<Rightarrow> json" where
  "manifestJSON m = JObj [(''protocol'', JStr (mf_Protocol m)), (''module_id'', JStr (mf_ModuleID m)),
     (''module_version'', JStr (mf_ModuleVersion m)), (''host_protocol'', JStr (mf_HostProtocol m)),
     (''capabilities'', jsonSlice JStr (mf_Capabilities m))]"

definition ManifestDigest :: "host \<Rightarrow> Manifest \<Rightarrow> string" where
  "ManifestDigest h m = digest h (canonical (manifestJSON m))"

section \<open>Decoding\<close>

text \<open>
  \<open>json.Unmarshal\<close> into a string, a string slice and a \<open>Manifest\<close>: \<open>null\<close> leaves the zero value, a value
  of another type is an error.  \<open>field\<close> is \<open>object[name]\<close>, \<open>nil\<close> when it is absent.
\<close>

definition exactFields :: "(string \<times> json) list \<Rightarrow> string list \<Rightarrow> bool" where
  "exactFields object names \<longleftrightarrow> length object = length names \<and> list_all (\<lambda>n. n \<in> set (map fst object)) names"

definition field :: "(string \<times> json) list \<Rightarrow> string \<Rightarrow> json" where
  "field object name = (case map_of object name of None \<Rightarrow> JNull | Some v \<Rightarrow> v)"

definition decodeString :: "json \<Rightarrow> string option" where
  "decodeString v = (case v of JStr s \<Rightarrow> Some s | JNull \<Rightarrow> Some [] | _ \<Rightarrow> None)"

definition decodeStrings :: "json \<Rightarrow> string slice option" where
  "decodeStrings v = (case v of JNull \<Rightarrow> Some None
     | JArr xs \<Rightarrow> map_option Some (those (map decodeString xs)) | _ \<Rightarrow> None)"

definition decodeManifest :: "(string \<times> json) list \<Rightarrow> Manifest option" where
  "decodeManifest object =
     (case (decodeString (field object ''protocol''), decodeString (field object ''module_id''),
            decodeString (field object ''module_version''), decodeString (field object ''host_protocol''),
            decodeStrings (field object ''capabilities'')) of
        (Some p, Some i, Some v, Some hp, Some cs) \<Rightarrow>
          Some \<lparr>mf_Protocol = p, mf_ModuleID = i, mf_ModuleVersion = v, mf_HostProtocol = hp, mf_Capabilities = cs\<rparr>
      | _ \<Rightarrow> None)"

definition parseManifest :: "string \<Rightarrow> bool \<Rightarrow> Manifest result" where
  "parseManifest data compatible = rbind (strictJSON data ManifestLimit) (\<lambda>value.
     case value of
       JObj object \<Rightarrow>
         if \<not> exactFields object [''protocol'', ''module_id'', ''module_version'', ''host_protocol'', ''capabilities'']
         then failure ''invalid_input'' ''manifest must contain exactly the five manifest fields''
         else (case decodeManifest object of
             None \<Rightarrow> failure ''invalid_input'' ''invalid manifest fields''
           | Some m \<Rightarrow> rbind (validateStructure m) (\<lambda>_.
               if compatible \<and> mf_HostProtocol m \<noteq> HostProtocol
               then failure ''incompatible_version'' ''unsupported host protocol'' else Inr m))
     | _ \<Rightarrow> failure ''invalid_input'' ''manifest must contain exactly the five manifest fields'')"

definition ParseManifest :: "string \<Rightarrow> Manifest result" where
  "ParseManifest data = parseManifest data True"

text \<open>\<open>ReadManifest\<close> on what a reader delivers, \<^const>\<open>None\<close> when it fails.\<close>

definition ReadManifest :: "string option \<Rightarrow> Manifest result" where
  "ReadManifest r = (case r of None \<Rightarrow> failure ''invalid_input'' ''cannot read manifest''
     | Some data \<Rightarrow> ParseManifest (take (ManifestLimit + 1) data))"

section \<open>Registrations\<close>

abbreviation (input) RegistryLimit :: nat where "RegistryLimit \<equiv> 1048576"
abbreviation (input) RegistrationLimit :: nat where "RegistrationLimit \<equiv> 128"
abbreviation (input) ExecutableLimit :: nat where "ExecutableLimit \<equiv> 134217728"

record Registration =
  rg_RegistrationID :: string
  rg_RegistrationInstance :: string
  rg_Manifest :: Manifest
  rg_ManifestDigest :: string
  rg_Executable :: string
  rg_ExecutableDigest :: string
  rg_Argv :: "string slice"

record Registry =
  ry_Protocol :: string
  ry_Registrations :: "Registration slice"

definition identityText :: "Registration \<Rightarrow> string" where
  "identityText r = canonical (JObj [(''argv'', jsonSlice JStr (rg_Argv r)), (''executable'', JStr (rg_Executable r)),
     (''executable_digest'', JStr (rg_ExecutableDigest r)), (''manifest_digest'', JStr (rg_ManifestDigest r)),
     (''registration_instance'', JStr (rg_RegistrationInstance r))])"

definition identity :: "host \<Rightarrow> Registration \<Rightarrow> string" where
  "identity h r = digest h (identityText r)"

definition validArg :: "string \<Rightarrow> unit result" where
  "validArg arg =
     (if \<not> validUtf8 arg \<or> CHR 0x00 \<in> set arg then failure ''invalid_input'' ''argv must contain UTF-8 without NUL''
      else if 4096 < length arg then failure ''resource_limit'' ''argv value exceeds 4096 bytes'' else Inr ())"

definition validArgv :: "string slice \<Rightarrow> unit result" where
  "validArgv argv = (case argv of
       None \<Rightarrow> failure ''invalid_input'' ''argv must be an array''
     | Some args \<Rightarrow>
         if 64 < length args then failure ''resource_limit'' ''argv count exceeds 64''
         else rbind (forEach validArg args) (\<lambda>_.
           if 65536 < sum_list (map length args) then failure ''resource_limit'' ''argv aggregate exceeds 65536 bytes''
           else Inr ()))"

text \<open>
  Executables as the operating system shows them: \<open>filepath.Abs\<close> and \<open>EvalSymlinks\<close>, and an opened file
  with its status and what can be read of it; \<^const>\<open>None\<close> is a failed call.
\<close>

record fileInfo =
  fi_IsRegular :: bool
  fi_Perm :: "32 word"
  fi_Size :: int

record openedFile =
  of_Stat :: "fileInfo option"
  of_Content :: "string option"

record fileSystem =
  fs_Abs :: "string \<Rightarrow> string option"
  fs_EvalSymlinks :: "string \<Rightarrow> string option"
  fs_Open :: "string \<Rightarrow> openedFile option"

definition hashExecutable :: "host \<Rightarrow> fileSystem \<Rightarrow> string \<Rightarrow> string result" where
  "hashExecutable h fs path = (case fs_Open fs path of
       None \<Rightarrow> failure ''unavailable_module'' ''selected executable is unavailable''
     | Some f \<Rightarrow> (case of_Stat f of
         None \<Rightarrow> failure ''unavailable_module'' ''selected executable must be a regular executable file''
       | Some info \<Rightarrow>
           if \<not> fi_IsRegular info \<or> Bit_Operations.and (fi_Perm info) 73 = 0
           then failure ''unavailable_module'' ''selected executable must be a regular executable file''
           else if int ExecutableLimit < fi_Size info then failure ''resource_limit'' ''executable exceeds hashing limit''
           else (case of_Content f of
               None \<Rightarrow> failure ''unavailable_module'' ''cannot hash executable''
             | Some content \<Rightarrow>
                 if ExecutableLimit < length (take (ExecutableLimit + 1) content)
                 then failure ''resource_limit'' ''executable exceeds hashing limit''
                 else Inr (''sha256:'' @ hexEncodeToString (sha256 h (take (ExecutableLimit + 1) content))))))"

definition NewRegistration :: "host \<Rightarrow> fileSystem \<Rightarrow> Manifest \<Rightarrow> string \<Rightarrow> string slice \<Rightarrow> Registration result" where
  "NewRegistration h fs m executable argv =
     rbind (validateManifest m) (\<lambda>_. rbind (validArgv argv) (\<lambda>_.
     (case fs_Abs fs executable of
        None \<Rightarrow> failure ''invalid_input'' ''invalid executable path''
      | Some absolute \<Rightarrow> (case fs_EvalSymlinks fs absolute of
          None \<Rightarrow> failure ''unavailable_module'' ''selected executable is unavailable''
        | Some physical \<Rightarrow> rbind (hashExecutable h fs physical) (\<lambda>hash.
            Inr \<lparr>rg_RegistrationID = [], rg_RegistrationInstance = [], rg_Manifest = m, rg_ManifestDigest = ManifestDigest h m,
              rg_Executable = physical, rg_ExecutableDigest = hash, rg_Argv = Some (elems argv)\<rparr>)))))"

text \<open>The loop of \<open>validHex\<close> runs over runes; only ASCII passes it, so it is a loop over bytes.\<close>

definition ext_validHex :: "string \<Rightarrow> nat \<Rightarrow> bool" where
  "ext_validHex value n \<longleftrightarrow> length value = n \<and>
     list_all (\<lambda>b. (48 \<le> byte b \<and> byte b \<le> 57) \<or> (97 \<le> byte b \<and> byte b \<le> 102)) value"

definition validDigest :: "string \<Rightarrow> bool" where
  "validDigest i \<longleftrightarrow> length i = 71 \<and> hasPrefix i ''sha256:'' \<and> ext_validHex (drop 7 i) 64"

definition validateDescriptor :: "host \<Rightarrow> Registration \<Rightarrow> unit result" where
  "validateDescriptor h r =
     rbind (validateStructure (rg_Manifest r)) (\<lambda>_. rbind (validArgv (rg_Argv r)) (\<lambda>_.
       if \<not> isAbs (rg_Executable r) \<or> cleanPath (rg_Executable r) \<noteq> rg_Executable r \<or> CHR 0x00 \<in> set (rg_Executable r)
       then failure ''invalid_input'' ''registry executable path must be absolute and clean''
       else if \<not> validDigest (rg_ExecutableDigest r) \<or> rg_ManifestDigest r \<noteq> ManifestDigest h (rg_Manifest r)
       then failure ''verification_failure'' ''registration identity does not match its content''
       else Inr ()))"

definition validateStored :: "host \<Rightarrow> Registration \<Rightarrow> unit result" where
  "validateStored h r = rbind (validateDescriptor h r) (\<lambda>_.
     if \<not> ext_validHex (rg_RegistrationInstance r) 32 \<or> rg_RegistrationID r \<noteq> identity h r
     then failure ''verification_failure'' ''registration instance or identity does not match its content''
     else Inr ())"

definition Availability :: "host \<Rightarrow> fileSystem \<Rightarrow> Registration \<Rightarrow> (string \<times> string) result" where
  "Availability h fs r =
     (if mf_HostProtocol (rg_Manifest r) \<noteq> HostProtocol then Inr (''incompatible'', ''not_probed'')
      else (case fs_EvalSymlinks fs (rg_Executable r) of
          None \<Rightarrow> Inr (''missing'', ''unavailable'')
        | Some physical \<Rightarrow>
            if physical \<noteq> rg_Executable r then Inr (''changed'', ''unavailable'')
            else (case hashExecutable h fs (rg_Executable r) of
                Inl e \<Rightarrow> if errorFormat e = ''resource_limit'' then Inl e else Inr (''changed'', ''unavailable'')
              | Inr hash \<Rightarrow>
                  if hash \<noteq> rg_ExecutableDigest r then Inr (''changed'', ''unavailable'')
                  else Inr (''registered'', ''not_probed''))))"

section \<open>The registry file\<close>

text \<open>
  What the operating system answers while a private file is used: the check of its directories (with or
  without creating them), opening an existing file and checking its mode, taking the lock, and staging
  and renaming the new content.
\<close>

record fileOps =
  fo_Directory :: "bool \<Rightarrow> unit result"
  fo_Open :: "unit result"
  fo_Lock :: "unit result"
  fo_Persist :: "unit result"

definition membersOf :: "json \<Rightarrow> (string \<times> json) list" where
  "membersOf v = (case v of JObj object \<Rightarrow> object | _ \<Rightarrow> [])"

text \<open>The checks on one raw registration before the typed decoding.\<close>

definition isString :: "json \<Rightarrow> bool" where
  "isString v = (case v of JStr _ \<Rightarrow> True | _ \<Rightarrow> False)"

definition checkRawRegistration :: "json \<Rightarrow> unit result" where
  "checkRawRegistration raw = (case raw of
       JObj obj \<Rightarrow>
         if \<not> exactFields obj [''registration_id'', ''registration_instance'', ''manifest'', ''manifest_digest'',
              ''executable'', ''executable_digest'', ''argv'']
         then failure ''invalid_input'' ''invalid registration fields''
         else (case field obj ''argv'' of
             JArr argv \<Rightarrow>
               if \<not> list_all isString argv then failure ''invalid_input'' ''argv elements must be strings''
               else rbind (parseManifest (canonical (field obj ''manifest'')) False) (\<lambda>_. Inr ())
           | _ \<Rightarrow> failure ''invalid_input'' ''argv must be a string array'')
     | _ \<Rightarrow> failure ''invalid_input'' ''invalid registration fields'')"

definition decodeRegistration :: "json \<Rightarrow> Registration option" where
  "decodeRegistration raw = (case raw of
       JObj obj \<Rightarrow>
         (case (decodeString (field obj ''registration_id''), decodeString (field obj ''registration_instance''),
                decodeManifest (membersOf (field obj ''manifest'')), decodeString (field obj ''manifest_digest''),
                decodeString (field obj ''executable''), decodeString (field obj ''executable_digest''),
                decodeStrings (field obj ''argv'')) of
            (Some i, Some inst, Some m, Some md, Some e, Some ed, Some argv) \<Rightarrow>
              Some \<lparr>rg_RegistrationID = i, rg_RegistrationInstance = inst, rg_Manifest = m, rg_ManifestDigest = md,
                rg_Executable = e, rg_ExecutableDigest = ed, rg_Argv = argv\<rparr>
          | _ \<Rightarrow> None)
     | _ \<Rightarrow> None)"

text \<open>The loop over the decoded registrations with the module IDs seen.\<close>

fun checkRegistrations :: "host \<Rightarrow> string list \<Rightarrow> Registration list \<Rightarrow> unit result" where
  "checkRegistrations h seen [] = Inr ()"
| "checkRegistrations h seen (r # rs) = rbind (validateStored h r) (\<lambda>_.
     if mf_ModuleID (rg_Manifest r) \<in> set seen then failure ''invalid_input'' ''duplicate registered module''
     else checkRegistrations h (mf_ModuleID (rg_Manifest r) # seen) rs)"

definition parseRegistry :: "host \<Rightarrow> string \<Rightarrow> Registry result" where
  "parseRegistry h data = rbind (strictJSON data RegistryLimit) (\<lambda>value. case value of
       JObj object \<Rightarrow>
         if \<not> exactFields object [''protocol'', ''registrations'']
         then failure ''invalid_input'' ''invalid extension registry fields''
         else (case field object ''registrations'' of
             JArr registrations \<Rightarrow>
               if RegistrationLimit < length registrations then failure ''resource_limit'' ''too many registrations''
               else rbind (forEach checkRawRegistration registrations) (\<lambda>_.
                 (case (decodeString (field object ''protocol''), those (map decodeRegistration registrations)) of
                    (Some protocol, Some rs) \<Rightarrow>
                      if protocol \<noteq> ''hn.extension-registry/1'' then failure ''invalid_input'' ''invalid extension registry''
                      else rbind (checkRegistrations h [] rs) (\<lambda>_. Inr \<lparr>ry_Protocol = protocol, ry_Registrations = Some rs\<rparr>)
                  | _ \<Rightarrow> failure ''invalid_input'' ''invalid extension registry''))
           | _ \<Rightarrow> failure ''invalid_input'' ''registrations must be an array'')
     | _ \<Rightarrow> failure ''invalid_input'' ''invalid extension registry fields'')"

definition emptyRegistry :: Registry where
  "emptyRegistry = \<lparr>ry_Protocol = ''hn.extension-registry/1'', ry_Registrations = Some []\<rparr>"

definition LoadRegistry :: "host \<Rightarrow> fileOps \<Rightarrow> string option \<Rightarrow> Registry result" where
  "LoadRegistry h ops file = rbind (fo_Directory ops False) (\<lambda>_. case file of
       None \<Rightarrow> Inr emptyRegistry
     | Some content \<Rightarrow> rbind (fo_Open ops) (\<lambda>_. parseRegistry h (take (RegistryLimit + 1) content)))"

definition registrationJSON :: "Registration \<Rightarrow> json" where
  "registrationJSON r = JObj [(''registration_id'', JStr (rg_RegistrationID r)),
     (''registration_instance'', JStr (rg_RegistrationInstance r)), (''manifest'', manifestJSON (rg_Manifest r)),
     (''manifest_digest'', JStr (rg_ManifestDigest r)), (''executable'', JStr (rg_Executable r)),
     (''executable_digest'', JStr (rg_ExecutableDigest r)), (''argv'', jsonSlice JStr (rg_Argv r))]"

definition registryJSON :: "Registry \<Rightarrow> json" where
  "registryJSON ry = JObj [(''protocol'', JStr (ry_Protocol ry)),
     (''registrations'', jsonSlice registrationJSON (ry_Registrations ry))]"

text \<open>
  \<open>UpdateRegistry\<close> with an update that also returns what its closure captures; the result carries the
  new content of the file.
\<close>

definition UpdateRegistry :: "host \<Rightarrow> fileOps \<Rightarrow> (Registry \<Rightarrow> (Registry \<times> 'a) result) \<Rightarrow> string option \<Rightarrow> ('a \<times> string option) result" where
  "UpdateRegistry h ops update file =
     rbind (fo_Directory ops True) (\<lambda>_. rbind (fo_Lock ops) (\<lambda>_. rbind (LoadRegistry h ops file) (\<lambda>loaded.
     rbind (update loaded) (\<lambda>(registry, out).
       if RegistrationLimit < length (elems (ry_Registrations registry)) then failure ''resource_limit'' ''too many registrations''
       else let sorted = registry\<lparr>ry_Registrations := map_option (sort_key (mf_ModuleID \<circ> rg_Manifest)) (ry_Registrations registry)\<rparr>;
                data = canonical (registryJSON sorted)
            in if RegistryLimit < length data then failure ''resource_limit'' ''registry exceeds byte limit''
               else rbind (fo_Persist ops) (\<lambda>_. Inr (out, Some data))))))"

definition bindingText :: "Registration \<Rightarrow> string" where
  "bindingText r = canonical (JObj [(''argv'', jsonSlice JStr (rg_Argv r)), (''executable'', JStr (rg_Executable r)),
     (''executable_digest'', JStr (rg_ExecutableDigest r)), (''manifest_digest'', JStr (rg_ManifestDigest r))])"

text \<open>The update of \<open>Register\<close>; \<open>entropy\<close> is what reading sixteen random bytes gives.\<close>

definition install :: "host \<Rightarrow> Registration \<Rightarrow> string option \<Rightarrow> Registry \<Rightarrow> (Registry \<times> Registration) result" where
  "install h candidate entropy registry =
     (case find (\<lambda>old. mf_ModuleID (rg_Manifest old) = mf_ModuleID (rg_Manifest candidate)) (elems (ry_Registrations registry)) of
        Some old \<Rightarrow>
          if bindingText old = bindingText candidate then Inr (registry, old)
          else failure ''invalid_input'' ''module is already registered; explicitly remove it before registering changed content''
      | None \<Rightarrow>
          if RegistrationLimit \<le> length (elems (ry_Registrations registry)) then failure ''resource_limit'' ''too many registrations''
          else (case entropy of
              None \<Rightarrow> failure ''repository_error'' ''cannot obtain registration randomness''
            | Some instance' \<Rightarrow>
                let withInstance = candidate\<lparr>rg_RegistrationInstance := hexEncodeToString instance'\<rparr>;
                    installed = withInstance\<lparr>rg_RegistrationID := identity h withInstance\<rparr>
                in Inr (registry\<lparr>ry_Registrations := Some (elems (ry_Registrations registry) @ [installed])\<rparr>, installed)))"

definition registerWithRandom :: "host \<Rightarrow> fileOps \<Rightarrow> Registration \<Rightarrow> string option \<Rightarrow> string option \<Rightarrow> (Registration \<times> string option) result" where
  "registerWithRandom h ops candidate entropy file =
     rbind (validateManifest (rg_Manifest candidate)) (\<lambda>_. rbind (validateDescriptor h candidate) (\<lambda>_.
       UpdateRegistry h ops (install h candidate entropy) file))"

fun removeModule :: "string \<Rightarrow> Registration list \<Rightarrow> (Registration list \<times> Registration) option" where
  "removeModule module [] = None"
| "removeModule module (r # rs) =
     (if mf_ModuleID (rg_Manifest r) = module then Some (rs, r)
      else map_option (\<lambda>(rest, removed). (r # rest, removed)) (removeModule module rs))"

definition Remove :: "host \<Rightarrow> fileOps \<Rightarrow> string \<Rightarrow> string option \<Rightarrow> (Registration \<times> string option) result" where
  "Remove h ops module file = UpdateRegistry h ops (\<lambda>registry.
     case removeModule module (elems (ry_Registrations registry)) of
       None \<Rightarrow> failure ''not_found'' ''module is not registered''
     | Some (rest, removed) \<Rightarrow> Inr (registry\<lparr>ry_Registrations := Some rest\<rparr>, removed)) file"

section \<open>Grants and authorization\<close>

abbreviation (input) GrantLimit :: nat where "GrantLimit \<equiv> 256"

record Grant =
  gr_Selector :: string
  gr_Actions :: "string list"

record EnablementEntry =
  ee_RegistrationID :: string
  ee_RepositoryID :: string
  ee_Epoch :: string
  ee_Enabled :: bool
  ee_Grants :: "Grant slice"

record Enablements =
  en_Protocol :: string
  en_Entries :: "EnablementEntry list"

record Binding =
  bd_RegistrationID :: string
  bd_RepositoryID :: string
  bd_Epoch :: string

record Access =
  ac_Method :: string
  ac_Selector :: string
  ac_Action :: string

definition nativeFamilyVocabulary :: "string list" where
  "nativeFamilyVocabulary = [''issue'', ''project'', ''project-item'', ''discussion'', ''discussion-reply'', ''workflow'']"

definition validNativeFamily :: "string \<Rightarrow> bool" where
  "validNativeFamily value \<longleftrightarrow> value \<in> set nativeFamilyVocabulary"

definition grantActionVocabulary :: "string list" where
  "grantActionVocabulary = [''read'', ''observe'', ''create'', ''revise'', ''resolve'', ''type.publish'', ''raw.inspect'']"

definition validGrantAction :: "string \<Rightarrow> bool" where
  "validGrantAction value \<longleftrightarrow> value \<in> set grantActionVocabulary"

definition validSelector :: "string \<Rightarrow> bool \<Rightarrow> bool" where
  "validSelector selector wildcard =
     (if hasPrefix selector ''native:'' then
        (let family = drop 7 selector in validNativeFamily family \<or> family = ''identity'')
      else if \<not> hasPrefix selector ''artifact:'' then False
      else let typeID = drop 9 selector in
        if typeID = ''opaque'' then True
        else ValidModuleID (if wildcard \<and> hasSuffix typeID ''/*'' then trimSuffix typeID ''/*'' @ ''/type'' else typeID))"

text \<open>The two loops of \<open>ValidateGrants\<close> with their sets of actions and selectors seen.\<close>

fun checkActions :: "string \<Rightarrow> string list \<Rightarrow> string list \<Rightarrow> unit result" where
  "checkActions selector seen [] = Inr ()"
| "checkActions selector seen (action # rest) =
     (if \<not> validGrantAction action \<or> action \<in> set seen then failure ''invalid_input'' ''unknown or duplicate grant action''
      else if (selector = ''native:identity'' \<and> action \<noteq> ''read'') \<or> (selector = ''artifact:opaque'' \<and> action \<noteq> ''raw.inspect'')
        \<or> (hasPrefix selector ''native:'' \<and> (action = ''type.publish'' \<or> action = ''raw.inspect''))
      then failure ''invalid_input'' ''action is not supported on this selector''
      else checkActions selector (action # seen) rest)"

fun checkGrants :: "string list \<Rightarrow> Grant list \<Rightarrow> unit result" where
  "checkGrants seen [] = Inr ()"
| "checkGrants seen (g # gs) =
     (if \<not> validSelector (gr_Selector g) True \<or> gr_Selector g \<in> set seen \<or> length (gr_Actions g) < 1 \<or> 7 < length (gr_Actions g)
      then failure ''invalid_input'' ''invalid or duplicate grant selector/actions''
      else rbind (checkActions (gr_Selector g) [] (gr_Actions g)) (\<lambda>_. checkGrants (gr_Selector g # seen) gs))"

definition ValidateGrants :: "Grant slice \<Rightarrow> unit result" where
  "ValidateGrants grants = (case grants of
       None \<Rightarrow> failure ''invalid_input'' ''grants must be an array''
     | Some gs \<Rightarrow> if GrantLimit < length gs then failure ''resource_limit'' ''too many grants'' else checkGrants [] gs)"

definition ParseGrant :: "string \<Rightarrow> Grant result" where
  "ParseGrant value = (case cut value CHR ''='' of (selector, actions, ok) \<Rightarrow>
     let grant = \<lparr>gr_Selector = selector, gr_Actions = splitOn CHR '','' actions\<rparr> in
     if \<not> ok then failure ''invalid_input'' ''grant requires SELECTOR=ACTION[,ACTION]''
     else rbind (ValidateGrants (Some [grant])) (\<lambda>_. Inr grant))"

definition NativeAction :: "string \<Rightarrow> string \<Rightarrow> string result" where
  "NativeAction family intent =
     (if \<not> validNativeFamily family then failure ''invalid_input'' ''unknown native family''
      else if intent = ''open'' then Inr ''create''
      else if intent = ''revise'' \<or> intent = ''resolve'' then Inr intent
      else if intent = ''comment'' \<and> family = ''issue'' then Inr ''create''
      else failure ''invalid_input'' ''unsupported native intent'')"

definition methodAllows :: "Access \<Rightarrow> bool" where
  "methodAllows a =
     (let method = ac_Method a; selector = ac_Selector a; action = ac_Action a;
          native = hasPrefix selector ''native:'' \<and> selector \<noteq> ''native:identity'';
          custom = hasPrefix selector ''artifact:''
      in if method = ''capabilities.list'' then selector = [] \<and> action = []
         else if method = ''identity.public'' then selector = ''native:identity'' \<and> action = ''read''
         else if method = ''resource.read'' \<or> method = ''resource.operation'' then native \<and> action = ''read''
         else if method = ''resource.mutate'' then
           native \<and> list_ex (\<lambda>intent. NativeAction (trimPrefix selector ''native:'') intent = Inr action)
             [''open'', ''revise'', ''resolve'', ''comment'']
         else if method = ''artifact.read'' then
           (if selector = ''artifact:opaque'' then action = ''raw.inspect'' else custom \<and> action = ''read'')
         else if method = ''artifact.operation'' \<or> method = ''artifact.search'' \<or> method = ''artifact.type.read'' then
           custom \<and> selector \<noteq> ''artifact:opaque'' \<and> action = ''read''
         else if method = ''artifact.mutate'' then
           custom \<and> selector \<noteq> ''artifact:opaque'' \<and> (action = ''create'' \<or> action = ''revise'' \<or> action = ''resolve'')
         else if method = ''artifact.type.publish'' then
           custom \<and> selector \<noteq> ''artifact:opaque'' \<and> action = ''type.publish''
         else if method = ''changes.capture'' \<or> method = ''changes.page'' \<or> method = ''changes.since'' then
           (native \<or> (custom \<and> selector \<noteq> ''artifact:opaque'')) \<and> (action = ''observe'' \<or> action = ''read'')
         else False)"

definition grantMatches :: "Grant \<Rightarrow> string \<Rightarrow> bool" where
  "grantMatches g selector =
     (if hasPrefix selector ''artifact:'' \<and> hasSuffix (gr_Selector g) ''/*''
      then hasPrefix selector (trimSuffix (gr_Selector g) ''*'')
      else gr_Selector g = selector)"

definition grantsAction :: "Grant list \<Rightarrow> string \<Rightarrow> string \<Rightarrow> bool" where
  "grantsAction gs selector action \<longleftrightarrow> list_ex (\<lambda>g. grantMatches g selector \<and> action \<in> set (gr_Actions g)) gs"

definition Authorize :: "host \<Rightarrow> Registration \<Rightarrow> EnablementEntry \<Rightarrow> Binding \<Rightarrow> Access \<Rightarrow> bool \<Rightarrow> unit result" where
  "Authorize h registration entry bnd a selectedContribution =
     rbind (validateStored h registration) (\<lambda>_. rbind (ValidateGrants (ee_Grants entry)) (\<lambda>_.
       if \<not> ee_Enabled entry \<or> bd_RegistrationID bnd \<noteq> rg_RegistrationID registration
         \<or> ee_RegistrationID entry \<noteq> bd_RegistrationID bnd \<or> ee_RepositoryID entry \<noteq> bd_RepositoryID bnd
         \<or> ee_Epoch entry \<noteq> bd_Epoch bnd \<or> \<not> validDigest (bd_RepositoryID bnd) \<or> \<not> ext_validHex (bd_Epoch bnd) 32
       then failure ''denied_access'' ''registration, repository or enablement epoch is not current''
       else if mf_HostProtocol (rg_Manifest registration) \<noteq> HostProtocol
       then failure ''incompatible_version'' ''unsupported host protocol''
       else if \<not> validMethod (ac_Method a) then failure ''unsupported_capability'' ''method is not supported''
       else if (ac_Method a \<noteq> ''capabilities.list'' \<and> \<not> validSelector (ac_Selector a) False) \<or> \<not> methodAllows a
       then failure ''invalid_input'' ''method selector/action does not match''
       else if ac_Method a = ''capabilities.list'' then Inr ()
       else if ac_Method a \<notin> set (elems (mf_Capabilities (rg_Manifest registration)))
       then failure ''denied_access'' ''method is not declared''
       else if \<not> grantsAction (elems (ee_Grants entry)) (ac_Selector a) (ac_Action a)
       then failure ''denied_access'' ''action is not granted''
       else if hasPrefix (ac_Method a) ''changes.'' \<and> (\<not> grantsAction (elems (ee_Grants entry)) (ac_Selector a) ''read''
         \<or> \<not> grantsAction (elems (ee_Grants entry)) (ac_Selector a) ''observe'')
       then failure ''denied_access'' ''observation requires both read and observe''
       else if selectedContribution \<and> (ac_Method a = ''artifact.mutate'' \<or> ac_Method a = ''artifact.type.publish'')
       then failure ''unsupported_capability'' ''custom writes under selected contribution policy are unsupported''
       else Inr ()))"

text \<open>\<open>ValidateRegistrationGrants\<close>: every granted action needs a declared method that could use it.\<close>

definition applicableMethod :: "host \<Rightarrow> Registration \<Rightarrow> EnablementEntry \<Rightarrow> string \<Rightarrow> string \<Rightarrow> string \<Rightarrow> bool" where
  "applicableMethod h registration entry selector action method =
     (let a = \<lparr>ac_Method = method, ac_Selector = selector, ac_Action = action\<rparr>;
          bnd = \<lparr>bd_RegistrationID = ee_RegistrationID entry, bd_RepositoryID = ee_RepositoryID entry, bd_Epoch = ee_Epoch entry\<rparr>
      in methodAllows a \<and> (action = ''observe'' \<or> is_ok (Authorize h registration entry bnd a False)))"

definition checkGrantScope :: "host \<Rightarrow> Registration \<Rightarrow> EnablementEntry \<Rightarrow> Grant \<Rightarrow> unit result" where
  "checkGrantScope h registration entry g = forEach (\<lambda>action.
     let selector = (if hasSuffix (gr_Selector g) ''/*'' then trimSuffix (gr_Selector g) ''*'' @ ''type'' else gr_Selector g) in
     if \<not> list_ex (applicableMethod h registration entry selector action) (elems (mf_Capabilities (rg_Manifest registration)))
     then failure ''denied_access'' ''grant has no matching declared method'' else Inr ()) (gr_Actions g)"

definition ValidateRegistrationGrants :: "host \<Rightarrow> Registration \<Rightarrow> EnablementEntry \<Rightarrow> unit result" where
  "ValidateRegistrationGrants h registration entry = rbind (ValidateGrants (ee_Grants entry)) (\<lambda>_.
     forEach (checkGrantScope h registration entry) (elems (ee_Grants entry)))"

section \<open>The enablement file\<close>

text \<open>The physical common directory of a repository gives its local identity.\<close>

definition repositoryIdentity :: "host \<Rightarrow> string \<Rightarrow> string" where
  "repositoryIdentity h common = digest h (''hn-extension-repository-v1'' @ [CHR 0x00] @ common)"

definition OpenEnablements :: "host \<Rightarrow> (string \<Rightarrow> bool) \<Rightarrow> string \<Rightarrow> string result" where
  "OpenEnablements h checkDir common =
     (if \<not> isAbs common \<or> cleanPath common \<noteq> common \<or> \<not> checkDir common
      then failure ''invalid_input'' ''unsafe physical Git common directory''
      else Inr (repositoryIdentity h common))"

definition checkRawGrant :: "json \<Rightarrow> unit result" where
  "checkRawGrant raw = (case raw of
       JObj grant \<Rightarrow>
         if \<not> exactFields grant [''selector'', ''actions''] then failure ''invalid_input'' ''invalid grant fields''
         else if \<not> isString (field grant ''selector'') then failure ''invalid_input'' ''selector must be a string''
         else (case field grant ''actions'' of
             JArr actions \<Rightarrow> if \<not> list_all isString actions then failure ''invalid_input'' ''action must be a string'' else Inr ()
           | _ \<Rightarrow> failure ''invalid_input'' ''actions must be an array'')
     | _ \<Rightarrow> failure ''invalid_input'' ''invalid grant fields'')"

definition checkRawEntry :: "json \<Rightarrow> unit result" where
  "checkRawEntry raw = (case raw of
       JObj obj \<Rightarrow>
         if \<not> exactFields obj [''registration_id'', ''repository_id'', ''epoch'', ''enabled'', ''grants'']
         then failure ''invalid_input'' ''invalid enablement entry fields''
         else if \<not> list_all (\<lambda>name. isString (field obj name)) [''registration_id'', ''repository_id'', ''epoch'']
         then failure ''invalid_input'' ''enablement identities must be strings''
         else (case field obj ''enabled'' of
             JBool _ \<Rightarrow> (case field obj ''grants'' of
                 JArr grants \<Rightarrow>
                   if GrantLimit < length grants then failure ''resource_limit'' ''too many grants''
                   else forEach checkRawGrant grants
               | _ \<Rightarrow> failure ''invalid_input'' ''grants must be an array'')
           | _ \<Rightarrow> failure ''invalid_input'' ''enabled must be boolean'')
     | _ \<Rightarrow> failure ''invalid_input'' ''invalid enablement entry fields'')"

text \<open>The typed decoding of what passed these checks.\<close>

definition stringOf :: "json \<Rightarrow> string" where
  "stringOf v = (case v of JStr s \<Rightarrow> s | _ \<Rightarrow> [])"

definition arrayOf :: "json \<Rightarrow> json list" where
  "arrayOf v = (case v of JArr xs \<Rightarrow> xs | _ \<Rightarrow> [])"

definition decodeGrant :: "json \<Rightarrow> Grant" where
  "decodeGrant raw = \<lparr>gr_Selector = stringOf (field (membersOf raw) ''selector''),
     gr_Actions = map stringOf (arrayOf (field (membersOf raw) ''actions''))\<rparr>"

definition decodeEntry :: "json \<Rightarrow> EnablementEntry" where
  "decodeEntry raw = (let obj = membersOf raw in
     \<lparr>ee_RegistrationID = stringOf (field obj ''registration_id''), ee_RepositoryID = stringOf (field obj ''repository_id''),
      ee_Epoch = stringOf (field obj ''epoch''), ee_Enabled = (field obj ''enabled'' = JBool True),
      ee_Grants = Some (map decodeGrant (arrayOf (field obj ''grants'')))\<rparr>)"

fun loadEntries :: "string \<Rightarrow> EnablementEntry list \<Rightarrow> json list \<Rightarrow> EnablementEntry list result" where
  "loadEntries repositoryID loaded [] = Inr loaded"
| "loadEntries repositoryID loaded (raw # rest) = rbind (checkRawEntry raw) (\<lambda>_.
     let entry = decodeEntry raw in
     if \<not> validDigest (ee_RegistrationID entry) \<or> ee_RepositoryID entry \<noteq> repositoryID \<or> \<not> ext_validHex (ee_Epoch entry) 32
       \<or> ee_RegistrationID entry \<in> set (map ee_RegistrationID loaded)
     then failure ''invalid_input'' ''invalid, duplicate or foreign enablement identity''
     else rbind (ValidateGrants (ee_Grants entry)) (\<lambda>_. loadEntries repositoryID (loaded @ [entry]) rest))"

definition parseEnablements :: "string \<Rightarrow> string \<Rightarrow> Enablements result" where
  "parseEnablements repositoryID data = rbind (strictJSON data RegistryLimit) (\<lambda>value. case value of
       JObj object \<Rightarrow>
         if \<not> exactFields object [''protocol'', ''entries''] then failure ''invalid_input'' ''invalid enablement fields''
         else if field object ''protocol'' \<noteq> JStr ''hn.extension-enablement/1''
         then failure ''invalid_input'' ''invalid enablement protocol''
         else (case field object ''entries'' of
             JArr entries \<Rightarrow>
               if RegistrationLimit < length entries then failure ''resource_limit'' ''too many enablement entries''
               else rbind (loadEntries repositoryID [] entries) (\<lambda>es.
                 Inr \<lparr>en_Protocol = ''hn.extension-enablement/1'', en_Entries = es\<rparr>)
           | _ \<Rightarrow> failure ''invalid_input'' ''entries must be an array'')
     | _ \<Rightarrow> failure ''invalid_input'' ''invalid enablement fields'')"

definition LoadEnablements :: "fileOps \<Rightarrow> string \<Rightarrow> string option \<Rightarrow> Enablements result" where
  "LoadEnablements ops repositoryID file = rbind (fo_Directory ops False) (\<lambda>_. case file of
       None \<Rightarrow> Inr \<lparr>en_Protocol = ''hn.extension-enablement/1'', en_Entries = []\<rparr>
     | Some content \<Rightarrow> rbind (fo_Open ops) (\<lambda>_. parseEnablements repositoryID (take (RegistryLimit + 1) content)))"

definition Entry :: "fileOps \<Rightarrow> string \<Rightarrow> Registration \<Rightarrow> string option \<Rightarrow> EnablementEntry option result" where
  "Entry ops repositoryID registration file = rbind (LoadEnablements ops repositoryID file) (\<lambda>state.
     Inr (find (\<lambda>e. ee_RegistrationID e = rg_RegistrationID registration) (en_Entries state)))"

definition grantJSON :: "Grant \<Rightarrow> json" where
  "grantJSON g = JObj [(''selector'', JStr (gr_Selector g)), (''actions'', JArr (map JStr (gr_Actions g)))]"

definition entryJSON :: "EnablementEntry \<Rightarrow> json" where
  "entryJSON e = JObj [(''registration_id'', JStr (ee_RegistrationID e)), (''repository_id'', JStr (ee_RepositoryID e)),
     (''epoch'', JStr (ee_Epoch e)), (''enabled'', JBool (ee_Enabled e)), (''grants'', jsonSlice grantJSON (ee_Grants e))]"

definition enablementsJSON :: "Enablements \<Rightarrow> json" where
  "enablementsJSON en = JObj [(''protocol'', JStr (en_Protocol en)), (''entries'', JArr (map entryJSON (en_Entries en)))]"

text \<open>The loop that replaces the entry of the same registration; \<^const>\<open>None\<close> when there is none.\<close>

fun replaceEntry :: "EnablementEntry \<Rightarrow> EnablementEntry list \<Rightarrow> EnablementEntry list option" where
  "replaceEntry entry [] = None"
| "replaceEntry entry (old # rest) =
     (if ee_RegistrationID old = ee_RegistrationID entry then Some (entry # rest)
      else map_option (Cons old) (replaceEntry entry rest))"

text \<open>The checks of \<open>setWithRandom\<close> before it touches the file, and the new entry.\<close>

definition prepareEntry :: "host \<Rightarrow> fileSystem \<Rightarrow> string \<Rightarrow> Registration \<Rightarrow> bool \<Rightarrow> Grant slice \<Rightarrow> string option \<Rightarrow> EnablementEntry result" where
  "prepareEntry h fs repositoryID registration enabled grants entropy =
     rbind (validateStored h registration) (\<lambda>_. rbind (ValidateGrants grants) (\<lambda>_.
     (case entropy of
        None \<Rightarrow> failure ''repository_error'' ''cannot obtain enablement randomness''
      | Some random \<Rightarrow>
          let entry = \<lparr>ee_RegistrationID = rg_RegistrationID registration, ee_RepositoryID = repositoryID,
                ee_Epoch = hexEncodeToString random, ee_Enabled = enabled, ee_Grants = grants\<rparr> in
          if \<not> enabled then Inr entry
          else rbind (ValidateRegistrationGrants h registration entry) (\<lambda>_.
            rbind (Availability h fs registration) (\<lambda>(status, _).
              if status = ''incompatible'' then failure ''incompatible_version'' ''unsupported host protocol''
              else if status \<noteq> ''registered'' then failure ''unavailable_module'' ''registered executable is missing or changed''
              else Inr entry)))))"

definition storeEntry :: "fileOps \<Rightarrow> EnablementEntry \<Rightarrow> Enablements \<Rightarrow> (EnablementEntry \<times> string option) result" where
  "storeEntry ops entry state =
     rbind (case replaceEntry entry (en_Entries state) of
         Some es \<Rightarrow> Inr es
       | None \<Rightarrow> if RegistrationLimit \<le> length (en_Entries state) then failure ''resource_limit'' ''too many enablement entries''
           else Inr (en_Entries state @ [entry])) (\<lambda>es.
     let data = canonical (enablementsJSON (state\<lparr>en_Entries := sort_key ee_RegistrationID es\<rparr>)) in
     if RegistryLimit < length data then failure ''resource_limit'' ''enablement exceeds byte limit''
     else rbind (fo_Persist ops) (\<lambda>_. Inr (entry, Some data)))"

definition setWithRandom :: "host \<Rightarrow> fileSystem \<Rightarrow> fileOps \<Rightarrow> string \<Rightarrow> Registration \<Rightarrow> bool \<Rightarrow> Grant slice \<Rightarrow> string option \<Rightarrow> string option \<Rightarrow> (EnablementEntry \<times> string option) result" where
  "setWithRandom h fs ops repositoryID registration enabled grants entropy file =
     rbind (prepareEntry h fs repositoryID registration enabled grants entropy) (\<lambda>entry.
     rbind (LoadEnablements ops repositoryID file) (\<lambda>_. rbind (fo_Directory ops True) (\<lambda>_. rbind (fo_Lock ops) (\<lambda>_.
     rbind (LoadEnablements ops repositoryID file) (storeEntry ops entry)))))"

end
