(* ===== verification/HN_Extension_Files.thy ===== *)
theory HN_Extension_Files
  imports HN_Extension
begin

text \<open>
  The private files of the extension host: canonical JSON texts are read back, so the registry and the
  enablement file always load after a successful change, with exactly the change.  The two files are
  interpretations of one interface, \<open>private_file\<close>.
\<close>

section \<open>Canonical texts\<close>

lemma rune_valid: "(r, bs) \<in> set (runes s) \<Longrightarrow> \<not> (r = runeError \<and> length bs = 1) \<Longrightarrow> validUtf8 bs"
proof (induction s rule: runes.induct)
  case (1 s)
  show ?case
  proof (cases "s = []")
    case True
    with 1 show ?thesis by (simp add: runes.simps)
  next
    case False
    obtain r' w where dec: "decodeRune s = (r', w)" by fastforce
    have w: "0 < w" "w \<le> length s" using decodeRune_width [OF False] dec by simp_all
    from 1(2) runes_Cons [OF False dec] consider "r = r'" "bs = take w s" | "(r, bs) \<in> set (runes (drop w s))" by auto
    then show ?thesis
    proof cases
      case 1
      then have ok: "\<not> (r' = runeError \<and> w = 1)" using \<open>\<not> (r = runeError \<and> length bs = 1)\<close> w by (auto simp: min_def split: if_split_asm)
      have "decodeRune (take w s) = (r', w)" using decodeRune_append [OF dec False ok, of "[]"] by simp
      then show ?thesis using 1 w False ok runes_Cons [of "take w s" r' w]
        by (auto simp: validUtf8_def runes.simps [of "[]"] min_def)
    next
      case 2
      then show ?thesis using 1(1) [OF False dec [symmetric] refl] \<open>\<not> (r = runeError \<and> length bs = 1)\<close> by blast
    qed
  qed
qed

lemma scalarText_valid [simp]: "validUtf8 (scalarText s)"
  unfolding scalarText_def
  by (rule validUtf8_concat) (auto simp: validUtf8_encodeRune dest: rune_valid split: if_split_asm)

lemma scalarText_id: "validUtf8 s \<Longrightarrow> scalarText s = s"
proof -
  assume s: "validUtf8 s"
  then have same: "map (\<lambda>(r, bs). if r = runeError \<and> length bs = 1 then encodeRune runeError else bs) (runes s) = map snd (runes s)"
    by (auto simp: validUtf8_def list_all_iff)
  show ?thesis unfolding scalarText_def same by (rule concat_runes)
qed

lemma textual_canonicalValue: "textual (canonicalValue v)"
proof (induction v)
  case (JObj ms)
  then have "textual (canonicalValue (snd m))" if "m \<in> set ms" for m
    using that by (cases m) auto
  then show ?case by (simp add: list_all_iff)
qed (simp_all add: list_all_iff)

lemma canonicalValue_idem: "canonicalValue (canonicalValue v) = canonicalValue v"
proof (induction v)
  case (JArr xs)
  then show ?case by simp
next
  case (JObj ms)
  let ?g = "\<lambda>m. (scalarText (fst m), canonicalValue (snd m))"
  have "canonicalValue (canonicalValue (snd m)) = canonicalValue (snd m)" if "m \<in> set ms" for m
    using JObj that by (cases m) auto
  then have "map ?g (sort_key fst (map ?g ms)) = sort_key fst (map ?g ms)"
    by (intro map_idI) (auto simp: scalarText_id)
  then show ?case by (simp add: sort_key_id_if_sorted)
qed (simp_all add: scalarText_id)

text \<open>Objects with plain names: their canonical form has the same members, sorted.\<close>

definition plainNames :: "(string \<times> json) list \<Rightarrow> bool" where
  "plainNames ms \<longleftrightarrow> distinct (map fst ms) \<and> list_all (\<lambda>m. validUtf8 (fst m)) ms"

lemma plainNames_literal: "distinct (map fst ms) \<Longrightarrow> list_all (\<lambda>m. list_all (\<lambda>c. \<not> digit7 c) (fst m)) ms \<Longrightarrow> plainNames ms"
  by (auto simp: plainNames_def list_all_iff intro: validUtf8_ascii)

lemma canonical_object: "plainNames ms \<Longrightarrow>
    canonicalValue (JObj ms) = JObj (sort_key fst (map (\<lambda>m. (fst m, canonicalValue (snd m))) ms))"
  by (auto simp: plainNames_def list_all_iff scalarText_id cong: map_cong)

lemma map_of_sort_key: "distinct (map fst ms) \<Longrightarrow> map_of (sort_key fst ms) = map_of ms"
  by (rule map_of_inject_set [THEN iffD2]) (simp_all add: distinct_map inj_on_def)

lemma distinct_sort_key: "distinct (map f (sort_key g xs)) = distinct (map f xs)"
  by (metis mset_eq_imp_distinct_iff mset_map mset_sort)

lemma field_canonical: "plainNames ms \<Longrightarrow> field (membersOf (canonicalValue (JObj ms))) n = canonicalValue (field ms n)"
proof -
  assume p: "plainNames ms"
  let ?ms = "map (\<lambda>m. (fst m, canonicalValue (snd m))) ms"
  have "map_of ?ms n = map_option canonicalValue (map_of ms n)"
    by (induction ms) auto
  moreover have "distinct (map fst ?ms)" using p by (simp add: plainNames_def comp_def)
  ultimately have "map_of (sort_key fst ?ms) n = map_option canonicalValue (map_of ms n)" by (simp add: map_of_sort_key)
  then show ?thesis
    unfolding canonical_object [OF p] by (cases "map_of ms n") (simp_all add: field_def membersOf_def)
qed

lemma exactFields_canonical: "plainNames ms \<Longrightarrow> exactFields (membersOf (canonicalValue (JObj ms))) ns = exactFields ms ns"
  by (simp add: canonical_object exactFields_def membersOf_def image_image del: canonicalValue.simps)

lemma withinLimits_canonical: "plainNames ms \<Longrightarrow> withinLimits d (canonicalValue (JObj ms)) \<longleftrightarrow>
    d \<le> 32 \<and> list_all (\<lambda>m. withinLimits (Suc d) (canonicalValue (snd m))) ms"
proof -
  assume p: "plainNames ms"
  have "distinct (map fst (sort_key fst (map (\<lambda>m. (fst m, canonicalValue (snd m))) ms)))"
    using p by (simp add: distinct_sort_key plainNames_def comp_def)
  then show ?thesis using canonical_object [OF p] by (auto simp: list_all_iff simp del: canonicalValue.simps)
qed

lemma canonicalValue_obj: "\<exists>ms'. canonicalValue (JObj ms) = JObj ms'"
  by simp

lemma canonical_read:
  assumes "length (canonical v) \<le> limit" and "withinLimits 0 (canonicalValue v)"
  shows "strictJSON (canonical v) limit = Inr (canonicalValue v)"
  using assms marshal_read [OF textual_canonicalValue [of v], of limit] by (simp add: canonical_def)

text \<open>An upper bound of the length of a canonical text that does not depend on the order of members.\<close>

fun weight :: "json \<Rightarrow> nat" where
  "weight JNull = 4"
| "weight (JBool b) = 5"
| "weight (JInt i) = length (encodeInt i)"
| "weight (JStr s) = 6 * length s + 2"
| "weight (JArr xs) = 2 + sum_list (map (\<lambda>x. Suc (weight x)) xs)"
| "weight (JObj ms) = 2 + sum_list (map (\<lambda>m. 6 * length (fst m) + 4 + weight (snd m)) ms)"

lemma length_escapeRune: "bs \<noteq> [] \<Longrightarrow> length (escapeRune (r, bs)) \<le> 6 * length bs"
  by (cases bs) (simp_all add: escapeRune_def uEscape_def hex4_def)

lemma length_encodeString: "length (encodeString s) \<le> 6 * length s + 2"
proof -
  have "length (concat (map escapeRune rs)) \<le> 6 * length (concat (map snd rs))" if "\<forall>(r, bs) \<in> set rs. bs \<noteq> []" for rs
    using that
  proof (induction rs)
    case (Cons p rs)
    then show ?case using length_escapeRune [of "snd p" "fst p"] by (cases p) auto
  qed simp
  from this [of "runes s"] show ?thesis using runes_bytes [of _ _ s] by (auto simp: encodeString_def concat_runes)
qed

lemma length_commaSep: "length (commaSep xs) \<le> sum_list (map (\<lambda>x. Suc (length x)) xs)"
  by (cases xs) (simp_all add: commaSep_def length_concat comp_def)

lemma length_marshal: "length (marshal v) \<le> weight v"
proof (induction v)
  case (JStr s)
  then show ?case using length_encodeString by simp
next
  case (JArr xs)
  then have "sum_list (map (\<lambda>x. Suc (length (marshal x))) xs) \<le> sum_list (map (\<lambda>x. Suc (weight x)) xs)"
    by (intro sum_list_mono) auto
  then show ?case using length_commaSep [of "map marshal xs"] by (simp add: comp_def)
next
  case (JObj ms)
  have "Suc (length (encodeString (fst m) @ CHR '':'' # marshal (snd m))) \<le> 6 * length (fst m) + 4 + weight (snd m)"
    if "m \<in> set ms" for m
    using JObj [of m "snd m"] that length_encodeString [of "fst m"] by (cases m) auto
  then have "sum_list (map (\<lambda>m. Suc (length (encodeString (fst m) @ CHR '':'' # marshal (snd m)))) ms)
      \<le> sum_list (map (\<lambda>m. 6 * length (fst m) + 4 + weight (snd m)) ms)"
    by (intro sum_list_mono) auto
  then show ?case using length_commaSep [of "map (\<lambda>m. encodeString (fst m) @ CHR '':'' # marshal (snd m)) ms"]
    by (simp add: comp_def)
qed simp_all

lemma sum_list_sort_key: "sum_list (map f (sort_key g xs)) = sum_list (map f xs)" for f :: "'a \<Rightarrow> nat"
  by (metis mset_map mset_sort sum_mset_sum_list)

lemma weight_canonicalValue: "textual v \<Longrightarrow> weight (canonicalValue v) = weight v"
proof (induction v)
  case (JArr xs)
  then have "map (\<lambda>x. Suc (weight (canonicalValue x))) xs = map (\<lambda>x. Suc (weight x)) xs" by (auto simp: list_all_iff)
  then show ?case unfolding canonicalValue.simps weight.simps map_map comp_def by (simp only:)
next
  case (JObj ms)
  have "weight (canonicalValue (snd m)) = weight (snd m) \<and> scalarText (fst m) = fst m" if "m \<in> set ms" for m
    using JObj(1) [OF that, of "snd m"] JObj(2) that by (cases m) (auto simp: list_all_iff scalarText_id)
  then have "map (\<lambda>m. 6 * length (scalarText (fst m)) + 4 + weight (canonicalValue (snd m))) ms =
      map (\<lambda>m. 6 * length (fst m) + 4 + weight (snd m)) ms" by auto
  then show ?case unfolding canonicalValue.simps weight.simps sum_list_sort_key map_map comp_def fst_conv snd_conv by (simp only:)
qed (simp_all add: scalarText_id)

lemma length_canonical: "textual v \<Longrightarrow> length (canonical v) \<le> weight v"
  using length_marshal [of "canonicalValue v"] weight_canonicalValue [of v] by (simp add: canonical_def)

section \<open>Manifests\<close>

lemma checkCapabilities_ok: "checkCapabilities seen ms = Inr () \<longleftrightarrow> distinct ms \<and> set ms \<inter> set seen = {} \<and> list_all validMethod ms"
  by (induction seen ms rule: checkCapabilities.induct) auto

lemma validateStructure_ok: "validateStructure m = Inr () \<longleftrightarrow>
    mf_Protocol m = ''hn.extension-manifest/1'' \<and> ValidModuleID (mf_ModuleID m) \<and>
    1 \<le> length (mf_ModuleVersion m) \<and> length (mf_ModuleVersion m) \<le> 64 \<and> printable (mf_ModuleVersion m) \<and>
    1 \<le> length (mf_HostProtocol m) \<and> length (mf_HostProtocol m) \<le> 64 \<and> printable (mf_HostProtocol m) \<and>
    (\<exists>cs. mf_Capabilities m = Some cs \<and> distinct cs \<and> list_all validMethod cs)"
  by (cases "mf_Capabilities m") (simp_all add: validateStructure_def checkCapabilities_ok not_less Suc_le_eq)

lemma printable_valid: "printable s \<Longrightarrow> validUtf8 s"
  by (rule validUtf8_ascii) (auto simp: printable_def list_all_iff simp flip: byte_ascii)

lemma modulePart_ascii: "modulePart s \<Longrightarrow> list_all (\<lambda>c. \<not> digit7 c) s \<and> length s \<le> 64 \<and> CHR ''*'' \<notin> set s"
  by (auto simp: modulePart_def lowerByte_def decimalDigit_def byte_def list_all_iff simp flip: byte_ascii split: list.splits)

lemma ValidModuleID_parts:
  assumes "ValidModuleID i"
  obtains a b where "i = a @ CHR ''/'' # b" "modulePart a" "modulePart b" "CHR ''/'' \<notin> set a" "CHR ''/'' \<notin> set b"
    "a \<noteq> ''hn''" "a \<noteq> ''hubnot''"
proof -
  obtain a b where sp: "splitOn CHR ''/'' i = [a, b]" and parts: "modulePart a" "modulePart b"
    using assms by (auto simp: ValidModuleID_def split: list.splits)
  have i: "i = a @ CHR ''/'' # b" using joinSlash_splitOn [of i] sp by simp
  moreover have "CHR ''/'' \<notin> set a" "CHR ''/'' \<notin> set b" using splitOn_no_sep [of a "CHR ''/''" i] splitOn_no_sep [of b "CHR ''/''" i] sp by simp_all
  moreover have "a \<noteq> ''hn''" "a \<noteq> ''hubnot''" using assms i by (auto simp: ValidModuleID_def hasPrefix_def)
  ultimately show ?thesis using parts that by blast
qed

lemma ValidModuleID_text: "ValidModuleID i \<Longrightarrow> validUtf8 i \<and> length i \<le> 129"
proof -
  assume "ValidModuleID i"
  then obtain a b where "i = a @ CHR ''/'' # b" "modulePart a" "modulePart b" by (rule ValidModuleID_parts)
  then show ?thesis using modulePart_ascii [of a] modulePart_ascii [of b] by (auto intro!: validUtf8_ascii)
qed

lemma methodVocabulary_text: "m \<in> set methodVocabulary \<Longrightarrow> list_all (\<lambda>c. \<not> digit7 c) m \<and> length m \<le> 21"
  by (auto simp: methodVocabulary_def)

lemma validMethod_text: "validMethod m \<Longrightarrow> validUtf8 m \<and> length m \<le> 21"
  using methodVocabulary_text [of m] by (auto simp: validMethod_def intro: validUtf8_ascii)

lemma manifest_plain: "plainNames [(''protocol'', a), (''module_id'', b), (''module_version'', c), (''host_protocol'', d), (''capabilities'', e)]"
  by (rule plainNames_literal) simp_all

lemma canonical_strings: "list_all validUtf8 xs \<Longrightarrow> canonicalValue (jsonSlice JStr (Some xs)) = JArr (map JStr xs)"
  by (auto simp: jsonSlice_def list_all_iff scalarText_id)

lemma decodeStrings_JStr: "decodeStrings (JArr (map JStr xs)) = Some (Some xs)"
proof -
  have "those (map (\<lambda>x. Some x) xs) = Some xs" for xs :: "string list" by (induction xs) simp_all
  then show ?thesis by (simp add: decodeStrings_def decodeString_def comp_def)
qed

lemma field_simps: "field ((n, v) # ms) k = (if n = k then v else field ms k)" "field [] k = JNull"
  by (simp_all add: field_def)

lemma manifest_text:
  assumes "validateStructure m = Inr ()"
  obtains cs where "mf_Capabilities m = Some cs" "list_all validUtf8 cs" "textual (manifestJSON m)" "weight (manifestJSON m) \<le> 131072"
    "validUtf8 (mf_Protocol m)" "validUtf8 (mf_ModuleID m)" "validUtf8 (mf_ModuleVersion m)" "validUtf8 (mf_HostProtocol m)"
proof -
  obtain cs where cs: "mf_Capabilities m = Some cs" "distinct cs" "list_all validMethod cs"
    using assms by (auto simp: validateStructure_ok)
  have text_ok: "validUtf8 (mf_ModuleID m)" "length (mf_ModuleID m) \<le> 129"
    "validUtf8 (mf_ModuleVersion m)" "validUtf8 (mf_HostProtocol m)"
    "length (mf_ModuleVersion m) \<le> 64" "length (mf_HostProtocol m) \<le> 64"
    and proto: "mf_Protocol m = ''hn.extension-manifest/1''"
    using assms ValidModuleID_text printable_valid by (auto simp: validateStructure_ok)
  have p: "validUtf8 (mf_Protocol m)" unfolding proto by (rule validUtf8_ascii) simp
  have caps: "list_all validUtf8 cs" using cs(3) validMethod_text by (auto simp: list_all_iff)
  have "length cs \<le> 14"
  proof -
    have "set cs \<subseteq> set methodVocabulary" using cs(3) by (auto simp: list_all_iff validMethod_def)
    then have "card (set cs) \<le> card (set methodVocabulary)" by (simp add: card_mono)
    also have "\<dots> \<le> length methodVocabulary" by (rule card_length)
    also have "\<dots> = 14" by (simp add: methodVocabulary_def)
    finally show ?thesis by (simp add: distinct_card [OF cs(2)])
  qed
  moreover have "(\<Sum>x\<leftarrow>cs. Suc (weight (JStr x))) \<le> (\<Sum>x\<leftarrow>cs. 200)"
    using cs(3) validMethod_text by (intro sum_list_mono) (fastforce simp: list_all_iff)
  ultimately have w: "(\<Sum>x\<leftarrow>cs. Suc (weight (JStr x))) \<le> 2800" by (simp add: sum_list_triv)
  then have "weight (manifestJSON m) \<le> 131072" using text_ok cs proto by (simp add: manifestJSON_def jsonSlice_def comp_def)
  moreover have "textual (manifestJSON m)"
    using text_ok p caps cs by (simp add: manifestJSON_def jsonSlice_def list_all_iff validUtf8_ascii)
  ultimately show ?thesis using that cs(1) caps text_ok p by blast
qed

lemma withinLimits_scalar: "d \<le> 32 \<Longrightarrow> withinLimits d (JStr s)" "d \<le> 32 \<Longrightarrow> withinLimits d (JBool b)"
  by simp_all

lemma manifest_limits: "d \<le> 30 \<Longrightarrow> withinLimits d (canonicalValue (manifestJSON m))"
  unfolding manifestJSON_def withinLimits_canonical [OF manifest_plain]
  by (cases "mf_Capabilities m") (simp_all add: jsonSlice_def list_all_iff)

lemma decodeManifest_canonical:
  assumes "validateStructure m = Inr ()"
  shows "decodeManifest (membersOf (canonicalValue (manifestJSON m))) = Some m"
proof -
  from assms obtain cs where cs: "mf_Capabilities m = Some cs" "list_all validUtf8 cs"
    and v: "validUtf8 (mf_Protocol m)" "validUtf8 (mf_ModuleID m)" "validUtf8 (mf_ModuleVersion m)" "validUtf8 (mf_HostProtocol m)"
    by (rule manifest_text)
  show ?thesis
    using v canonical_strings [OF cs(2)] decodeStrings_JStr [of cs]
    by (simp add: decodeManifest_def manifestJSON_def field_canonical [OF manifest_plain] field_simps decodeString_def scalarText_id cs(1)
        del: canonicalValue.simps(3))
qed

lemma parse_canonical:
  assumes "validateStructure m = Inr ()" and "canonicalValue v = canonicalValue (manifestJSON m)"
  shows "parseManifest (canonical v) c = (if c \<and> mf_HostProtocol m \<noteq> ''hn.extension/1''
    then failure ''incompatible_version'' ''unsupported host protocol'' else Inr m)"
proof -
  let ?j = "manifestJSON m"
  have "textual ?j" "weight ?j \<le> 131072" using manifest_text [OF assms(1)] by blast+
  then have "length (canonical v) \<le> 131072" using length_canonical [of ?j] assms(2) by (simp add: canonical_def)
  then have read: "strictJSON (canonical v) 131072 = Inr (canonicalValue ?j)"
    using canonical_read [of v 131072] manifest_limits [of 0 m] assms(2) by simp
  obtain ms where ms: "canonicalValue ?j = JObj ms" unfolding manifestJSON_def by simp
  then have mem: "ms = membersOf (canonicalValue ?j)" by (simp add: membersOf_def)
  have "exactFields ms [''protocol'', ''module_id'', ''module_version'', ''host_protocol'', ''capabilities'']"
    unfolding mem manifestJSON_def exactFields_canonical [OF manifest_plain] by (simp add: exactFields_def)
  moreover have "decodeManifest ms = Some m" unfolding mem using decodeManifest_canonical [OF assms(1)] .
  ultimately show ?thesis using read ms assms(1) by (simp add: parseManifest_def)
qed

section \<open>The registry reads back what it writes\<close>

lemma hexDigit_ascii: "n < 16 \<Longrightarrow> \<not> digit7 (hexDigit n) \<and> (let b = byte (hexDigit n) in (48 \<le> b \<and> b \<le> 57) \<or> (97 \<le> b \<and> b \<le> 102))"
  by (auto simp: hexDigit_def byte_def simp flip: byte_ascii)

lemma nibbles: "byte c div 16 < 16" "byte c mod 16 < 16"
  using byte_less [of c] by (auto simp: div_less_iff_less_mult)

lemma hexEncode_ascii: "list_all (\<lambda>c. \<not> digit7 c) (hexEncodeToString s)"
  using hexDigit_ascii nibbles by (induction s) (auto simp: hexEncodeToString_def)

lemma hexEncode_validHex: "ext_validHex (hexEncodeToString s) (2 * length s)"
proof -
  have "list_all (\<lambda>b. (48 \<le> byte b \<and> byte b \<le> 57) \<or> (97 \<le> byte b \<and> byte b \<le> 102)) (hexEncodeToString s)"
    using hexDigit_ascii nibbles by (induction s) (auto simp: hexEncodeToString_def Let_def)
  then show ?thesis by (simp add: ext_validHex_def)
qed

lemma validHex_text: "ext_validHex s n \<Longrightarrow> validUtf8 s"
  by (rule validUtf8_ascii) (auto simp: ext_validHex_def list_all_iff simp flip: byte_ascii)

lemma validDigest_text: "validDigest i \<Longrightarrow> validUtf8 i"
proof -
  assume i: "validDigest i"
  then obtain t where t: "i = ''sha256:'' @ t" by (auto simp: validDigest_def hasPrefix_iff)
  then have "validUtf8 t" using i validHex_text by (auto simp: validDigest_def)
  then show ?thesis unfolding t by (intro validUtf8_append [OF validUtf8_ascii]) simp_all
qed

lemma digest_text: "validUtf8 (digest h s)"
  unfolding digest_def by (intro validUtf8_append validUtf8_ascii) (simp_all add: hexEncode_ascii)

lemma validArgv_ok: "validArgv a = Inr () \<Longrightarrow> \<exists>args. a = Some args \<and> list_all validUtf8 args"
  by (auto simp: validArgv_def rbind_unit_ok forEach_ok_iff validArg_def list_all_iff split: option.splits if_split_asm)

lemma validateDescriptor_ok:
  assumes "validateDescriptor h r = Inr ()"
  obtains args where "validateStructure (rg_Manifest r) = Inr ()" "rg_Argv r = Some args" "list_all validUtf8 args"
    "isAbs (rg_Executable r)" "validUtf8 (rg_ExecutableDigest r)" "rg_ManifestDigest r = ManifestDigest h (rg_Manifest r)"
    "validUtf8 (rg_ManifestDigest r)"
proof -
  have "validateStructure (rg_Manifest r) = Inr ()" "validArgv (rg_Argv r) = Inr ()" "isAbs (rg_Executable r)"
    "validDigest (rg_ExecutableDigest r)" "rg_ManifestDigest r = ManifestDigest h (rg_Manifest r)"
    using assms by (auto simp: validateDescriptor_def rbind_unit_ok split: if_split_asm)
  then show ?thesis
    using validArgv_ok that validDigest_text digest_text by (metis ManifestDigest_def)
qed

lemma validateStored_ok: "validateStored h r = Inr () \<longleftrightarrow>
    validateDescriptor h r = Inr () \<and> ext_validHex (rg_RegistrationInstance r) 32 \<and> rg_RegistrationID r = identity h r"
  by (auto simp: validateStored_def rbind_unit_ok split: if_split_asm)

lemma registration_plain: "plainNames [(''registration_id'', a), (''registration_instance'', b), (''manifest'', c), (''manifest_digest'', d),
    (''executable'', e), (''executable_digest'', f), (''argv'', g)]"
  by (rule plainNames_literal) simp_all

definition storable :: "host \<Rightarrow> Registration \<Rightarrow> bool" where
  "storable h r \<longleftrightarrow> validateStored h r = Inr () \<and> validUtf8 (rg_Executable r)"

lemma storable_texts:
  assumes "storable h r"
  obtains args where "validateStructure (rg_Manifest r) = Inr ()" "rg_Argv r = Some args" "list_all validUtf8 args"
    "validUtf8 (rg_ExecutableDigest r)" "validUtf8 (rg_ManifestDigest r)" "validUtf8 (rg_Executable r)"
    "validUtf8 (rg_RegistrationInstance r)" "validUtf8 (rg_RegistrationID r)"
proof -
  have "validateDescriptor h r = Inr ()" "validUtf8 (rg_RegistrationInstance r)" "validUtf8 (rg_RegistrationID r)" "validUtf8 (rg_Executable r)"
    using assms validHex_text digest_text by (auto simp: storable_def validateStored_ok identity_def)
  then show ?thesis using validateDescriptor_ok that by metis
qed

lemma field_registration: "field (membersOf (canonicalValue (registrationJSON r))) n = canonicalValue (field (membersOf (registrationJSON r)) n)"
  unfolding registrationJSON_def field_canonical [OF registration_plain] by (simp add: membersOf_def)

lemma decodeRegistration_canonical:
  assumes "storable h r"
  shows "decodeRegistration (canonicalValue (registrationJSON r)) = Some r"
proof -
  from assms obtain args where m: "validateStructure (rg_Manifest r) = Inr ()" and a: "rg_Argv r = Some args" "list_all validUtf8 args"
    and v: "validUtf8 (rg_ExecutableDigest r)" "validUtf8 (rg_ManifestDigest r)" "validUtf8 (rg_Executable r)"
    "validUtf8 (rg_RegistrationInstance r)" "validUtf8 (rg_RegistrationID r)"
    by (rule storable_texts)
  obtain ms where ms: "canonicalValue (registrationJSON r) = JObj ms" unfolding registrationJSON_def by simp
  then have mem: "field ms n = canonicalValue (field (membersOf (registrationJSON r)) n)" for n
    using field_registration [of r n] by (simp add: membersOf_def)
  show ?thesis
    unfolding ms decodeRegistration_def json.case mem
    using v canonical_strings [OF a(2)] decodeStrings_JStr [of args] decodeManifest_canonical [OF m] a(1)
    by (simp add: registrationJSON_def membersOf_def [of "JObj _"] field_simps decodeString_def scalarText_id)
qed

lemma checkRawRegistration_canonical:
  assumes "storable h r"
  shows "checkRawRegistration (canonicalValue (registrationJSON r)) = Inr ()"
proof -
  from assms obtain args where m: "validateStructure (rg_Manifest r) = Inr ()" and a: "rg_Argv r = Some args" "list_all validUtf8 args"
    by (rule storable_texts)
  obtain ms where ms: "canonicalValue (registrationJSON r) = JObj ms" unfolding registrationJSON_def by simp
  then have mem: "field ms n = canonicalValue (field (membersOf (registrationJSON r)) n)" for n
    using field_registration [of r n] by (simp add: membersOf_def)
  have argv: "field ms ''argv'' = JArr (map JStr args)"
    unfolding mem using canonical_strings [OF a(2)] a(1) by (simp add: registrationJSON_def membersOf_def field_simps)
  have man: "field ms ''manifest'' = canonicalValue (manifestJSON (rg_Manifest r))"
    unfolding mem by (simp add: registrationJSON_def membersOf_def field_simps)
  have "exactFields (membersOf (canonicalValue (registrationJSON r))) [''registration_id'', ''registration_instance'', ''manifest'', ''manifest_digest'',
      ''executable'', ''executable_digest'', ''argv'']"
    unfolding registrationJSON_def exactFields_canonical [OF registration_plain] by (simp add: exactFields_def)
  then have "exactFields ms [''registration_id'', ''registration_instance'', ''manifest'', ''manifest_digest'',
      ''executable'', ''executable_digest'', ''argv'']" using ms by (simp add: membersOf_def)
  moreover have "parseManifest (canonical (field ms ''manifest'')) False = Inr (rg_Manifest r)"
    unfolding man using parse_canonical [OF m canonicalValue_idem, of False] by simp
  ultimately show ?thesis
    unfolding ms checkRawRegistration_def json.case argv by (simp add: list_all_iff isString_def)
qed

abbreviation moduleOf :: "Registration \<Rightarrow> string" where
  "moduleOf r \<equiv> mf_ModuleID (rg_Manifest r)"

lemma checkRegistrations_ok: "checkRegistrations h seen rs = Inr () \<longleftrightarrow>
    (\<forall>r \<in> set rs. validateStored h r = Inr ()) \<and> distinct (map moduleOf rs) \<and> moduleOf ` set rs \<inter> set seen = {}"
  by (induction rs arbitrary: seen) (auto simp: rbind_unit_ok)

text \<open>What every registry that loads satisfies.\<close>

definition registryOK :: "host \<Rightarrow> Registry \<Rightarrow> bool" where
  "registryOK h ry \<longleftrightarrow> ry_Protocol ry = ''hn.extension-registry/1'' \<and> (\<exists>rs. ry_Registrations ry = Some rs \<and>
     length rs \<le> 128 \<and> distinct (map moduleOf rs) \<and> (\<forall>r \<in> set rs. storable h r))"

lemma registryOK_empty: "registryOK h emptyRegistry"
  by (simp add: registryOK_def emptyRegistry_def)

lemma decodeString_text: "textual v \<Longrightarrow> decodeString v = Some s \<Longrightarrow> validUtf8 s"
  by (auto simp: decodeString_def split: json.splits)

lemma field_textual: "textual (JObj ms) \<Longrightarrow> textual (field ms n)"
  by (auto simp: field_def list_all_iff dest!: map_of_SomeD split: option.split)

lemma decodeRegistration_text: "textual v \<Longrightarrow> decodeRegistration v = Some r \<Longrightarrow> validUtf8 (rg_Executable r)"
proof -
  assume v: "textual v" and dec: "decodeRegistration v = Some r"
  then obtain ms where ms: "v = JObj ms" by (auto simp: decodeRegistration_def split: json.splits)
  have "decodeString (field ms ''executable'') = Some (rg_Executable r)"
    using dec unfolding ms decodeRegistration_def json.case by (auto split: option.splits prod.splits)
  then show ?thesis using decodeString_text field_textual v ms by blast
qed

lemma those_Some: "those xs = Some ys \<Longrightarrow> xs = map Some ys"
  by (induction xs arbitrary: ys) (auto split: option.splits)

lemma those_map: "(\<And>x. x \<in> set xs \<Longrightarrow> f x = Some (g x)) \<Longrightarrow> those (map f xs) = Some (map g xs)"
  by (induction xs) simp_all

lemma parseRegistry_ok:
  assumes "parseRegistry h data = Inr ry"
  shows "registryOK h ry"
proof -
  obtain val where val: "strictJSON data 1048576 = Inr val"
    using assms by (cases "strictJSON data 1048576") (simp_all add: parseRegistry_def)
  note body = assms [unfolded parseRegistry_def val rbind_simps]
  obtain object where ob: "val = JObj object" using body by (cases "val") simp_all
  then have read: "strictJSON data 1048576 = Inr (JObj object)" using val by simp
  obtain registrations where regs: "field object ''registrations'' = JArr registrations" "length registrations \<le> 128"
    using body unfolding ob by (cases "field object ''registrations''") (simp_all split: if_split_asm)
  note body' = body [unfolded ob json.case regs]
  obtain protocol rs where rs: "decodeString (field object ''protocol'') = Some protocol" "those (map decodeRegistration registrations) = Some rs"
    using body' by (auto simp: rbind_eq_Inr split: option.splits if_split_asm)
  have chk: "checkRegistrations h [] rs = Inr ()" "ry = \<lparr>ry_Protocol = ''hn.extension-registry/1'', ry_Registrations = Some rs\<rparr>"
    using body' by (auto simp: rs rbind_eq_Inr split: if_split_asm)
  have dec: "map decodeRegistration registrations = map Some rs" using those_Some [OF rs(2)] .
  have "textual (JArr registrations)" using strictJSON_text [OF read] field_textual regs(1) by metis
  then have "validUtf8 (rg_Executable r)" if "r \<in> set rs" for r
  proof -
    have "Some r \<in> set (map decodeRegistration registrations)" unfolding dec using that by simp
    then obtain v where "v \<in> set registrations" "decodeRegistration v = Some r" by auto
    then show ?thesis using \<open>textual (JArr registrations)\<close> decodeRegistration_text by (auto simp: list_all_iff)
  qed
  moreover have "length rs \<le> 128" using regs(2) dec by (metis length_map)
  ultimately show ?thesis using chk by (simp add: registryOK_def checkRegistrations_ok storable_def)
qed

lemma registry_plain: "plainNames [(''protocol'', a), (''registrations'', b)]"
  by (rule plainNames_literal) simp_all

lemma registration_limits: "d \<le> 29 \<Longrightarrow> withinLimits d (canonicalValue (registrationJSON r))"
  unfolding registrationJSON_def withinLimits_canonical [OF registration_plain]
  using manifest_limits [of "Suc d" "rg_Manifest r"] by (cases "rg_Argv r") (simp_all add: jsonSlice_def list_all_iff)

lemma registry_read:
  assumes ok: "registryOK h ry" and len: "length (canonical (registryJSON ry)) \<le> 1048576"
  shows "parseRegistry h (canonical (registryJSON ry)) = Inr ry"
proof -
  from ok obtain rs where proto: "ry_Protocol ry = ''hn.extension-registry/1''" and rs: "ry_Registrations ry = Some rs"
    and n: "length rs \<le> 128" and dis: "distinct (map moduleOf rs)" and st: "\<And>r. r \<in> set rs \<Longrightarrow> storable h r"
    by (auto simp: registryOK_def)
  let ?regs = "map (canonicalValue \<circ> registrationJSON) rs"
  have "withinLimits 0 (canonicalValue (registryJSON ry))"
    unfolding registryJSON_def withinLimits_canonical [OF registry_plain]
    using registration_limits by (simp add: rs jsonSlice_def list_all_iff)
  then have read: "strictJSON (canonical (registryJSON ry)) 1048576 = Inr (canonicalValue (registryJSON ry))"
    using canonical_read len by blast
  obtain ms where ms: "canonicalValue (registryJSON ry) = JObj ms" unfolding registryJSON_def by simp
  then have mem: "membersOf (canonicalValue (registryJSON ry)) = ms" by (simp add: membersOf_def)
  have f: "field ms ''registrations'' = JArr ?regs" "field ms ''protocol'' = JStr ''hn.extension-registry/1''"
    "exactFields ms [''protocol'', ''registrations'']"
    unfolding mem [symmetric] registryJSON_def field_canonical [OF registry_plain] exactFields_canonical [OF registry_plain]
    by (simp_all add: field_simps exactFields_def rs jsonSlice_def proto scalarText_id validUtf8_ascii)
  have raw: "forEach checkRawRegistration ?regs = Inr ()"
    using checkRawRegistration_canonical st by (auto simp: forEach_ok_iff)
  have dec: "those (map decodeRegistration ?regs) = Some rs"
    using those_map [of rs "decodeRegistration \<circ> (canonicalValue \<circ> registrationJSON)" id] decodeRegistration_canonical [OF st] by simp
  have chk: "checkRegistrations h [] rs = Inr ()" using st dis by (auto simp: checkRegistrations_ok storable_def)
  show ?thesis
    using f raw dec chk n proto rs unfolding parseRegistry_def read ms
    by (simp add: decodeString_def del: map_map)
qed

section \<open>Selectors and grants\<close>

lemma nativeFamily_text: "validNativeFamily f \<Longrightarrow> list_all (\<lambda>c. \<not> digit7 c) f \<and> CHR ''*'' \<notin> set f"
  by (auto simp: validNativeFamily_def nativeFamilyVocabulary_def)

lemma grantAction_text: "validGrantAction a \<Longrightarrow> list_all (\<lambda>c. \<not> digit7 c) a"
  by (auto simp: validGrantAction_def grantActionVocabulary_def)

text \<open>A selector names a native family, the public identity, opaque artifacts, one artifact type or all types of a name space.\<close>

lemma validSelector_cases:
  assumes "validSelector s w"
  obtains (native) f where "s = ''native:'' @ f" "validNativeFamily f \<or> f = ''identity''"
  | (opaque) "s = ''artifact:opaque''"
  | (type) i where "s = ''artifact:'' @ i" "ValidModuleID i"
  | (namespace) a where "w" "s = ''artifact:'' @ a @ ''/*''" "modulePart a" "a \<noteq> ''hn''" "a \<noteq> ''hubnot''" "CHR ''/'' \<notin> set a"
proof (cases "hasPrefix s ''native:''")
  case True
  then obtain f where f: "s = ''native:'' @ f" by (auto simp: hasPrefix_iff)
  then have "drop 7 s = f" by simp
  then have "validNativeFamily f \<or> f = ''identity''" using assms by (simp only: validSelector_def True if_True Let_def)
  then show ?thesis using native f by blast
next
  case False
  then have "hasPrefix s ''artifact:''" using assms by (auto simp: validSelector_def split: if_split_asm)
  then obtain i where i: "s = ''artifact:'' @ i" by (auto simp: hasPrefix_iff)
  show ?thesis
  proof (cases "i = ''opaque''")
    case True
    then show ?thesis using i opaque by simp
  next
    case no: False
    have art: "hasPrefix (''artifact:'' @ i) ''artifact:''" "drop 9 (''artifact:'' @ i) = i" "\<not> hasPrefix (''artifact:'' @ i) ''native:''"
      by (simp_all add: hasPrefix_def)
    have v: "ValidModuleID (if w \<and> hasSuffix i ''/*'' then trimSuffix i ''/*'' @ ''/type'' else i)"
      using assms no unfolding validSelector_def i Let_def by (simp only: art if_True if_False simp_thms)
    show ?thesis
    proof (cases "w \<and> hasSuffix i ''/*''")
      case True
      then obtain t where t: "i = t @ ''/*''" by (auto simp: hasSuffix_iff)
      then have "trimSuffix i ''/*'' = t" by (simp add: trimSuffix_def hasSuffix_def)
      then have "ValidModuleID (t @ ''/type'')" using v True by simp
      then obtain a b where ab: "t @ ''/type'' = a @ CHR ''/'' # b" "modulePart a" "CHR ''/'' \<notin> set a" "CHR ''/'' \<notin> set b" "a \<noteq> ''hn''" "a \<noteq> ''hubnot''"
        by (rule ValidModuleID_parts)
      have "a = t"
      proof -
        have "takeWhile (\<lambda>c. c \<noteq> CHR ''/'') (rev b @ CHR ''/'' # rev a) = rev b" using ab(4) by (subst takeWhile_append2) auto
        moreover have "rev b @ CHR ''/'' # rev a = rev ''type'' @ CHR ''/'' # rev t" using arg_cong [OF ab(1), of rev] by simp
        moreover have "takeWhile (\<lambda>c. c \<noteq> CHR ''/'') (rev ''type'' @ CHR ''/'' # rev t) = rev ''type''" by (subst takeWhile_append2) auto
        ultimately have "rev b = rev ''type''" by simp
        then show ?thesis using \<open>rev b @ CHR ''/'' # rev a = rev ''type'' @ CHR ''/'' # rev t\<close> by simp
      qed
      then show ?thesis using namespace [of a] True i t ab by simp
    next
      case False
      show ?thesis by (rule type [OF i v [unfolded if_not_P [OF False]]])
    qed
  qed
qed

lemma validSelector_text:
  assumes "validSelector s w"
  shows "validUtf8 s"
  using assms
proof (cases rule: validSelector_cases)
  case (native f)
  then show ?thesis using nativeFamily_text by (auto intro!: validUtf8_ascii)
next
  case opaque
  then show ?thesis by (auto intro!: validUtf8_ascii)
next
  case (type i)
  then show ?thesis using ValidModuleID_text by (simp add: validUtf8_Cons_ascii)
next
  case (namespace a)
  then show ?thesis using modulePart_ascii by (auto intro!: validUtf8_ascii)
qed

lemma checkActions_ok: "checkActions sel seen as = Inr () \<longleftrightarrow> distinct as \<and> set as \<inter> set seen = {} \<and>
    (\<forall>a \<in> set as. validGrantAction a \<and> \<not> (sel = ''native:identity'' \<and> a \<noteq> ''read'')
       \<and> \<not> (sel = ''artifact:opaque'' \<and> a \<noteq> ''raw.inspect'')
       \<and> \<not> (hasPrefix sel ''native:'' \<and> (a = ''type.publish'' \<or> a = ''raw.inspect'')))"
  by (induction sel seen as rule: checkActions.induct) auto

lemma checkGrants_ok: "checkGrants seen gs = Inr () \<longleftrightarrow> distinct (map gr_Selector gs) \<and> gr_Selector ` set gs \<inter> set seen = {} \<and>
    (\<forall>g \<in> set gs. validSelector (gr_Selector g) True \<and> 1 \<le> length (gr_Actions g) \<and> length (gr_Actions g) \<le> 7
       \<and> checkActions (gr_Selector g) [] (gr_Actions g) = Inr ())"
  by (induction seen gs rule: checkGrants.induct) (auto simp: rbind_unit_ok not_less Suc_le_eq)

lemma ValidateGrants_ok: "ValidateGrants gs = Inr () \<longleftrightarrow> (\<exists>xs. gs = Some xs \<and> length xs \<le> 256 \<and> checkGrants [] xs = Inr ())"
  by (auto simp: ValidateGrants_def split: option.splits)

lemma grant_text:
  assumes "ValidateGrants (Some gs) = Inr ()" "g \<in> set gs"
  shows "validUtf8 (gr_Selector g)" "list_all validUtf8 (gr_Actions g)"
proof -
  have "validSelector (gr_Selector g) True" "checkActions (gr_Selector g) [] (gr_Actions g) = Inr ()"
    using assms by (auto simp: ValidateGrants_ok checkGrants_ok)
  then show "validUtf8 (gr_Selector g)" "list_all validUtf8 (gr_Actions g)"
    using validSelector_text grantAction_text by (auto simp: checkActions_ok list_all_iff [of validUtf8] intro: validUtf8_ascii)
qed

section \<open>The enablement file reads back what it writes\<close>

lemma grant_plain: "plainNames [(''selector'', a), (''actions'', b)]"
  by (rule plainNames_literal) simp_all

lemma entry_plain: "plainNames [(''registration_id'', a), (''repository_id'', b), (''epoch'', c), (''enabled'', d), (''grants'', e)]"
  by (rule plainNames_literal) simp_all

lemma enablements_plain: "plainNames [(''protocol'', a), (''entries'', b)]"
  by (rule plainNames_literal) simp_all

lemma grant_canonical:
  assumes "validUtf8 (gr_Selector g)" "list_all validUtf8 (gr_Actions g)"
  shows "decodeGrant (canonicalValue (grantJSON g)) = g" "checkRawGrant (canonicalValue (grantJSON g)) = Inr ()"
proof -
  obtain ms where ms: "canonicalValue (grantJSON g) = JObj ms" unfolding grantJSON_def by simp
  have mem: "membersOf (canonicalValue (grantJSON g)) = ms" by (simp add: ms membersOf_def)
  have acts: "map (canonicalValue \<circ> JStr) (gr_Actions g) = map JStr (gr_Actions g)"
    using assms(2) by (auto simp: list_all_iff scalarText_id)
  have f: "field ms ''selector'' = JStr (gr_Selector g)" "field ms ''actions'' = JArr (map JStr (gr_Actions g))"
    "exactFields ms [''selector'', ''actions'']"
    unfolding mem [symmetric] grantJSON_def field_canonical [OF grant_plain] exactFields_canonical [OF grant_plain]
    using assms(1) acts by (simp_all add: field_simps exactFields_def scalarText_id)
  have "map stringOf (map JStr (gr_Actions g)) = gr_Actions g" by (simp add: comp_def stringOf_def)
  then show "decodeGrant (canonicalValue (grantJSON g)) = g"
    unfolding decodeGrant_def mem f by (simp add: stringOf_def arrayOf_def del: map_map)
  show "checkRawGrant (canonicalValue (grantJSON g)) = Inr ()"
    unfolding ms checkRawGrant_def json.case f by (simp add: f isString_def list_all_iff)
qed

definition entryOK :: "string \<Rightarrow> EnablementEntry \<Rightarrow> bool" where
  "entryOK repositoryID e \<longleftrightarrow> validDigest (ee_RegistrationID e) \<and> ee_RepositoryID e = repositoryID \<and> ext_validHex (ee_Epoch e) 32
     \<and> ValidateGrants (ee_Grants e) = Inr ()"

lemma entry_canonical:
  assumes ok: "entryOK repositoryID e" and repo: "validUtf8 repositoryID"
  shows "decodeEntry (canonicalValue (entryJSON e)) = e" "checkRawEntry (canonicalValue (entryJSON e)) = Inr ()"
proof -
  obtain gs where gs: "ee_Grants e = Some gs" "length gs \<le> 256" using ok by (auto simp: entryOK_def ValidateGrants_ok)
  have tx: "validUtf8 (ee_RegistrationID e)" "validUtf8 (ee_RepositoryID e)" "validUtf8 (ee_Epoch e)"
    using ok repo validDigest_text validHex_text by (auto simp: entryOK_def)
  have g: "decodeGrant (canonicalValue (grantJSON g)) = g" "checkRawGrant (canonicalValue (grantJSON g)) = Inr ()" if "g \<in> set gs" for g
    using grant_canonical grant_text [of gs g] ok gs that by (simp_all add: entryOK_def)
  let ?gs = "map (canonicalValue \<circ> grantJSON) gs"
  obtain ms where ms: "canonicalValue (entryJSON e) = JObj ms" unfolding entryJSON_def by simp
  have mem: "membersOf (canonicalValue (entryJSON e)) = ms" by (simp add: ms membersOf_def)
  have f: "field ms ''registration_id'' = JStr (ee_RegistrationID e)" "field ms ''repository_id'' = JStr (ee_RepositoryID e)"
    "field ms ''epoch'' = JStr (ee_Epoch e)" "field ms ''enabled'' = JBool (ee_Enabled e)" "field ms ''grants'' = JArr ?gs"
    "exactFields ms [''registration_id'', ''repository_id'', ''epoch'', ''enabled'', ''grants'']"
    unfolding mem [symmetric] entryJSON_def field_canonical [OF entry_plain] exactFields_canonical [OF entry_plain]
    using tx by (simp_all add: field_simps exactFields_def scalarText_id gs jsonSlice_def)
  have "map decodeGrant ?gs = gs" using g(1) by (simp add: comp_def map_idI)
  then show "decodeEntry (canonicalValue (entryJSON e)) = e"
    unfolding decodeEntry_def Let_def mem f by (simp add: stringOf_def arrayOf_def gs(1) del: map_map)
  have "forEach checkRawGrant ?gs = Inr ()" using g(2) by (auto simp: forEach_ok_iff)
  then show "checkRawEntry (canonicalValue (entryJSON e)) = Inr ()"
    unfolding ms checkRawEntry_def json.case f using gs(2) by (simp add: f isString_def del: map_map)
qed

definition enablementsOK :: "string \<Rightarrow> Enablements \<Rightarrow> bool" where
  "enablementsOK repositoryID en \<longleftrightarrow> en_Protocol en = ''hn.extension-enablement/1'' \<and> length (en_Entries en) \<le> 128
     \<and> distinct (map ee_RegistrationID (en_Entries en)) \<and> (\<forall>e \<in> set (en_Entries en). entryOK repositoryID e)"

lemma loadEntries_canonical:
  assumes "validUtf8 repositoryID" and "\<And>e. e \<in> set es \<Longrightarrow> entryOK repositoryID e" and "distinct (map ee_RegistrationID (done' @ es))"
  shows "loadEntries repositoryID done' (map (canonicalValue \<circ> entryJSON) es) = Inr (done' @ es)"
  using assms(2,3)
proof (induction es arbitrary: done')
  case (Cons e es)
  have e: "entryOK repositoryID e" using Cons.prems by simp
  have "loadEntries repositoryID (done' @ [e]) (map (canonicalValue \<circ> entryJSON) es) = Inr ((done' @ [e]) @ es)"
    by (rule Cons.IH) (use Cons.prems in auto)
  then show ?case
    using entry_canonical [OF e assms(1)] e Cons.prems(2) by (auto simp: entryOK_def Let_def comp_def)
qed simp

lemma loadEntries_ok: "loadEntries repositoryID acc raws = Inr es \<Longrightarrow> distinct (map ee_RegistrationID acc) \<Longrightarrow> \<forall>e \<in> set acc. entryOK repositoryID e
    \<Longrightarrow> distinct (map ee_RegistrationID es) \<and> (\<forall>e \<in> set es. entryOK repositoryID e) \<and> length es = length acc + length raws"
proof (induction raws arbitrary: acc)
  case (Cons raw raws)
  define e where "e = decodeEntry raw"
  have e: "entryOK repositoryID e" "ee_RegistrationID e \<notin> set (map ee_RegistrationID acc)" "loadEntries repositoryID (acc @ [e]) raws = Inr es"
    using Cons.prems(1) by (auto simp: rbind_unit_ok Let_def entryOK_def simp flip: e_def split: if_split_asm)
  from Cons.IH [OF e(3)] show ?case using e Cons.prems by auto
qed simp

lemma parseEnablements_ok:
  assumes "parseEnablements repositoryID data = Inr en"
  shows "enablementsOK repositoryID en"
proof -
  obtain val where val: "strictJSON data 1048576 = Inr val"
    using assms by (cases "strictJSON data 1048576") (simp_all add: parseEnablements_def)
  note body = assms [unfolded parseEnablements_def val rbind_simps]
  obtain object where ob: "val = JObj object" using body by (cases "val") simp_all
  obtain raws where raws: "field object ''entries'' = JArr raws" "length raws \<le> 128"
    using body unfolding ob by (cases "field object ''entries''") (simp_all split: if_split_asm)
  obtain es where "loadEntries repositoryID [] raws = Inr es" "en = \<lparr>en_Protocol = ''hn.extension-enablement/1'', en_Entries = es\<rparr>"
    using body unfolding ob json.case raws by (auto simp: rbind_eq_Inr split: if_split_asm)
  then show ?thesis using loadEntries_ok [of repositoryID "[]" raws es] raws(2) by (simp add: enablementsOK_def)
qed

lemma grant_limits: "d \<le> 30 \<Longrightarrow> withinLimits d (canonicalValue (grantJSON g))"
  unfolding grantJSON_def withinLimits_canonical [OF grant_plain] by (simp add: list_all_iff)

lemma entry_limits: "d \<le> 28 \<Longrightarrow> withinLimits d (canonicalValue (entryJSON e))"
  unfolding entryJSON_def withinLimits_canonical [OF entry_plain]
  using grant_limits by (cases "ee_Grants e") (simp_all add: jsonSlice_def list_all_iff)

lemma enablements_read:
  assumes ok: "enablementsOK repositoryID en" and repo: "validUtf8 repositoryID"
    and len: "length (canonical (enablementsJSON en)) \<le> 1048576"
  shows "parseEnablements repositoryID (canonical (enablementsJSON en)) = Inr en"
proof -
  let ?es = "map (canonicalValue \<circ> entryJSON) (en_Entries en)"
  have "withinLimits 0 (canonicalValue (enablementsJSON en))"
    unfolding enablementsJSON_def withinLimits_canonical [OF enablements_plain]
    using entry_limits by (simp add: list_all_iff)
  then have read: "strictJSON (canonical (enablementsJSON en)) 1048576 = Inr (canonicalValue (enablementsJSON en))"
    using canonical_read len by blast
  obtain ms where ms: "canonicalValue (enablementsJSON en) = JObj ms" unfolding enablementsJSON_def by simp
  then have mem: "membersOf (canonicalValue (enablementsJSON en)) = ms" by (simp add: membersOf_def)
  have f: "field ms ''entries'' = JArr ?es" "field ms ''protocol'' = JStr ''hn.extension-enablement/1''"
    "exactFields ms [''protocol'', ''entries'']"
    unfolding mem [symmetric] enablementsJSON_def field_canonical [OF enablements_plain] exactFields_canonical [OF enablements_plain]
    using ok by (simp_all add: field_simps exactFields_def enablementsOK_def scalarText_id validUtf8_ascii)
  have load: "loadEntries repositoryID [] ?es = Inr (en_Entries en)"
    using loadEntries_canonical [OF repo, of "en_Entries en" "[]"] ok by (simp add: enablementsOK_def)
  show ?thesis
    using f load ok unfolding parseEnablements_def read ms by (simp add: enablementsOK_def del: map_map)
qed

section \<open>Private files\<close>

text \<open>
  The interface of the two private files: a text per state, a parser that returns only states that are
  in order and that reads back every such state, and a state for the absent file.
\<close>

definition loadPrivate :: "(string \<Rightarrow> 's result) \<Rightarrow> 's \<Rightarrow> fileOps \<Rightarrow> string option \<Rightarrow> 's result" where
  "loadPrivate parse absent ops file = rbind (fo_Directory ops False) (\<lambda>_. case file of
       None \<Rightarrow> Inr absent
     | Some content \<Rightarrow> rbind (fo_Open ops) (\<lambda>_. parse (take (RegistryLimit + 1) content)))"

locale private_file =
  fixes render :: "'s \<Rightarrow> string" and parse :: "string \<Rightarrow> 's result" and ok :: "'s \<Rightarrow> bool" and absent :: 's
  assumes parse_ok: "parse content = Inr s \<Longrightarrow> ok s"
    and render_read: "ok s \<Longrightarrow> length (render s) \<le> 1048576 \<Longrightarrow> parse (render s) = Inr s"
    and absent_ok: "ok absent"
begin

lemma load_ok: "loadPrivate parse absent ops file = Inr s \<Longrightarrow> ok s"
  using parse_ok absent_ok by (auto simp: loadPrivate_def rbind_eq_Inr split: option.splits)

lemma load_written:
  assumes "loadPrivate parse absent ops file = Inr s0" "fo_Open ops = Inr ()" "ok s" "length (render s) \<le> 1048576"
  shows "loadPrivate parse absent ops (Some (render s)) = Inr s"
proof -
  have "fo_Directory ops False = Inr ()" using assms(1) by (auto simp: loadPrivate_def rbind_eq_Inr)
  then show ?thesis using assms render_read by (simp add: loadPrivate_def)
qed

end

lemma enablementsOK_empty: "enablementsOK repositoryID \<lparr>en_Protocol = ''hn.extension-enablement/1'', en_Entries = []\<rparr>"
  by (simp add: enablementsOK_def)

lemma validUtf8_repositoryIdentity: "validUtf8 (repositoryIdentity h common)"
  unfolding repositoryIdentity_def by (rule digest_text)

interpretation registry_file: private_file "\<lambda>ry. canonical (registryJSON ry)" "parseRegistry h" "registryOK h" emptyRegistry for h
  by unfold_locales (simp_all add: parseRegistry_ok registry_read registryOK_empty)

interpretation enablement_file: private_file "\<lambda>en. canonical (enablementsJSON en)" "parseEnablements (repositoryIdentity h common)"
  "enablementsOK (repositoryIdentity h common)" "\<lparr>en_Protocol = ''hn.extension-enablement/1'', en_Entries = []\<rparr>" for h common
  by unfold_locales
    (simp_all add: parseEnablements_ok enablements_read validUtf8_repositoryIdentity enablementsOK_empty)

lemma LoadRegistry_private: "LoadRegistry h ops = loadPrivate (parseRegistry h) emptyRegistry ops"
  by (rule ext) (simp add: LoadRegistry_def loadPrivate_def)

lemma LoadEnablements_private: "LoadEnablements ops repositoryID =
    loadPrivate (parseEnablements repositoryID) \<lparr>en_Protocol = ''hn.extension-enablement/1'', en_Entries = []\<rparr> ops"
  by (rule ext) (simp add: LoadEnablements_def loadPrivate_def)

lemma LoadRegistry_ok: "LoadRegistry h ops file = Inr ry \<Longrightarrow> registryOK h ry"
  unfolding LoadRegistry_private by (rule registry_file.load_ok)

end
