(* ===== verification/HN_Extension_Access.thy ===== *)
theory HN_Extension_Access
  imports HN_Extension_Files
begin

text \<open>
  Registering, removing and enabling modules on the private files, and the authorization of requests:
  what each change leaves in its file, which identities it revokes, and what a request needs.
\<close>

section \<open>Registering and removing modules\<close>

definition sortedRegistry :: "Registry \<Rightarrow> Registry" where
  "sortedRegistry ry = ry\<lparr>ry_Registrations := map_option (sort_key moduleOf) (ry_Registrations ry)\<rparr>"

abbreviation registered :: "Registry \<Rightarrow> Registration list" where
  "registered ry \<equiv> elems (ry_Registrations ry)"

lemma registryOK_sorted: "registryOK h ry \<Longrightarrow> registryOK h (sortedRegistry ry)"
  by (auto simp: registryOK_def sortedRegistry_def distinct_sort_key)

lemma UpdateRegistry_iff:
  "UpdateRegistry h ops update file = Inr (out, file') \<longleftrightarrow> (\<exists>loaded registry. fo_Directory ops True = Inr () \<and> fo_Lock ops = Inr () \<and>
     LoadRegistry h ops file = Inr loaded \<and> update loaded = Inr (registry, out) \<and> length (registered registry) \<le> 128 \<and>
     length (canonical (registryJSON (sortedRegistry registry))) \<le> 1048576 \<and> fo_Persist ops = Inr () \<and>
     file' = Some (canonical (registryJSON (sortedRegistry registry))))"
proof -
  have "UpdateRegistry h ops update file = Inr (out, file') \<longleftrightarrow> fo_Directory ops True = Inr () \<and> fo_Lock ops = Inr () \<and>
     (\<exists>loaded. LoadRegistry h ops file = Inr loaded \<and> (\<exists>registry. update loaded = Inr (registry, out) \<and>
       length (registered registry) \<le> 128 \<and> length (canonical (registryJSON (sortedRegistry registry))) \<le> 1048576 \<and>
       fo_Persist ops = Inr () \<and> file' = Some (canonical (registryJSON (sortedRegistry registry)))))"
    by (auto simp: UpdateRegistry_def rbind_eq_Inr Let_def sortedRegistry_def comp_def not_less split: if_split_asm prod.splits)
  then show ?thesis by blast
qed

lemma sortedRegistry_idem [simp]: "sortedRegistry (sortedRegistry ry) = sortedRegistry ry"
  by (cases "ry_Registrations ry") (simp_all add: sortedRegistry_def sort_key_id_if_sorted)

lemma UpdateRegistry_stores:
  assumes "UpdateRegistry h ops update file = Inr (out, file')" and "fo_Open ops = Inr ()"
  obtains loaded registry where "LoadRegistry h ops file = Inr loaded" "registryOK h loaded" "update loaded = Inr (registry, out)"
    "registryOK h registry \<Longrightarrow> LoadRegistry h ops file' = Inr (sortedRegistry registry)"
    "file' = Some (canonical (registryJSON (sortedRegistry registry)))"
proof -
  obtain loaded registry where l: "LoadRegistry h ops file = Inr loaded" "update loaded = Inr (registry, out)"
    and f: "file' = Some (canonical (registryJSON (sortedRegistry registry)))"
    and len: "length (canonical (registryJSON (sortedRegistry registry))) \<le> 1048576"
    using assms(1) by (auto simp: UpdateRegistry_iff)
  have "LoadRegistry h ops file' = Inr (sortedRegistry registry)" if "registryOK h registry"
    unfolding LoadRegistry_private f
    by (rule registry_file.load_written [OF l(1) [unfolded LoadRegistry_private] assms(2) registryOK_sorted [OF that] len])
  then show ?thesis using that l f LoadRegistry_ok [OF l(1)] by blast
qed

lemma identity_update [simp]: "identity h (r\<lparr>rg_RegistrationID := i\<rparr>) = identity h r"
  by (simp add: identity_def identityText_def)

lemma validateDescriptor_update [simp]: "validateDescriptor h (r\<lparr>rg_RegistrationInstance := a, rg_RegistrationID := i\<rparr>) = validateDescriptor h r"
  by (simp add: validateDescriptor_def)

lemma installed_storable:
  assumes "validateDescriptor h c = Inr ()" "validUtf8 (rg_Executable c)" "length e = 16"
  shows "storable h (c\<lparr>rg_RegistrationInstance := hexEncodeToString e, rg_RegistrationID := identity h (c\<lparr>rg_RegistrationInstance := hexEncodeToString e\<rparr>)\<rparr>)"
proof -
  have "ext_validHex (hexEncodeToString e) 32" using hexEncode_validHex [of e] assms(3) by simp
  then show ?thesis using assms by (simp add: storable_def validateStored_ok identity_def identityText_def)
qed

lemma find_module: "find (\<lambda>old. moduleOf old = m) rs = None \<longleftrightarrow> m \<notin> moduleOf ` set rs"
  by (auto simp: find_None_iff)

lemma install_cases:
  assumes "install h c (Some e) ry = Inr (ry', r)"
  obtains (again) "ry' = ry" "r \<in> set (registered ry)" "moduleOf r = moduleOf c" "bindingText r = bindingText c"
  | (fresh) "moduleOf c \<notin> moduleOf ` set (registered ry)" "length (registered ry) < 128"
      "r = c\<lparr>rg_RegistrationInstance := hexEncodeToString e, rg_RegistrationID := identity h (c\<lparr>rg_RegistrationInstance := hexEncodeToString e\<rparr>)\<rparr>"
      "ry' = ry\<lparr>ry_Registrations := Some (registered ry @ [r])\<rparr>"
proof (cases "find (\<lambda>old. moduleOf old = moduleOf c) (registered ry)")
  case None
  have "r = c\<lparr>rg_RegistrationInstance := hexEncodeToString e, rg_RegistrationID := identity h (c\<lparr>rg_RegistrationInstance := hexEncodeToString e\<rparr>)\<rparr>"
    "ry' = ry\<lparr>ry_Registrations := Some (registered ry @ [r])\<rparr>" "length (registered ry) < 128"
    using assms by (auto simp: install_def None Let_def split: if_split_asm)
  then show ?thesis using fresh None by (simp add: find_module)
next
  case (Some old)
  then have "old \<in> set (registered ry)" "moduleOf old = moduleOf c" by (auto simp: find_Some_iff)
  then show ?thesis using assms again by (simp add: install_def Some split: if_split_asm)
qed

lemma registryOK_registered: "registryOK h ry \<longleftrightarrow> ry_Protocol ry = ''hn.extension-registry/1'' \<and> ry_Registrations ry \<noteq> None \<and>
    length (registered ry) \<le> 128 \<and> distinct (map moduleOf (registered ry)) \<and> (\<forall>r \<in> set (registered ry). storable h r)"
  by (cases "ry_Registrations ry") (auto simp: registryOK_def)

lemma registered_sorted [simp]: "set (registered (sortedRegistry ry)) = set (registered ry)" "sorted (map moduleOf (registered (sortedRegistry ry)))"
  by (cases "ry_Registrations ry"; simp add: sortedRegistry_def)+

text \<open>What a successful registration leaves in the file.\<close>

lemma register_stored:
  assumes reg: "registerWithRandom h ops c (Some e) file = Inr (r, file')"
    and "validUtf8 (rg_Executable c)" "length e = 16" "fo_Open ops = Inr ()"
  obtains ry ry' where "LoadRegistry h ops file = Inr ry" "LoadRegistry h ops file' = Inr ry'" "registryOK h ry" "registryOK h ry'"
    "sorted (map moduleOf (registered ry'))" "set (registered ry') = insert r (set (registered ry))" "moduleOf r = moduleOf c"
    "bindingText r = bindingText c" "moduleOf c \<notin> moduleOf ` set (registered ry) \<Longrightarrow> rg_RegistrationInstance r = hexEncodeToString e \<and> rg_Executable r = rg_Executable c"
    "file' = Some (canonical (registryJSON ry'))" "sortedRegistry ry' = ry'"
proof -
  have desc: "validateDescriptor h c = Inr ()" and upd: "UpdateRegistry h ops (install h c (Some e)) file = Inr (r, file')"
    using reg by (auto simp: registerWithRandom_def rbind_unit_ok)
  obtain ry ry1 where l: "LoadRegistry h ops file = Inr ry" "registryOK h ry" "install h c (Some e) ry = Inr (ry1, r)"
    "registryOK h ry1 \<Longrightarrow> LoadRegistry h ops file' = Inr (sortedRegistry ry1)" "file' = Some (canonical (registryJSON (sortedRegistry ry1)))"
    using UpdateRegistry_stores [OF upd assms(4)] by blast
  have facts: "registryOK h ry1 \<and> set (registered ry1) = insert r (set (registered ry)) \<and> moduleOf r = moduleOf c \<and> bindingText r = bindingText c
      \<and> (moduleOf c \<notin> moduleOf ` set (registered ry) \<longrightarrow> rg_RegistrationInstance r = hexEncodeToString e \<and> rg_Executable r = rg_Executable c)"
    using l(3)
  proof (cases rule: install_cases)
    case again
    have "moduleOf c \<in> moduleOf ` set (registered ry)" using again(2,3) by (metis imageI)
    then show ?thesis using again l(2) by auto
  next
    case fresh
    have st: "storable h r" unfolding fresh(3) by (rule installed_storable [OF desc assms(2,3)])
    have m: "moduleOf r = moduleOf c" "bindingText r = bindingText c" "rg_RegistrationInstance r = hexEncodeToString e" "rg_Executable r = rg_Executable c"
      unfolding fresh(3) by (simp_all add: bindingText_def)
    have "registryOK h ry1" using l(2) fresh(1,2,4) st m(1) by (simp add: registryOK_registered)
    then show ?thesis using fresh(4) m by simp
  qed
  then show ?thesis using that [OF l(1) l(4)] l(2,5) registryOK_sorted by simp
qed

lemma find_unique: "distinct (map f xs) \<Longrightarrow> x \<in> set xs \<Longrightarrow> find (\<lambda>y. f y = f x) xs = Some x"
  by (induction xs) auto

lemma register_again:
  assumes reg: "registerWithRandom h ops c (Some e) file = Inr (r, file1)"
    and "validUtf8 (rg_Executable c)" "length e = 16" "fo_Open ops = Inr ()"
  shows "registerWithRandom h ops c entropy file1 = Inr (r, file1)"
proof -
  obtain ry ry' where st: "LoadRegistry h ops file1 = Inr ry'" "registryOK h ry'" "set (registered ry') = insert r (set (registered ry))"
    "moduleOf r = moduleOf c" "bindingText r = bindingText c"
    and same: "file1 = Some (canonical (registryJSON ry'))" "sortedRegistry ry' = ry'"
    using register_stored [OF assms] by metis
  have chk: "validateManifest (rg_Manifest c) = Inr ()" "validateDescriptor h c = Inr ()"
    and upd: "UpdateRegistry h ops (install h c (Some e)) file = Inr (r, file1)"
    using reg by (auto simp: registerWithRandom_def rbind_unit_ok)
  have u: "fo_Directory ops True = Inr ()" "fo_Lock ops = Inr ()" "fo_Persist ops = Inr ()"
    "\<And>text. file1 = Some text \<Longrightarrow> length text \<le> 1048576"
    using upd by (auto simp: UpdateRegistry_iff)
  have "find (\<lambda>old. moduleOf old = moduleOf c) (registered ry') = Some r"
    using find_unique [of moduleOf "registered ry'" r] st by (simp add: registryOK_registered)
  then have "install h c entropy ry' = Inr (ry', r)" using st(5) by (simp add: install_def)
  then have "UpdateRegistry h ops (install h c entropy) file1 = Inr (r, file1)"
    unfolding UpdateRegistry_iff using u(1-3) u(4) [OF same(1)] st(1,2) same by (auto simp: registryOK_registered)
  then show ?thesis using chk by (simp add: registerWithRandom_def)
qed

lemma removeModule_ok: "removeModule m rs = Some (rest, r) \<Longrightarrow> distinct (map moduleOf rs) \<Longrightarrow>
    r \<in> set rs \<and> moduleOf r = m \<and> set rest = set rs - {r} \<and> distinct (map moduleOf rest) \<and> length rest \<le> length rs \<and> m \<notin> moduleOf ` set rest"
proof (induction rs arbitrary: rest)
  case (Cons x rs)
  show ?case
  proof (cases "moduleOf x = m")
    case True
    with Cons.prems show ?thesis by auto
  next
    case False
    then obtain rest' where r: "removeModule m rs = Some (rest', r)" "rest = x # rest'" using Cons.prems(1) by auto
    note IH = Cons.IH [OF r(1)]
    then have "x \<noteq> r" using False Cons.prems(2) by auto
    then show ?thesis using IH False Cons.prems(2) r(2) by auto
  qed
qed simp

lemma remove_stored:
  assumes "Remove h ops m file = Inr (r, file')" and "fo_Open ops = Inr ()"
  obtains ry ry' where "LoadRegistry h ops file = Inr ry" "LoadRegistry h ops file' = Inr ry'" "registryOK h ry" "registryOK h ry'"
    "r \<in> set (registered ry)" "moduleOf r = m" "set (registered ry') = set (registered ry) - {r}" "m \<notin> moduleOf ` set (registered ry')"
proof -
  obtain ry ry1 where l: "LoadRegistry h ops file = Inr ry" "registryOK h ry"
    and up: "(case removeModule m (registered ry) of None \<Rightarrow> failure ''not_found'' ''module is not registered''
      | Some (rest, removed) \<Rightarrow> Inr (ry\<lparr>ry_Registrations := Some rest\<rparr>, removed)) = Inr (ry1, r)"
    and st: "registryOK h ry1 \<Longrightarrow> LoadRegistry h ops file' = Inr (sortedRegistry ry1)"
    using UpdateRegistry_stores [OF assms(1) [unfolded Remove_def] assms(2)] by blast
  obtain rest where rest: "removeModule m (registered ry) = Some (rest, r)" "ry1 = ry\<lparr>ry_Registrations := Some rest\<rparr>"
    using up by (auto split: option.splits)
  have facts: "r \<in> set (registered ry)" "moduleOf r = m" "set rest = set (registered ry) - {r}" "distinct (map moduleOf rest)"
    "length rest \<le> length (registered ry)" "m \<notin> moduleOf ` set rest"
    using removeModule_ok [OF rest(1)] l(2) [unfolded registryOK_registered] by blast+
  have ok: "registryOK h ry1" using l(2) facts rest(2) by (auto simp: registryOK_registered)
  show ?thesis by (rule that [OF l(1) st [OF ok] l(2) registryOK_sorted [OF ok]]) (use facts rest(2) in simp_all)
qed

section \<open>Identities\<close>

lemma canonical_inj: "canonical v = canonical w \<Longrightarrow> withinLimits 0 (canonicalValue v) \<Longrightarrow> withinLimits 0 (canonicalValue w)
    \<Longrightarrow> canonicalValue v = canonicalValue w"
  using canonical_read [of v "length (canonical v)"] canonical_read [of w "length (canonical w)"] by simp

lemma identity_plain: "plainNames [(''argv'', a), (''executable'', b), (''executable_digest'', c), (''manifest_digest'', d), (''registration_instance'', e)]"
  by (rule plainNames_literal) simp_all

lemma identityText_instance:
  assumes "identityText r = identityText r'" "validUtf8 (rg_RegistrationInstance r)" "validUtf8 (rg_RegistrationInstance r')"
  shows "rg_RegistrationInstance r = rg_RegistrationInstance r'"
proof -
  let ?j = "\<lambda>r. JObj [(''argv'', jsonSlice JStr (rg_Argv r)), (''executable'', JStr (rg_Executable r)),
     (''executable_digest'', JStr (rg_ExecutableDigest r)), (''manifest_digest'', JStr (rg_ManifestDigest r)),
     (''registration_instance'', JStr (rg_RegistrationInstance r))]"
  have lim: "withinLimits 0 (canonicalValue (?j r))" for r
    unfolding withinLimits_canonical [OF identity_plain] by (cases "rg_Argv r") (simp_all add: jsonSlice_def list_all_iff)
  have "canonicalValue (?j r) = canonicalValue (?j r')"
    using assms(1) canonical_inj [OF _ lim lim] by (simp only: identityText_def)
  then have "field (membersOf (canonicalValue (?j r))) ''registration_instance'' = field (membersOf (canonicalValue (?j r'))) ''registration_instance''"
    by simp
  then show ?thesis
    unfolding field_canonical [OF identity_plain] using assms(2,3) by (simp add: field_simps scalarText_id)
qed

lemma digest_inj: "digest h a = digest h b \<Longrightarrow> sha256 h a = sha256 h b"
  using hexDecode_hexEncode by (metis digest_def option.inject same_append_eq)

lemma Authorize_identities: "Authorize h r entry b a sel = Inr () \<Longrightarrow> ee_Enabled entry \<and> ee_RegistrationID entry = rg_RegistrationID r
    \<and> bd_RegistrationID b = rg_RegistrationID r \<and> ee_RepositoryID entry = bd_RepositoryID b \<and> ee_Epoch entry = bd_Epoch b"
  by (auto simp: Authorize_def rbind_unit_ok split: if_split_asm)

lemma digest_parts: "length (sha256 h x) = 32 \<Longrightarrow> validDigest (digest h x)"
  using hexEncode_validHex [of "sha256 h x"] by (simp add: validDigest_def digest_def hasPrefix_def)

text \<open>
  C38. A registration that succeeds, of an executable whose path is valid UTF-8, with 16 bytes of entropy and
  a registry file that can be opened, leaves a registry that loads: sorted by module with one registration
  per module, each valid, with the returned registration and those it had before.  Registering the
  same descriptor again returns that registration without reading entropy and writes the same file.
  The program does not check the encoding of the path; JSON would replace the bytes of another path.
\<close>

theorem Register_stored:
  assumes "registerWithRandom h ops c (Some e) file = Inr (r, file')"
    and "validUtf8 (rg_Executable c)" "length e = 16" "fo_Open ops = Inr ()"
  shows "(\<exists>ry ry'. LoadRegistry h ops file = Inr ry \<and> LoadRegistry h ops file' = Inr ry'
      \<and> strictSorted (map moduleOf (registered ry')) \<and> (\<forall>x \<in> set (registered ry'). validateStored h x = Inr ())
      \<and> set (registered ry') = insert r (set (registered ry)) \<and> moduleOf r = moduleOf c \<and> bindingText r = bindingText c)
    \<and> registerWithRandom h ops c None file' = Inr (r, file')"
proof -
  obtain ry ry' where st: "LoadRegistry h ops file = Inr ry" "LoadRegistry h ops file' = Inr ry'" "registryOK h ry'"
    "sorted (map moduleOf (registered ry'))" "set (registered ry') = insert r (set (registered ry))" "moduleOf r = moduleOf c"
    "bindingText r = bindingText c"
    using register_stored [OF assms] by metis
  have "strictSorted (map moduleOf (registered ry'))" "\<forall>x \<in> set (registered ry'). validateStored h x = Inr ()"
    using st(3,4) by (auto simp: strictSorted_iff strict_sorted_iff registryOK_registered storable_def)
  then show ?thesis using st register_again [OF assms, of None] by blast
qed

text \<open>
  C37. Removing a module and registering it again revokes what was given to it: the removed registration
  is the one that was registered, the new one has another identity (unless SHA-256 collides on the two
  identity texts), and no enablement of the old registration authorizes any request of the new one.
  The path of the executable is valid UTF-8, and the entropy of the second registration is fresh.
\<close>

theorem Remove_Register_revokes:
  assumes "registerWithRandom h ops c (Some e1) file = Inr (r1, file1)" "Remove h ops (moduleOf c) file1 = Inr (r, file2)"
    "registerWithRandom h ops c (Some e2) file2 = Inr (r2, file3)"
    and "validUtf8 (rg_Executable c)" "length e1 = 16" "length e2 = 16" "fo_Open ops = Inr ()"
    and fresh: "hexEncodeToString e2 \<noteq> rg_RegistrationInstance r1"
    and collision: "sha256 h (identityText r1) = sha256 h (identityText r2) \<Longrightarrow> identityText r1 = identityText r2"
  shows "r = r1 \<and> rg_RegistrationID r2 \<noteq> rg_RegistrationID r1
    \<and> (\<forall>entry b a sel. ee_RegistrationID entry = rg_RegistrationID r1 \<longrightarrow> Authorize h r2 entry b a sel \<noteq> Inr ())"
proof -
  obtain ry1 where l1: "LoadRegistry h ops file1 = Inr ry1" "registryOK h ry1" "r1 \<in> set (registered ry1)" "moduleOf r1 = moduleOf c"
    using register_stored [OF assms(1,4,5,7)] by (metis insertI1)
  obtain ry2 where l2: "LoadRegistry h ops file2 = Inr ry2" "r \<in> set (registered ry1)" "moduleOf r = moduleOf c"
    "moduleOf c \<notin> moduleOf ` set (registered ry2)"
    using remove_stored [OF assms(2,7)] l1(1) by (metis sum.inject(2))
  have "inj_on moduleOf (set (registered ry1))" using l1(2) by (simp add: registryOK_registered distinct_map)
  then have same: "r = r1" by (rule inj_onD) (use l1(3,4) l2(2,3) in simp_all)
  obtain ry3 where l3: "registryOK h ry3" "r2 \<in> set (registered ry3)" "rg_RegistrationInstance r2 = hexEncodeToString e2"
    using register_stored [OF assms(3,4,6,7)] l2(1,4) by (metis insertI1 sum.inject(2))
  have stored: "storable h r1" "storable h r2" using l1(2,3) l3 by (auto simp: registryOK_registered)
  then have v: "validUtf8 (rg_RegistrationInstance r1)" "validUtf8 (rg_RegistrationInstance r2)"
    "rg_RegistrationID r1 = identity h r1" "rg_RegistrationID r2 = identity h r2"
    using validHex_text by (auto simp: storable_def validateStored_ok)
  have "rg_RegistrationID r2 \<noteq> rg_RegistrationID r1"
  proof
    assume "rg_RegistrationID r2 = rg_RegistrationID r1"
    then have "sha256 h (identityText r1) = sha256 h (identityText r2)" using v digest_inj by (metis identity_def)
    then have "rg_RegistrationInstance r1 = rg_RegistrationInstance r2" using collision identityText_instance v by blast
    then show False using fresh l3(3) by simp
  qed
  then show ?thesis using same Authorize_identities by metis
qed

section \<open>Enabling a module in a repository\<close>

lemma find_other:
  assumes "distinct (map f xs)" "distinct (map f ys)" "set xs = insert x {y \<in> set ys. f y \<noteq> f x}" "i \<noteq> f x"
  shows "find (\<lambda>y. f y = i) xs = find (\<lambda>y. f y = i) ys"
proof (cases "find (\<lambda>y. f y = i) ys")
  case None
  then have "find (\<lambda>y. f y = i) xs = None" using assms(3,4) by (auto simp: find_None_iff)
  with None show ?thesis by simp
next
  case (Some y)
  then have y: "y \<in> set ys" "f y = i" by (auto simp: find_Some_iff)
  then have "y \<in> set xs" using assms(3,4) by auto
  then show ?thesis using find_unique [OF assms(1)] y Some by auto
qed

lemma replaceEntry_ok: "replaceEntry e es = Some es' \<Longrightarrow> distinct (map ee_RegistrationID es) \<Longrightarrow>
    set es' = insert e {x \<in> set es. ee_RegistrationID x \<noteq> ee_RegistrationID e} \<and> distinct (map ee_RegistrationID es') \<and> length es' = length es"
proof (induction es arbitrary: es')
  case (Cons x es)
  show ?case
  proof (cases "ee_RegistrationID x = ee_RegistrationID e")
    case True
    then have "\<forall>y \<in> set es. ee_RegistrationID y \<noteq> ee_RegistrationID e" using Cons.prems(2) by (auto simp: image_iff)
    then show ?thesis using True Cons.prems by auto
  next
    case False
    then obtain es1 where es1: "replaceEntry e es = Some es1" "es' = x # es1" using Cons.prems(1) by auto
    with Cons.IH [OF es1(1)] False Cons.prems(2) show ?thesis by auto
  qed
qed simp

lemma replaceEntry_None: "replaceEntry e es = None \<Longrightarrow> ee_RegistrationID e \<notin> ee_RegistrationID ` set es"
  by (induction es) (auto split: if_split_asm)

lemma storeEntry_stores:
  assumes st: "storeEntry ops entry state = Inr (out, file')" and ok: "enablementsOK repositoryID state" and e: "entryOK repositoryID entry"
  obtains state' where "out = entry" "file' = Some (canonical (enablementsJSON state'))" "length (canonical (enablementsJSON state')) \<le> 1048576"
    "enablementsOK repositoryID state'"
    "set (en_Entries state') = insert entry {x \<in> set (en_Entries state). ee_RegistrationID x \<noteq> ee_RegistrationID entry}"
proof -
  define es where "es = (case replaceEntry entry (en_Entries state) of Some es \<Rightarrow> es | None \<Rightarrow> en_Entries state @ [entry])"
  have room: "replaceEntry entry (en_Entries state) = None \<Longrightarrow> length (en_Entries state) < 128"
    using st by (auto simp: storeEntry_def split: if_split_asm)
  have rest: "(let data = canonical (enablementsJSON (state\<lparr>en_Entries := sort_key ee_RegistrationID es\<rparr>)) in
      if 1048576 < length data then failure ''resource_limit'' ''enablement exceeds byte limit''
      else rbind (fo_Persist ops) (\<lambda>_. Inr (entry, Some data))) = Inr (out, file')"
    using st by (cases "replaceEntry entry (en_Entries state)") (auto simp: storeEntry_def es_def split: if_split_asm)
  have dist: "distinct (map ee_RegistrationID (en_Entries state))" "length (en_Entries state) \<le> 128"
    and each: "\<forall>x \<in> set (en_Entries state). entryOK repositoryID x" using ok by (auto simp: enablementsOK_def)
  have es: "set es = insert entry {x \<in> set (en_Entries state). ee_RegistrationID x \<noteq> ee_RegistrationID entry}
      \<and> distinct (map ee_RegistrationID es) \<and> length es \<le> 128"
  proof (cases "replaceEntry entry (en_Entries state)")
    case None
    then show ?thesis using replaceEntry_None [OF None] dist room by (auto simp: es_def image_iff)
  next
    case (Some es1)
    then show ?thesis using replaceEntry_ok [OF Some dist(1)] dist(2) by (simp add: es_def)
  qed
  let ?state = "state\<lparr>en_Entries := sort_key ee_RegistrationID es\<rparr>"
  have "enablementsOK repositoryID ?state" using es each e ok by (auto simp: enablementsOK_def distinct_sort_key)
  moreover have "set (en_Entries ?state) = insert entry {x \<in> set (en_Entries state). ee_RegistrationID x \<noteq> ee_RegistrationID entry}" using es by simp
  moreover have "out = entry" "file' = Some (canonical (enablementsJSON ?state))" "length (canonical (enablementsJSON ?state)) \<le> 1048576"
    using rest by (auto simp: Let_def rbind_unit_ok split: if_split_asm)
  ultimately show ?thesis using that by blast
qed

text \<open>
  C39. Enabling or disabling a module is stored and revokes: afterwards the entry of the registration is
  the one returned, the entry of every other registration is what it was, and a request is authorized
  under the new entry only when it enables the module and only for the epoch just drawn and this
  repository, so no session opened under an earlier entry keeps its access.
\<close>

theorem Set_stored:
  assumes set: "setWithRandom h fs ops (repositoryIdentity h common) registration enabled grants (Some e) file = Inr (entry, file')"
    and "length e = 16" "fo_Open ops = Inr ()" and sha: "\<And>x. length (sha256 h x) = 32"
  shows "Entry ops (repositoryIdentity h common) registration file' = Inr (Some entry)
    \<and> (\<forall>other. rg_RegistrationID other \<noteq> rg_RegistrationID registration \<longrightarrow>
         Entry ops (repositoryIdentity h common) other file' = Entry ops (repositoryIdentity h common) other file)
    \<and> (\<forall>b a sel. Authorize h registration entry b a sel = Inr () \<longrightarrow>
         enabled \<and> bd_Epoch b = hexEncodeToString e \<and> bd_RepositoryID b = repositoryIdentity h common)"
proof -
  let ?repo = "repositoryIdentity h common"
  obtain entry0 state where prep: "prepareEntry h fs ?repo registration enabled grants (Some e) = Inr entry0"
    and load: "LoadEnablements ops ?repo file = Inr state" and store: "storeEntry ops entry0 state = Inr (entry, file')"
    using set by (auto simp: setWithRandom_def rbind_eq_Inr)
  have entry0: "entry0 = \<lparr>ee_RegistrationID = rg_RegistrationID registration, ee_RepositoryID = ?repo,
      ee_Epoch = hexEncodeToString e, ee_Enabled = enabled, ee_Grants = grants\<rparr>" "validateStored h registration = Inr ()" "ValidateGrants grants = Inr ()"
    using prep by (auto simp: prepareEntry_def rbind_eq_Inr Let_def split: if_split_asm prod.splits)
  have ok: "entryOK ?repo entry0"
    using entry0 hexEncode_validHex [of e] assms(2) digest_parts sha by (simp add: entryOK_def validateStored_ok identity_def)
  have state: "enablementsOK ?repo state"
    by (rule enablement_file.load_ok) (use load in \<open>simp add: LoadEnablements_private\<close>)
  obtain state' where st: "entry = entry0" "file' = Some (canonical (enablementsJSON state'))" "length (canonical (enablementsJSON state')) \<le> 1048576"
    "enablementsOK ?repo state'" "set (en_Entries state') = insert entry0 {x \<in> set (en_Entries state). ee_RegistrationID x \<noteq> ee_RegistrationID entry0}"
    using storeEntry_stores [OF store state ok] by blast
  have load': "LoadEnablements ops ?repo file' = Inr state'"
    unfolding LoadEnablements_private st(2)
    by (rule enablement_file.load_written [OF load [unfolded LoadEnablements_private] assms(3) st(4,3)])
  have dist: "distinct (map ee_RegistrationID (en_Entries state))" "distinct (map ee_RegistrationID (en_Entries state'))"
    using state st(4) by (auto simp: enablementsOK_def)
  have mine: "find (\<lambda>x. ee_RegistrationID x = rg_RegistrationID registration) (en_Entries state') = Some entry0"
    using find_unique [OF dist(2), of entry0] st(5) entry0(1) by simp
  have others: "find (\<lambda>x. ee_RegistrationID x = i) (en_Entries state') = find (\<lambda>x. ee_RegistrationID x = i) (en_Entries state)"
    if "i \<noteq> rg_RegistrationID registration" for i
    by (rule find_other [OF dist(2,1) st(5)]) (use that entry0(1) in simp)
  have "enabled \<and> bd_Epoch b = hexEncodeToString e \<and> bd_RepositoryID b = ?repo" if "Authorize h registration entry b a sel = Inr ()" for b a sel
    using Authorize_identities [OF that] st(1) entry0(1) by simp
  moreover have "Entry ops ?repo registration file' = Inr (Some entry)" using load' mine st(1) by (simp add: Entry_def)
  moreover have "Entry ops ?repo other file' = Entry ops ?repo other file" if "rg_RegistrationID other \<noteq> rg_RegistrationID registration" for other
    using load load' others [OF that] by (simp add: Entry_def)
  ultimately show ?thesis by blast
qed

section \<open>Authorization\<close>

text \<open>
  What a grant covers: its own selector, or with \<open>artifact:ns/*\<close> the types of the name space \<open>ns\<close> and no
  others.
\<close>

definition covers :: "string \<Rightarrow> string \<Rightarrow> bool" where
  "covers pattern selector \<longleftrightarrow> pattern = selector \<or> (\<exists>ns name. pattern = ''artifact:'' @ ns @ ''/*''
     \<and> selector = ''artifact:'' @ ns @ ''/'' @ name \<and> CHR ''/'' \<notin> set ns \<and> CHR ''/'' \<notin> set name)"

definition granted :: "Grant list \<Rightarrow> string \<Rightarrow> string \<Rightarrow> bool" where
  "granted gs selector action \<longleftrightarrow> (\<exists>g \<in> set gs. covers (gr_Selector g) selector \<and> action \<in> set (gr_Actions g))"

lemma suffix_star: "hasSuffix (s @ ''/*'') ''/*''" "trimSuffix (s @ ''/*'') ''*'' = s @ ''/''"
  by (simp_all add: hasSuffix_def trimSuffix_def)

lemma no_star: "CHR ''*'' \<notin> set s \<Longrightarrow> \<not> hasSuffix s ''/*''"
  by (auto simp: hasSuffix_iff)

text \<open>The strings of a concrete selector have no star.\<close>

lemma concrete_no_star:
  assumes "validSelector s False"
  shows "CHR ''*'' \<notin> set s"
  using assms
proof (cases rule: validSelector_cases)
  case (native f)
  then show ?thesis using nativeFamily_text by auto
next
  case (type i)
  then obtain a b where "i = a @ CHR ''/'' # b" "modulePart a" "modulePart b" using ValidModuleID_parts by metis
  then show ?thesis using type modulePart_ascii by auto
qed auto

lemma append_split_unique: "a @ c # b = x @ c # y \<Longrightarrow> c \<notin> set a \<Longrightarrow> c \<notin> set x \<Longrightarrow> a = x \<and> b = y"
proof (induction a arbitrary: x)
  case Nil
  then show ?case by (cases x) auto
next
  case (Cons z a)
  then show ?case by (cases x) auto
qed

lemma grantMatches_covers:
  assumes "validSelector (gr_Selector g) True" and "validSelector s False"
  shows "grantMatches g s \<longleftrightarrow> covers (gr_Selector g) s"
proof (cases "\<exists>a. gr_Selector g = ''artifact:'' @ a @ ''/*''")
  case False
  then have nc: "covers (gr_Selector g) s \<longleftrightarrow> gr_Selector g = s" by (auto simp: covers_def)
  have "\<not> hasSuffix (gr_Selector g) ''/*''"
    using assms(1)
  proof (cases rule: validSelector_cases)
    case (native f)
    then show ?thesis using nativeFamily_text by (intro no_star) auto
  next
    case (type i)
    then obtain a b where "i = a @ CHR ''/'' # b" "modulePart a" "modulePart b" using ValidModuleID_parts by metis
    then show ?thesis using type modulePart_ascii by (intro no_star) auto
  qed (use False in \<open>auto simp: hasSuffix_iff\<close>)
  then show ?thesis using nc by (simp add: grantMatches_def)
next
  case True
  then obtain a where g: "gr_Selector g = ''artifact:'' @ a @ ''/*''" by blast
  have a: "CHR ''/'' \<notin> set a"
    using assms(1)
  proof (cases rule: validSelector_cases)
    case (type i)
    then obtain x y where "i = x @ CHR ''/'' # y" "modulePart x" "modulePart y" using ValidModuleID_parts by metis
    then have "CHR ''*'' \<notin> set (gr_Selector g)" using type modulePart_ascii by auto
    then show ?thesis using g by simp
  next
    case (namespace b)
    then show ?thesis using g by simp
  qed (use g in \<open>auto\<close>)
  have ne: "gr_Selector g \<noteq> s" using concrete_no_star [OF assms(2)] g by auto
  have trim: "trimSuffix (gr_Selector g) ''*'' = (''artifact:'' @ a) @ ''/''" "hasSuffix (gr_Selector g) ''/*''"
    using suffix_star [of "''artifact:'' @ a"] g by simp_all
  have match: "grantMatches g s \<longleftrightarrow> hasPrefix s ''artifact:'' \<and> (\<exists>name. s = (''artifact:'' @ a) @ ''/'' @ name)"
    unfolding grantMatches_def using trim ne by (auto simp: hasPrefix_iff)
  show ?thesis
  proof
    assume "grantMatches g s"
    then obtain name where s: "s = ''artifact:'' @ a @ ''/'' @ name" using match by auto
    have "CHR ''/'' \<notin> set name"
      using assms(2)
    proof (cases rule: validSelector_cases)
      case (type i)
      then obtain x y where xy: "i = x @ CHR ''/'' # y" "CHR ''/'' \<notin> set x" "CHR ''/'' \<notin> set y" using ValidModuleID_parts by metis
      then have "a @ CHR ''/'' # name = x @ CHR ''/'' # y" using type s by simp
      then show ?thesis using append_split_unique a xy by metis
    next
      case opaque
      then have "''opaque'' = a @ CHR ''/'' # name" using s by simp
      then have "CHR ''/'' \<in> set ''opaque''" unfolding in_set_conv_decomp by blast
      then show ?thesis by simp
    qed (use s in auto)
    then show "covers (gr_Selector g) s" using g s a by (auto simp: covers_def)
  next
    assume "covers (gr_Selector g) s"
    then obtain ns name where "''artifact:'' @ a @ ''/*'' = ''artifact:'' @ ns @ ''/*''" "s = ''artifact:'' @ ns @ ''/'' @ name"
      using ne g by (auto simp: covers_def)
    then show "grantMatches g s" using match by (auto simp: hasPrefix_iff)
  qed
qed

lemma grantsAction_granted:
  assumes "ValidateGrants (Some gs) = Inr ()" "validSelector s False"
  shows "grantsAction gs s action \<longleftrightarrow> granted gs s action"
  using assms grantMatches_covers
  by (auto simp: grantsAction_def granted_def list_ex_iff ValidateGrants_ok checkGrants_ok)

lemma methodAllows_list: "ac_Method a = ''capabilities.list'' \<Longrightarrow> methodAllows a \<longleftrightarrow> ac_Selector a = [] \<and> ac_Action a = []"
  by (simp add: methodAllows_def Let_def)

text \<open>
  C36. A request is authorized exactly when registration and grants are valid, the entry is enabled and is
  the current one of this registration, repository and epoch, the module speaks this host protocol, and
  either it lists its capabilities or the method is declared by the manifest, fits its selector and
  action, and a grant that covers the selector (only its own name space for a wildcard) has the action,
  for an observation both reading and observing, and the request is no custom write under a selected
  contribution policy.
\<close>

theorem Authorize_iff:
  "Authorize h r entry b a selected = Inr () \<longleftrightarrow>
     validateStored h r = Inr () \<and> ValidateGrants (ee_Grants entry) = Inr () \<and> ee_Enabled entry
     \<and> ee_RegistrationID entry = rg_RegistrationID r \<and> bd_RegistrationID b = rg_RegistrationID r
     \<and> ee_RepositoryID entry = bd_RepositoryID b \<and> ee_Epoch entry = bd_Epoch b
     \<and> validDigest (bd_RepositoryID b) \<and> ext_validHex (bd_Epoch b) 32 \<and> mf_HostProtocol (rg_Manifest r) = ''hn.extension/1''
     \<and> (if ac_Method a = ''capabilities.list'' then ac_Selector a = [] \<and> ac_Action a = []
        else ac_Method a \<in> set (elems (mf_Capabilities (rg_Manifest r))) \<and> validSelector (ac_Selector a) False \<and> methodAllows a
          \<and> granted (elems (ee_Grants entry)) (ac_Selector a) (ac_Action a)
          \<and> (hasPrefix (ac_Method a) ''changes.'' \<longrightarrow>
               granted (elems (ee_Grants entry)) (ac_Selector a) ''read'' \<and> granted (elems (ee_Grants entry)) (ac_Selector a) ''observe'')
          \<and> \<not> (selected \<and> ac_Method a \<in> {''artifact.mutate'', ''artifact.type.publish''}))"
proof (cases "validateStored h r = Inr () \<and> ValidateGrants (ee_Grants entry) = Inr ()")
  case True
  obtain gs where gs: "ee_Grants entry = Some gs" using True by (auto simp: ValidateGrants_ok)
  obtain cs where cs: "mf_Capabilities (rg_Manifest r) = Some cs" "list_all validMethod cs"
    using True validateDescriptor_ok [of h r] by (metis validateStored_ok validateStructure_ok)
  have g: "validSelector s False \<Longrightarrow> grantsAction gs s x \<longleftrightarrow> granted gs s x" for s x using grantsAction_granted True gs by simp
  have list: "validMethod ''capabilities.list''" by (simp add: validMethod_def methodVocabulary_def)
  have decl: "m \<in> set cs \<Longrightarrow> validMethod m" for m using cs(2) by (simp add: list_all_iff)
  show ?thesis
  proof (cases "ac_Method a = ''capabilities.list''")
    case cap: True
    then show ?thesis using True list methodAllows_list [OF cap] unfolding Authorize_def by auto
  next
    case False
    then show ?thesis using True g decl unfolding Authorize_def gs cs elems_simps by auto
  qed
next
  case False
  then have "Authorize h r entry b a selected \<noteq> Inr ()" unfolding Authorize_def rbind_unit_ok by blast
  with False show ?thesis by blast
qed

text \<open>
  The path of an executable is not checked to be UTF-8, and its canonical text replaces what is not: a
  registration and the one with the replaced path, another file, have the same identity and the same
  binding text, and the file keeps the replaced path.
\<close>

lemma identityText_replaced:
  "identityText (r\<lparr>rg_Executable := scalarText p\<rparr>) = identityText (r\<lparr>rg_Executable := p\<rparr>)"
  "bindingText (r\<lparr>rg_Executable := scalarText p\<rparr>) = bindingText (r\<lparr>rg_Executable := p\<rparr>)"
  "canonical (registrationJSON (r\<lparr>rg_Executable := scalarText p\<rparr>)) = canonical (registrationJSON (r\<lparr>rg_Executable := p\<rparr>))"
  by (simp_all add: identityText_def bindingText_def registrationJSON_def canonical_def scalarText_id)

end
