(* ===== verification/HN_Extension_Sample.thy ===== *)
theory HN_Extension_Sample
  imports HN_Extension_Access
begin

text \<open>
  A module, its executable, its registration and its grants, on which the properties of
  \<open>HN_Extension_Access\<close> are applied.
\<close>

definition extHost :: host where
  "extHost = \<lparr>sha256 = (\<lambda>s. take 32 (drop 2 (rev s) @ replicate 32 CHR ''0'')), ed25519Verify = (\<lambda>k m s. True), ed25519Sign = (\<lambda>k m. [])\<rparr>"

definition extOps :: fileOps where
  "extOps = \<lparr>fo_Directory = (\<lambda>_. Inr ()), fo_Open = Inr (), fo_Lock = Inr (), fo_Persist = Inr ()\<rparr>"

definition extManifest :: Manifest where
  "extManifest = \<lparr>mf_Protocol = ''hn.extension-manifest/1'', mf_ModuleID = ''acme/tracker'', mf_ModuleVersion = ''1.0'',
     mf_HostProtocol = ''hn.extension/1'', mf_Capabilities = Some [''artifact.read'', ''changes.page'']\<rparr>"

definition extCandidate :: Registration where
  "extCandidate = \<lparr>rg_RegistrationID = [], rg_RegistrationInstance = [], rg_Manifest = extManifest,
     rg_ManifestDigest = ManifestDigest extHost extManifest, rg_Executable = ''/bin/t'',
     rg_ExecutableDigest = digest extHost ''run'', rg_Argv = Some [''-v'']\<rparr>"

definition extEntropy :: "char \<Rightarrow> string" where
  "extEntropy c = replicate 16 c"

definition extInstalled :: "char \<Rightarrow> Registration" where
  "extInstalled x = (let c = extCandidate\<lparr>rg_RegistrationInstance := hexEncodeToString (extEntropy x)\<rparr> in
     c\<lparr>rg_RegistrationID := identity extHost c\<rparr>)"

definition extFiles :: fileSystem where
  "extFiles = \<lparr>fs_Abs = Some, fs_EvalSymlinks = Some, fs_Open = (\<lambda>_. Some
     \<lparr>of_Stat = Some \<lparr>fi_IsRegular = True, fi_Perm = 493, fi_Size = 3\<rparr>, of_Content = Some ''run''\<rparr>)\<rparr>"

definition extGrants :: "Grant slice" where
  "extGrants = Some [\<lparr>gr_Selector = ''artifact:acme/*'', gr_Actions = [''read'', ''observe'']\<rparr>]"

definition extRepository :: string where
  "extRepository = repositoryIdentity extHost ''/r/.git''"

definition extEntry :: EnablementEntry where
  "extEntry = \<lparr>ee_RegistrationID = rg_RegistrationID (extInstalled CHR ''x''), ee_RepositoryID = extRepository,
     ee_Epoch = hexEncodeToString (extEntropy CHR ''e''), ee_Enabled = True, ee_Grants = extGrants\<rparr>"

definition extBinding :: Binding where
  "extBinding = \<lparr>bd_RegistrationID = rg_RegistrationID (extInstalled CHR ''x''), bd_RepositoryID = extRepository,
     bd_Epoch = hexEncodeToString (extEntropy CHR ''e'')\<rparr>"

definition extAccess :: Access where
  "extAccess = \<lparr>ac_Method = ''changes.page'', ac_Selector = ''artifact:acme/note'', ac_Action = ''observe''\<rparr>"

lemma ext_facts: "fo_Open extOps = Inr ()" "fo_Directory extOps b = Inr ()" "fo_Lock extOps = Inr ()" "fo_Persist extOps = Inr ()"
  "validUtf8 (rg_Executable extCandidate)" "length (extEntropy x) = 16"
  by (simp_all add: extOps_def extEntropy_def extCandidate_def validUtf8_ascii)

lemma ext_absent: "LoadRegistry extHost extOps None = Inr emptyRegistry"
  by (simp add: LoadRegistry_def ext_facts)

lemma ext_register_ok: "is_ok (registerWithRandom extHost extOps extCandidate (Some (extEntropy CHR ''x'')) None)"
  "is_ok (registerWithRandom extHost extOps extCandidate (Some (extEntropy CHR ''y'')) None)"
  by code_simp+

lemma ext_registered:
  assumes "registerWithRandom extHost extOps extCandidate (Some (extEntropy x)) None = Inr (r, file)"
  shows "r = extInstalled x"
proof -
  have "UpdateRegistry extHost extOps (install extHost extCandidate (Some (extEntropy x))) None = Inr (r, file)"
    using assms by (auto simp: registerWithRandom_def rbind_unit_ok)
  then obtain reg where "install extHost extCandidate (Some (extEntropy x)) emptyRegistry = Inr (reg, r)"
    by (auto simp: UpdateRegistry_iff ext_absent)
  then show ?thesis
    by (cases rule: install_cases) (simp_all add: emptyRegistry_def extInstalled_def Let_def)
qed

lemma register_load_cong: "LoadRegistry h ops f = LoadRegistry h ops g \<Longrightarrow>
    registerWithRandom h ops c entropy f = registerWithRandom h ops c entropy g"
  by (simp add: registerWithRandom_def UpdateRegistry_def)

lemma distinct_singleton: "set xs = {x} \<Longrightarrow> distinct xs \<Longrightarrow> xs = [x]"
  by (cases xs) (auto simp: subset_singleton_iff)

lemma remove_only:
  assumes load: "LoadRegistry extHost extOps file = Inr ry" "registryOK extHost ry" "registered ry = [r]"
    and len: "length (canonical (registryJSON emptyRegistry)) \<le> 1048576"
  shows "Remove extHost extOps (moduleOf r) file = Inr (r, Some (canonical (registryJSON emptyRegistry)))"
    and "LoadRegistry extHost extOps (Some (canonical (registryJSON emptyRegistry))) = Inr emptyRegistry"
proof -
  have e: "ry\<lparr>ry_Registrations := Some []\<rparr> = emptyRegistry" "sortedRegistry emptyRegistry = emptyRegistry"
    using load(2) by (simp_all add: registryOK_def emptyRegistry_def sortedRegistry_def)
  show "Remove extHost extOps (moduleOf r) file = Inr (r, Some (canonical (registryJSON emptyRegistry)))"
    unfolding Remove_def UpdateRegistry_iff
    by (intro exI [of _ ry] exI [of _ emptyRegistry]) (use load e len ext_facts in \<open>simp add: emptyRegistry_def [THEN arg_cong, of registered]\<close>)
  show "LoadRegistry extHost extOps (Some (canonical (registryJSON emptyRegistry))) = Inr emptyRegistry"
    unfolding LoadRegistry_private
    by (rule registry_file.load_written [OF load(1) [unfolded LoadRegistry_private] ext_facts(1) registryOK_empty len])
qed

lemma ext_texts: "sha256 extHost (identityText (extInstalled CHR ''x'')) \<noteq> sha256 extHost (identityText (extInstalled CHR ''y''))"
  "hexEncodeToString (extEntropy CHR ''y'') \<noteq> rg_RegistrationInstance (extInstalled CHR ''x'')"
  "length (canonical (registryJSON emptyRegistry)) \<le> 1048576"
  by code_simp+

theorem Register_stored_witness:
  "\<exists>r file ry. registerWithRandom extHost extOps extCandidate (Some (extEntropy CHR ''x'')) None = Inr (r, file)
     \<and> LoadRegistry extHost extOps file = Inr ry \<and> set (registered ry) = {r} \<and> registerWithRandom extHost extOps extCandidate None file = Inr (r, file)"
proof -
  obtain r f where reg: "registerWithRandom extHost extOps extCandidate (Some (extEntropy CHR ''x'')) None = Inr (r, f)"
    using ext_register_ok(1) by (metis is_okE surj_pair)
  from Register_stored [OF reg ext_facts(5,6,1)] show ?thesis
    using reg ext_absent by (auto simp: emptyRegistry_def)
qed

theorem Remove_Register_revokes_witness:
  "\<exists>file1 file2 file3.
     registerWithRandom extHost extOps extCandidate (Some (extEntropy CHR ''x'')) None = Inr (extInstalled CHR ''x'', file1)
     \<and> Remove extHost extOps (moduleOf extCandidate) file1 = Inr (extInstalled CHR ''x'', file2)
     \<and> registerWithRandom extHost extOps extCandidate (Some (extEntropy CHR ''y'')) file2 = Inr (extInstalled CHR ''y'', file3)
     \<and> rg_RegistrationID (extInstalled CHR ''y'') \<noteq> rg_RegistrationID (extInstalled CHR ''x'')
     \<and> Authorize extHost (extInstalled CHR ''y'') extEntry extBinding extAccess False \<noteq> Inr ()"
proof -
  obtain r1 file1 where reg1: "registerWithRandom extHost extOps extCandidate (Some (extEntropy CHR ''x'')) None = Inr (r1, file1)"
    using ext_register_ok(1) by (metis is_okE surj_pair)
  have r1: "r1 = extInstalled CHR ''x''" using ext_registered [OF reg1] .
  obtain ry ry1 where l0: "LoadRegistry extHost extOps None = Inr ry" and l1: "LoadRegistry extHost extOps file1 = Inr ry1" "registryOK extHost ry1"
    "set (registered ry1) = insert r1 (set (registered ry))" "moduleOf r1 = moduleOf extCandidate"
    using register_stored [OF reg1 ext_facts(5,6,1)] by metis
  have "set (registered ry1) = {r1}" using l0 l1(3) ext_absent by (auto simp: emptyRegistry_def)
  moreover have "distinct (registered ry1)" using l1(2) by (auto simp: registryOK_registered distinct_map)
  ultimately have list1: "registered ry1 = [r1]" by (rule distinct_singleton)
  obtain file2 where rem: "Remove extHost extOps (moduleOf extCandidate) file1 = Inr (r1, file2)" "LoadRegistry extHost extOps file2 = Inr emptyRegistry"
    using remove_only [OF l1(1,2) list1 ext_texts(3)] l1(4) by simp
  have "registerWithRandom extHost extOps extCandidate (Some (extEntropy CHR ''y'')) file2 =
      registerWithRandom extHost extOps extCandidate (Some (extEntropy CHR ''y'')) None"
    by (rule register_load_cong) (simp add: rem(2) ext_absent)
  then obtain r3 file3 where reg2: "registerWithRandom extHost extOps extCandidate (Some (extEntropy CHR ''y'')) file2 = Inr (r3, file3)"
    "registerWithRandom extHost extOps extCandidate (Some (extEntropy CHR ''y'')) None = Inr (r3, file3)"
    using ext_register_ok(2) by (metis is_okE surj_pair)
  have r3: "r3 = extInstalled CHR ''y''" using ext_registered [OF reg2(2)] .
  have "r1 = r1 \<and> rg_RegistrationID r3 \<noteq> rg_RegistrationID r1
      \<and> (\<forall>entry b a sel. ee_RegistrationID entry = rg_RegistrationID r1 \<longrightarrow> Authorize extHost r3 entry b a sel \<noteq> Inr ())"
    by (rule Remove_Register_revokes [OF reg1 rem(1) reg2(1) ext_facts(5,6,6,1)]) (use ext_texts r1 r3 in simp_all)
  then show ?thesis using reg1 rem(1) reg2(1) r1 r3 by (auto simp: extEntry_def)
qed

theorem Authorize_iff_witness:
  "Authorize extHost (extInstalled CHR ''x'') extEntry extBinding extAccess False = Inr ()
     \<and> granted (elems (ee_Grants extEntry)) (ac_Selector extAccess) ''read''"
proof -
  have ok: "Authorize extHost (extInstalled CHR ''x'') extEntry extBinding extAccess False = Inr ()" by code_simp
  moreover have "ac_Method extAccess \<noteq> ''capabilities.list''" "hasPrefix (ac_Method extAccess) ''changes.''"
    by (simp_all add: extAccess_def hasPrefix_def)
  ultimately show ?thesis using Authorize_iff [of extHost "extInstalled CHR ''x''" extEntry extBinding extAccess False] by simp
qed

lemma ext_set_ok: "is_ok (setWithRandom extHost extFiles extOps extRepository (extInstalled CHR ''x'') True extGrants (Some (extEntropy CHR ''e'')) None)"
  by code_simp

theorem Set_stored_witness:
  "\<exists>entry file. setWithRandom extHost extFiles extOps extRepository (extInstalled CHR ''x'') True extGrants (Some (extEntropy CHR ''e'')) None = Inr (entry, file)
     \<and> Entry extOps extRepository (extInstalled CHR ''x'') file = Inr (Some entry)
     \<and> Entry extOps extRepository (extInstalled CHR ''y'') file = Inr None"
proof -
  obtain entry f where set: "setWithRandom extHost extFiles extOps extRepository (extInstalled CHR ''x'') True extGrants (Some (extEntropy CHR ''e'')) None = Inr (entry, f)"
    using ext_set_ok by (metis is_okE surj_pair)
  have "length (sha256 extHost t) = 32" for t by (simp add: extHost_def)
  moreover have "Entry extOps extRepository (extInstalled CHR ''y'') None = Inr None" by (simp add: Entry_def LoadEnablements_def ext_facts)
  moreover have "rg_RegistrationID (extInstalled CHR ''y'') \<noteq> rg_RegistrationID (extInstalled CHR ''x'')" by code_simp
  ultimately show ?thesis
    using Set_stored [of extHost extFiles extOps "''/r/.git''" "extInstalled CHR ''x''" True extGrants "extEntropy CHR ''e''" None entry f]
      set ext_facts by (auto simp flip: extRepository_def)
qed

end
