(* ===== verification/HN_Strict_Exact.thy ===== *)
theory HN_Strict_Exact
  imports HN_Strict_Json
begin

text \<open>
  What the strict reader accepts, exactly.  A text is read as a value when it is within the size limit
  and valid UTF-8, its surrogate escapes are paired, its tokens are the tokens of that value and
  nothing else, and the value is within the limits on nesting, integers and member names.

  The pairing of surrogates is stated on the escapes of the text alone (\<open>escapeUnits\<close>,
  \<open>surrogatesPaired\<close>), without the reader's two loops.
\<close>

section \<open>The escapes of a text\<close>

datatype textUnit = Code nat | Other

text \<open>The text from left to right: each Unicode escape is one unit, so are any other escape and any other byte.\<close>

fun escapeUnits :: "string \<Rightarrow> textUnit list" where
  "escapeUnits [] = []"
| "escapeUnits (c # cs) =
     (if c \<noteq> CHR 0x5C then Other # escapeUnits cs
      else (case cs of [] \<Rightarrow> [Other]
        | e # r \<Rightarrow> if e \<noteq> CHR ''u'' then Other # escapeUnits r
            else (case r of x0 # x1 # x2 # x3 # r1 \<Rightarrow>
                (case hexValue4 x0 x1 x2 x3 of Some n \<Rightarrow> Code n # escapeUnits r1 | None \<Rightarrow> Other # escapeUnits r)
              | _ \<Rightarrow> Other # escapeUnits r)))"

declare escapeUnits.simps(2) [simp del]

definition highSurrogate :: "textUnit \<Rightarrow> bool" where
  "highSurrogate u = (case u of Code n \<Rightarrow> 0xD800 \<le> n \<and> n \<le> 0xDBFF | Other \<Rightarrow> False)"

definition lowSurrogate :: "textUnit \<Rightarrow> bool" where
  "lowSurrogate u = (case u of Code n \<Rightarrow> 0xDC00 \<le> n \<and> n \<le> 0xDFFF | Other \<Rightarrow> False)"

text \<open>Every high surrogate is followed at once by a low one, and every low one follows a high one.\<close>

definition surrogatesPaired :: "textUnit list \<Rightarrow> bool" where
  "surrogatesPaired us \<longleftrightarrow> (\<forall>i < length us.
     (highSurrogate (us ! i) \<longrightarrow> Suc i < length us \<and> lowSurrogate (us ! Suc i)) \<and>
     (lowSurrogate (us ! i) \<longrightarrow> 0 < i \<and> highSurrogate (us ! (i - 1))))"

lemma surrogate_simps [simp]: "\<not> highSurrogate Other" "\<not> lowSurrogate Other"
  "highSurrogate (Code n) \<longleftrightarrow> 55296 \<le> n \<and> n \<le> 56319" "lowSurrogate (Code n) \<longleftrightarrow> 56320 \<le> n \<and> n \<le> 57343"
  by (simp_all add: highSurrogate_def lowSurrogate_def)

lemma surrogate_exclusive: "highSurrogate u \<Longrightarrow> \<not> lowSurrogate u"
  by (cases u) auto

lemma paired_Nil [simp]: "surrogatesPaired []"
  by (simp add: surrogatesPaired_def)

lemma paired_Cons:
  assumes "\<not> highSurrogate u" and "\<not> lowSurrogate u"
  shows "surrogatesPaired (u # us) \<longleftrightarrow> surrogatesPaired us"
proof
  assume p: "surrogatesPaired (u # us)"
  show "surrogatesPaired us" unfolding surrogatesPaired_def
  proof (intro allI impI)
    fix i assume i: "i < length us"
    have "(highSurrogate (us ! i) \<longrightarrow> Suc i < length us \<and> lowSurrogate (us ! Suc i)) \<and>
        (lowSurrogate (us ! i) \<longrightarrow> highSurrogate ((u # us) ! i))"
      using p i unfolding surrogatesPaired_def by (auto dest!: spec [of _ "Suc i"])
    then show "(highSurrogate (us ! i) \<longrightarrow> Suc i < length us \<and> lowSurrogate (us ! Suc i)) \<and>
        (lowSurrogate (us ! i) \<longrightarrow> 0 < i \<and> highSurrogate (us ! (i - 1)))"
      using assms by (cases i) auto
  qed
next
  assume p: "surrogatesPaired us"
  show "surrogatesPaired (u # us)" unfolding surrogatesPaired_def
  proof (intro allI impI)
    fix i assume i: "i < length (u # us)"
    show "(highSurrogate ((u # us) ! i) \<longrightarrow> Suc i < length (u # us) \<and> lowSurrogate ((u # us) ! Suc i)) \<and>
        (lowSurrogate ((u # us) ! i) \<longrightarrow> 0 < i \<and> highSurrogate ((u # us) ! (i - 1)))"
    proof (cases i)
      case (Suc j)
      then have "(highSurrogate (us ! j) \<longrightarrow> Suc j < length us \<and> lowSurrogate (us ! Suc j)) \<and>
          (lowSurrogate (us ! j) \<longrightarrow> 0 < j \<and> highSurrogate (us ! (j - 1)))"
        using p i unfolding surrogatesPaired_def by simp
      then show ?thesis using Suc by (cases j) auto
    qed (use assms in simp)
  qed
qed

lemma paired_low: "lowSurrogate u \<Longrightarrow> \<not> surrogatesPaired (u # us)"
  unfolding surrogatesPaired_def by (auto dest!: spec [of _ 0])

lemma paired_pair:
  assumes "highSurrogate u" and "lowSurrogate v"
  shows "surrogatesPaired (u # v # us) \<longleftrightarrow> surrogatesPaired us"
proof
  assume p: "surrogatesPaired (u # v # us)"
  show "surrogatesPaired us" unfolding surrogatesPaired_def
  proof (intro allI impI)
    fix i assume i: "i < length us"
    have "(highSurrogate (us ! i) \<longrightarrow> Suc i < length us \<and> lowSurrogate (us ! Suc i)) \<and>
        (lowSurrogate (us ! i) \<longrightarrow> highSurrogate ((v # us) ! i))"
      using p i unfolding surrogatesPaired_def by (auto dest!: spec [of _ "Suc (Suc i)"])
    then show "(highSurrogate (us ! i) \<longrightarrow> Suc i < length us \<and> lowSurrogate (us ! Suc i)) \<and>
        (lowSurrogate (us ! i) \<longrightarrow> 0 < i \<and> highSurrogate (us ! (i - 1)))"
      using assms(2) surrogate_exclusive by (cases i) auto
  qed
next
  assume p: "surrogatesPaired us"
  show "surrogatesPaired (u # v # us)" unfolding surrogatesPaired_def
  proof (intro allI impI)
    fix i assume i: "i < length (u # v # us)"
    consider "i = 0" | "i = 1" | j where "i = Suc (Suc j)" by (metis One_nat_def not0_implies_Suc)
    then show "(highSurrogate ((u # v # us) ! i) \<longrightarrow> Suc i < length (u # v # us) \<and> lowSurrogate ((u # v # us) ! Suc i)) \<and>
        (lowSurrogate ((u # v # us) ! i) \<longrightarrow> 0 < i \<and> highSurrogate ((u # v # us) ! (i - 1)))"
    proof cases
      case 3
      then have "(highSurrogate (us ! j) \<longrightarrow> Suc j < length us \<and> lowSurrogate (us ! Suc j)) \<and>
          (lowSurrogate (us ! j) \<longrightarrow> 0 < j \<and> highSurrogate (us ! (j - 1)))"
        using p i unfolding surrogatesPaired_def by simp
      then show ?thesis using 3 by (cases j) auto
    qed (use assms surrogate_exclusive in auto)
  qed
qed

lemma paired_alone:
  assumes "highSurrogate u" and "us = [] \<or> \<not> lowSurrogate (hd us)"
  shows "\<not> surrogatesPaired (u # us)"
proof
  assume "surrogatesPaired (u # us)"
  then have "0 < length us \<and> lowSurrogate (us ! 0)"
    using assms(1) unfolding surrogatesPaired_def by (auto dest!: spec [of _ 0])
  then show False using assms(2) by (auto simp: hd_conv_nth)
qed

section \<open>The reader's loops check exactly the pairing\<close>

lemma units_byte: "c \<noteq> CHR 0x5C \<Longrightarrow> surrogatesPaired (escapeUnits (c # cs)) = surrogatesPaired (escapeUnits cs)"
  by (simp add: escapeUnits.simps(2) paired_Cons)

lemma units_short: "e \<noteq> CHR ''u'' \<Longrightarrow> surrogatesPaired (escapeUnits (CHR 0x5C # e # r)) = surrogatesPaired (escapeUnits r)"
  by (simp add: escapeUnits.simps(2) paired_Cons)

lemma units_unicode: "hexValue4 a b c d = Some n \<Longrightarrow> escapeUnits (CHR 0x5C # CHR ''u'' # a # b # c # d # r) = Code n # escapeUnits r"
  by (simp add: escapeUnits.simps(2))

lemma units_low:
  assumes "escapeUnits s \<noteq> []" and "lowSurrogate (hd (escapeUnits s))"
  obtains a b c d r m where "s = CHR 0x5C # CHR ''u'' # a # b # c # d # r" "hexValue4 a b c d = Some m" "56320 \<le> m" "m \<le> 57343"
proof -
  obtain x xs where s: "s = x # xs" using assms(1) by (cases s) auto
  show ?thesis using assms(2) unfolding s
    by (auto simp: escapeUnits.simps(2) intro: that [unfolded s] split: if_split_asm list.splits option.splits)
qed

lemma skip_plain:
  assumes "CHR 0x22 \<notin> set p" and "CHR 0x5C \<notin> set p"
  shows "escapesOutside (p @ t) = escapesOutside t" "surrogatesPaired (escapeUnits (p @ t)) = surrogatesPaired (escapeUnits t)"
  using assms by (induction p) (auto simp: units_byte)

lemma escapesInside_unicode:
  assumes u: "unicodeEscape s = Some (x, r)"
    and rest: "escapesInside r = surrogatesPaired (escapeUnits r)"
  shows "escapesInside (CHR 0x5C # CHR ''u'' # s) = surrogatesPaired (escapeUnits (CHR 0x5C # CHR ''u'' # s))"
proof -
  obtain x0 x1 x2 x3 r1 n where s: "s = x0 # x1 # x2 # x3 # r1" and n: "hexValue4 x0 x1 x2 x3 = Some n"
    using u by (auto simp: unicodeEscape_def split: list.splits option.splits)
  note units = units_unicode [OF n, of r1]
  consider (low) "56320 \<le> n" "n \<le> 57343" | (pair) "55296 \<le> n" "n \<le> 56319" "lowSurrogate (hd (escapeUnits r1))" "escapeUnits r1 \<noteq> []"
    | (alone) "55296 \<le> n" "n \<le> 56319" "escapeUnits r1 = [] \<or> \<not> lowSurrogate (hd (escapeUnits r1))"
    | (plain) "\<not> (55296 \<le> n \<and> n \<le> 57343)" by linarith
  then show ?thesis
  proof cases
    case low
    then show ?thesis unfolding s units using n by (simp add: paired_low)
  next
    case plain
    then have "r = r1" using u n unfolding s by (auto simp: unicodeEscape_def)
    then show ?thesis unfolding s units using n plain rest by (auto simp: paired_Cons)
  next
    case pair
    obtain a b c d r2 m where r1: "r1 = CHR 0x5C # CHR ''u'' # a # b # c # d # r2" and m: "hexValue4 a b c d = Some m" "56320 \<le> m" "m \<le> 57343"
      using units_low [OF pair(4,3)] by blast
    have "r = r2" using u n m pair unfolding s r1 by (auto simp: unicodeEscape_def)
    then show ?thesis unfolding s units using n m pair rest by (simp add: r1 units_unicode paired_pair)
  next
    case alone
    have "\<not> escapesInside (CHR 0x5C # CHR ''u'' # s)"
    proof
      assume "escapesInside (CHR 0x5C # CHR ''u'' # s)"
      then obtain a b c d r2 m where "r1 = CHR 0x5C # CHR ''u'' # a # b # c # d # r2" "hexValue4 a b c d = Some m" "56320 \<le> m" "m \<le> 57343"
        using n alone(1,2) unfolding s by (auto split: list.splits option.splits if_split_asm)
      then show False using alone(3) by (simp add: units_unicode)
    qed
    then show ?thesis unfolding s units using paired_alone [of "Code n"] alone by simp
  qed
qed

lemma escapesInside_paired:
  "unquote s = Some (x, r) \<Longrightarrow> escapesOutside r = surrogatesPaired (escapeUnits r) \<Longrightarrow> escapesInside s = surrogatesPaired (escapeUnits s)"
proof (induction "length s" arbitrary: s x rule: less_induct)
  case less
  obtain c cs where s: "s = c # cs" using less.prems(1) by (cases s) (auto simp: unquote.simps)
  show ?case
  proof (cases "c = CHR 0x22")
    case True
    then show ?thesis using less.prems by (simp add: s unquote_quote units_byte)
  next
    case quote: False
    show ?thesis
    proof (cases "c = CHR 0x5C")
      case True
      then obtain b t where u: "unescape cs = Some (b, t)" "prepend b (unquote t) = Some (x, r)"
        using less.prems(1) s quote by (subst (asm) unquote.simps) (auto split: option.splits)
      then obtain y where "unquote t = Some (y, r)" using prepend_SomeD by blast
      then have t: "escapesInside t = surrogatesPaired (escapeUnits t)"
        using less.hyps [of t] less.prems(2) unescape_length [OF u(1)] s by simp
      obtain e es where cs: "cs = e # es" using u(1) by (cases cs) (auto simp: unescape_def)
      show ?thesis
      proof (cases "e = CHR ''u''")
        case True
        then show ?thesis using escapesInside_unicode [OF _ t] u(1) \<open>c = CHR 0x5C\<close> unfolding s cs by (simp add: unescape_def)
      next
        case False
        then show ?thesis using u(1) t \<open>c = CHR 0x5C\<close> unfolding s cs by (auto simp: unescape_def units_short)
      qed
    next
      case False
      then obtain y where "unquote cs = Some (y, r)"
        using less.prems(1) s quote by (subst (asm) unquote.simps) (auto split: if_split_asm dest!: prepend_SomeD)
      then show ?thesis using less.hyps [of cs] less.prems(2) False quote by (simp add: s units_byte)
    qed
  qed
qed

section \<open>The numbers of a text\<close>

definition numberByte :: "char \<Rightarrow> bool" where
  "numberByte c \<longleftrightarrow> decimalDigit c \<or> c \<in> set ''-+.eE''"

lemma numberByte_plain: "list_all numberByte p \<Longrightarrow> CHR 0x22 \<notin> set p \<and> CHR 0x5C \<notin> set p"
  by (auto simp: list_all_iff numberByte_def decimalDigit_def byte_def)

lemma digits_number: "list_all numberByte (takeWhile decimalDigit s)"
  by (auto simp: list_all_iff numberByte_def dest: set_takeWhileD)

lemma scanDigits_split: "scanDigits b s = Some (l, r) \<Longrightarrow> \<exists>p. l = b @ p \<and> s = p @ r \<and> list_all numberByte p"
  using digits_number [of s] by (auto simp: scanDigits_def Let_def split: if_split_asm)

lemma scanFraction_split:
  assumes "scanFraction b s = Some (l, r)"
  shows "\<exists>p. l = b @ p \<and> s = p @ r \<and> list_all numberByte p \<and> (p = [] \<or> containsAny p ''.eE+'')"
proof (cases "\<exists>t. s = CHR ''.'' # t")
  case True
  then obtain t where t: "s = CHR ''.'' # t" "scanDigits (b @ ''.'') t = Some (l, r)" using assms by (auto simp: scanFraction_def)
  then show ?thesis using scanDigits_split [OF t(2)] by (auto simp: numberByte_def containsAny_def)
next
  case False
  then show ?thesis using assms by (auto simp: scanFraction_def split: list.splits if_split_asm)
qed

lemma scanExponent_split:
  assumes "scanExponent b s = Some (l, r)"
  shows "\<exists>p. l = b @ p \<and> s = p @ r \<and> list_all numberByte p \<and> (p = [] \<or> containsAny p ''.eE+'')"
proof -
  consider "l = b" "r = s" | c t where "c = CHR ''e'' \<or> c = CHR ''E''" "s = c # t" "scanDigits (b @ [c]) t = Some (l, r)"
    | c x t where "c = CHR ''e'' \<or> c = CHR ''E''" "x = CHR ''+'' \<or> x = CHR ''-''" "s = c # x # t" "scanDigits (b @ [c, x]) t = Some (l, r)"
    using assms by (auto simp: scanExponent_def split: list.splits if_split_asm)
  then show ?thesis
  proof cases
    case (2 c t)
    then show ?thesis using scanDigits_split [OF 2(3)] by (auto simp: numberByte_def containsAny_def)
  next
    case (3 c x t)
    then show ?thesis using scanDigits_split [OF 3(4)] by (auto simp: numberByte_def containsAny_def)
  qed simp
qed

text \<open>Digits without a leading zero are the decimal text of their value.\<close>

definition plainDigits :: "string \<Rightarrow> bool" where
  "plainDigits ds \<longleftrightarrow> ds \<noteq> [] \<and> list_all decimalDigit ds \<and> (ds = ''0'' \<or> hd ds \<noteq> CHR ''0'')"

lemma zero_digit: "decimalDigit CHR ''0''" "char_of (48 :: nat) = CHR ''0''"
  by code_simp+

lemma scanInteger_split: "scanInteger s = Some (ds, r) \<Longrightarrow> s = ds @ r \<and> plainDigits ds"
  by (auto simp: scanInteger_def plainDigits_def list_all_iff zero_digit dest: set_takeWhileD split: list.splits if_split_asm)

lemma digit_value: "decimalDigit c \<Longrightarrow> char_of (48 + (byte c - 48)) = c \<and> byte c - 48 < 10"
  by (auto simp: decimalDigit_def char_of_byte)

lemma decimal_literal: "plainDigits ds \<Longrightarrow> \<exists>n. literalValue ds = int n \<and> decimal n = ds \<and> (n = 0 \<longrightarrow> ds = ''0'')"
proof (induction ds rule: rev_induct)
  case (snoc c ds)
  have c: "decimalDigit c" using snoc.prems by (simp add: plainDigits_def)
  define m where "m = byte c - 48"
  have m: "char_of (48 + m) = c" "m < 10" "int (byte c) - 48 = int m"
    using digit_value [OF c] c by (simp_all add: m_def decimalDigit_def)
  show ?case
  proof (cases "ds = []")
    case True
    then have "literalValue (ds @ [c]) = int m" using m(3) by (simp add: literalValue_def)
    moreover have "decimal m = ds @ [c]" using m True by (simp add: decimal.simps)
    moreover have "m = 0 \<Longrightarrow> ds @ [c] = ''0''" using m(1) True zero_digit(2) by simp
    ultimately show ?thesis by blast
  next
    case False
    then have "plainDigits ds" "ds \<noteq> ''0''" using snoc.prems by (auto simp: plainDigits_def)
    then obtain n where n: "literalValue ds = int n" "decimal n = ds" "n \<noteq> 0" using snoc.IH by blast
    have "literalValue (ds @ [c]) = int (10 * n + m)" using n m(3) by (simp add: literalValue_snoc)
    moreover have "decimal (10 * n + m) = ds @ [c]" using n m by (subst decimal.simps) simp
    moreover have "10 * n + m \<noteq> 0" using n(3) by simp
    ultimately show ?thesis by (intro exI [of _ "10 * n + m"]) auto
  qed
qed (simp add: plainDigits_def)

text \<open>A number token as \<open>scanNumber\<close> makes it: its text is the integer's own text when it has a value.\<close>

lemma scanNumber_split:
  assumes "scanNumber s = Some (l, r)"
  shows "s = l @ r \<and> list_all numberByte l \<and> (\<forall>v. numberValue l = Some v \<longrightarrow> (\<exists>i. v = JInt i \<and> l = encodeInt i))"
proof -
  define sign where "sign = (case s of c # _ \<Rightarrow> if c = CHR ''-'' then [c] else [] | [] \<Rightarrow> [])"
  obtain ds r1 fr r2 where int: "scanInteger (drop (length sign) s) = Some (ds, r1)"
    and frac: "scanFraction (sign @ ds) r1 = Some (fr, r2)" and expo: "scanExponent fr r2 = Some (l, r)"
    using assms by (auto simp: scanNumber_def sign_def [symmetric] Let_def bind_eq_Some_conv)
  have sign: "s = sign @ drop (length sign) s" "sign = [] \<or> sign = ''-''" by (cases s; simp add: sign_def)+
  note i = scanInteger_split [OF int]
  obtain p where p: "fr = sign @ ds @ p" "r1 = p @ r2" "list_all numberByte p" "p = [] \<or> containsAny p ''.eE+''"
    using scanFraction_split [OF frac] by auto
  obtain q where q: "l = fr @ q" "r2 = q @ r" "list_all numberByte q" "q = [] \<or> containsAny q ''.eE+''"
    using scanExponent_split [OF expo] by auto
  have "s = l @ r" using sign(1) i p(2) q(2) by (simp add: p(1) q(1))
  moreover have "list_all numberByte l"
    using sign(2) i p(3) q(3) by (auto simp: p(1) q(1) plainDigits_def list_all_iff numberByte_def)
  moreover have "\<exists>i. v = JInt i \<and> l = encodeInt i" if v: "numberValue l = Some v" for v
  proof -
    have plain: "\<not> containsAny l ''.eE+''" "l \<noteq> ''-0''" "v = JInt (parseInt l)"
      using v by (auto simp: numberValue_def Let_def split: if_split_asm)
    have "p = []" "q = []" using plain(1) p(4) q(4) by (auto simp: p(1) q(1) containsAny_def)
    then have l: "l = sign @ ds" by (simp add: p(1) q(1))
    obtain n where n: "literalValue ds = int n" "decimal n = ds" "n = 0 \<longrightarrow> ds = ''0''" using decimal_literal i by blast
    obtain c cs where ds: "ds = c # cs" "c \<noteq> CHR ''-''" using decimal_not_minus [of n] n(2) by auto
    have "encodeInt (parseInt l) = l"
      using sign(2)
    proof
      assume "sign = []"
      then show ?thesis using n l ds by (simp add: parseInt_def encodeInt_def)
    next
      assume "sign = ''-''"
      moreover from this have "n \<noteq> 0" using plain(2) l n(3) by auto
      ultimately show ?thesis using n l by (simp add: parseInt_def encodeInt_def)
    qed
    then show ?thesis using plain(3) by (intro exI [of _ "parseInt l"]) simp
  qed
  ultimately show ?thesis by blast
qed

section \<open>The tokens of a text\<close>

fun plainNumeral :: "token \<Rightarrow> bool" where
  "plainNumeral (TNum l) \<longleftrightarrow> (\<forall>v. numberValue l = Some v \<longrightarrow> (\<exists>i. v = JInt i \<and> l = encodeInt i))"
| "plainNumeral t \<longleftrightarrow> True"

text \<open>The ways in which \<open>tokens\<close> goes on after its first byte.\<close>

lemma tokens_cases:
  assumes "s \<noteq> []"
  obtains (plain) p t where "s = p @ t" "p \<noteq> []" "CHR 0x22 \<notin> set p" "CHR 0x5C \<notin> set p" "tokens s = tokens t"
  | (single) p t k where "s = p @ t" "p \<noteq> []" "CHR 0x22 \<notin> set p" "CHR 0x5C \<notin> set p" "tokens s = k # tokens t" "plainNumeral k" "k \<noteq> TErr"
  | (str) cs x t where "s = CHR 0x22 # cs" "unquote cs = Some (x, t)" "tokens s = TStr x # tokens t"
  | (err) "tokens s = [TErr]"
proof -
  obtain c cs where s: "s = c # cs" using assms by (cases s) auto
  have literal: thesis if "hasPrefix s w" "tokens s = k # tokens (drop (length w) s)" "w \<noteq> []" "CHR 0x22 \<notin> set w" "CHR 0x5C \<notin> set w"
      "plainNumeral k" "k \<noteq> TErr" for w k
    using that single [of w "drop (length w) s" k] by (metis append_take_drop_id hasPrefix_def)
  have eq: "tokens s = (if isSpace c then tokens cs
       else if c = CHR ''['' \<or> c = CHR '']'' \<or> c = CHR ''{'' \<or> c = CHR ''}'' then TDelim c # tokens cs
       else if c = CHR '','' then TComma # tokens cs
       else if c = CHR '':'' then TColon # tokens cs
       else if c = CHR 0x22 then
         (case unquote cs of None \<Rightarrow> [TErr] | Some (x, r) \<Rightarrow> TStr x # tokens r)
       else if c = CHR ''-'' \<or> decimalDigit c then
         (case scanNumber s of None \<Rightarrow> [TErr] | Some (l, r) \<Rightarrow> TNum l # tokens r)
       else if hasPrefix s ''true'' then TBool True # tokens (drop 4 s)
       else if hasPrefix s ''false'' then TBool False # tokens (drop 5 s)
       else if hasPrefix s ''null'' then TNull # tokens (drop 4 s)
       else [TErr])"
    by (subst tokens.simps) (simp only: s list.case)
  consider (1) "isSpace c" | (2) "\<not> isSpace c" "c = CHR ''['' \<or> c = CHR '']'' \<or> c = CHR ''{'' \<or> c = CHR ''}''"
    | (3) "c = CHR '',''" | (4) "c = CHR '':''" | (5) "c = CHR 0x22" | (6) "c = CHR ''-'' \<or> decimalDigit c"
    | (7) "\<not> (isSpace c \<or> c = CHR ''['' \<or> c = CHR '']'' \<or> c = CHR ''{'' \<or> c = CHR ''}'' \<or> c = CHR '','' \<or> c = CHR '':'' \<or> c = CHR 0x22
        \<or> c = CHR ''-'' \<or> decimalDigit c)" by blast
  then show thesis
  proof cases
    case 1
    then show thesis using eq by (intro plain [of "[c]" cs]) (auto simp: s isSpace_def)
  next
    case 2
    then have "tokens s = TDelim c # tokens cs" using eq by simp
    then show thesis using 2 by (intro single [of "[c]" cs]) (auto simp: s)
  next
    case 3
    then show thesis using tokens_comma by (intro single [of "[c]" cs TComma]) (auto simp: s)
  next
    case 4
    then show thesis using tokens_colon by (intro single [of "[c]" cs TColon]) (auto simp: s)
  next
    case 5
    then have q: "tokens s = (case unquote cs of None \<Rightarrow> [TErr] | Some (x, r) \<Rightarrow> TStr x # tokens r)"
      using eq by (simp add: isSpace_def)
    show thesis
    proof (cases "unquote cs")
      case None
      then show thesis using q by (intro err) simp
    next
      case (Some p)
      then show thesis using q 5 s str [of cs "fst p" "snd p"] by (simp add: case_prod_beta)
    qed
  next
    case 6
    then have q: "tokens s = (case scanNumber s of None \<Rightarrow> [TErr] | Some (l, r) \<Rightarrow> TNum l # tokens r)"
      using eq digit_class [OF 6] by simp
    show thesis
    proof (cases "scanNumber s")
      case None
      then show thesis using q by (intro err) simp
    next
      case (Some p)
      obtain l r where p: "scanNumber s = Some (l, r)" using Some by (cases p) simp
      have "l \<noteq> []" using scanNumber_split [OF p] scanNumber_length [OF p] by auto
      then show thesis using scanNumber_split [OF p] numberByte_plain [of l] q p
        by (intro single [of l r "TNum l"]) auto
    qed
  next
    case 7
    then have q: "tokens s = (if hasPrefix s ''true'' then TBool True # tokens (drop 4 s)
       else if hasPrefix s ''false'' then TBool False # tokens (drop 5 s)
       else if hasPrefix s ''null'' then TNull # tokens (drop 4 s) else [TErr])"
      using eq by simp
    show thesis
      using q literal [of "''true''" "TBool True"] literal [of "''false''" "TBool False"] literal [of "''null''" TNull] err
      by (auto simp: numeral_eq_Suc split: if_split_asm)
  qed
qed

lemma tokens_numeral: "list_all plainNumeral (tokens s)"
proof (induction "length s" arbitrary: s rule: less_induct)
  case less
  show ?case
  proof (cases "s = []")
    case False
    then show ?thesis
    proof (cases rule: tokens_cases)
      case (str cs x t)
      then show ?thesis using less.hyps [of t] unquote_length [of cs x t] by simp
    qed (use less.hyps in auto)
  qed (simp add: tokens.simps)
qed

lemma escapes_paired: "TErr \<notin> set (tokens s) \<Longrightarrow> escapesOutside s = surrogatesPaired (escapeUnits s)"
proof (induction "length s" arbitrary: s rule: less_induct)
  case less
  show ?case
  proof (cases "s = []")
    case False
    then show ?thesis
    proof (cases rule: tokens_cases)
      case (str cs x t)
      have "escapesOutside t = surrogatesPaired (escapeUnits t)"
        using less str unquote_length [of cs x t] by simp
      then show ?thesis using escapesInside_paired [OF str(2)] by (simp add: str(1) units_byte)
    qed (use less skip_plain in auto)
  qed simp
qed

section \<open>The reader consumes exactly the tokens of its value\<close>

lemma afterComma_tokens: "afterComma f ts = Some r \<Longrightarrow> ts = (if f then [] else [TComma]) @ r"
  by (auto simp: afterComma_def split: if_split_asm list.splits token.splits)

lemma readJsonValue_tokens:
  "readJsonValue d ts = Some (v, r) \<Longrightarrow> list_all plainNumeral ts \<Longrightarrow> ts = valueTokens v @ r"
  "jsonMembers d f ms ts = Some (v, r) \<Longrightarrow> list_all plainNumeral ts \<Longrightarrow>
     \<exists>ns. v = JObj (ms @ ns) \<and> ts = (if f then commaTokens (map memberTokens ns) else concat (map (Cons TComma) (map memberTokens ns))) @ TDelim CHR ''}'' # r"
  "jsonElements d f xs ts = Some (v, r) \<Longrightarrow> list_all plainNumeral ts \<Longrightarrow>
     \<exists>ys. v = JArr (xs @ ys) \<and> ts = (if f then commaTokens (map valueTokens ys) else concat (map (Cons TComma) (map valueTokens ys))) @ TDelim CHR '']'' # r"
proof (induction d ts and d f ms ts and d f xs ts arbitrary: v r and v r and v r
    rule: readJsonValue_jsonMembers_jsonElements.induct)
  case (1 d ts)
  then have d: "\<not> 32 < d" by (subst (asm) (1) readJsonValue.simps) (auto split: if_split_asm)
  with 1(3) obtain t ts' where ts: "ts = t # ts'" by (subst (asm) readJsonValue.simps) (auto split: list.splits)
  show ?case
  proof (cases t)
    case (TDelim c)
    consider "c = CHR ''{''" "jsonMembers d True [] ts' = Some (v, r)"
      | "c = CHR ''[''" "jsonElements d True [] ts' = Some (v, r)"
      using 1(3) ts TDelim by (subst (asm) readJsonValue.simps) (auto split: if_split_asm)
    then show ?thesis
      using 1(1) [OF d ts TDelim] 1(2) [OF d ts TDelim] 1(4) ts TDelim by cases auto
  next
    case (TNum l)
    then have "numberValue l = Some v" "r = ts'"
      using 1(3) ts d by (subst (asm) readJsonValue.simps, auto)+
    then show ?thesis using 1(4) ts TNum by auto
  qed (use 1(3,4) ts d in \<open>subst (asm) readJsonValue.simps; auto\<close>)+
next
  case (2 d f ms ts)
  show ?case
  proof (cases "more ts")
    case True
    with 2(3) obtain name r1 v1 r2 where s: "afterComma f ts = Some (TStr name # TColon # r1)" "name \<notin> set (map fst ms)"
      "readJsonValue (Suc d) r1 = Some (v1, r2)" "length r2 < length ts" "jsonMembers d False (ms @ [(name, v1)]) r2 = Some (v, r)"
      by (subst (asm) jsonMembers.simps) (auto split: option.splits list.splits token.splits if_split_asm)
    have "list_all plainNumeral r1" using afterComma_text [OF 2(4) s(1)] by simp
    then have r1: "r1 = valueTokens v1 @ r2" using 2(1) [OF True s(1) refl refl refl refl s(2,3)] by blast
    then obtain ns where ns: "v = JObj ((ms @ [(name, v1)]) @ ns)" "r2 = concat (map (Cons TComma) (map memberTokens ns)) @ TDelim CHR ''}'' # r"
      using 2(2) [OF True s(1) refl refl refl refl s(2,3) refl s(4,5)] \<open>list_all plainNumeral r1\<close> by auto
    have "ts = (if f then [] else [TComma]) @ TStr name # TColon # r1" using afterComma_tokens [OF s(1)] .
    then show ?thesis using ns r1 by (intro exI [of _ "(name, v1) # ns"]) (simp add: commaTokens_def)
  next
    case False
    with 2(3) have "ts = TDelim CHR ''}'' # r" "v = JObj ms"
      by (subst (asm) jsonMembers.simps, auto split: list.splits token.splits if_split_asm)+
    then show ?thesis by (intro exI [of _ "[]"]) (simp add: commaTokens_def)
  qed
next
  case (3 d f xs ts)
  show ?case
  proof (cases "more ts")
    case True
    with 3(3) obtain r1 v1 r2 where s: "afterComma f ts = Some r1"
      "readJsonValue (Suc d) r1 = Some (v1, r2)" "length r2 < length ts" "jsonElements d False (xs @ [v1]) r2 = Some (v, r)"
      by (subst (asm) jsonElements.simps) (auto split: option.splits if_split_asm)
    have "list_all plainNumeral r1" using afterComma_text [OF 3(4) s(1)] by simp
    then have r1: "r1 = valueTokens v1 @ r2" using 3(1) [OF True s(1,2)] by blast
    then obtain ys where ys: "v = JArr ((xs @ [v1]) @ ys)" "r2 = concat (map (Cons TComma) (map valueTokens ys)) @ TDelim CHR '']'' # r"
      using 3(2) [OF True s(1,2) refl s(3,4)] \<open>list_all plainNumeral r1\<close> by auto
    have "ts = (if f then [] else [TComma]) @ r1" using afterComma_tokens [OF s(1)] .
    then show ?thesis using ys r1 by (intro exI [of _ "v1 # ys"]) (simp add: commaTokens_def)
  next
    case False
    with 3(3) have "ts = TDelim CHR '']'' # r" "v = JArr xs"
      by (subst (asm) jsonElements.simps, auto split: list.splits token.splits if_split_asm)+
    then show ?thesis by (intro exI [of _ "[]"]) (simp add: commaTokens_def)
  qed
qed

lemma commaTokens_set: "t \<in> set (commaTokens xs) \<Longrightarrow> t = TComma \<or> (\<exists>x \<in> set xs. t \<in> set x)"
  by (auto simp: commaTokens_def split: list.splits if_split_asm)

lemma valueTokens_valid: "TErr \<notin> set (valueTokens v)"
  by (induction v) (auto dest!: commaTokens_set)

lemma readJsonValue_all: "readJsonValue 0 (tokens data) = Some (v, []) \<longleftrightarrow> tokens data = valueTokens v \<and> withinLimits 0 v"
  using readJsonValue_tokens(1) [OF _ tokens_numeral, of 0 data v "[]"] readJsonValue_sound(1) [of 0 "tokens data" v "[]"]
    readJsonValue_value [of 0 v "[]"] by auto

lemma strictJSON_eq: "strictJSON data limit = Inr v \<longleftrightarrow>
    length data \<le> limit \<and> validUtf8 data \<and> validEscapes data \<and> readJsonValue 0 (tokens data) = Some (v, [])"
  by (auto simp: strictJSON_def split: option.splits if_split_asm)

text \<open>
  C40. The strict reader accepts a text and returns a value exactly when the text is within its size limit,
  is valid UTF-8, pairs every surrogate escape (each high surrogate is followed at once by a low one and
  each low one follows a high one), consists of the tokens of that value with nothing before, between or
  after them but white space, and the value has at most 32 levels of nesting, integers of at most 53 bits
  and no repeated member name.
\<close>

theorem strictJSON_exact:
  "strictJSON data limit = Inr v \<longleftrightarrow>
     length data \<le> limit \<and> validUtf8 data \<and> surrogatesPaired (escapeUnits data) \<and> tokens data = valueTokens v \<and> withinLimits 0 v"
proof -
  have "tokens data = valueTokens v \<Longrightarrow> validEscapes data = surrogatesPaired (escapeUnits data)"
    unfolding validEscapes_def using escapes_paired [of data] valueTokens_valid by simp
  then show ?thesis unfolding strictJSON_eq readJsonValue_all by blast
qed

end
