(* ===== verification/Spec2Isabelle.thy ===== *)
theory Spec2Isabelle
  imports
    HN_Lineage
    HN_Content
    HN_Issue_Views
    HN_View_Sample
    HN_Merge_Sample
    HN_Memory
    HN_Extension_Sample
    HN_Strict_Exact
begin

text \<open>
  A verification of the core of hubnot (\<open>hn\<close>), a collaboration forge whose whole state is a set of signed
  facts in a Git repository.

  \<^bold>\<open>The program.\<close>  An actor appends facts (\<open>src/event.go\<close>) to a hash chain of its own (\<open>src/store.go\<close>): proposals,
  reviews, decisions, merges, runs and their results, issues, typed resources, audits.  Every command reads the
  facts, checks the chains and each fact's content, and projects them: proposals to a lineage index
  (\<open>src/lineage.go\<close>), issues to a catalog with heads and a relation graph (\<open>src/issue_projection.go\<close>), reviews and
  results to the latest per actor.  Contributions from outside arrive as separate signed records
  (\<open>src/internal/contribution/record.go\<close>); a policy and an accounting ledger bound what is taken in (\<open>policy.go\<close>), and \<open>Reduce\<close>
  (\<open>model.go\<close>) decides which native facts are admitted and visible.  The policy document of a repository (\<open>src/policy.go\<close>)
  says whose reviews, runs and decisions count for a proposal; what it counts is signed into decisions and merges, and gates
  the automatic merge (\<open>src/automerge.go\<close>).  Beside the facts, actors keep streams of signed memories about the code
  (\<open>src/memory_event.go\<close>), projected to rows with a lifecycle (\<open>src/memory_projection.go\<close>).  Extension modules
  (\<open>src/internal/extension\<close>) are registered in a private file, granted actions per repository in another, and each of their
  requests is authorized against both.

  \<^bold>\<open>Conventions\<close> (\<open>HN_Prelude\<close>).  A Go string or byte slice is a \<^typ>\<open>string\<close>; a slice that may be nil is an
  option of a list; a map is an association list; \<open>int64\<close> is \<open>64 word\<close> read by \<open>sint\<close>; a function that returns an error
  returns a \<open>result\<close>, with the format and the arguments of the error; a nil dereference is the outcome \<open>Panic\<close>, which is no error value.  Code that is
  not in the repository is a parameter: \<open>host\<close> has SHA-256 and Ed25519, \<open>codec\<close> the JSON decoders and the URL and time parsers,
  \<open>adapters\<close> the native and authority sources of a reduction, \<open>repository\<close>, \<open>checkout\<close> and
  \<open>memoryResolver\<close> what is read of Git, \<open>fileOps\<close> and \<open>fileSystem\<close> what the operating system answers about the files of extensions, \<open>memoryCodec\<close> the memory decoder and Unicode lower case.  What a theorem needs of them is a hypothesis of it,
  and its witness gives a concrete instance.  \<open>json.Marshal\<close> is written out (\<open>HN_Json\<close>), and so is base64.

  \<^bold>\<open>The theories.\<close>
  \<^item> \<open>HN_Event\<close>, \<open>HN_Content\<close>: the record of a fact, the validation of its content kind by kind, and
    signing and verification (\<open>event.go\<close>, \<open>identity.go\<close>, \<open>audit_protocol.go\<close>, \<open>run_withdrawal.go\<close>).  What is signed
    verifies as the same fact exactly when the decoders read it back; payload fields occur only on facts of their kind.
  \<^item> \<open>HN_Store\<close>: chains, the position of a new fact, the signing prefix (\<open>store.go\<close>).  The validator accepts
    exactly the consecutive linked chains, in any read order, and appending keeps them.
  \<^item> \<open>HN_Selection\<close>: the latest fact per actor (\<open>proposal.go\<close>, \<open>ci.go\<close>, \<open>runner.go\<close>), by the locale \<open>latest_index\<close>.
  \<^item> \<open>HN_Forest\<close>, \<open>HN_Lineage\<close>: forests by a predecessor function, and the lineage index over them, by the
    locale \<open>revision_index\<close>: when it is built, its roots, closures and state flags, and the guard on terminal operations.
  \<^item> \<open>HN_Issue_Model\<close>: issue states, canonical form, request digest, validation (\<open>issue_model.go\<close>).
  \<^item> \<open>HN_Path\<close>, \<open>HN_Resource_Model\<close>: lexical paths, pipelines and the five resource families
    (\<open>ci.go\<close>, \<open>resource_model.go\<close>).
  \<^item> \<open>HN_Topo\<close>, \<open>HN_Scc\<close>, \<open>HN_Issue_Catalog\<close>, \<open>HN_Issue_Views\<close>: the ordering loop, the component search, and the
    issue catalog on top of them (locale \<open>ordered_history\<close>): it is built exactly on valid acyclic histories, never
    panics, does not depend on read order, and its heads and cycles are what their names say.
  \<^item> \<open>HN_Contribution\<close>: contribution records, their canonical text, \<open>Sign\<close> and \<open>Verify\<close> (\<open>record.go\<close>).
  \<^item> \<open>HN_Ledger\<close>: permissions and the intake ledger (\<open>policy.go\<close>).  The 64-bit reservation refines a
    specification over unbounded integers; as a step relation (locale \<open>journal\<close>) it never overspends a window or the project.  Content is
    let through by an explicit rule or, without a policy, by the legacy permission.
  \<^item> \<open>HN_Reduce\<close>: every phase of \<open>Reduce\<close>, and \<open>IntakeEvidence\<close> (\<open>model.go\<close>).  \<open>HN_Admission\<close> has the invariants of
    the phases and the correctness of the search \<open>admit\<close>; \<open>HN_View\<close> the provenance of admitted facts and that
    every input within the budget is answered; \<open>HN_Visibility\<close> visibility as a greatest fixed point, the heads of
    the view, and the evidence for intake; \<open>HN_View_Sample\<close> two concrete reductions.
  \<^item> \<open>HN_Governance\<close>: the policy document and its validation, the evaluation of a proposal, the validation of decision and
    merge facts, the reasons to skip a run and the inspection before an automatic merge (\<open>policy.go\<close>, \<open>protected_checks.go\<close>, \<open>automerge.go\<close>,
    \<open>runner_eligibility.go\<close>).  \<open>HN_Merge\<close>: quorums count distinct actors, a decision on a ready evaluation and a merge of an
    accepted proposal pass the validators, valid policies have attainable quorums, protected paths match by
    components, and the exact conditions of the automatic merge; \<open>HN_Merge_Sample\<close> a repository where all of it happens.
  \<^item> \<open>HN_Memory\<close>: signed memories and their projection (\<open>memory_event.go\<close>, \<open>memory_projection.go\<close>).  What is signed verifies; the projection
    depends only on the set of memories; a lifecycle is decided by what the author did to the record and by whether the memory it succeeds
    is there, so that nobody else can suppress a record; and the exact conditions under which a record applies.
  \<^item> \<open>HN_Utf8\<close>, \<open>HN_Strict_Json\<close>, \<open>HN_Strict_Exact\<close>: UTF-8, and the strict JSON reader of extension files from their bytes
    (\<open>manifest.go\<close>).  What the program marshals is read back; and the exact texts that are read as a value: within the size limit, valid
    UTF-8, surrogate escapes paired, the tokens of the value and nothing else, the value within the limits.
  \<^item> \<open>HN_Extension\<close>: manifests, registrations, the registry and enablement files, grants and authorization (\<open>manifest.go\<close>,
    \<open>registration.go\<close>, \<open>grants.go\<close>).  \<open>HN_Extension_Files\<close>: both files are instances of the locale \<open>private_file\<close>, so each loads
    after a change with exactly the change.  \<open>HN_Extension_Access\<close>: registering is idempotent, removing and disabling revoke, and the
    exact conditions of an authorized request; \<open>HN_Extension_Sample\<close> a module on which they are applied.

  \<^bold>\<open>Recursion and bounds.\<close>  No function has fuel.  Loops that are not structural have a termination proof; where the
  program bounds a recursion by a depth from the policy (\<open>getFact\<close>, \<open>decisionValid\<close>, \<open>admit\<close>), so does the definition, and the
  correctness of \<open>admit\<close> shows that the bound never cuts an admissible fact off, because fetched facts are no deeper.

  \<^bold>\<open>Not modelled.\<close>  Git plumbing, files, locks, processes and networks (\<open>git.go\<close>, \<open>backend.go\<close>, replication, quarantine, shallow
  storage, artifacts, extension processes, the forge clients and migrations), which have no behaviour apart from these
  effects that a pure definition could state; the ref transaction of a merge; the command line; and, of pure code, the
  resource engines.  Random map iteration is modelled by insertion order where the program sorts
  its result afterwards.
\<close>

end
